(* ===== verification/Faro_Prelude.thy ===== *)
theory Faro_Prelude
  imports Main "HOL-Library.AList" "HOL-Library.Sublist" "HOL-Library.List_Lexorder"
    "HOL-Library.Char_ord"
begin

text \<open>
  Shared vocabulary of the development: results with errors, Go maps as association lists, and the
  list and map facts the component theories use.

  A Go function that returns a value and an error is a function into \<open>'e + 'a\<close>, where \<open>Inl\<close> carries
  the error of the component. A Go map whose keys are iterated, counted or sorted is an association
  list with distinct keys (\<open>('k, 'v) gomap\<close>); its reading is \<^const>\<open>map_of\<close>.
\<close>

section \<open>Collections of facts\<close>

named_theorems ok_iff \<open>when a fallible step succeeds\<close>

named_theorems err_iff \<open>when a fallible step fails\<close>

named_theorems keeps \<open>what an operation leaves unchanged\<close>

section \<open>Results\<close>

definition rbind :: "'e + 'a \<Rightarrow> ('a \<Rightarrow> 'e + 'b) \<Rightarrow> 'e + 'b" where
  "rbind m f = (case m of Inl e \<Rightarrow> Inl e | Inr x \<Rightarrow> f x)"

definition guard_err :: "bool \<Rightarrow> 'e \<Rightarrow> 'e + unit" where
  "guard_err ok e = (if ok then Inr () else Inl e)"

definition of_option :: "'e \<Rightarrow> 'a option \<Rightarrow> 'e + 'a" where
  "of_option e m = (case m of None \<Rightarrow> Inl e | Some x \<Rightarrow> Inr x)"

fun rmap :: "('a \<Rightarrow> 'e + 'b) \<Rightarrow> 'a list \<Rightarrow> 'e + 'b list" where
  "rmap f [] = Inr []"
| "rmap f (x # xs) = rbind (f x) (\<lambda>y. rbind (rmap f xs) (\<lambda>ys. Inr (y # ys)))"

definition is_ok :: "'e + 'a \<Rightarrow> bool" where
  "is_ok r = (case r of Inl _ \<Rightarrow> False | Inr _ \<Rightarrow> True)"

lemma rbind_simps [simp]:
  "rbind (Inl e) f = Inl e"
  "rbind (Inr x) f = f x"
  by (simp_all add: rbind_def)

lemma is_ok_simps [simp]:
  "is_ok (Inl e) = False"
  "is_ok (Inr x) = True"
  by (simp_all add: is_ok_def)

lemma is_ok_iff: "is_ok r \<longleftrightarrow> (\<exists>x. r = Inr x)"
  by (cases r) simp_all

lemma rbind_eq_Inr [ok_iff]: "rbind m f = Inr y \<longleftrightarrow> (\<exists>x. m = Inr x \<and> f x = Inr y)"
  by (cases m) simp_all

lemma rbind_eq_Inl [err_iff]:
  "rbind m f = Inl e \<longleftrightarrow> m = Inl e \<or> (\<exists>x. m = Inr x \<and> f x = Inl e)"
  by (cases m) simp_all

lemma guard_err_simps [simp]:
  "guard_err True e = Inr ()"
  "guard_err False e = Inl e"
  by (simp_all add: guard_err_def)

lemma guard_err_eq_Inr [ok_iff]: "guard_err b e = Inr u \<longleftrightarrow> b"
  by (simp add: guard_err_def)

lemma guard_err_eq_Inl [err_iff]: "guard_err b e = Inl e' \<longleftrightarrow> \<not> b \<and> e = e'"
  by (simp add: guard_err_def)

lemma of_option_simps [simp]:
  "of_option e None = Inl e"
  "of_option e (Some x) = Inr x"
  by (simp_all add: of_option_def)

lemma of_option_eq_Inr [ok_iff]: "of_option e m = Inr x \<longleftrightarrow> m = Some x"
  by (cases m) simp_all

lemma of_option_eq_Inl [err_iff]: "of_option e m = Inl e' \<longleftrightarrow> m = None \<and> e = e'"
  by (cases m) auto

lemma rmap_eq_Inr:
  "rmap f xs = Inr ys \<longleftrightarrow> list_all2 (\<lambda>x y. f x = Inr y) xs ys"
  by (induction xs arbitrary: ys) (auto simp: ok_iff list_all2_Cons1)

lemma rmap_in_result:
  assumes "rmap f xs = Inr ys" "y \<in> set ys"
  shows "\<exists>x \<in> set xs. f x = Inr y"
  using assms by (induction xs arbitrary: ys) (auto simp: ok_iff)

lemma rmap_in_source:
  assumes "rmap f xs = Inr ys" "x \<in> set xs"
  shows "\<exists>y \<in> set ys. f x = Inr y"
  using assms by (induction xs arbitrary: ys) (auto simp: ok_iff)

lemma rmap_length: "rmap f xs = Inr ys \<Longrightarrow> length ys = length xs"
  by (induction xs arbitrary: ys) (auto simp: ok_iff)

lemma rmap_identity: "\<forall>x \<in> set xs. f x = Inr x \<Longrightarrow> rmap f xs = Inr xs"
  by (induction xs) auto

section \<open>Go maps as association lists\<close>

type_synonym ('k, 'v) gomap = "('k \<times> 'v) list"

abbreviation gm_get :: "('k, 'v) gomap \<Rightarrow> 'k \<Rightarrow> 'v option" where
  "gm_get m k \<equiv> map_of m k"

abbreviation gm_put :: "'k \<Rightarrow> 'v \<Rightarrow> ('k, 'v) gomap \<Rightarrow> ('k, 'v) gomap" where
  "gm_put k v m \<equiv> AList.update k v m"

abbreviation gm_del :: "'k \<Rightarrow> ('k, 'v) gomap \<Rightarrow> ('k, 'v) gomap" where
  "gm_del k m \<equiv> AList.delete k m"

abbreviation gm_keys :: "('k, 'v) gomap \<Rightarrow> 'k list" where
  "gm_keys m \<equiv> map fst m"

definition gm_wf :: "('k, 'v) gomap \<Rightarrow> bool" where
  "gm_wf m = distinct (gm_keys m)"

lemma gm_get_put [simp]: "gm_get (gm_put k v m) = (gm_get m)(k \<mapsto> v)"
  by (simp add: update_conv' fun_eq_iff)

lemma gm_get_del [simp]: "gm_get (gm_del k m) = (gm_get m)(k := None)"
  by (simp add: delete_conv' fun_eq_iff)

lemma gm_wf_Nil [simp]: "gm_wf []"
  by (simp add: gm_wf_def)

lemma gm_wf_put [simp]: "gm_wf m \<Longrightarrow> gm_wf (gm_put k v m)"
  by (simp add: gm_wf_def distinct_update)

lemma gm_wf_del [simp]: "gm_wf m \<Longrightarrow> gm_wf (gm_del k m)"
  by (simp add: gm_wf_def distinct_delete)

lemma gm_wf_filter [simp]: "gm_wf m \<Longrightarrow> gm_wf (filter P m)"
  by (auto simp: gm_wf_def intro: distinct_map_filter)

lemma gm_keys_get: "k \<in> set (gm_keys m) \<longleftrightarrow> gm_get m k \<noteq> None"
  by (simp add: map_of_eq_None_iff)

lemma gm_length_put_new: "k \<notin> set (gm_keys m) \<Longrightarrow> length (gm_put k v m) = Suc (length m)"
  by (induction m) auto

lemma gm_length_put_old: "k \<in> set (gm_keys m) \<Longrightarrow> length (gm_put k v m) = length m"
  by (induction m) auto

lemma gm_length_put:
  "length (gm_put k v m) = (if gm_get m k = None then Suc (length m) else length m)"
  using gm_length_put_new [of k m v] gm_length_put_old [of k m v] gm_keys_get [of k m] by auto

lemma gm_length_del_le: "length (gm_del k m) \<le> length m"
  by (simp add: AList.delete_eq)

lemma gm_get_filter:
  assumes "gm_wf m"
  shows "gm_get (filter (\<lambda>(k, v). P k v) m) k
    = (case gm_get m k of None \<Rightarrow> None | Some v \<Rightarrow> if P k v then Some v else None)"
  using assms by (induction m) (auto simp: gm_wf_def map_of_eq_None_iff split: option.splits)

section \<open>Lists\<close>

definition sort_uniq :: "'a::linorder list \<Rightarrow> 'a list" where
  "sort_uniq xs = sort (remdups xs)"

lemma set_sort_uniq [simp]: "set (sort_uniq xs) = set xs"
  by (simp add: sort_uniq_def)

lemma sorted_sort_uniq [simp]: "sorted (sort_uniq xs)"
  by (simp add: sort_uniq_def)

lemma distinct_sort_uniq [simp]: "distinct (sort_uniq xs)"
  by (simp add: sort_uniq_def)

lemma sort_uniq_cong: "set xs = set ys \<Longrightarrow> sort_uniq xs = sort_uniq ys"
  by (metis distinct_sort_uniq set_sort_uniq sorted_distinct_set_unique sorted_sort_uniq)

lemma sort_uniq_id: "sorted xs \<Longrightarrow> distinct xs \<Longrightarrow> sort_uniq xs = xs"
  by (simp add: sort_uniq_def distinct_remdups_id sorted_sort_id)

lemma find_Some_filter: "List.find P xs = Some x \<Longrightarrow> \<exists>ys. filter P xs = x # ys"
  by (induction xs) (auto split: if_splits)

lemma find_None_filter: "List.find P xs = None \<longleftrightarrow> filter P xs = []"
  by (auto simp: find_None_iff filter_empty_conv)

lemma find_append: "List.find P (xs @ ys) = (case List.find P xs of None \<Rightarrow> List.find P ys | Some x \<Rightarrow> Some x)"
  by (induction xs) auto

lemma find_Some_in: "List.find P xs = Some x \<Longrightarrow> x \<in> set xs \<and> P x"
  by (induction xs) (auto split: if_splits)

end
