(* ===== verification/Go_Strings.thy ===== *)
theory Go_Strings
  imports Faro_Prelude
begin

text \<open>
  The part of Go's \<^verbatim>\<open>strings\<close>, \<^verbatim>\<open>strconv\<close> and \<^verbatim>\<open>sort\<close> packages that Faro calls.

  A Go string is a sequence of bytes, here a \<^typ>\<open>string\<close> whose characters are the bytes. White space is
  Unicode white space in its UTF-8 encoding (\<open>go_spaces\<close>), so trimming and splitting into fields agree
  with Go on every byte string. Case mapping acts on ASCII letters and on the two runes that Unicode
  maps into ASCII (U+0130 to i, U+212A to k; U+017F to s when case is folded); every other byte outside ASCII is left as it is, and no
  caller tells those results apart: each of them either rejects bytes outside ASCII or compares with
  an ASCII constant.
\<close>

section \<open>Bytes\<close>

abbreviation byte_of :: "char \<Rightarrow> nat" where
  "byte_of c \<equiv> of_char c"

definition is_digit :: "char \<Rightarrow> bool" where
  "is_digit c = (48 \<le> byte_of c \<and> byte_of c \<le> 57)"

definition is_lower :: "char \<Rightarrow> bool" where
  "is_lower c = (97 \<le> byte_of c \<and> byte_of c \<le> 122)"

definition is_upper :: "char \<Rightarrow> bool" where
  "is_upper c = (65 \<le> byte_of c \<and> byte_of c \<le> 90)"

definition lower_char :: "char \<Rightarrow> char" where
  "lower_char c = (if is_upper c then char_of (byte_of c + 32) else c)"

definition upper_char :: "char \<Rightarrow> char" where
  "upper_char c = (if is_lower c then char_of (byte_of c - 32) else c)"

abbreviation newline :: char where
  "newline \<equiv> CHR 0x0A"

abbreviation tab :: char where
  "tab \<equiv> CHR 0x09"

abbreviation dquote :: char where
  "dquote \<equiv> CHR 0x22"

section \<open>White space\<close>

definition go_spaces :: "string list" where
  "go_spaces = [[CHR 0x20], [CHR 0x09], [CHR 0x0A], [CHR 0x0B], [CHR 0x0C], [CHR 0x0D],
     [CHR 0xC2, CHR 0x85], [CHR 0xC2, CHR 0xA0], [CHR 0xE1, CHR 0x9A, CHR 0x80],
     [CHR 0xE2, CHR 0x80, CHR 0x80], [CHR 0xE2, CHR 0x80, CHR 0x81], [CHR 0xE2, CHR 0x80, CHR 0x82],
     [CHR 0xE2, CHR 0x80, CHR 0x83], [CHR 0xE2, CHR 0x80, CHR 0x84], [CHR 0xE2, CHR 0x80, CHR 0x85],
     [CHR 0xE2, CHR 0x80, CHR 0x86], [CHR 0xE2, CHR 0x80, CHR 0x87], [CHR 0xE2, CHR 0x80, CHR 0x88],
     [CHR 0xE2, CHR 0x80, CHR 0x89], [CHR 0xE2, CHR 0x80, CHR 0x8A], [CHR 0xE2, CHR 0x80, CHR 0xA8],
     [CHR 0xE2, CHR 0x80, CHR 0xA9], [CHR 0xE2, CHR 0x80, CHR 0xAF], [CHR 0xE2, CHR 0x81, CHR 0x9F],
     [CHR 0xE3, CHR 0x80, CHR 0x80]]"

definition lead_space :: "string list \<Rightarrow> string \<Rightarrow> nat" where
  "lead_space ws s = (case List.find (\<lambda>w. prefix w s) ws of None \<Rightarrow> 0 | Some w \<Rightarrow> length w)"

function strip :: "string list \<Rightarrow> string \<Rightarrow> string" where
  "strip ws s = (if lead_space ws s = 0 then s else strip ws (drop (lead_space ws s) s))"
  by pat_completeness auto
termination
proof (relation "measure (\<lambda>(ws, s). length s)", goal_cases)
  case 1
  show ?case by simp
next
  case (2 ws s)
  then obtain w where "List.find (\<lambda>w. prefix w s) ws = Some w" "w \<noteq> []"
    by (auto simp: lead_space_def split: option.splits)
  then have "prefix w s" "w \<noteq> []"
    by (auto simp: find_Some_iff)
  then have "s \<noteq> []"
    by auto
  with 2 show ?case by simp
qed

declare strip.simps [simp del]

definition trim_left :: "string \<Rightarrow> string" where
  "trim_left s = strip go_spaces s"

definition trim_right :: "string \<Rightarrow> string" where
  "trim_right s = rev (strip (map rev go_spaces) (rev s))"

definition trim_space :: "string \<Rightarrow> string" where
  "trim_space s = trim_right (trim_left s)"

lemma strip_length: "length (strip ws s) \<le> length s"
proof (induction ws s rule: strip.induct)
  case (1 ws s)
  then show ?case
    by (cases "lead_space ws s = 0") (auto simp: strip.simps [of ws s])
qed

fun take_word :: "string \<Rightarrow> string" where
  "take_word [] = []"
| "take_word (c # cs) = (if lead_space go_spaces (c # cs) \<noteq> 0 then [] else c # take_word cs)"

function go_fields :: "string \<Rightarrow> string list" where
  "go_fields s = (if take_word (trim_left s) = [] then []
     else take_word (trim_left s) # go_fields (drop (length (take_word (trim_left s))) (trim_left s)))"
  by pat_completeness auto
termination
proof (relation "measure length", goal_cases)
  case 1
  show ?case by simp
next
  case (2 s)
  have "length (trim_left s) \<le> length s"
    by (simp add: trim_left_def strip_length)
  moreover from 2 have "length (trim_left s) > 0"
    by (cases "trim_left s") auto
  moreover from 2 have "length (take_word (trim_left s)) > 0"
    by simp
  ultimately show ?case
    by (simp del: length_greater_0_conv)
qed

declare go_fields.simps [simp del]

section \<open>Prefixes, suffixes, cutting and joining\<close>

definition trim_prefix :: "string \<Rightarrow> string \<Rightarrow> string" where
  "trim_prefix p s = (if prefix p s then drop (length p) s else s)"

definition trim_suffix :: "string \<Rightarrow> string \<Rightarrow> string" where
  "trim_suffix p s = (if suffix p s then take (length s - length p) s else s)"

definition cut_prefix :: "string \<Rightarrow> string \<Rightarrow> string option" where
  "cut_prefix p s = (if prefix p s then Some (drop (length p) s) else None)"

text \<open>\<open>strings.Trim\<close> with a cut set of single bytes.\<close>

definition trim_chars :: "char list \<Rightarrow> string \<Rightarrow> string" where
  "trim_chars cs s = rev (dropWhile (\<lambda>c. c \<in> set cs) (rev (dropWhile (\<lambda>c. c \<in> set cs) s)))"

fun index_of :: "string \<Rightarrow> string \<Rightarrow> nat option" where
  "index_of p [] = (if p = [] then Some 0 else None)"
| "index_of p (c # cs) = (if prefix p (c # cs) then Some 0 else map_option Suc (index_of p cs))"

definition cut :: "string \<Rightarrow> string \<Rightarrow> (string \<times> string) option" where
  "cut sep s = map_option (\<lambda>i. (take i s, drop (i + length sep) s)) (index_of sep s)"

fun split_on :: "char \<Rightarrow> string \<Rightarrow> string list" where
  "split_on sep [] = [[]]"
| "split_on sep (c # cs) =
     (if c = sep then [] # split_on sep cs
      else (case split_on sep cs of [] \<Rightarrow> [[c]] | p # ps \<Rightarrow> (c # p) # ps))"

fun join :: "string \<Rightarrow> string list \<Rightarrow> string" where
  "join sep [] = []"
| "join sep [p] = p"
| "join sep (p # q # ps) = p @ sep @ join sep (q # ps)"

function replace_all :: "string \<Rightarrow> string \<Rightarrow> string \<Rightarrow> string" where
  "replace_all old new [] = []"
| "replace_all old new (c # cs) =
     (if old \<noteq> [] \<and> prefix old (c # cs)
      then new @ replace_all old new (drop (length old) (c # cs))
      else c # replace_all old new cs)"
  by pat_completeness auto
termination
  by (relation "measure (\<lambda>(old, new, s). length s)") auto

section \<open>Case\<close>

fun map_runes :: "(string \<times> char) list \<Rightarrow> string \<Rightarrow> string" where
  "map_runes tbl [] = []"
| "map_runes tbl (c # cs) =
     (case List.find (\<lambda>(w, d). prefix w (c # cs)) tbl of
        Some (w, d) \<Rightarrow> d # map_runes tbl (drop (length w - 1) cs)
      | None \<Rightarrow> lower_char c # map_runes tbl cs)"

definition to_lower :: "string \<Rightarrow> string" where
  "to_lower s = map_runes [([CHR 0xC4, CHR 0xB0], CHR ''i''), ([CHR 0xE2, CHR 0x84, CHR 0xAA], CHR ''k'')] s"

definition fold_case :: "string \<Rightarrow> string" where
  "fold_case s = map_runes [([CHR 0xC5, CHR 0xBF], CHR ''s''), ([CHR 0xE2, CHR 0x84, CHR 0xAA], CHR ''k'')] s"

definition to_upper :: "string \<Rightarrow> string" where
  "to_upper s = map upper_char s"

definition equal_fold :: "string \<Rightarrow> string \<Rightarrow> bool" where
  "equal_fold s t = (fold_case s = fold_case t)"

section \<open>Decimal integers\<close>

definition digit_value :: "char \<Rightarrow> nat" where
  "digit_value c = byte_of c - 48"

definition digits_value :: "string \<Rightarrow> nat" where
  "digits_value s = foldl (\<lambda>n c. 10 * n + digit_value c) 0 s"

text \<open>\<open>strconv.Atoi\<close> on a 64-bit platform: \<^const>\<open>None\<close> is a syntax or a range error.\<close>

definition atoi :: "string \<Rightarrow> int option" where
  "atoi s =
     (let neg = prefix ''-'' s; ds = (if prefix ''-'' s \<or> prefix ''+'' s then drop 1 s else s) in
      if ds = [] \<or> \<not> list_all is_digit ds then None
      else if neg then (if int (digits_value ds) \<le> 2 ^ 63 then Some (- int (digits_value ds)) else None)
      else (if int (digits_value ds) < 2 ^ 63 then Some (int (digits_value ds)) else None))"

definition digit_char :: "nat \<Rightarrow> char" where
  "digit_char n = char_of (48 + n)"

fun nat_to_string :: "nat \<Rightarrow> string" where
  "nat_to_string n = (if n < 10 then [digit_char n] else nat_to_string (n div 10) @ [digit_char (n mod 10)])"

declare nat_to_string.simps [simp del]

definition itoa :: "int \<Rightarrow> string" where
  "itoa i = (if i < 0 then ''-'' @ nat_to_string (nat (- i)) else nat_to_string (nat i))"

definition bool_text :: "bool \<Rightarrow> string" where
  "bool_text b = (if b then ''true'' else ''false'')"

section \<open>Lines of a text\<close>

text \<open>
  \<^verbatim>\<open>bufio.Scanner\<close> with \<^verbatim>\<open>ScanLines\<close>: the lines of a text without their ends and without a carriage return before
  the end; an empty rest after the last line break is not a line. A line that does not fit into the buffer
  is an error.
\<close>

definition carriage_return :: char where
  "carriage_return = CHR 0x0D"

definition drop_cr :: "string \<Rightarrow> string" where
  "drop_cr l = (if l \<noteq> [] \<and> last l = carriage_return then butlast l else l)"

definition raw_lines :: "string \<Rightarrow> string list" where
  "raw_lines text = (let parts = split_on newline text in if last parts = [] then butlast parts else parts)"

definition scan_lines :: "nat \<Rightarrow> string \<Rightarrow> string list option" where
  "scan_lines buffer text =
     (if list_ex (\<lambda>l. length l \<ge> buffer) (raw_lines text) then None else Some (map drop_cr (raw_lines text)))"

section \<open>Facts about trimming\<close>

lemma lead_space_0_iff:
  assumes "[] \<notin> set ws"
  shows "lead_space ws s = 0 \<longleftrightarrow> (\<forall>w \<in> set ws. \<not> prefix w s)"
proof (cases "List.find (\<lambda>w. prefix w s) ws")
  case None
  then have "\<forall>w \<in> set ws. \<not> prefix w s"
    by (auto simp: find_None_iff)
  with None show ?thesis
    by (simp add: lead_space_def)
next
  case (Some w)
  then have "w \<in> set ws" "prefix w s"
    by (auto simp: find_Some_iff)
  with Some assms show ?thesis
    by (auto simp: lead_space_def)
qed

lemma strip_id: "lead_space ws s = 0 \<Longrightarrow> strip ws s = s"
  by (simp add: strip.simps)

lemma strip_lead: "lead_space ws (strip ws s) = 0"
proof (induction ws s rule: strip.induct)
  case (1 ws s)
  then show ?case
    by (cases "lead_space ws s = 0") (auto simp: strip.simps [of ws s])
qed

lemma strip_suffix: "suffix (strip ws s) s"
proof (induction ws s rule: strip.induct)
  case (1 ws s)
  then show ?case
    by (cases "lead_space ws s = 0")
      (auto simp: strip.simps [of ws s] intro: suffix_order.trans [OF _ suffix_drop])
qed

lemma go_spaces_nonempty [simp]: "[] \<notin> set go_spaces"
  by (simp add: go_spaces_def)

lemma lead_space_rev_0_iff:
  "lead_space (map rev go_spaces) s = 0 \<longleftrightarrow> (\<forall>w \<in> set go_spaces. \<not> prefix (rev w) s)"
proof -
  have "[] \<notin> set (map rev go_spaces)"
    by (simp add: go_spaces_def)
  then show ?thesis
    by (subst lead_space_0_iff) auto
qed

definition space_free :: "string \<Rightarrow> bool" where
  "space_free s = ((\<forall>w \<in> set go_spaces. \<not> prefix w s) \<and> (\<forall>w \<in> set go_spaces. \<not> suffix w s))"

lemma trim_left_id: "\<forall>w \<in> set go_spaces. \<not> prefix w s \<Longrightarrow> trim_left s = s"
  by (simp add: trim_left_def strip_id lead_space_0_iff)

lemma trim_right_id: "\<forall>w \<in> set go_spaces. \<not> suffix w s \<Longrightarrow> trim_right s = s"
  by (simp add: trim_right_def strip_id lead_space_rev_0_iff suffix_to_prefix)

lemma trim_space_id: "space_free s \<Longrightarrow> trim_space s = s"
  by (simp add: trim_space_def space_free_def trim_left_id trim_right_id)

lemma trim_left_no_lead: "w \<in> set go_spaces \<Longrightarrow> \<not> prefix w (trim_left s)"
  using strip_lead [of go_spaces s] by (auto simp: trim_left_def lead_space_0_iff)

lemma trim_right_no_trail: "w \<in> set go_spaces \<Longrightarrow> \<not> suffix w (trim_right s)"
  using strip_lead [of "map rev go_spaces" "rev s"]
  by (auto simp: trim_right_def lead_space_rev_0_iff suffix_to_prefix)

lemma trim_right_prefix: "prefix (trim_right s) s"
  using strip_suffix [of "map rev go_spaces" "rev s"] by (simp add: trim_right_def suffix_to_prefix)

lemma trim_left_suffix: "suffix (trim_left s) s"
  by (simp add: trim_left_def strip_suffix)

lemma space_free_trim_space [simp]: "space_free (trim_space s)"
proof -
  have "\<not> prefix w (trim_right (trim_left s))" if "w \<in> set go_spaces" for w
    using trim_right_prefix [of "trim_left s"] trim_left_no_lead [OF that, of s]
    by (meson prefix_order.trans)
  then show ?thesis
    by (simp add: space_free_def trim_space_def trim_right_no_trail)
qed

lemma trim_space_idem [simp]: "trim_space (trim_space s) = trim_space s"
  by (simp add: trim_space_id)

lemma set_trim_space: "set (trim_space s) \<subseteq> set s"
  using set_mono_prefix [OF trim_right_prefix, of "trim_left s"] set_mono_suffix [OF trim_left_suffix, of s]
  by (auto simp: trim_space_def)

lemma trim_space_length: "length (trim_space s) \<le> length s"
  using prefix_length_le [OF trim_right_prefix, of "trim_left s"]
    suffix_length_le [OF trim_left_suffix, of s]
  by (simp add: trim_space_def)

text \<open>Strings over bytes that occur in no white-space encoding are not touched by trimming.\<close>

definition space_bytes :: "char set" where
  "space_bytes = {c. byte_of c \<in> {32::nat, 9, 10, 11, 12, 13, 194, 133, 160, 225, 154, 128, 226, 129,
     130, 131, 132, 134, 135, 136, 137, 138, 168, 169, 175, 159, 227}}"

lemma go_spaces_bytes: "w \<in> set go_spaces \<Longrightarrow> set w \<subseteq> space_bytes"
  by (auto simp: go_spaces_def space_bytes_def)

lemma space_free_bytes:
  assumes "set s \<inter> space_bytes = {}"
  shows "space_free s"
proof -
  have "\<not> prefix w s" "\<not> suffix w s" if w: "w \<in> set go_spaces" for w
  proof -
    from w have "w \<noteq> []" "set w \<subseteq> space_bytes"
      using go_spaces_nonempty go_spaces_bytes by auto
    then have "\<not> set w \<subseteq> set s"
      using assms by (cases w) auto
    then show "\<not> prefix w s" "\<not> suffix w s"
      by (auto dest: set_mono_prefix set_mono_suffix)
  qed
  then show ?thesis
    by (simp add: space_free_def)
qed

lemma trim_space_bytes: "set s \<inter> space_bytes = {} \<Longrightarrow> trim_space s = s"
  by (simp add: trim_space_id space_free_bytes)

section \<open>Facts about splitting and joining\<close>

lemma split_on_nonempty [simp]: "split_on c s \<noteq> []"
  by (induction s) (auto split: list.splits)

lemma join_Cons: "ps \<noteq> [] \<Longrightarrow> join sep (p # ps) = p @ sep @ join sep ps"
  by (cases ps) auto

lemma join_split_on [simp]: "join [c] (split_on c s) = s"
proof (induction s)
  case Nil
  show ?case by simp
next
  case (Cons x s)
  show ?case
  proof (cases "x = c")
    case True
    with Cons show ?thesis by (simp add: join_Cons)
  next
    case False
    obtain p ps where ps: "split_on c s = p # ps"
      by (cases "split_on c s") auto
    with Cons.IH have "join [c] (p # ps) = s" by simp
    with ps False show ?thesis
      by (cases ps) (auto simp: join_Cons)
  qed
qed

lemma split_on_parts: "p \<in> set (split_on c s) \<Longrightarrow> c \<notin> set p \<and> set p \<subseteq> set s"
proof (induction s arbitrary: p)
  case Nil
  then show ?case by simp
next
  case (Cons x s)
  show ?case
  proof (cases "x = c")
    case True
    with Cons show ?thesis by auto
  next
    case False
    obtain q qs where "split_on c s = q # qs"
      by (cases "split_on c s") auto
    with False Cons show ?thesis by fastforce
  qed
qed

lemma split_on_free: "c \<notin> set s \<Longrightarrow> split_on c s = [s]"
  by (induction s) auto

lemma split_on_append: "split_on c (s @ c # t) = split_on c s @ split_on c t"
proof (induction s)
  case Nil
  show ?case by simp
next
  case (Cons x s)
  then show ?case
    by (cases "split_on c s") auto
qed

lemma split_on_join:
  assumes "ps \<noteq> []" "\<forall>p \<in> set ps. c \<notin> set p"
  shows "split_on c (join [c] ps) = ps"
  using assms
proof (induction ps)
  case Nil
  then show ?case by simp
next
  case (Cons p ps)
  show ?case
  proof (cases "ps = []")
    case True
    with Cons.prems show ?thesis by (simp add: split_on_free)
  next
    case False
    with Cons.prems Cons.IH have "split_on c (join [c] ps) = ps" by simp
    with False Cons.prems show ?thesis
      by (simp add: join_Cons split_on_append split_on_free)
  qed
qed

lemma set_join: "set (join sep ps) \<subseteq> set sep \<union> \<Union> (set ` set ps)"
  by (induction sep ps rule: join.induct) auto

lemma concat_split_on: "set s \<subseteq> insert c (\<Union> (set ` set (split_on c s)))"
  using set_join [of "[c]" "split_on c s"] by auto

lemma length_join_ge: "p \<in> set ps \<Longrightarrow> length p \<le> length (join sep ps)"
  by (induction sep ps rule: join.induct) auto

lemma split_on_part_length: "p \<in> set (split_on c s) \<Longrightarrow> length p \<le> length s"
  using length_join_ge [of p "split_on c s" "[c]"] by simp

section \<open>Facts about searching\<close>

lemma index_of_None: "index_of p s = None \<longleftrightarrow> \<not> sublist p s"
  by (induction s) (auto simp: sublist_Cons_right)

lemma index_of_Some:
  "index_of p s = Some i \<Longrightarrow> i + length p \<le> length s \<and> take (length p) (drop i s) = p"
proof (induction s arbitrary: i)
  case (Cons a s)
  then show ?case
    by (auto simp: prefix_def split: if_splits dest: arg_cong [where f = length])
qed (auto split: if_splits)

lemma index_of_char:
  "index_of [c] s = Some i \<Longrightarrow> i < length s \<and> s ! i = c \<and> c \<notin> set (take i s)"
  by (induction s arbitrary: i) (auto split: if_splits)

lemma trim_suffix_prefix: "prefix (trim_suffix p s) s"
  by (auto simp: trim_suffix_def take_is_prefix)

lemma trim_suffix_append [simp]: "trim_suffix p (s @ p) = s"
  by (simp add: trim_suffix_def suffix_def)

lemma trim_suffix_id: "\<not> suffix p s \<Longrightarrow> trim_suffix p s = s"
  by (simp add: trim_suffix_def)

section \<open>Facts about case\<close>

lemma map_runes_lower:
  assumes "\<forall>c \<in> set s. byte_of c < (128::nat) \<and> \<not> is_upper c" "\<forall>(w, d) \<in> set tbl. w \<noteq> [] \<and> byte_of (hd w) \<ge> (128::nat)"
  shows "map_runes tbl s = s"
  using assms
proof (induction s)
  case Nil
  then show ?case by simp
next
  case (Cons c cs)
  have "\<not> prefix w (c # cs)" if "(w, d) \<in> set tbl" for w d
    using Cons.prems that by (cases w) fastforce+
  then have "List.find (\<lambda>(w, d). prefix w (c # cs)) tbl = None"
    by (auto simp: find_None_iff)
  with Cons show ?case
    by (simp add: lower_char_def)
qed

lemma to_lower_id: "\<forall>c \<in> set s. byte_of c < (128::nat) \<and> \<not> is_upper c \<Longrightarrow> to_lower s = s"
  unfolding to_lower_def by (rule map_runes_lower) auto

section \<open>Facts about decimal integers\<close>

lemma byte_of_digit_char [simp]: "n < 10 \<Longrightarrow> byte_of (digit_char n) = 48 + n"
  by (simp add: digit_char_def)

lemma is_digit_digit_char [simp]: "n < 10 \<Longrightarrow> is_digit (digit_char n)"
  by (simp add: is_digit_def)

lemma digit_value_digit_char [simp]: "n < 10 \<Longrightarrow> digit_value (digit_char n) = n"
  by (simp add: digit_value_def)

lemma digits_value_snoc: "digits_value (s @ [c]) = 10 * digits_value s + digit_value c"
  by (simp add: digits_value_def)

lemma nat_to_string_nonempty [simp]: "nat_to_string n \<noteq> []"
  by (subst nat_to_string.simps) simp

lemma nat_to_string_digits: "list_all is_digit (nat_to_string n)"
proof (induction n rule: nat_to_string.induct)
  case (1 n)
  then show ?case
    by (cases "n < 10") (simp_all add: nat_to_string.simps [of n])
qed

lemma digits_value_nat_to_string: "digits_value (nat_to_string n) = n"
proof (induction n rule: nat_to_string.induct)
  case (1 n)
  then show ?case
    by (cases "n < 10") (simp_all add: nat_to_string.simps [of n] digits_value_snoc digits_value_def)
qed

lemma not_digit_sign: "\<not> is_digit (CHR ''-'')" "\<not> is_digit (CHR ''+'')"
  by (simp_all add: is_digit_def)

lemma digits_no_sign: "list_all is_digit s \<Longrightarrow> \<not> prefix ''-'' s \<and> \<not> prefix ''+'' s"
  by (cases s) (auto simp: not_digit_sign)

lemma atoi_itoa:
  assumes "- (2 ^ 63) \<le> i" "i < 2 ^ 63"
  shows "atoi (itoa i) = Some i"
proof (cases "i < 0")
  case True
  with assms(1) have "nat (- i) \<le> 2 ^ 63" by simp
  with True show ?thesis
    by (simp add: atoi_def itoa_def nat_to_string_digits digits_value_nat_to_string)
next
  case False
  have "nat i < 2 ^ 63"
    using assms(2) by (simp add: nat_less_iff)
  with False show ?thesis
    using digits_no_sign [OF nat_to_string_digits [of "nat i"]]
    by (simp add: atoi_def itoa_def nat_to_string_digits digits_value_nat_to_string)
qed

lemma atoi_range: "atoi s = Some i \<Longrightarrow> - (2 ^ 63) \<le> i \<and> i < 2 ^ 63"
  by (auto simp: atoi_def Let_def split: if_splits)

lemma itoa_chars: "0 \<le> i \<Longrightarrow> list_all is_digit (itoa i) \<and> itoa i \<noteq> []"
  by (simp add: itoa_def nat_to_string_digits)

lemma itoa_inject: "0 \<le> i \<Longrightarrow> 0 \<le> j \<Longrightarrow> itoa i = itoa j \<longleftrightarrow> i = j"
  by (metis digits_value_nat_to_string itoa_def linorder_not_less nat_0_le)

section \<open>Lines of a configuration file\<close>

lemma strip_removes: "\<exists>r. s = r @ strip ws s \<and> set r \<subseteq> \<Union> (set ` set ws)"
proof (induction ws s rule: strip.induct)
  case (1 ws s)
  show ?case
  proof (cases "lead_space ws s = 0")
    case True
    then show ?thesis
      by (simp add: strip_id)
  next
    case False
    then obtain w where w: "List.find (\<lambda>w. prefix w s) ws = Some w" "lead_space ws s = length w"
      by (auto simp: lead_space_def split: option.splits)
    then have "w \<in> set ws" "prefix w s"
      by (auto simp: find_Some_iff)
    moreover obtain r where "drop (length w) s = r @ strip ws s" "set r \<subseteq> \<Union> (set ` set ws)"
      using "1.IH" [OF False] False w(2) by (auto simp: strip.simps [of ws s])
    ultimately have "s = (w @ r) @ strip ws s" "set (w @ r) \<subseteq> \<Union> (set ` set ws)"
      by (auto simp: prefix_def)
    then show ?thesis
      by blast
  qed
qed

lemma trim_right_removes: "\<exists>r. s = trim_right s @ r \<and> set r \<subseteq> space_bytes"
proof -
  obtain r where r: "rev s = r @ strip (map rev go_spaces) (rev s)"
    "set r \<subseteq> \<Union> (set ` set (map rev go_spaces))"
    using strip_removes by blast
  then have "s = trim_right s @ rev r"
    unfolding trim_right_def by (metis rev_append rev_rev_ident)
  moreover have "set (rev r) \<subseteq> space_bytes"
    using r(2) go_spaces_bytes by auto
  ultimately show ?thesis
    by blast
qed

lemma lead_space_plain: "c \<notin> space_bytes \<Longrightarrow> lead_space go_spaces (c # cs) = 0"
proof -
  assume c: "c \<notin> space_bytes"
  have "\<not> prefix w (c # cs)" if "w \<in> set go_spaces" for w
  proof
    assume "prefix w (c # cs)"
    moreover have "w \<noteq> []"
      using that go_spaces_nonempty by blast
    ultimately have "c \<in> set w"
      by (cases w) auto
    with c go_spaces_bytes [OF that] show False
      by blast
  qed
  then show ?thesis
    by (subst lead_space_0_iff) simp_all
qed

lemma lead_space_blank: "c \<in> {CHR '' '', tab} \<Longrightarrow> lead_space go_spaces (c # cs) = 1"
  unfolding lead_space_def go_spaces_def by (elim insertE emptyE) simp_all

lemma trim_left_blanks: "set b \<subseteq> {CHR '' '', tab} \<Longrightarrow> trim_left (b @ s) = trim_left s"
proof (induction b)
  case (Cons c b)
  then have "lead_space go_spaces (c # b @ s) = 1"
    by (intro lead_space_blank) auto
  then have "trim_left ((c # b) @ s) = trim_left (b @ s)"
    by (simp add: trim_left_def strip.simps [of _ "c # b @ s"])
  with Cons show ?case
    by simp
qed simp

lemma trim_left_word: "w \<noteq> [] \<Longrightarrow> hd w \<notin> space_bytes \<Longrightarrow> trim_left (w @ s) = w @ s"
  unfolding trim_left_def by (cases w) (auto intro: strip_id lead_space_plain)

lemma trim_space_line:
  assumes "set b \<subseteq> {CHR '' '', tab}" "w \<noteq> []" "set w \<inter> space_bytes = {}"
  obtains r where "trim_space (b @ w @ s) = w @ r" "prefix r s"
proof -
  have "hd w \<notin> space_bytes"
    using assms(2,3) by (cases w) auto
  then have t: "trim_space (b @ w @ s) = trim_right (w @ s)"
    using assms by (simp add: trim_space_def trim_left_blanks trim_left_word)
  obtain q where q: "w @ s = trim_right (w @ s) @ q" "set q \<subseteq> space_bytes"
    using trim_right_removes by blast
  then consider us where "trim_right (w @ s) = w @ us" "us @ q = s"
    | us where "trim_right (w @ s) @ us = w" "q = us @ s"
    unfolding append_eq_append_conv2 by metis
  then show ?thesis
  proof cases
    case 1
    then show ?thesis
      using that t by auto
  next
    case 2
    have "set us \<subseteq> space_bytes"
      using q(2) 2(2) by simp
    moreover have "set us \<subseteq> set w"
      using arg_cong [OF 2(1), of set] by auto
    ultimately have "us = []"
      using assms(3) by (cases us) auto
    then show ?thesis
      using that [of "[]"] t 2 by simp
  qed
qed

lemma take_word_append:
  assumes "set w \<inter> space_bytes = {}" "s = [] \<or> hd s \<in> {CHR '' '', tab}"
  shows "take_word (w @ s) = w"
  using assms
proof (induction w)
  case Nil
  then show ?case
    by (cases s) (auto simp: lead_space_blank)
next
  case (Cons c w)
  then show ?case
    by (simp add: lead_space_plain)
qed

lemma go_fields_word:
  assumes "set b \<subseteq> {CHR '' '', tab}" "w \<noteq> []" "set w \<inter> space_bytes = {}" "s = [] \<or> hd s \<in> {CHR '' '', tab}"
  shows "go_fields (b @ w @ s) = w # go_fields s"
proof -
  have "hd w \<notin> space_bytes"
    using assms(2,3) by (cases w) auto
  then show ?thesis
    using assms by (simp add: go_fields.simps [of "b @ w @ s"] trim_left_blanks trim_left_word take_word_append)
qed

lemma go_fields_Nil: "go_fields [] = []"
  by code_simp

text \<open>The first field of a line is the word it starts with.\<close>

lemma go_fields_line:
  assumes "set b \<subseteq> {CHR '' '', tab}" "w \<noteq> []" "set w \<inter> space_bytes = {}" "s = [] \<or> hd s \<in> {CHR '' '', tab}"
  shows "\<exists>r. go_fields (trim_space (b @ w @ s)) = w # go_fields r \<and> prefix r s"
proof -
  obtain r where r: "trim_space (b @ w @ s) = w @ r" "prefix r s"
    using trim_space_line [OF assms(1-3)] .
  then have "r = [] \<or> hd r \<in> {CHR '' '', tab}"
    using assms(4) by (cases s; cases r) auto
  then show ?thesis
    using r go_fields_word [of "[]" w r] assms(2,3) by auto
qed

lemma trim_right_last:
  assumes "c \<notin> space_bytes"
  shows "trim_right (s @ [c]) = s @ [c]"
proof -
  obtain r where r: "s @ [c] = trim_right (s @ [c]) @ r" "set r \<subseteq> space_bytes"
    using trim_right_removes by blast
  have "r = []"
  proof (rule ccontr)
    assume "r \<noteq> []"
    then have "last r = c"
      by (metis last_appendR last_snoc r(1))
    with \<open>r \<noteq> []\<close> r(2) assms show False
      by (metis last_in_set subsetD)
  qed
  with r(1) show ?thesis
    by simp
qed

end
