(* ===== verification/Go_Net.thy ===== *)
theory Go_Net
  imports Go_Strings
begin

text \<open>
  The part of Go's \<^verbatim>\<open>net\<close> and \<^verbatim>\<open>net/netip\<close> packages that Faro calls: \<^verbatim>\<open>ParseIP\<close>, \<^verbatim>\<open>IP.To4\<close>, \<^verbatim>\<open>IP.String\<close>,
  \<^verbatim>\<open>ParseCIDR\<close>, \<^verbatim>\<open>SplitHostPort\<close> and \<^verbatim>\<open>JoinHostPort\<close>.

  The 16 bytes of a \<^verbatim>\<open>net.IP\<close> are eight big-endian 16-bit groups. The main fact is that printing an
  address and parsing it back gives the address, for dotted quads and for compressed IPv6 alike; the
  canonicalisation of stored addresses and local DNS records rests on it.
\<close>

type_synonym ip = "nat list"

definition ip_wf :: "ip \<Rightarrow> bool" where
  "ip_wf ip = (length ip = 8 \<and> list_all (\<lambda>g. g < 65536) ip)"

section \<open>Parsing\<close>

definition parse_octet :: "string \<Rightarrow> nat option" where
  "parse_octet p =
     (if p = [] \<or> \<not> list_all is_digit p \<or> (length p > 1 \<and> hd p = CHR ''0'') \<or> digits_value p > 255
      then None else Some (digits_value p))"

fun parse_v4 :: "string \<Rightarrow> (nat \<times> nat) option" where
  "parse_v4 s =
     (case map parse_octet (split_on (CHR ''.'') s) of
        [Some a, Some b, Some c, Some d] \<Rightarrow> Some (256 * a + b, 256 * c + d)
      | _ \<Rightarrow> None)"

definition is_hex :: "char \<Rightarrow> bool" where
  "is_hex c = (is_digit c \<or> 97 \<le> byte_of c \<and> byte_of c \<le> 102 \<or> 65 \<le> byte_of c \<and> byte_of c \<le> 70)"

definition hex_digit_value :: "char \<Rightarrow> nat" where
  "hex_digit_value c =
     (if is_digit c then byte_of c - 48 else if 97 \<le> byte_of c then byte_of c - 87 else byte_of c - 55)"

definition hex_value :: "string \<Rightarrow> nat" where
  "hex_value s = foldl (\<lambda>n c. 16 * n + hex_digit_value c) 0 s"

text \<open>
  The loop of \<^verbatim>\<open>netip.parseIPv6\<close>: the groups read so far, the position of the ellipsis, and the rest of
  the input.
\<close>

function v6_loop :: "nat list \<Rightarrow> nat option \<Rightarrow> string \<Rightarrow> (nat list \<times> nat option \<times> string) option" where
  "v6_loop gs ell s =
     (if length gs \<ge> 8 then Some (gs, ell, s)
      else
        let h = takeWhile is_hex s; rest = dropWhile is_hex s; gs' = gs @ [hex_value h] in
        if h = [] \<or> length h > 4 then None
        else if prefix ''.'' rest then
          (if ell = None \<and> length gs \<noteq> 6 \<or> length gs + 2 > 8 then None
           else (case parse_v4 s of None \<Rightarrow> None | Some (u, v) \<Rightarrow> Some (gs @ [u, v], ell, [])))
        else if rest = [] then Some (gs', ell, [])
        else if \<not> prefix '':'' rest \<or> tl rest = [] then None
        else if prefix '':'' (tl rest) then
          (if ell \<noteq> None then None
           else if tl (tl rest) = [] then Some (gs', Some (length gs'), [])
           else v6_loop gs' (Some (length gs')) (tl (tl rest)))
        else v6_loop gs' ell (tl rest))"
  by pat_completeness auto
termination
  by (relation "measure (\<lambda>(gs, ell, s). 8 - length gs)") auto

declare v6_loop.simps [simp del]

definition v6_finish :: "(nat list \<times> nat option \<times> string) \<Rightarrow> ip option" where
  "v6_finish r = (case r of (gs, ell, s) \<Rightarrow>
     if s \<noteq> [] then None
     else if length gs < 8 then
       (case ell of None \<Rightarrow> None
        | Some e \<Rightarrow> Some (take e gs @ replicate (8 - length gs) 0 @ drop e gs))
     else if ell \<noteq> None then None else Some gs)"

definition parse_v6 :: "string \<Rightarrow> ip option" where
  "parse_v6 s =
     (if CHR ''%'' \<in> set s then None
      else if prefix ''::'' s then
        (if drop 2 s = [] then Some (replicate 8 0)
         else Option.bind (v6_loop [] (Some 0) (drop 2 s)) v6_finish)
      else Option.bind (v6_loop [] None s) v6_finish)"

definition v4_in_v6 :: "nat \<times> nat \<Rightarrow> ip" where
  "v4_in_v6 p = [0, 0, 0, 0, 0, 65535, fst p, snd p]"

definition addr_kind :: "string \<Rightarrow> char option" where
  "addr_kind s = List.find (\<lambda>c. c \<in> {CHR ''.'', CHR '':'', CHR ''%''}) s"

definition parse_ip :: "string \<Rightarrow> ip option" where
  "parse_ip s =
     (if addr_kind s = Some (CHR ''.'') then map_option v4_in_v6 (parse_v4 s)
      else if addr_kind s = Some (CHR '':'') then parse_v6 s
      else None)"

definition to4 :: "ip \<Rightarrow> (nat \<times> nat) option" where
  "to4 ip = (if take 6 ip = [0, 0, 0, 0, 0, 65535] then Some (ip ! 6, ip ! 7) else None)"

text \<open>\<open>net.ParseCIDR\<close>: the address and the prefix length; the bit length depends on the spelling.\<close>

definition cidr_bits :: "string \<Rightarrow> nat option" where
  "cidr_bits m = (if m = [] \<or> \<not> list_all is_digit m \<or> digits_value m \<ge> 16777215 then None
     else Some (digits_value m))"

definition parse_cidr :: "string \<Rightarrow> (ip \<times> nat) option" where
  "parse_cidr s = (case cut ''/'' s of
     None \<Rightarrow> None
   | Some (addr, len) \<Rightarrow> (case (parse_ip addr, cidr_bits len) of
       (Some ip, Some n) \<Rightarrow>
         (if n \<le> (if addr_kind addr = Some (CHR ''.'') then 32 else 128) then Some (ip, n) else None)
     | _ \<Rightarrow> None))"

section \<open>Printing\<close>

definition v4_string :: "nat \<times> nat \<Rightarrow> string" where
  "v4_string p = join ''.'' (map nat_to_string
     [fst p div 256, fst p mod 256, snd p div 256, snd p mod 256])"

definition hex_char :: "nat \<Rightarrow> char" where
  "hex_char n = (if n < 10 then char_of (48 + n) else char_of (87 + n))"

fun nat_to_hex :: "nat \<Rightarrow> string" where
  "nat_to_hex n = (if n < 16 then [hex_char n] else nat_to_hex (n div 16) @ [hex_char (n mod 16)])"

declare nat_to_hex.simps [simp del]

definition zero_run :: "nat list \<Rightarrow> nat" where
  "zero_run gs = length (takeWhile (\<lambda>g. g = 0) gs)"

text \<open>The first of the longest runs of at least two zero groups: its start and its length.\<close>

fun best_run :: "nat \<Rightarrow> nat \<times> nat \<Rightarrow> nat list \<Rightarrow> nat \<times> nat" where
  "best_run i best [] = best"
| "best_run i best (g # gs) =
     best_run (Suc i)
       (if zero_run (g # gs) \<ge> 2 \<and> zero_run (g # gs) > snd best then (i, zero_run (g # gs)) else best) gs"

definition hex_groups :: "nat list \<Rightarrow> string" where
  "hex_groups gs = join '':'' (map nat_to_hex gs)"

definition v6_string :: "ip \<Rightarrow> string" where
  "v6_string ip = (case best_run 0 (0, 0) ip of (i, n) \<Rightarrow>
     if n = 0 then hex_groups ip
     else hex_groups (take i ip) @ ''::'' @ hex_groups (drop (i + n) ip))"

definition ip_string :: "ip \<Rightarrow> string" where
  "ip_string ip = (case to4 ip of Some p \<Rightarrow> v4_string p | None \<Rightarrow> v6_string ip)"

text \<open>
  \<^verbatim>\<open>IPNet.String\<close> of the network of \<^verbatim>\<open>ParseCIDR\<close>: the first \<open>m\<close> of the 128 bits and the prefix length, which counts from
  the 32-bit part when the network is one of IPv4.
\<close>

definition mask_ip :: "nat \<Rightarrow> ip \<Rightarrow> ip" where
  "mask_ip m ip = map (\<lambda>(i, g). let cleared = 16 - min 16 (m - 16 * i) in g div 2 ^ cleared * 2 ^ cleared) (enumerate 0 ip)"

definition network_string :: "nat \<Rightarrow> ip \<Rightarrow> string" where
  "network_string m ip = (let network = mask_ip m ip in
     ip_string network @ ''/'' @ nat_to_string (if to4 network \<noteq> None then m - 96 else m))"

definition cidr_network :: "string \<Rightarrow> string option" where
  "cidr_network s = map_option (\<lambda>(ip, n). network_string (if addr_kind s = Some (CHR ''.'') then 96 + n else n) ip) (parse_cidr s)"

text \<open>\<^verbatim>\<open>IsLoopback\<close>, \<^verbatim>\<open>IsUnspecified\<close> and \<^verbatim>\<open>IsMulticast\<close> of \<^verbatim>\<open>net.IP\<close>.\<close>

definition is_loopback :: "ip \<Rightarrow> bool" where
  "is_loopback ip = (case to4 ip of Some (hi, _) \<Rightarrow> hi div 256 = 127 | None \<Rightarrow> ip = [0, 0, 0, 0, 0, 0, 0, 1])"

definition is_unspecified :: "ip \<Rightarrow> bool" where
  "is_unspecified ip = (case to4 ip of Some p \<Rightarrow> p = (0, 0) | None \<Rightarrow> ip = [0, 0, 0, 0, 0, 0, 0, 0])"

definition is_multicast :: "ip \<Rightarrow> bool" where
  "is_multicast ip = (case to4 ip of Some (hi, _) \<Rightarrow> hi div 4096 = 14 | None \<Rightarrow> hd ip div 256 = 255)"

section \<open>Host and port\<close>

definition last_index :: "char \<Rightarrow> string \<Rightarrow> nat option" where
  "last_index c s = map_option (\<lambda>k. length s - 1 - k) (index_of [c] (rev s))"

definition split_host_port :: "string \<Rightarrow> (string \<times> string) option" where
  "split_host_port s = (case last_index (CHR '':'') s of
     None \<Rightarrow> None
   | Some i \<Rightarrow>
       if prefix ''['' s then
         (case index_of '']'' s of
            None \<Rightarrow> None
          | Some e \<Rightarrow>
              if Suc e \<noteq> i then None
              else if CHR ''['' \<in> set (drop 1 s) \<or> CHR '']'' \<in> set (drop (Suc e) s) then None
              else Some (drop 1 (take e s), drop (Suc i) s))
       else if CHR '':'' \<in> set (take i s) then None
       else if CHR ''['' \<in> set s \<or> CHR '']'' \<in> set s then None
       else Some (take i s, drop (Suc i) s))"

definition join_host_port :: "string \<Rightarrow> string \<Rightarrow> string" where
  "join_host_port host port =
     (if CHR '':'' \<in> set host then ''['' @ host @ '']:'' @ port else host @ '':'' @ port)"

section \<open>Printing and parsing dotted quads\<close>

lemma hd_nat_to_string: "0 < n \<Longrightarrow> hd (nat_to_string n) \<noteq> CHR ''0''"
proof (induction n rule: nat_to_string.induct)
  case (1 n)
  show ?case
  proof (cases "n < 10")
    case True
    have "digit_char n \<noteq> CHR ''0''"
    proof
      assume "digit_char n = CHR ''0''"
      then have "byte_of (digit_char n) = (48::nat)" by simp
      with True 1 show False by simp
    qed
    with True show ?thesis by (simp add: nat_to_string.simps [of n])
  next
    case False
    with 1 show ?thesis by (simp add: nat_to_string.simps [of n])
  qed
qed

lemma parse_octet_nat_to_string: "n \<le> 255 \<Longrightarrow> parse_octet (nat_to_string n) = Some n"
proof (cases "n = 0")
  case True
  then show ?thesis
    by (simp add: parse_octet_def nat_to_string.simps [of 0] digits_value_def)
next
  case False
  assume "n \<le> 255"
  with False hd_nat_to_string [of n] show ?thesis
    by (simp add: parse_octet_def nat_to_string_digits digits_value_nat_to_string)
qed

lemma digits_free:
  assumes "list_all is_digit s" "\<not> is_digit c"
  shows "c \<notin> set s"
  using assms by (auto simp: list_all_iff)

lemma punct_not_digit [simp]:
  "\<not> is_digit (CHR ''.'')" "\<not> is_digit (CHR '':'')" "\<not> is_digit (CHR ''%'')" "\<not> is_digit newline"
  "\<not> is_digit (CHR '' '')"
  by (simp_all add: is_digit_def)

lemma parse_v4_string:
  assumes "u < 65536" "v < 65536"
  shows "parse_v4 (v4_string (u, v)) = Some (u, v)"
proof -
  let ?os = "[u div 256, u mod 256, v div 256, v mod 256]"
  have "split_on (CHR ''.'') (v4_string (u, v)) = map nat_to_string ?os"
    unfolding v4_string_def fst_conv snd_conv
    by (rule split_on_join) (auto simp: digits_free [OF nat_to_string_digits])
  moreover have "u div 256 \<le> 255" "v div 256 \<le> 255" "u mod 256 \<le> 255" "v mod 256 \<le> 255"
    using assms by auto
  ultimately show ?thesis
    by (simp add: parse_octet_nat_to_string)
qed

section \<open>Printing and parsing IPv6\<close>

lemma byte_of_hex_char: "n < 16 \<Longrightarrow> byte_of (hex_char n) = (if n < 10 then 48 + n else 87 + n)"
  by (simp add: hex_char_def)

lemma is_hex_hex_char: "n < 16 \<Longrightarrow> is_hex (hex_char n)"
  by (auto simp: is_hex_def is_digit_def byte_of_hex_char)

lemma hex_digit_value_hex_char: "n < 16 \<Longrightarrow> hex_digit_value (hex_char n) = n"
  by (auto simp: hex_digit_value_def is_digit_def byte_of_hex_char)

lemma nat_to_hex_nonempty [simp]: "nat_to_hex n \<noteq> []"
  by (subst nat_to_hex.simps) simp

lemma nat_to_hex_hex: "list_all is_hex (nat_to_hex n)"
proof (induction n rule: nat_to_hex.induct)
  case (1 n)
  then show ?case
    by (cases "n < 16") (simp_all add: nat_to_hex.simps [of n] is_hex_hex_char)
qed

lemma hex_value_nat_to_hex: "hex_value (nat_to_hex n) = n"
proof (induction n rule: nat_to_hex.induct)
  case (1 n)
  then show ?case
    by (cases "n < 16") (simp_all add: nat_to_hex.simps [of n] hex_value_def hex_digit_value_hex_char)
qed

lemma nat_to_hex_length: "n < 16 ^ k \<Longrightarrow> 0 < k \<Longrightarrow> length (nat_to_hex n) \<le> k"
proof (induction k arbitrary: n)
  case 0
  then show ?case by simp
next
  case (Suc k)
  show ?case
  proof (cases "n < 16")
    case True
    then show ?thesis by (simp add: nat_to_hex.simps [of n])
  next
    case False
    with Suc.prems have "0 < k" by (cases k) auto
    moreover from Suc.prems have "n div 16 < 16 ^ k"
      by (simp add: less_mult_imp_div_less mult.commute)
    ultimately have "length (nat_to_hex (n div 16)) \<le> k"
      by (rule Suc.IH [rotated])
    with False show ?thesis by (simp add: nat_to_hex.simps [of n])
  qed
qed

lemma colon_not_hex [simp]: "\<not> is_hex (CHR '':'')" "\<not> is_hex (CHR ''.'')" "\<not> is_hex (CHR ''%'')"
  by (simp_all add: is_hex_def is_digit_def)

lemma nat_to_hex_take:
  "takeWhile is_hex (nat_to_hex g @ CHR '':'' # t) = nat_to_hex g"
  "dropWhile is_hex (nat_to_hex g @ CHR '':'' # t) = CHR '':'' # t"
  "takeWhile is_hex (nat_to_hex g) = nat_to_hex g"
  "dropWhile is_hex (nat_to_hex g) = []"
  using nat_to_hex_hex [of g] by (auto simp: list_all_iff)

lemma nat_to_hex_hd: "nat_to_hex g = c # cs \<Longrightarrow> c \<noteq> CHR '':''"
  using nat_to_hex_hex [of g] by (auto simp: list_all_iff)

lemma not_prefix_colon_hex [simp]: "\<not> prefix '':'' (nat_to_hex g @ t)" "\<not> prefix ''::'' (nat_to_hex g @ t)"
  by (cases "nat_to_hex g"; auto dest: nat_to_hex_hd)+

lemma hex_groups_simps:
  "hex_groups [] = []"
  "hex_groups [g] = nat_to_hex g"
  "hex_groups (g # h # gs) = nat_to_hex g @ CHR '':'' # hex_groups (h # gs)"
  by (simp_all add: hex_groups_def)

lemma hex_groups_nonempty: "gs \<noteq> [] \<Longrightarrow> hex_groups gs \<noteq> []"
  by (cases gs rule: list.exhaust; cases "tl gs") (auto simp: hex_groups_simps)

lemma not_prefix_colon_groups:
  "gs \<noteq> [] \<Longrightarrow> \<not> prefix '':'' (hex_groups gs @ t) \<and> \<not> prefix ''::'' (hex_groups gs @ t)"
  by (cases gs; cases "tl gs") (auto simp: hex_groups_simps simp del: prefix_Cons)

lemma v6_loop_groups:
  assumes "hs \<noteq> []" "length gs + length hs \<le> 8" "list_all (\<lambda>g. g < 65536) hs"
  shows "v6_loop gs ell (hex_groups hs) = Some (gs @ hs, ell, [])"
  using assms
proof (induction hs arbitrary: gs)
  case Nil
  then show ?case by simp
next
  case (Cons g hs)
  have len: "length (nat_to_hex g) \<le> 4"
    using nat_to_hex_length [of g 4] Cons.prems by simp
  show ?case
  proof (cases hs)
    case Nil
    with Cons.prems len show ?thesis
      by (subst v6_loop.simps)
        (simp add: hex_groups_simps nat_to_hex_take hex_value_nat_to_hex Let_def)
  next
    case (Cons h hs')
    with Cons.prems have "v6_loop (gs @ [g]) ell (hex_groups hs) = Some ((gs @ [g]) @ hs, ell, [])"
      by (intro Cons.IH) auto
    moreover have "hex_groups hs \<noteq> []" "\<not> prefix '':'' (hex_groups hs)"
      using Cons hex_groups_nonempty [of hs] not_prefix_colon_groups [of hs "[]"] by auto
    ultimately show ?thesis
      using Cons Cons.prems len
      by (subst v6_loop.simps)
        (simp add: hex_groups_simps nat_to_hex_take hex_value_nat_to_hex Let_def)
  qed
qed

lemma v6_loop_ellipsis:
  assumes "hs \<noteq> []" "length gs + length hs < 8" "list_all (\<lambda>g. g < 65536) hs"
  shows "v6_loop gs None (hex_groups hs @ ''::'' @ t) =
    (if t = [] then Some (gs @ hs, Some (length gs + length hs), [])
     else v6_loop (gs @ hs) (Some (length gs + length hs)) t)"
  using assms
proof (induction hs arbitrary: gs)
  case Nil
  then show ?case by simp
next
  case (Cons g hs)
  have len: "length (nat_to_hex g) \<le> 4"
    using nat_to_hex_length [of g 4] Cons.prems by simp
  show ?case
  proof (cases hs)
    case Nil
    with Cons.prems len show ?thesis
      by (subst v6_loop.simps)
        (simp add: hex_groups_simps nat_to_hex_take hex_value_nat_to_hex Let_def)
  next
    case (Cons h hs')
    with Cons.prems have "v6_loop (gs @ [g]) None (hex_groups hs @ ''::'' @ t) =
        (if t = [] then Some ((gs @ [g]) @ hs, Some (length (gs @ [g]) + length hs), [])
         else v6_loop ((gs @ [g]) @ hs) (Some (length (gs @ [g]) + length hs)) t)"
      by (intro Cons.IH) auto
    moreover have "\<not> prefix '':'' (hex_groups hs @ ''::'' @ t)"
      using Cons not_prefix_colon_groups [of hs "''::'' @ t"] by auto
    ultimately show ?thesis
      using Cons Cons.prems len
      by (subst v6_loop.simps)
        (simp add: hex_groups_simps nat_to_hex_take hex_value_nat_to_hex Let_def)
  qed
qed

lemma zero_run_zeros: "take (zero_run gs) gs = replicate (zero_run gs) 0 \<and> zero_run gs \<le> length gs"
proof -
  have "take (zero_run gs) gs = takeWhile (\<lambda>g. g = 0) gs"
    by (metis takeWhile_eq_take zero_run_def)
  moreover have "takeWhile (\<lambda>g. g = 0) gs = replicate (length (takeWhile (\<lambda>g. g = 0) gs)) 0"
    by (induction gs) auto
  ultimately show ?thesis
    by (simp add: zero_run_def length_takeWhile_le)
qed

definition zero_block :: "nat list \<Rightarrow> nat \<times> nat \<Rightarrow> bool" where
  "zero_block ip b = (snd b = 0 \<or>
     2 \<le> snd b \<and> fst b + snd b \<le> length ip \<and> take (snd b) (drop (fst b) ip) = replicate (snd b) 0)"

lemma best_run_zero_block:
  assumes "zero_block ip b" "gs = drop i ip" "i \<le> length ip"
  shows "zero_block ip (best_run i b gs)"
  using assms
proof (induction gs arbitrary: i b)
  case Nil
  then show ?case by simp
next
  case (Cons g gs)
  let ?r = "zero_run (g # gs)"
  have "zero_block ip (i, ?r)" if "?r \<ge> 2"
    using that zero_run_zeros [of "g # gs"] Cons.prems(2,3)
    by (metis (no_types, lifting) add_le_cancel_left fst_conv length_drop ordered_cancel_comm_monoid_diff_class.add_diff_inverse
        snd_conv zero_block_def)
  moreover have "gs = drop (Suc i) ip" "Suc i \<le> length ip"
    using Cons.prems(2) by (metis drop_Suc list.sel(3) tl_drop, metis Suc_leI drop_eq_Nil linorder_not_less list.distinct(1))
  ultimately show ?case
    using Cons.IH Cons.prems(1) by simp
qed

lemma hex_groups_chars: "c \<in> set (hex_groups gs) \<Longrightarrow> is_hex c \<or> c = CHR '':''"
  using set_join [of "'':''" "map nat_to_hex gs"] nat_to_hex_hex
  by (fastforce simp: hex_groups_def list_all_iff)

lemma hex_groups_colon: "length gs \<ge> 2 \<Longrightarrow> CHR '':'' \<in> set (hex_groups gs)"
  by (cases gs; cases "tl gs") (auto simp: hex_groups_simps)

lemma addr_kind_only:
  assumes "c \<in> set s" "c \<in> {CHR ''.'', CHR '':'', CHR ''%''}"
    "\<And>d. d \<in> set s \<Longrightarrow> d \<in> {CHR ''.'', CHR '':'', CHR ''%''} \<Longrightarrow> d = c"
  shows "addr_kind s = Some c"
proof (cases "addr_kind s")
  case None
  with assms(1,2) show ?thesis
    by (auto simp: addr_kind_def find_None_iff)
next
  case (Some d)
  then have "d \<in> set s" "d \<in> {CHR ''.'', CHR '':'', CHR ''%''}"
    by (auto simp: addr_kind_def find_Some_iff in_set_conv_nth)
  with Some assms(3) show ?thesis by blast
qed

lemma v6_finish_split:
  assumes "length ip = 8" "i + n \<le> 8" "0 < n" "take n (drop i ip) = replicate n 0"
  shows "v6_finish (take i ip @ drop (i + n) ip, Some i, []) = Some ip"
proof -
  have "length (take i ip @ drop (i + n) ip) = 8 - n"
    using assms by simp
  moreover have "take i ip @ replicate n 0 @ drop (i + n) ip = ip"
    by (metis add.commute append_take_drop_id assms(4) drop_drop)
  ultimately show ?thesis
    using assms by (simp add: v6_finish_def)
qed

lemma parse_v6_string:
  assumes wf: "ip_wf ip"
  shows "parse_v6 (v6_string ip) = Some ip"
proof -
  obtain i n where run: "best_run 0 (0, 0) ip = (i, n)"
    by (cases "best_run 0 (0, 0) ip")
  have len: "length ip = 8" and small: "list_all (\<lambda>g. g < 65536) ip"
    using wf by (simp_all add: ip_wf_def)
  have ne: "ip \<noteq> []"
    using len by auto
  have block: "zero_block ip (i, n)"
    using best_run_zero_block [of ip "(0, 0)" ip 0] run by (simp add: zero_block_def)
  have smalls: "list_all (\<lambda>g. g < 65536) (take k ip)" "list_all (\<lambda>g. g < 65536) (drop k ip)" for k
    using small by (auto simp: list_all_iff dest: in_set_takeD in_set_dropD)
  have no_pct: "CHR ''%'' \<notin> set (v6_string ip)"
    using run by (auto simp: v6_string_def dest: hex_groups_chars)
  show ?thesis
  proof (cases "n = 0")
    case True
    have "v6_loop [] None (hex_groups ip) = Some (ip, None, [])"
      using v6_loop_groups [of ip "[]" None] len small ne by auto
    moreover have "\<not> prefix ''::'' (hex_groups ip)"
      using not_prefix_colon_groups [of ip "[]"] ne by auto
    moreover have "v6_string ip = hex_groups ip"
      using True run by (simp add: v6_string_def)
    ultimately show ?thesis
      using no_pct len by (simp add: parse_v6_def v6_finish_def)
  next
    case False
    with block have n: "2 \<le> n" "i + n \<le> 8" and zeros: "take n (drop i ip) = replicate n 0"
      using len by (auto simp: zero_block_def)
    have str: "v6_string ip = hex_groups (take i ip) @ ''::'' @ hex_groups (drop (i + n) ip)"
      using False run by (simp add: v6_string_def)
    have finish: "v6_finish (take i ip @ drop (i + n) ip, Some i, []) = Some ip"
      using len n zeros by (intro v6_finish_split) auto
    have tail: "v6_loop (take i ip) (Some i) (hex_groups (drop (i + n) ip)) =
        Some (take i ip @ drop (i + n) ip, Some i, [])" if "i + n < 8"
      using that len n smalls by (intro v6_loop_groups) auto
    show ?thesis
    proof (cases "i = 0")
      case True
      have "hex_groups (drop n ip) = [] \<longleftrightarrow> n = 8"
        using True n len hex_groups_nonempty [of "drop n ip"] by (auto simp: hex_groups_simps)
      moreover have "ip = replicate 8 0" if "n = 8"
        using that zeros True len by simp
      ultimately show ?thesis
        using str True no_pct tail finish n
        by (cases "n = 8") (auto simp: parse_v6_def hex_groups_simps)
    next
      case False
      have head: "v6_loop [] None (v6_string ip) =
          (if hex_groups (drop (i + n) ip) = [] then Some (take i ip, Some i, [])
           else v6_loop (take i ip) (Some i) (hex_groups (drop (i + n) ip)))"
        unfolding str
        using v6_loop_ellipsis [of "take i ip" "[]" "hex_groups (drop (i + n) ip)"] False n len smalls(1) ne
        by auto
      have "hex_groups (drop (i + n) ip) = [] \<longleftrightarrow> i + n = 8"
        using n len hex_groups_nonempty [of "drop (i + n) ip"] by (auto simp: hex_groups_simps)
      then have "v6_loop [] None (v6_string ip) = Some (take i ip @ drop (i + n) ip, Some i, [])"
        using head tail n len by (cases "i + n = 8") auto
      moreover have "\<not> prefix ''::'' (v6_string ip)"
        unfolding str using False ne not_prefix_colon_groups [of "take i ip" "''::'' @ hex_groups (drop (i + n) ip)"]
        by auto
      ultimately show ?thesis
        using no_pct finish by (simp add: parse_v6_def)
    qed
  qed
qed

lemma addr_kind_v6_string:
  assumes "ip_wf ip"
  shows "addr_kind (v6_string ip) = Some (CHR '':'')"
proof (rule addr_kind_only)
  show "CHR '':'' \<in> set (v6_string ip)"
    using hex_groups_colon [of ip] assms
    by (cases "best_run 0 (0, 0) ip") (auto simp: v6_string_def ip_wf_def)
next
  fix d
  assume "d \<in> set (v6_string ip)" "d \<in> {CHR ''.'', CHR '':'', CHR ''%''}"
  then show "d = CHR '':''"
    by (auto simp: v6_string_def split: prod.splits if_splits dest: hex_groups_chars)
qed simp

lemma v4_string_chars: "c \<in> set (v4_string p) \<Longrightarrow> is_digit c \<or> c = CHR ''.''"
  using nat_to_string_digits by (auto simp: v4_string_def list_all_iff)

lemma addr_kind_v4_string: "addr_kind (v4_string p) = Some (CHR ''.'')"
  by (rule addr_kind_only) (auto simp: v4_string_def digits_free [OF nat_to_string_digits] dest!: v4_string_chars)

lemma ip_wf_to4:
  assumes "ip_wf ip" "to4 ip = Some (u, v)"
  shows "ip = v4_in_v6 (u, v) \<and> u < 65536 \<and> v < 65536"
proof -
  have len: "length ip = 8" and small: "list_all (\<lambda>g. g < 65536) ip"
    using assms(1) by (simp_all add: ip_wf_def)
  have "drop 6 ip = [ip ! 6, ip ! 7]"
    using len Cons_nth_drop_Suc [of 6 ip] Cons_nth_drop_Suc [of 7 ip] by simp
  then have "ip = take 6 ip @ [ip ! 6, ip ! 7]"
    by (metis append_take_drop_id)
  moreover have "ip ! 6 < 65536" "ip ! 7 < 65536"
    using small len by (simp_all add: list_all_length)
  ultimately show ?thesis
    using assms(2) by (auto simp: to4_def v4_in_v6_def split: if_splits)
qed

lemma parse_ip_string:
  assumes "ip_wf ip"
  shows "parse_ip (ip_string ip) = Some ip"
proof (cases "to4 ip")
  case None
  with assms show ?thesis
    by (simp add: ip_string_def parse_ip_def addr_kind_v6_string parse_v6_string)
next
  case (Some p)
  obtain u v where p: "p = (u, v)" by (cases p)
  with assms Some have "ip = v4_in_v6 (u, v)" "u < 65536" "v < 65536"
    using ip_wf_to4 by auto
  with Some p show ?thesis
    by (simp add: ip_string_def parse_ip_def addr_kind_v4_string parse_v4_string del: parse_v4.simps)
qed

section \<open>Parsed addresses are well formed\<close>

lemma parse_octet_bound: "parse_octet p = Some n \<Longrightarrow> n \<le> 255"
  by (auto simp: parse_octet_def split: if_splits)

lemma parse_v4_bound: "parse_v4 s = Some (u, v) \<Longrightarrow> u < 65536 \<and> v < 65536"
  by (auto split: list.splits option.splits dest!: parse_octet_bound)

lemma hex_digit_value_bound: "is_hex c \<Longrightarrow> hex_digit_value c < 16"
  by (auto simp: is_hex_def hex_digit_value_def is_digit_def)

lemma hex_value_snoc: "hex_value (s @ [c]) = 16 * hex_value s + hex_digit_value c"
  by (simp add: hex_value_def)

lemma hex_value_bound: "list_all is_hex s \<Longrightarrow> hex_value s < 16 ^ length s"
proof (induction s rule: rev_induct)
  case Nil
  then show ?case by (simp add: hex_value_def)
next
  case (snoc c s)
  then show ?case
    using hex_digit_value_bound [of c] by (simp add: hex_value_snoc)
qed

lemma hex_field_bound:
  assumes "length (takeWhile is_hex s) \<le> 4"
  shows "hex_value (takeWhile is_hex s) < 65536"
proof -
  have "hex_value (takeWhile is_hex s) < 16 ^ length (takeWhile is_hex s)"
    by (rule hex_value_bound) (auto simp: list_all_iff dest: set_takeWhileD)
  also have "\<dots> \<le> (16::nat) ^ 4"
    using assms by (rule power_increasing) simp
  finally show ?thesis by simp
qed

definition v6_state_ok :: "nat list \<times> nat option \<times> string \<Rightarrow> bool" where
  "v6_state_ok r = (case r of (gs, ell, s) \<Rightarrow>
length gs \<le> 8 \<and> list_all (\<lambda>g. g < 65536) gs)"

lemma v6_loop_ok:
  assumes "v6_loop gs ell s = Some r" "v6_state_ok (gs, ell, s)"
  shows "v6_state_ok r"
  using assms
proof (induction gs ell s rule: v6_loop.induct)
  case (1 gs ell s)
  show ?case
  proof (cases "length gs \<ge> 8")
    case True
    with 1 show ?thesis by (simp add: v6_loop.simps [of gs ell s])
  next
    case False
    note ih = "1.IH" [OF False refl refl refl]
    show ?thesis
      using "1.prems" False ih hex_field_bound [of s]
      by (auto simp: v6_loop.simps [of gs ell s] Let_def v6_state_ok_def split: if_splits option.splits
          dest!: parse_v4_bound simp del: parse_v4.simps)
  qed
qed

lemma v6_finish_wf: "v6_finish r = Some ip \<Longrightarrow> v6_state_ok r \<Longrightarrow> ip_wf ip"
  by (auto simp: v6_finish_def v6_state_ok_def ip_wf_def list_all_iff split: prod.splits if_splits option.splits)
    (metis in_set_takeD, metis in_set_dropD)

lemma parse_ip_wf: "parse_ip s = Some ip \<Longrightarrow> ip_wf ip"
proof (cases "addr_kind s = Some (CHR ''.'')")
  case True
  moreover assume "parse_ip s = Some ip"
  ultimately show ?thesis
    by (auto simp: parse_ip_def v4_in_v6_def ip_wf_def dest!: parse_v4_bound simp del: parse_v4.simps)
next
  case False
  assume "parse_ip s = Some ip"
  with False have v6: "parse_v6 s = Some ip"
    by (auto simp: parse_ip_def split: if_splits)
  have zero: "ip_wf (replicate 8 0)"
    by (simp add: ip_wf_def list_all_length)
  have start: "v6_state_ok ([], None, t)" "v6_state_ok ([], Some 0, t)" for t
    by (simp_all add: v6_state_ok_def)
  show ?thesis
    using v6 start zero
    by (auto simp: parse_v6_def bind_eq_Some_conv split: if_splits intro: v6_finish_wf v6_loop_ok)
qed

text \<open>Printing a parsed address gives a spelling that parses to the same address.\<close>

lemma parse_ip_canonical: "parse_ip s = Some ip \<Longrightarrow> parse_ip (ip_string ip) = Some ip"
  by (simp add: parse_ip_string parse_ip_wf)

section \<open>Evaluation\<close>

lemma replicate_eval: "replicate (numeral k) x = x # replicate (pred_numeral k) x"
  by (simp add: numeral_eq_Suc)

lemmas net_eval = parse_ip_def addr_kind_def parse_v6_def v6_loop.simps v6_finish_def is_hex_def
  is_digit_def hex_value_def hex_digit_value_def Let_def parse_octet_def digits_value_def
  digit_value_def v4_in_v6_def replicate_eval

lemmas net_print_eval = ip_string_def to4_def v6_string_def zero_run_def hex_groups_def
  nat_to_hex.simps hex_char_def v4_string_def nat_to_string.simps digit_char_def char_of_def bit_0

section \<open>The characters of an address\<close>

definition addr_char :: "char \<Rightarrow> bool" where
  "addr_char c = (is_hex c \<or> c \<in> {CHR '':'', CHR ''.''})"

lemma parse_v4_chars:
  assumes "parse_v4 s = Some p"
  shows "list_all addr_char s"
proof -
  obtain a b c d where "map parse_octet (split_on (CHR ''.'') s) = [Some a, Some b, Some c, Some d]"
    using assms by (auto split: list.splits option.splits)
  then have "\<forall>q \<in> set (split_on (CHR ''.'') s). parse_octet q \<noteq> None"
    by auto
  then have "\<forall>q \<in> set (split_on (CHR ''.'') s). list_all is_digit q"
    by (auto simp: parse_octet_def split: if_splits)
  then show ?thesis
    using concat_split_on [of s "CHR ''.''"] by (fastforce simp: list_all_iff addr_char_def is_hex_def)
qed

lemma hex_then_rest:
  assumes "dropWhile is_hex s = u @ t" "list_all addr_char u" "list_all addr_char t"
  shows "list_all addr_char s"
proof -
  have "s = takeWhile is_hex s @ u @ t"
    by (simp add: assms(1) [symmetric])
  moreover have "list_all addr_char (takeWhile is_hex s)"
    by (auto simp: list_all_iff addr_char_def dest: set_takeWhileD)
  ultimately show ?thesis
    using assms(2,3) by (metis list_all_append)
qed

lemma v6_loop_chars:
  assumes "v6_loop gs ell s = Some (gs', ell', [])"
  shows "list_all addr_char s"
  using assms
proof (induction gs ell s rule: v6_loop.induct)
  case (1 gs ell s)
  show ?case
  proof (cases "length gs \<ge> 8")
    case True
    with 1 show ?thesis by (simp add: v6_loop.simps [of gs ell s])
  next
    case False
    define rest where "rest = dropWhile is_hex s"
    note ih = "1.IH" [OF False refl refl refl]
    note step = "1.prems" [unfolded v6_loop.simps [of gs ell s] Let_def, folded rest_def]
    consider "parse_v4 s \<noteq> None" | "rest = []" | u t where "rest = u @ t" "list_all addr_char u" "list_all addr_char t"
    proof (cases "prefix ''.'' rest \<or> rest = []")
      case True
      with step False that(1,2) show ?thesis
        by (auto simp del: parse_v4.simps split: if_splits option.splits)
    next
      case plain: False
      with step False have "prefix '':'' rest" "tl rest \<noteq> []"
        by (auto simp del: parse_v4.simps split: if_splits)
      then obtain r where r: "rest = CHR '':'' # r" "r \<noteq> []"
        by (cases rest) auto
      have short: "\<not> (takeWhile is_hex s = [] \<or> 4 < length (takeWhile is_hex s))"
        using step False by (auto split: if_splits)
      show ?thesis
      proof (cases "prefix '':'' r")
        case True
        then obtain r2 where r2: "r = CHR '':'' # r2"
          by (cases r) auto
        have "list_all addr_char r2"
          using step False plain r r2 ih(1) [OF short] by (auto simp: rest_def split: if_splits)
        then show ?thesis
          using that(3) [of "''::''" r2] r r2 by (simp add: addr_char_def)
      next
        case False
        have "list_all addr_char r"
          using step \<open>\<not> 8 \<le> length gs\<close> plain r False ih(2) [OF short] by (auto simp: rest_def split: if_splits)
        then show ?thesis
          using that(3) [of "'':''" r] r by (simp add: addr_char_def)
      qed
    qed
    then show ?thesis
    proof cases
      case 1
      then show ?thesis
        using parse_v4_chars by blast
    next
      case 2
      then show ?thesis
        using hex_then_rest [of s "[]" "[]"] by (simp add: rest_def)
    next
      case 3
      then show ?thesis
        using hex_then_rest by (simp add: rest_def)
    qed
  qed
qed

lemma parse_ip_chars:
  assumes "parse_ip s = Some ip"
  shows "list_all addr_char s"
proof (cases "addr_kind s = Some (CHR ''.'')")
  case True
  with assms show ?thesis
    by (auto simp: parse_ip_def simp del: parse_v4.simps dest: parse_v4_chars)
next
  case False
  with assms have v6: "parse_v6 s = Some ip"
    by (auto simp: parse_ip_def split: if_splits)
  have finish: "list_all addr_char t" if "Option.bind (v6_loop [] e t) v6_finish = Some ip" for e t
    using that by (auto simp: bind_eq_Some_conv v6_finish_def split: if_splits intro: v6_loop_chars)
  show ?thesis
  proof (cases "prefix ''::'' s")
    case True
    then have s: "s = ''::'' @ drop 2 s"
      by (auto simp: prefix_def)
    have "list_all addr_char (drop 2 s)"
      using v6 True finish by (cases "drop 2 s = []") (auto simp: parse_v6_def split: if_splits)
    moreover have "list_all addr_char ''::''"
      by (simp add: addr_char_def)
    ultimately show ?thesis
      by (subst s) (simp only: list_all_append)
  next
    case no: False
    with v6 have "Option.bind (v6_loop [] None s) v6_finish = Some ip"
      by (simp add: parse_v6_def split: if_splits)
    then show ?thesis
      by (rule finish)
  qed
qed

lemma addr_char_plain: "addr_char c \<Longrightarrow> c \<notin> space_bytes"
  by (auto simp: addr_char_def is_hex_def is_digit_def space_bytes_def)

section \<open>Addresses have no port\<close>

lemma last_index_None: "c \<notin> set s \<Longrightarrow> last_index c s = None"
  by (simp add: last_index_def index_of_None sublist_def) (metis in_set_conv_decomp set_rev)

lemma last_index_bound:
  assumes "last_index c s = Some i" "j < length s" "s ! j = c"
  shows "j \<le> i"
proof -
  obtain k where k: "index_of [c] (rev s) = Some k" "i = length s - 1 - k"
    using assms(1) by (auto simp: last_index_def)
  show ?thesis
  proof (rule ccontr)
    assume "\<not> j \<le> i"
    then have j: "length s - 1 - j < k"
      using assms(2) k(2) by simp
    have "rev s ! (length s - 1 - j) = c"
      using assms(2,3) by (simp add: rev_nth)
    moreover have "rev s ! (length s - 1 - j) \<in> set (take k (rev s))"
      using j index_of_char [OF k(1)] by (auto simp: in_set_conv_nth intro!: exI [of _ "length s - 1 - j"])
    ultimately show False
      using index_of_char [OF k(1)] by simp
  qed
qed

lemma split_host_port_colons:
  assumes "\<not> prefix ''['' s" "i < j" "j < length s" "s ! i = CHR '':''" "s ! j = CHR '':''"
  shows "split_host_port s = None"
proof (cases "last_index (CHR '':'') s")
  case (Some k)
  then have "j \<le> k"
    using last_index_bound assms(3,5) by blast
  then have "CHR '':'' \<in> set (take k s)"
    using assms(2-4) by (auto simp: in_set_conv_nth intro!: exI [of _ i])
  with Some assms(1) show ?thesis
    by (simp add: split_host_port_def)
qed (simp add: split_host_port_def)

lemma v6_string_colons:
  assumes "length ip = 8"
  obtains i j where "i < j" "j < length (v6_string ip)" "v6_string ip ! i = CHR '':''" "v6_string ip ! j = CHR '':''"
proof -
  have "\<exists>u v w. v6_string ip = u @ CHR '':'' # v @ CHR '':'' # w"
  proof (cases "snd (best_run 0 (0, 0) ip) = 0")
    case True
    obtain a b c gs where "ip = a # b # c # gs"
      using assms by (auto simp: length_Suc_conv eval_nat_numeral)
    then have "v6_string ip = nat_to_hex a @ CHR '':'' # nat_to_hex b @ CHR '':'' # hex_groups (c # gs)"
      using True by (auto simp: v6_string_def hex_groups_def split: prod.splits)
    then show ?thesis
      by blast
  next
    case False
    then have "\<exists>x y. v6_string ip = x @ CHR '':'' # [] @ CHR '':'' # y"
      by (auto simp: v6_string_def split: prod.splits)
    then show ?thesis
      by blast
  qed
  then obtain u v w where "v6_string ip = u @ CHR '':'' # v @ CHR '':'' # w"
    by blast
  then show thesis
    by (intro that [of "length u" "Suc (length u + length v)"]) (auto simp: nth_append)
qed

lemma ip_string_no_port:
  assumes "ip_wf ip"
  shows "split_host_port (ip_string ip) = None"
proof -
  have plain: "\<not> prefix ''['' (ip_string ip)"
    using parse_ip_chars [OF parse_ip_string [OF assms]] by (cases "ip_string ip") (auto simp: addr_char_def is_hex_def is_digit_def)
  show ?thesis
  proof (cases "to4 ip")
    case None
    have "length ip = 8"
      using assms by (simp add: ip_wf_def)
    then show ?thesis
      using plain None by (elim v6_string_colons) (auto simp: ip_string_def intro: split_host_port_colons)
  next
    case (Some p)
    have "CHR '':'' \<notin> set (v4_string p)"
      using v4_string_chars [of "CHR '':''" p] by (auto simp: is_digit_def)
    with Some show ?thesis
      by (simp add: ip_string_def split_host_port_def last_index_None)
  qed
qed

section \<open>Printed networks\<close>

lemma mask_ip_wf:
  assumes "ip_wf ip"
  shows "ip_wf (mask_ip m ip)"
proof -
  have "x div 2 ^ k * 2 ^ k < 65536" if "x < 65536" for x k :: nat
    using that by (metis div_times_less_eq_dividend le_less_trans)
  then show ?thesis
    using assms by (auto simp: ip_wf_def mask_ip_def list_all_iff in_set_enumerate_eq Let_def)
qed

lemma addr_kind_ip_string:
  assumes "ip_wf ip"
  shows "addr_kind (ip_string ip) = Some (CHR ''.'') \<longleftrightarrow> to4 ip \<noteq> None"
proof
  assume "addr_kind (ip_string ip) = Some (CHR ''.'')"
  then obtain p where "ip = v4_in_v6 p"
    using parse_ip_string [OF assms] by (auto simp: parse_ip_def simp del: parse_v4.simps)
  then show "to4 ip \<noteq> None"
    by (simp add: to4_def v4_in_v6_def)
next
  assume "to4 ip \<noteq> None"
  then show "addr_kind (ip_string ip) = Some (CHR ''.'')"
    by (auto simp: ip_string_def addr_kind_v4_string)
qed

lemma index_of_append: "c \<notin> set a \<Longrightarrow> index_of [c] (a @ c # b) = Some (length a)"
  by (induction a) auto

lemma cut_append: "c \<notin> set a \<Longrightarrow> cut [c] (a @ c # b) = Some (a, b)"
  by (simp add: cut_def index_of_append)

lemma cidr_network_parses:
  assumes "cidr_network s = Some t"
  shows "parse_cidr t \<noteq> None" "set t \<inter> space_bytes = {}" "CHR '','' \<notin> set t" "t \<noteq> []"
proof -
  obtain ip n where p: "parse_cidr s = Some (ip, n)"
    using assms by (auto simp: cidr_network_def)
  define m where "m = (if addr_kind s = Some (CHR ''.'') then 96 + n else n)"
  define network where "network = mask_ip m ip"
  define k where "k = (if to4 network \<noteq> None then m - 96 else m)"
  have "t = network_string m ip"
    using assms p by (simp add: cidr_network_def m_def)
  then have t: "t = ip_string network @ CHR ''/'' # nat_to_string k"
    by (simp only: network_string_def Let_def network_def k_def append_Cons append_Nil)
  obtain addr len where addr: "cut ''/'' s = Some (addr, len)" "parse_ip addr = Some ip" "n \<le> (if addr_kind addr = Some (CHR ''.'') then 32 else 128)"
    using p by (auto simp: parse_cidr_def split: option.splits if_splits)
  have "addr_kind addr = Some (CHR ''.'') \<or> addr_kind addr = Some (CHR '':'')"
    using addr(2) by (auto simp: parse_ip_def simp del: parse_v4.simps split: if_splits)
  moreover have "\<exists>rest. s = addr @ rest"
    using addr(1) by (auto simp: cut_def intro: append_take_drop_id [symmetric])
  ultimately have "addr_kind s = addr_kind addr"
    by (auto simp: addr_kind_def find_append)
  then have m: "m \<le> 128"
    using addr(3) by (auto simp: m_def split: if_splits)
  have wf: "ip_wf network"
    using mask_ip_wf [OF parse_ip_wf [OF addr(2)]] by (simp add: network_def)
  note chars = parse_ip_chars [OF parse_ip_string [OF wf]]
  have slash: "CHR ''/'' \<notin> set (ip_string network)"
    using chars by (auto simp: list_all_iff addr_char_def is_hex_def is_digit_def)
  have "k \<le> (if addr_kind (ip_string network) = Some (CHR ''.'') then 32 else 128)"
    using m by (auto simp: k_def addr_kind_ip_string [OF wf])
  then show "parse_cidr t \<noteq> None"
    using m nat_to_string_digits [of k]
    by (auto simp: parse_cidr_def t cut_append [OF slash] parse_ip_string [OF wf] cidr_bits_def digits_value_nat_to_string k_def)
  have "c \<in> set t \<Longrightarrow> addr_char c \<or> c = CHR ''/'' \<or> is_digit c" for c
    using chars nat_to_string_digits [of k] by (auto simp: t list_all_iff)
  then show "set t \<inter> space_bytes = {}" "CHR '','' \<notin> set t"
    using addr_char_plain by (fastforce simp: space_bytes_def addr_char_def is_hex_def is_digit_def)+
  show "t \<noteq> []"
    by (simp add: t)
qed

end
