(* ===== verification/Domain_Names.thy ===== *)
theory Domain_Names
  imports Go_Net
begin

text \<open>
  \<^verbatim>\<open>db.NormalizeDomain\<close> and \<^verbatim>\<open>db.NormalizeRecord\<close> (\<^verbatim>\<open>internal/db/db.go\<close>): the gate every domain and every
  local DNS record passes before it is stored, rendered into a hosts file or looked up. The canonical
  domains are the fixed points of \<^verbatim>\<open>NormalizeDomain\<close>, described by \<open>domain_wf\<close>.
\<close>

datatype domain_error = DomainRequired | InvalidDomain string

definition label_char :: "char \<Rightarrow> bool" where
  "label_char c = (is_lower c \<or> is_digit c \<or> c = CHR ''-'')"

definition label_ok :: "string \<Rightarrow> bool" where
  "label_ok l = (\<not> (length l = 0 \<or> length l > 63 \<or> hd l = CHR ''-'' \<or> last l = CHR ''-'') \<and> list_all label_char l)"

definition NormalizeDomain :: "string \<Rightarrow> domain_error + string" where
  "NormalizeDomain domain =
     (let normalized = trim_suffix ''.'' (trim_space (to_lower domain)) in
      if normalized = [] then Inl DomainRequired
      else if length normalized > 253 \<or> list_ex (\<lambda>c. c \<in> {CHR '' '', tab, CHR 0x0D, newline, CHR ''/''}) normalized
      then Inl (InvalidDomain domain)
      else if list_all label_ok (split_on (CHR ''.'') normalized) then Inr normalized
      else Inl (InvalidDomain domain))"

datatype record_error =
    HostError domain_error
  | UnsupportedType string
  | ValueRequired
  | NotAnAddress
  | NotIPv4
  | NotIPv6

definition NormalizeRecord :: "string \<Rightarrow> string \<Rightarrow> string \<Rightarrow> record_error + string \<times> string \<times> string" where
  "NormalizeRecord hostname typ value =
     (case NormalizeDomain hostname of
        Inl e \<Rightarrow> Inl (HostError e)
      | Inr host \<Rightarrow>
          (let t = to_upper (trim_space typ); recordType = (if t = [] then ''A'' else t) in
           if recordType \<noteq> ''A'' \<and> recordType \<noteq> ''AAAA'' then Inl (UnsupportedType recordType)
           else
             let recordValue = trim_space value in
             if recordValue = [] then Inl ValueRequired
             else (case parse_ip recordValue of
                     None \<Rightarrow> Inl NotAnAddress
                   | Some ip \<Rightarrow>
                       if recordType = ''A'' \<and> to4 ip = None then Inl NotIPv4
                       else if recordType = ''AAAA'' \<and> to4 ip \<noteq> None then Inl NotIPv6
                       else Inr (host, recordType, ip_string ip))))"

section \<open>Canonical domains\<close>

definition domain_wf :: "string \<Rightarrow> bool" where
  "domain_wf n = (n \<noteq> [] \<and> length n \<le> 253 \<and> list_all label_ok (split_on (CHR ''.'') n))"

definition domain_char :: "char \<Rightarrow> bool" where
  "domain_char c = (label_char c \<or> c = CHR ''.'')"

lemma label_ok_chars: "label_ok l \<Longrightarrow> c \<in> set l \<Longrightarrow> label_char c"
  by (auto simp: label_ok_def list_all_iff)

lemma domain_wf_chars:
  assumes "domain_wf n" "c \<in> set n"
  shows "domain_char c"
  using assms concat_split_on [of n "CHR ''.''"]
  by (auto simp: domain_wf_def domain_char_def list_all_iff dest: label_ok_chars)

lemma domain_char_code: "domain_char c \<Longrightarrow>
    97 \<le> byte_of c \<and> byte_of c \<le> (122::nat) \<or> 48 \<le> byte_of c \<and> byte_of c \<le> (57::nat) \<or> byte_of c \<in> {45::nat, 46}"
  by (auto simp: domain_char_def label_char_def is_lower_def is_digit_def)

lemma domain_char_plain:
  assumes "domain_char c"
  shows "byte_of c < (128::nat)" "\<not> is_upper c" "c \<notin> space_bytes"
    "c \<notin> {CHR '' '', tab, CHR 0x0D, newline, CHR ''/''}"
  using domain_char_code [OF assms] by (auto simp: is_upper_def space_bytes_def)

lemma domain_wf_to_lower: "domain_wf n \<Longrightarrow> to_lower n = n"
  by (rule to_lower_id) (auto dest: domain_wf_chars domain_char_plain)

lemma domain_wf_trim: "domain_wf n \<Longrightarrow> trim_space n = n"
  by (rule trim_space_bytes) (auto dest: domain_wf_chars domain_char_plain(3))

lemma domain_wf_no_trailing_dot:
  assumes "domain_wf n"
  shows "\<not> suffix ''.'' n"
proof
  assume "suffix ''.'' n"
  then obtain m where "n = m @ CHR ''.'' # []"
    by (auto simp: suffix_def)
  then have "split_on (CHR ''.'') n = split_on (CHR ''.'') m @ [[]]"
    using split_on_append [of "CHR ''.''" m "[]"] by simp
  with assms show False
    by (simp add: domain_wf_def label_ok_def)
qed

lemma NormalizeDomain_Inr_wf: "NormalizeDomain d = Inr n \<Longrightarrow> domain_wf n"
  by (auto simp: NormalizeDomain_def domain_wf_def Let_def split: if_splits)

lemma domain_wf_accepts:
  assumes "domain_wf n"
  shows "list_ex (\<lambda>c. c \<in> {CHR '' '', tab, CHR 0x0D, newline, CHR ''/''}) n = False"
  using assms by (auto simp: list_ex_iff dest: domain_wf_chars domain_char_plain(4))

lemma NormalizeDomain_trimmed:
  assumes "domain_wf n" "trim_suffix ''.'' (trim_space (to_lower d)) = n"
  shows "NormalizeDomain d = Inr n"
  using assms domain_wf_accepts [OF assms(1)]
  by (simp add: NormalizeDomain_def Let_def domain_wf_def del: insert_iff)

lemma NormalizeDomain_fixed: "domain_wf n \<Longrightarrow> NormalizeDomain n = Inr n"
  by (rule NormalizeDomain_trimmed)
    (simp_all add: domain_wf_to_lower domain_wf_trim trim_suffix_id domain_wf_no_trailing_dot)

lemma NormalizeDomain_fixed_iff: "NormalizeDomain n = Inr n \<longleftrightarrow> domain_wf n"
  using NormalizeDomain_fixed NormalizeDomain_Inr_wf by blast

text \<open>Spelling with upper-case letters, a trailing dot or surrounding white space does not matter.\<close>

lemma lower_upper_char: "domain_char c \<Longrightarrow> lower_char (upper_char c) = c"
  by (drule domain_char_code) (auto simp: lower_char_def upper_char_def is_upper_def is_lower_def)

lemma upper_char_ascii: "domain_char c \<Longrightarrow> byte_of (upper_char c) < (128::nat)"
  by (drule domain_char_code) (auto simp: upper_char_def is_lower_def)

lemma to_lower_ascii:
  assumes "\<forall>c \<in> set s. byte_of c < (128::nat)"
  shows "to_lower s = map lower_char s"
  using assms
proof (induction s)
  case Nil
  then show ?case by (simp add: to_lower_def)
next
  case (Cons c cs)
  then have "c \<noteq> CHR 0xC4" "c \<noteq> CHR 0xE2"
    by auto
  with Cons show ?case
    by (simp add: to_lower_def)
qed

lemma to_lower_map_upper:
  assumes "\<forall>c \<in> set s. domain_char c"
  shows "to_lower (map upper_char s) = s"
proof -
  have "to_lower (map upper_char s) = map lower_char (map upper_char s)"
    using assms by (intro to_lower_ascii) (auto dest: upper_char_ascii)
  also have "\<dots> = s"
    using assms by (simp add: lower_upper_char map_idI)
  finally show ?thesis .
qed

lemma NormalizeDomain_upper:
  assumes "domain_wf n"
  shows "NormalizeDomain (map upper_char n) = Inr n"
proof (rule NormalizeDomain_trimmed [OF assms])
  have "to_lower (map upper_char n) = n"
    using assms by (intro to_lower_map_upper) (blast dest: domain_wf_chars)
  then show "trim_suffix ''.'' (trim_space (to_lower (map upper_char n))) = n"
    by (simp add: assms domain_wf_trim trim_suffix_id domain_wf_no_trailing_dot)
qed

lemma NormalizeDomain_dot:
  assumes "domain_wf n"
  shows "NormalizeDomain (n @ ''.'') = Inr n"
proof (rule NormalizeDomain_trimmed [OF assms])
  have chars: "\<forall>c \<in> set (n @ ''.''). domain_char c"
    using assms by (auto dest: domain_wf_chars simp: domain_char_def)
  then have "to_lower (n @ ''.'') = n @ ''.''"
    by (intro to_lower_id) (auto dest: domain_char_plain)
  moreover have "trim_space (n @ ''.'') = n @ ''.''"
    using chars by (intro trim_space_bytes) (auto dest: domain_char_plain(3))
  ultimately show "trim_suffix ''.'' (trim_space (to_lower (n @ ''.''))) = n"
    by simp
qed

section \<open>Canonical records\<close>

lemma ip_string_chars: "c \<in> set (ip_string ip) \<Longrightarrow> is_hex c \<or> c = CHR '':'' \<or> c = CHR ''.''"
  by (auto simp: ip_string_def v6_string_def is_hex_def split: option.splits prod.splits if_splits
      dest: hex_groups_chars v4_string_chars)

lemma ip_string_trim: "trim_space (ip_string ip) = ip_string ip"
  by (rule trim_space_bytes)
    (auto dest!: ip_string_chars simp: is_hex_def is_digit_def space_bytes_def)

lemma ip_string_nonempty: "ip_wf ip \<Longrightarrow> ip_string ip \<noteq> []"
  using parse_ip_string [of ip] by (auto simp: parse_ip_def addr_kind_def)

lemma record_type_fixed: "trim_space ''A'' = ''A''" "trim_space ''AAAA'' = ''AAAA''"
  by (rule trim_space_bytes; simp add: space_bytes_def)+

lemma NormalizeRecord_Inr:
  assumes "NormalizeRecord h t v = Inr (h', t', v')"
  obtains ip where "domain_wf h'" "t' = ''A'' \<or> t' = ''AAAA''" "ip_wf ip" "v' = ip_string ip"
    "t' = ''A'' \<longleftrightarrow> to4 ip \<noteq> None" "parse_ip (trim_space v) = Some ip"
  using assms
  by (auto simp: NormalizeRecord_def Let_def split: sum.splits if_splits option.splits
      dest: NormalizeDomain_Inr_wf parse_ip_wf)

lemma NormalizeRecord_fixed:
  assumes "domain_wf h" "t = ''A'' \<or> t = ''AAAA''" "ip_wf ip" "t = ''A'' \<longleftrightarrow> to4 ip \<noteq> None"
  shows "NormalizeRecord h t (ip_string ip) = Inr (h, t, ip_string ip)"
proof -
  have "to_upper (trim_space t) = t"
    using assms(2) by (auto simp: record_type_fixed to_upper_def upper_char_def is_lower_def)
  with assms show ?thesis
    by (auto simp: NormalizeRecord_def Let_def NormalizeDomain_fixed ip_string_trim ip_string_nonempty
        parse_ip_string)
qed

section \<open>Properties\<close>


lemma NormalizeDomain_example: "NormalizeDomain '' Ads.Example-1.COM. '' = Inr ''ads.example-1.com''"
  by code_simp


text \<open>
  A record that \<^verbatim>\<open>NormalizeRecord\<close> accepts is stored in canonical form: the host is a canonical domain,
  an A record holds an IPv4 address and an AAAA record one that is not IPv4, the value is the printed
  form of the parsed address, and normalising the stored record again changes nothing. Rendering the
  local hosts file normalises every stored record, so it can neither fail on nor alter such a record.
\<close>

theorem NormalizeRecord_idempotent:
  assumes "NormalizeRecord hostname typ value = Inr (h, t, v)"
  shows "domain_wf h
    \<and> (t = ''A'' \<or> t = ''AAAA'')
    \<and> (\<exists>ip. parse_ip (trim_space value) = Some ip \<and> v = ip_string ip \<and> (t = ''A'') = (to4 ip \<noteq> None))
    \<and> NormalizeRecord h t v = Inr (h, t, v)"
proof -
  obtain ip where "domain_wf h" "t = ''A'' \<or> t = ''AAAA''" "ip_wf ip" "v = ip_string ip"
    "t = ''A'' \<longleftrightarrow> to4 ip \<noteq> None" "parse_ip (trim_space value) = Some ip"
    using NormalizeRecord_Inr [OF assms] by blast
  then show ?thesis
    using NormalizeRecord_fixed by auto
qed

lemma NormalizeRecord_example_parts:
  "NormalizeDomain ''NAS.home'' = Inr ''nas.home''"
  "to_upper (trim_space ''aaaa'') = ''AAAA''"
  "trim_space ''fe80:0:00::0001'' = ''fe80:0:00::0001''"
  by code_simp+

lemma NormalizeRecord_example:
  "NormalizeRecord ''NAS.home'' ''aaaa'' ''fe80:0:00::0001'' = Inr (''nas.home'', ''AAAA'', ''fe80::1'')"
proof -
  have "parse_ip ''fe80:0:00::0001'' = Some [65152, 0, 0, 0, 0, 0, 0, 1]"
    by (simp add: net_eval)
  moreover have "ip_string [65152, 0, 0, 0, 0, 0, 0, 1] = ''fe80::1''"
    by (simp add: net_print_eval)
  ultimately show ?thesis
    by (simp add: NormalizeRecord_def NormalizeRecord_example_parts to4_def)
qed

theorem NormalizeRecord_idempotent_witness:
  "NormalizeRecord ''NAS.home'' ''aaaa'' ''fe80:0:00::0001'' = Inr (''nas.home'', ''AAAA'', ''fe80::1'')
    \<and> NormalizeRecord ''nas.home'' ''AAAA'' ''fe80::1'' = Inr (''nas.home'', ''AAAA'', ''fe80::1'')"
  using NormalizeRecord_idempotent [OF NormalizeRecord_example] NormalizeRecord_example by simp

end
