(* ===== verification/Go_Time.thy ===== *)
theory Go_Time
  imports Go_Strings
begin

text \<open>
  The part of Go's \<^verbatim>\<open>time\<close> package that Faro calls. An instant (\<^verbatim>\<open>time.Time\<close>) is the number of
  nanoseconds since the Unix epoch, an \<^typ>\<open>int\<close>; a duration is a number of nanoseconds. The zero value
  of \<^verbatim>\<open>time.Time\<close> is the instant \<open>zero_time\<close> (January 1 of year 1). Layouts are read as \<^verbatim>\<open>time.Parse\<close> reads
  them: an hour may have one digit, a fraction of a second may follow, other fields have fixed width.

  The time zone database is data of the host: a zone is a function from an instant to its offset from
  UTC in seconds, and \<open>load_location\<close> is a parameter of the definitions that use it.
\<close>

type_synonym time = int
type_synonym zone = "time \<Rightarrow> int"

definition second :: int where
  "second = 1000000000"

definition minute :: int where
  "minute = 60 * second"

definition hour :: int where
  "hour = 60 * minute"

definition zero_time :: time where
  "zero_time = - 62135596800 * second"

lemmas duration_defs = hour_def minute_def second_def

section \<open>The civil calendar\<close>

definition leap_year :: "int \<Rightarrow> bool" where
  "leap_year y = (y mod 4 = 0 \<and> (y mod 100 \<noteq> 0 \<or> y mod 400 = 0))"

definition days_in :: "int \<Rightarrow> nat \<Rightarrow> nat" where
  "days_in y m = (if m = 2 then (if leap_year y then 29 else 28)
     else if m \<in> {4, 6, 9, 11} then 30 else 31)"

definition days_from_civil :: "int \<Rightarrow> nat \<Rightarrow> nat \<Rightarrow> int" where
  "days_from_civil y m d =
     (let y' = (if m \<le> 2 then y - 1 else y);
          m' = (if m > 2 then int m - 3 else int m + 9);
          era = y' div 400; yoe = y' - era * 400;
          doy = (153 * m' + 2) div 5 + int d - 1
      in era * 146097 + yoe * 365 + yoe div 4 - yoe div 100 + doy - 719468)"

text \<open>Weekday numbers are Go's: Sunday is 0. January 1, 1970 was a Thursday.\<close>

definition weekday_of_day :: "int \<Rightarrow> nat" where
  "weekday_of_day z = nat ((z + 4) mod 7)"

definition local_seconds :: "zone \<Rightarrow> time \<Rightarrow> int" where
  "local_seconds z now = now div second + z now"

definition local_minute :: "zone \<Rightarrow> time \<Rightarrow> nat" where
  "local_minute z now = nat (local_seconds z now mod 86400 div 60)"

definition local_weekday :: "zone \<Rightarrow> time \<Rightarrow> nat" where
  "local_weekday z now = weekday_of_day (local_seconds z now div 86400)"

lemma local_minute_bound: "local_minute z now < 1440"
proof -
  have "local_seconds z now mod 86400 div 60 < 1440"
    using pos_mod_bound [of 86400 "local_seconds z now"] by linarith
  then show ?thesis
    unfolding local_minute_def by linarith
qed

lemma local_weekday_bound: "local_weekday z now < 7"
  by (simp add: local_weekday_def weekday_of_day_def nat_less_iff)

section \<open>Reading layouts\<close>

definition getnum :: "bool \<Rightarrow> string \<Rightarrow> (nat \<times> string) option" where
  "getnum fixed s = (case s of
     [] \<Rightarrow> None
   | c # cs \<Rightarrow>
       if \<not> is_digit c then None
       else (case cs of
               d # ds \<Rightarrow> if is_digit d then Some (10 * digit_value c + digit_value d, ds)
                 else if fixed then None else Some (digit_value c, cs)
             | [] \<Rightarrow> if fixed then None else Some (digit_value c, [])))"

definition field :: "bool \<Rightarrow> nat \<Rightarrow> nat \<Rightarrow> string \<Rightarrow> (nat \<times> string) option" where
  "field fixed lo hi s = (case getnum fixed s of
     None \<Rightarrow> None | Some (n, r) \<Rightarrow> if lo \<le> n \<and> n \<le> hi then Some (n, r) else None)"

text \<open>\<open>time.Parse("15:04", s)\<close>, read as minutes after midnight.\<close>

definition parse_clock :: "string \<Rightarrow> nat option" where
  "parse_clock s =
     Option.bind (field False 0 23 s) (\<lambda>(h, r).
     Option.bind (cut_prefix '':'' r) (\<lambda>r.
     Option.bind (field True 0 59 r) (\<lambda>(m, r).
     if r = [] then Some (h * 60 + m) else None)))"

definition year4 :: "string \<Rightarrow> (nat \<times> string) option" where
  "year4 s = (if length s < 4 \<or> \<not> list_all is_digit (take 4 s) then None
     else Some (digits_value (take 4 s), drop 4 s))"

definition fraction :: "string \<Rightarrow> int \<times> string" where
  "fraction s = (case s of
     c # d # ds \<Rightarrow>
       if c \<in> {CHR ''.'', CHR '',''} \<and> is_digit d
       then (let ns = take 9 (takeWhile is_digit (d # ds)) in
             (int (digits_value ns) * 10 ^ (9 - length ns), dropWhile is_digit (d # ds)))
       else (0, s)
   | _ \<Rightarrow> (0, s))"

definition zone_offset :: "string \<Rightarrow> (int \<times> string) option" where
  "zone_offset s =
     (if prefix ''Z'' s then Some (0, drop 1 s)
      else if length s < 6 \<or> s ! 3 \<noteq> CHR '':'' then None
      else
        Option.bind (field True 0 24 (take 2 (drop 1 s))) (\<lambda>(h, _).
        Option.bind (field True 0 60 (take 2 (drop 4 s))) (\<lambda>(m, _).
        let off = int (h * 60 + m) * 60 in
        if hd s = CHR ''+'' then Some (off, drop 6 s)
        else if hd s = CHR ''-'' then Some (- off, drop 6 s)
        else None)))"

text \<open>\<open>time.Parse(time.RFC3339, s)\<close>.\<close>

definition parse_rfc3339 :: "string \<Rightarrow> time option" where
  "parse_rfc3339 s =
     Option.bind (year4 s) (\<lambda>(y, r).
     Option.bind (cut_prefix ''-'' r) (\<lambda>r.
     Option.bind (field True 1 12 r) (\<lambda>(mo, r).
     Option.bind (cut_prefix ''-'' r) (\<lambda>r.
     Option.bind (field True 0 99 r) (\<lambda>(d, r).
     Option.bind (cut_prefix ''T'' r) (\<lambda>r.
     Option.bind (field False 0 23 r) (\<lambda>(h, r).
     Option.bind (cut_prefix '':'' r) (\<lambda>r.
     Option.bind (field True 0 59 r) (\<lambda>(mi, r).
     Option.bind (cut_prefix '':'' r) (\<lambda>r.
     Option.bind (field True 0 59 r) (\<lambda>(sec, r).
     Option.bind (zone_offset (snd (fraction r))) (\<lambda>(off, r').
     if r' \<noteq> [] \<or> d < 1 \<or> d > days_in (int y) mo then None
     else Some ((days_from_civil (int y) mo d * 86400 + int (h * 3600 + mi * 60 + sec) - off) * second
                + fst (fraction r))))))))))))))"

section \<open>Writing layouts\<close>

definition civil_from_days :: "int \<Rightarrow> int \<times> nat \<times> nat" where
  "civil_from_days z0 =
     (let z = z0 + 719468; era = z div 146097; doe = z - era * 146097;
          yoe = (doe - doe div 1460 + doe div 36524 - doe div 146096) div 365;
          doy = doe - (365 * yoe + yoe div 4 - yoe div 100);
          mp = (5 * doy + 2) div 153;
          d = doy - (153 * mp + 2) div 5 + 1;
          m = (if mp < 10 then mp + 3 else mp - 9)
      in (yoe + era * 400 + (if m \<le> 2 then 1 else 0), nat m, nat d))"

definition pad :: "nat \<Rightarrow> nat \<Rightarrow> string" where
  "pad w n = replicate (w - length (nat_to_string n)) (CHR ''0'') @ nat_to_string n"

definition format_with :: "string \<Rightarrow> string \<Rightarrow> time \<Rightarrow> string" where
  "format_with sep tail t =
     (let secs = t div second; (y, mo, d) = civil_from_days (secs div 86400); sod = nat (secs mod 86400) in
      pad 4 (nat y) @ ''-'' @ pad 2 mo @ ''-'' @ pad 2 d @ sep @ pad 2 (sod div 3600) @ '':'' @
      pad 2 (sod div 60 mod 60) @ '':'' @ pad 2 (sod mod 60) @ tail)"

text \<open>An instant in UTC under the layouts \<^verbatim>\<open>time.RFC3339\<close> and \<^verbatim>\<open>"2006-01-02 15:04:05"\<close>, years 0 to 9999.\<close>

definition format_rfc3339 :: "time \<Rightarrow> string" where
  "format_rfc3339 t = format_with ''T'' ''Z'' t"

definition format_datetime :: "time \<Rightarrow> string" where
  "format_datetime t = format_with '' '' '''' t"

definition nano_fraction :: "time \<Rightarrow> string" where
  "nano_fraction t =
     (let ns = nat_to_string (nat (t mod second));
          padded = replicate (9 - length ns) (CHR ''0'') @ ns;
          digits = rev (dropWhile (\<lambda>c. c = CHR ''0'') (rev padded)) in
      if digits = [] then [] else CHR ''.'' # digits)"

definition format_rfc3339nano :: "time \<Rightarrow> string" where
  "format_rfc3339nano t = format_with ''T'' (nano_fraction t @ ''Z'') t"

section \<open>Facts about clock values\<close>

lemma field_bounds: "field f lo hi s = Some (n, r) \<Longrightarrow> lo \<le> n \<and> n \<le> hi"
  by (auto simp: field_def split: option.splits if_splits)

lemma parse_clock_bound: "parse_clock s = Some m \<Longrightarrow> m < 1440"
  by (auto simp: parse_clock_def bind_eq_Some_conv split: if_splits dest!: field_bounds)

end
