(* ===== verification/Protection_Time.thy ===== *)
theory Protection_Time
  imports Go_Time
begin

text \<open>
  \<^verbatim>\<open>internal/protectiontime/protectiontime.go\<close>: when a protection profile filters. A schedule is a
  recurring local window on chosen weekdays; a window whose end is not after its start runs past
  midnight and belongs to the day on which it starts. The abstract reading is \<open>in_windows\<close>: the minute
  of the week lies in one of the windows that open on the chosen days.
\<close>

record Schedule =
  Enabled :: bool
  Days :: string
  Start :: string
  End :: string
  Timezone :: string

datatype schedule_error =
    ChooseScheduleDay
  | InvalidScheduleStart
  | InvalidScheduleEnd
  | StartEqualsEnd
  | UnknownTimezone

definition day_values :: "string \<Rightarrow> int list" where
  "day_values value = List.map_filter (\<lambda>raw. atoi (trim_space raw)) (split_on (CHR '','') value)"

definition normalizeDays :: "string \<Rightarrow> string" where
  "normalizeDays value =
     join '','' (map itoa (filter (\<lambda>day. day \<in> set (filter (\<lambda>d. 1 \<le> d \<and> d \<le> 7) (day_values value)))
       [1, 2, 3, 4, 5, 6, 7]))"

definition clockMinutes :: "string \<Rightarrow> nat option" where
  "clockMinutes value = parse_clock value"

definition containsDay :: "string \<Rightarrow> int \<Rightarrow> bool" where
  "containsDay days day = list_ex (\<lambda>value. trim_space value = itoa day) (split_on (CHR '','') days)"

definition isoWeekday :: "nat \<Rightarrow> int" where
  "isoWeekday day = (if day = 0 then 7 else int day)"

text \<open>\<open>Validate\<close> returns the normalised schedule together with the error, if any.\<close>

definition Validate :: "(string \<Rightarrow> zone option) \<Rightarrow> Schedule \<Rightarrow> Schedule \<times> schedule_error option" where
  "Validate load_location s =
     (let tz = trim_space (Timezone s);
          s' = s\<lparr>Days := normalizeDays (Days s), Start := trim_space (Start s), End := trim_space (End s),
                 Timezone := (if tz = [] then ''UTC'' else tz)\<rparr> in
      if \<not> Enabled s' then (s', None)
      else if Days s' = [] then (s', Some ChooseScheduleDay)
      else if clockMinutes (Start s') = None then (s', Some InvalidScheduleStart)
      else if clockMinutes (End s') = None then (s', Some InvalidScheduleEnd)
      else if Start s' = End s' then (s', Some StartEqualsEnd)
      else if load_location (Timezone s') = None then (s', Some UnknownTimezone)
      else (s', None))"

definition ActiveAt :: "(string \<Rightarrow> zone option) \<Rightarrow> Schedule \<Rightarrow> time \<Rightarrow> bool" where
  "ActiveAt load_location s now =
     (if \<not> Enabled s then True
      else (case load_location (Timezone s) of
        None \<Rightarrow> False
      | Some location \<Rightarrow>
          (case (clockMinutes (Start s), clockMinutes (End s)) of
             (Some start, Some finish) \<Rightarrow>
               (let min = local_minute location now; today = isoWeekday (local_weekday location now) in
                if start < finish then containsDay (Days s) today \<and> min \<ge> start \<and> min < finish
                else if min \<ge> start then containsDay (Days s) today
                else
                  let previous = (if today - 1 = 0 then 7 else today - 1) in
                  min < finish \<and> containsDay (Days s) previous)
           | _ \<Rightarrow> False)))"

definition PausedAt :: "string \<Rightarrow> time \<Rightarrow> bool" where
  "PausedAt pausedUntil now =
     (let p = trim_space pausedUntil in
      if p = [] then False
      else (case parse_rfc3339 p of None \<Rightarrow> False | Some until \<Rightarrow> now < until))"

section \<open>Days\<close>

definition day_set :: "string \<Rightarrow> int set" where
  "day_set value = {d \<in> set (day_values value). 1 \<le> d \<and> d \<le> 7}"

lemma itoa_no_comma: "0 \<le> d \<Longrightarrow> CHR '','' \<notin> set (itoa d)"
  using itoa_chars [of d] by (auto simp: list_all_iff is_digit_def)

lemma itoa_trim: "0 \<le> d \<Longrightarrow> trim_space (itoa d) = itoa d"
  using itoa_chars [of d]
  by (intro trim_space_bytes) (auto simp: list_all_iff is_digit_def space_bytes_def)

lemma split_on_itoas:
  assumes "ds \<noteq> []" "\<forall>d \<in> set ds. 0 \<le> d"
  shows "split_on (CHR '','') (join '','' (map itoa ds)) = map itoa ds"
proof (rule split_on_join)
  show "map itoa ds \<noteq> []"
    using assms by simp
qed (auto simp: itoa_no_comma assms)

lemma containsDay_join:
  assumes "\<forall>d \<in> set ds. 0 \<le> d" "0 \<le> day"
  shows "containsDay (join '','' (map itoa ds)) day \<longleftrightarrow> day \<in> set ds"
proof (cases "ds = []")
  case True
  have "itoa day \<noteq> []"
    using itoa_chars [OF assms(2)] by simp
  moreover have "trim_space [] = []"
    by (rule trim_space_bytes) simp
  ultimately show ?thesis
    using True by (simp add: containsDay_def)
next
  case False
  have "containsDay (join '','' (map itoa ds)) day \<longleftrightarrow> (\<exists>d \<in> set ds. trim_space (itoa d) = itoa day)"
    unfolding containsDay_def split_on_itoas [OF False assms(1)] by (auto simp: list_ex_iff)
  also have "\<dots> \<longleftrightarrow> (\<exists>d \<in> set ds. d = day)"
    using assms by (intro bex_cong refl) (simp add: itoa_trim itoa_inject)
  finally show ?thesis
    by simp
qed

definition week_days :: "string \<Rightarrow> int list" where
  "week_days value = filter (\<lambda>day. day \<in> day_set value) [1, 2, 3, 4, 5, 6, 7]"

lemma normalizeDays_eq: "normalizeDays value = join '','' (map itoa (week_days value))"
  by (simp add: normalizeDays_def week_days_def day_set_def)

lemma set_week_days: "set (week_days value) = day_set value"
proof -
  have "day_set value \<subseteq> {1..7}"
    by (auto simp: day_set_def)
  also have "{1..7::int} = set [1, 2, 3, 4, 5, 6, 7]"
    by (simp add: set_eq_iff) presburger
  finally show ?thesis
    unfolding week_days_def set_filter by blast
qed

lemma containsDay_normalizeDays: "0 \<le> day \<Longrightarrow> containsDay (normalizeDays value) day \<longleftrightarrow> day \<in> day_set value"
  unfolding normalizeDays_eq
  by (subst containsDay_join) (auto simp: set_week_days day_set_def)

lemma day_values_join:
  assumes "\<forall>d \<in> set ds. 0 \<le> d \<and> d < 2 ^ 63"
  shows "set (day_values (join '','' (map itoa ds))) = set ds"
proof (cases "ds = []")
  case True
  have "trim_space [] = []"
    by (rule trim_space_bytes) simp
  with True show ?thesis
    by (simp add: day_values_def List.map_filter_simps atoi_def)
next
  case False
  have "List.map_filter (\<lambda>raw. atoi (trim_space raw)) (map itoa ds) = ds"
    using assms
    by (induction ds) (auto simp: List.map_filter_simps itoa_trim atoi_itoa)
  then show ?thesis
    using assms False by (simp add: day_values_def split_on_itoas)
qed

lemma normalizeDays_idem: "normalizeDays (normalizeDays value) = normalizeDays value"
proof -
  have "set (day_values (normalizeDays value)) = set (week_days value)"
    unfolding normalizeDays_eq by (rule day_values_join) (auto simp: set_week_days day_set_def)
  then have "day_set (normalizeDays value) = day_set value"
    by (auto simp: day_set_def set_week_days)
  then show ?thesis
    unfolding normalizeDays_eq week_days_def by metis
qed

section \<open>Windows of the week\<close>

text \<open>
  The abstract reading. A week has 10080 minutes, counted from Monday 00:00. A window opens at a start
  minute of a chosen day and lasts up to its end, which is on the next day when it is not after the start.
\<close>

definition window_length :: "int \<Rightarrow> int \<Rightarrow> int" where
  "window_length start finish = (if start < finish then finish - start else 1440 - start + finish)"

definition in_windows :: "int set \<Rightarrow> int \<Rightarrow> int \<Rightarrow> int \<Rightarrow> bool" where
  "in_windows ds start finish wm =
     (\<exists>d \<in> ds. (wm - ((d - 1) * 1440 + start)) mod 10080 < window_length start finish)"

definition week_minute :: "zone \<Rightarrow> time \<Rightarrow> int" where
  "week_minute z now = (isoWeekday (local_weekday z now) - 1) * 1440 + int (local_minute z now)"

lemma isoWeekday_range: "w < 7 \<Longrightarrow> 1 \<le> isoWeekday w \<and> isoWeekday w \<le> 7"
  by (auto simp: isoWeekday_def)

lemma mod_week:
  fixes x :: int
  assumes "- 10080 < x" "x < 10080"
  shows "x mod 10080 = (if x < 0 then x + 10080 else x)"
proof (cases "x < 0")
  case True
  with assms have "(x + 10080) mod 10080 = x + 10080"
    by (intro mod_pos_pos_trivial) auto
  with True show ?thesis
    by simp
qed (simp add: assms)

lemma window_cases:
  fixes today d m start finish x :: int
  assumes "1 \<le> today" "today \<le> 7" "1 \<le> d" "d \<le> 7"
    "0 \<le> m" "m < 1440" "0 \<le> start" "start < 1440" "0 \<le> finish" "finish < 1440"
    and x_def: "x = (today - 1) * 1440 + m - ((d - 1) * 1440 + start)"
  shows "(if x < 0 then x + 10080 else x) < window_length start finish \<longleftrightarrow>
    (if start < finish then d = today \<and> start \<le> m \<and> m < finish
     else d = today \<and> start \<le> m \<or> d = (if today - 1 = 0 then 7 else today - 1) \<and> m < finish)"
proof -
  consider "today - d = 0" | "today - d = 1" | "today - d = - 6" | "2 \<le> today - d"
    | "today - d \<le> - 1" "- 5 \<le> today - d"
    using assms by linarith
  then show ?thesis
  proof cases
    case 1
    then have "x = m - start" "d = today"
      by (simp_all add: x_def)
    with assms show ?thesis
      by (auto simp: window_length_def)
  next
    case 2
    then have "x = 1440 + m - start" "d = today - 1" "today \<noteq> 1"
      using assms by (simp_all add: x_def algebra_simps)
    with assms show ?thesis
      by (auto simp: window_length_def)
  next
    case 3
    then have "x = 1440 + m - start - 10080" "d = 7" "today = 1"
      using assms by (simp_all add: x_def algebra_simps)
    with assms show ?thesis
      by (auto simp: window_length_def)
  next
    case 4
    then have "2880 + m - start \<le> x"
      by (simp add: x_def algebra_simps)
    with 4 assms show ?thesis
      by (auto simp: window_length_def)
  next
    case 5
    then have "x \<le> m - start - 1440" "2880 + m - start \<le> x + 10080"
      by (simp_all add: x_def algebra_simps)
    with 5 assms show ?thesis
      by (auto simp: window_length_def)
  qed
qed

lemma in_one_window:
  fixes today d m start finish :: int
  assumes "1 \<le> today" "today \<le> 7" "1 \<le> d" "d \<le> 7"
    "0 \<le> m" "m < 1440" "0 \<le> start" "start < 1440" "0 \<le> finish" "finish < 1440"
  shows "((today - 1) * 1440 + m - ((d - 1) * 1440 + start)) mod 10080 < window_length start finish \<longleftrightarrow>
    (if start < finish then d = today \<and> start \<le> m \<and> m < finish
     else d = today \<and> start \<le> m \<or> d = (if today - 1 = 0 then 7 else today - 1) \<and> m < finish)"
proof (subst mod_week)
  show "- 10080 < (today - 1) * 1440 + m - ((d - 1) * 1440 + start)"
    using assms by (simp add: algebra_simps)
  show "(today - 1) * 1440 + m - ((d - 1) * 1440 + start) < 10080"
    using assms by (simp add: algebra_simps)
qed (rule window_cases [OF assms refl])

lemma ActiveAt_in_windows:
  assumes "Enabled s" "load_location (Timezone s) = Some z"
    "clockMinutes (Start s) = Some start" "clockMinutes (End s) = Some finish"
    "\<And>day. 0 \<le> day \<Longrightarrow> containsDay (Days s) day \<longleftrightarrow> day \<in> ds" "ds \<subseteq> {1..7}"
  shows "ActiveAt load_location s now \<longleftrightarrow> in_windows ds (int start) (int finish) (week_minute z now)"
proof -
  define today where "today = isoWeekday (local_weekday z now)"
  define m where "m = local_minute z now"
  have today: "1 \<le> today" "today \<le> 7"
    unfolding today_def using isoWeekday_range [OF local_weekday_bound] by simp_all
  have m: "m < 1440" and clocks: "start < 1440" "finish < 1440"
    using local_minute_bound [of z now] assms(3,4) parse_clock_bound
    by (auto simp: m_def clockMinutes_def)
  define previous where "previous = (if today - 1 = 0 then 7 else today - 1)"
  then have "0 \<le> previous"
    using today by (simp add: previous_def)
  moreover have "0 \<le> today"
    using today by simp
  ultimately have days: "containsDay (Days s) today \<longleftrightarrow> today \<in> ds"
    "containsDay (Days s) previous \<longleftrightarrow> previous \<in> ds"
    using assms(5) by simp_all
  have "in_windows ds (int start) (int finish) (week_minute z now) \<longleftrightarrow>
     (\<exists>d \<in> ds. if int start < int finish then d = today \<and> int start \<le> int m \<and> int m < int finish
      else d = today \<and> int start \<le> int m \<or> d = previous \<and> int m < int finish)"
    unfolding in_windows_def week_minute_def today_def [symmetric] m_def [symmetric] previous_def
    using today m clocks assms(6) by (intro bex_cong refl in_one_window) auto
  also have "\<dots> \<longleftrightarrow> ActiveAt load_location s now"
    using assms(1-4) days unfolding ActiveAt_def
    by (auto simp: Let_def today_def [symmetric] m_def [symmetric] previous_def)
  finally show ?thesis ..
qed

section \<open>Validation\<close>

lemma Validate_normalises:
  "Validate load_location s = (s', e) \<Longrightarrow>
     Days s' = normalizeDays (Days s) \<and> Start s' = trim_space (Start s) \<and> End s' = trim_space (End s) \<and>
     Timezone s' = (if trim_space (Timezone s) = [] then ''UTC'' else trim_space (Timezone s)) \<and>
     Enabled s' = Enabled s"
  by (auto simp: Validate_def Let_def split: if_splits)

lemma Validate_accepts:
  assumes "Validate load_location s = (s', None)" "Enabled s"
  obtains start finish z where
    "clockMinutes (Start s') = Some start" "clockMinutes (End s') = Some finish"
    "load_location (Timezone s') = Some z" "Days s' \<noteq> []" "Start s' \<noteq> End s'"
  using assms by (auto simp: Validate_def Let_def split: if_splits)

lemma trim_UTC: "trim_space ''UTC'' = ''UTC''"
  by code_simp

text \<open>
  C7. A schedule that \<open>Validate\<close> accepts is active exactly inside its weekly windows: with both clock
  values and the zone known, \<open>ActiveAt\<close> holds iff the local minute of the week lies in a window that opens
  at the start on one of the chosen days and lasts to the end, across midnight (and across the end of the
  week) when the end is not after the start.
\<close>

theorem ActiveAt_windows:
  assumes "Validate load_location s = (s', None)" "Enabled s"
  shows "\<exists>start finish z. clockMinutes (Start s') = Some start \<and> clockMinutes (End s') = Some finish \<and>
    load_location (Timezone s') = Some z \<and> start < 1440 \<and> finish < 1440 \<and>
    (\<forall>now. ActiveAt load_location s' now \<longleftrightarrow>
       in_windows (day_set (Days s)) (int start) (int finish) (week_minute z now))"
proof -
  obtain start finish z where ok: "clockMinutes (Start s') = Some start" "clockMinutes (End s') = Some finish"
    "load_location (Timezone s') = Some z"
    using Validate_accepts [OF assms] .
  have norm: "Days s' = normalizeDays (Days s)" "Enabled s'"
    using Validate_normalises [OF assms(1)] assms(2) by simp_all
  have "ActiveAt load_location s' now \<longleftrightarrow>
       in_windows (day_set (Days s)) (int start) (int finish) (week_minute z now)" for now
    using norm ok
    by (intro ActiveAt_in_windows) (auto simp: containsDay_normalizeDays day_set_def)
  with ok show ?thesis
    using parse_clock_bound by (fastforce simp: clockMinutes_def)
qed

definition utc_only :: "string \<Rightarrow> zone option" where
  "utc_only name = (if name = ''UTC'' then Some (\<lambda>_. 0) else None)"

definition school_night :: Schedule where
  "school_night = \<lparr>Enabled = True, Days = ''7, 1,1'', Start = '' 21:30'', End = ''6:00'', Timezone = []\<rparr>"

lemma school_night_valid:
  "Validate utc_only school_night =
     (\<lparr>Enabled = True, Days = ''1,7'', Start = ''21:30'', End = ''6:00'', Timezone = ''UTC''\<rparr>, None)"
  by code_simp

theorem ActiveAt_windows_witness:
  "\<exists>start finish z. clockMinutes ''21:30'' = Some start \<and> clockMinutes ''6:00'' = Some finish \<and>
    utc_only ''UTC'' = Some z \<and> start < 1440 \<and> finish < 1440 \<and>
    (\<forall>now. ActiveAt utc_only \<lparr>Enabled = True, Days = ''1,7'', Start = ''21:30'', End = ''6:00'', Timezone = ''UTC''\<rparr> now \<longleftrightarrow>
       in_windows (day_set ''7, 1,1'') (int start) (int finish) (week_minute z now))"
  using ActiveAt_windows [OF school_night_valid] by (simp add: school_night_def)

text \<open>
  \<open>Validate\<close> normalises once and for all: validating the schedule it returns gives the same schedule
  and the same verdict.
\<close>

theorem Validate_idempotent:
  "Validate load_location (fst (Validate load_location s)) = Validate load_location s"
proof -
  obtain s' e where v: "Validate load_location s = (s', e)"
    by fastforce
  note n = Validate_normalises [OF v]
  have fixed: "normalizeDays (Days s') = Days s'" "trim_space (Start s') = Start s'"
    "trim_space (End s') = End s'" "trim_space (Timezone s') = Timezone s'" "Timezone s' \<noteq> []"
    using n by (auto simp: normalizeDays_idem trim_space_idem trim_UTC)
  show ?thesis
    using v n fixed unfolding Validate_def by (auto simp: Let_def split: if_splits)
qed

text \<open>
  The comparison of start and end in \<open>Validate\<close> is on the texts, and the hour of a clock value may have one digit: a
  schedule from 9:30 to 09:30 passes validation, and its window lasts a whole day.
\<close>

theorem Validate_misses_equal_clocks:
  "Validate utc_only \<lparr>Enabled = True, Days = ''1'', Start = ''9:30'', End = ''09:30'', Timezone = ''UTC''\<rparr> =
     (\<lparr>Enabled = True, Days = ''1'', Start = ''9:30'', End = ''09:30'', Timezone = ''UTC''\<rparr>, None) \<and>
   clockMinutes ''9:30'' = clockMinutes ''09:30'' \<and> window_length 570 570 = 1440"
  by code_simp

end
