(* ===== verification/Faro_Store.thy ===== *)
theory Faro_Store
  imports Domain_Names Protection_Time
begin

text \<open>
  The SQLite database (\<^verbatim>\<open>internal/db/db.go\<close>, \<^verbatim>\<open>internal/db/migrations.go\<close>, \<^verbatim>\<open>internal/db/activity.go\<close>). A table is
  the list of its rows in rowid order, a row is a record of the columns that modelled code reads or
  writes, and \<open>sqlite_sequence\<close> is SQLite's own table of the last AUTOINCREMENT value of each table.
  The constraints of the schema are \<open>store_wf\<close>.

  The functions of the host that the queries use are parameters, collected in the record \<open>host\<close>: the time
  zone database, and SQLite's \<^verbatim>\<open>julianday\<close> and \<^verbatim>\<open>datetime\<close> on a text, in milliseconds and seconds since
  the epoch (\<^const>\<open>None\<close> is SQL NULL). A failure of the database itself (a lost file, a cancelled context) is
  not a value of the model, except where a theory says so.
\<close>

record host =
  load_location :: "string \<Rightarrow> zone option"
  julianday :: "string \<Rightarrow> int option"
  sql_datetime :: "string \<Rightarrow> int option"

section \<open>Rows\<close>

record dns_record =
  dr_id :: int
  dr_hostname :: string
  dr_type :: string
  dr_value :: string
  dr_description :: string
  dr_created_at :: string
  dr_updated_at :: string

record blocklist =
  bl_id :: int
  bl_name :: string
  bl_url :: string
  bl_enabled :: bool
  bl_last_refreshed_at :: "string option"
  bl_updated_at :: string

record blocklist_entry =
  be_id :: int
  be_blocklist_id :: int
  be_domain :: string
  be_created_at :: string

record protection_profile =
  pp_id :: int
  pp_name :: string
  pp_is_default :: bool
  pp_paused_until :: string
  pp_schedule :: Schedule
  pp_icon :: string
  pp_created_at :: string
  pp_updated_at :: string

record protection_entry =
  pe_id :: int
  pe_protection_id :: int
  pe_domain :: string
  pe_created_at :: string

record device =
  dv_id :: int
  dv_name :: string
  dv_location :: "string option"
  dv_notes :: "string option"
  dv_confirmed :: bool
  dv_first_seen_at :: "string option"
  dv_last_seen_at :: "string option"

record device_address =
  da_id :: int
  da_device_id :: int
  da_address :: string
  da_family :: string
  da_source :: string
  da_last_seen_at :: string

record device_identifier =
  di_device_id :: int
  di_kind :: string
  di_value :: string
  di_source :: string
  di_confidence :: string

record troubleshooting_exception =
  te_id :: int
  te_device_id :: int
  te_protection_id :: int
  te_domain :: string
  te_expires_at :: string
  te_token :: string
  te_client_ip :: string

record dns_query =
  q_id :: int
  q_timestamp :: string
  q_client_ip :: string
  q_device_id :: "int option"
  q_domain :: string
  q_query_type :: string
  q_action :: string
  q_source :: string
  q_upstream :: string
  q_latency_us :: int
  q_rcode :: string
  q_decision_reason :: string
  q_decision_metadata :: string

record event =
  ev_id :: int
  ev_timestamp :: string
  ev_type :: string
  ev_severity :: string
  ev_title :: string
  ev_description :: string
  ev_client_ip :: "string option"
  ev_domain :: "string option"
  ev_metadata :: string
  ev_source :: string

record Store =
  dns_records :: "dns_record list"
  blocklists :: "blocklist list"
  blocklist_entries :: "blocklist_entry list"
  protection_profiles :: "protection_profile list"
  protection_blocklists :: "(int \<times> int) list"
  protection_allow_entries :: "protection_entry list"
  protection_block_entries :: "protection_entry list"
  device_protection_assignments :: "(string, int) gomap"
  devices :: "device list"
  device_addresses :: "device_address list"
  device_identifiers :: "device_identifier list"
  device_names :: "((int \<times> string), string) gomap"
  unifi_client_snapshots :: "((string \<times> string), int) gomap"
  device_classifications :: "(int, string) gomap"
  device_protection_memberships :: "(int, int) gomap"
  device_dns_pauses :: "(int, string) gomap"
  troubleshooting_exceptions :: "troubleshooting_exception list"
  allowlist_entries :: "string list"
  manual_block_entries :: "string list"
  dns_queries :: "dns_query list"
  events :: "event list"
  notification_states :: "((int \<times> string), string) gomap"
  settings :: "(string, string) gomap"
  redundancy_role :: string
  query_log_progress :: "(string, string \<times> int) gomap"
  sqlite_sequence :: "(string, int) gomap"

section \<open>The constraints of the schema\<close>

definition store_wf :: "Store \<Rightarrow> bool" where
  "store_wf s \<longleftrightarrow>
     distinct (map dr_id (dns_records s)) \<and>
     distinct (map (\<lambda>r. (dr_hostname r, dr_type r, dr_value r)) (dns_records s)) \<and>
     distinct (map bl_id (blocklists s)) \<and>
     distinct (map (\<lambda>e. (be_blocklist_id e, be_domain e)) (blocklist_entries s)) \<and>
     set (map be_blocklist_id (blocklist_entries s)) \<subseteq> set (map bl_id (blocklists s)) \<and>
     distinct (map pp_id (protection_profiles s)) \<and>
     distinct (map (\<lambda>p. map lower_char (pp_name p)) (protection_profiles s)) \<and>
     length (filter pp_is_default (protection_profiles s)) \<le> 1 \<and>
     distinct (protection_blocklists s) \<and>
     distinct (map (\<lambda>e. (pe_protection_id e, pe_domain e)) (protection_allow_entries s)) \<and>
     distinct (map (\<lambda>e. (pe_protection_id e, pe_domain e)) (protection_block_entries s)) \<and>
     gm_wf (device_protection_assignments s) \<and>
     distinct (map da_address (device_addresses s)) \<and>
     gm_wf (device_protection_memberships s) \<and>
     set (map snd (device_protection_assignments s)) \<subseteq> set (map pp_id (protection_profiles s)) \<and>
     set (map snd (device_protection_memberships s)) \<subseteq> set (map pp_id (protection_profiles s)) \<and>
     gm_wf (device_dns_pauses s) \<and>
     gm_wf (settings s)"

definition setting :: "Store \<Rightarrow> string \<Rightarrow> string option" where
  "setting s key = gm_get (settings s) key"

definition put_setting :: "string \<Rightarrow> string \<Rightarrow> Store \<Rightarrow> Store" where
  "put_setting key value s = s\<lparr>settings := gm_put key value (settings s)\<rparr>"

text \<open>\<^verbatim>\<open>INSERT OR IGNORE INTO settings\<close>: an existing key keeps its value.\<close>

definition default_setting :: "string \<Rightarrow> string \<Rightarrow> Store \<Rightarrow> Store" where
  "default_setting key value s = (if setting s key = None then put_setting key value s else s)"

definition next_id :: "string \<Rightarrow> Store \<Rightarrow> int" where
  "next_id table s = (case gm_get (sqlite_sequence s) table of None \<Rightarrow> 1 | Some n \<Rightarrow> n + 1)"

definition bump :: "string \<Rightarrow> Store \<Rightarrow> Store" where
  "bump table s = s\<lparr>sqlite_sequence := gm_put table (next_id table s) (sqlite_sequence s)\<rparr>"

end
