(* ===== verification/CoreDNS_Files.thy ===== *)
theory CoreDNS_Files
  imports Faro_Store
begin

text \<open>
  The set of files that make up a CoreDNS configuration (\<^verbatim>\<open>internal/coredns/coredns.go\<close>,
  \<^verbatim>\<open>internal/coredns/diagnostics.go\<close>): which hosts files a Corefile names, when a set of files is
  complete, which names Faro may write or delete, and how a running CoreDNS reports its version.
  A set of files is a Go map from names to contents.
\<close>

type_synonym files = "(string, string) gomap"

datatype file_error =
    MissingRequiredBlock
  | UnsafeHostsFile string
  | NoHostsFiles
  | MissingHostsFile string
  | UnreferencedHostsFile string
  | InvalidFileCount
  | UnexpectedFile string
  | UnsafeFileName string
  | TooLarge

definition coreDNSPathPrefix :: string where
  "coreDNSPathPrefix = ''/etc/coredns/''"

text \<open>\<^verbatim>\<open>filepath.Base\<close> on a slash-separated path.\<close>

definition filepath_base :: "string \<Rightarrow> string" where
  "filepath_base p =
     (let q = rev (dropWhile (\<lambda>c. c = CHR ''/'') (rev p)) in
      if p = [] then ''.'' else if q = [] then ''/'' else last (split_on (CHR ''/'') q))"

definition line_hosts :: "string \<Rightarrow> file_error + string option" where
  "line_hosts line =
     (case go_fields (trim_space line) of
        f # path # _ \<Rightarrow>
          if f \<noteq> ''hosts'' then Inr None
          else (case cut_prefix coreDNSPathPrefix path of
                  None \<Rightarrow> Inr None
                | Some name \<Rightarrow>
                    if filepath_base name \<noteq> name \<or> \<not> suffix ''.hosts'' name
                    then Inl (UnsafeHostsFile name) else Inr (Some name))
      | _ \<Rightarrow> Inr None)"

definition corefileHostFiles :: "string \<Rightarrow> file_error + string list" where
  "corefileHostFiles corefile =
     rbind (rmap line_hosts (split_on newline corefile)) (\<lambda>names. Inr (sort_uniq (List.map_filter id names)))"

definition isManagedDNSFileName :: "string \<Rightarrow> bool" where
  "isManagedDNSFileName name \<longleftrightarrow>
     name = ''Corefile'' \<or> name = ''faro.hosts'' \<or> name = ''local.hosts'' \<or> name = ''blocklist.hosts'' \<or>
     prefix ''protection-'' name \<and> suffix ''.hosts'' name \<and> filepath_base name = name"

definition containsString :: "string list \<Rightarrow> string \<Rightarrow> bool" where
  "containsString values target = list_ex (\<lambda>value. value = target) values"

definition file_content :: "files \<Rightarrow> string \<Rightarrow> string" where
  "file_content files name = (case gm_get files name of None \<Rightarrow> [] | Some c \<Rightarrow> c)"

definition validateGeneratedFiles :: "files \<Rightarrow> file_error + unit" where
  "validateGeneratedFiles files =
     (let corefile = file_content files ''Corefile'' in
      if \<not> sublist ''.:53'' corefile \<or> \<not> sublist ''forward .'' corefile then Inl MissingRequiredBlock
      else rbind (corefileHostFiles corefile) (\<lambda>hostsFiles.
        if hostsFiles = [] then Inl NoHostsFiles
        else (case List.find (\<lambda>name. gm_get files name = None) hostsFiles of
                Some name \<Rightarrow> Inl (MissingHostsFile name)
              | None \<Rightarrow>
                  (case List.find (\<lambda>name. name \<noteq> ''Corefile'' \<and> \<not> containsString hostsFiles name) (gm_keys files) of
                     Some name \<Rightarrow> Inl (UnreferencedHostsFile name)
                   | None \<Rightarrow> Inr ()))))"

definition replica_name_ok :: "string \<Rightarrow> bool" where
  "replica_name_ok name \<longleftrightarrow>
     \<not> (name \<noteq> ''Corefile'' \<and> name \<noteq> ''faro.hosts'' \<and> name \<noteq> ''local.hosts'' \<and> name \<noteq> ''blocklist.hosts'' \<and>
        \<not> (prefix ''protection-'' name \<and> suffix ''.hosts'' name))"

fun replica_files :: "int \<Rightarrow> files \<Rightarrow> file_error + unit" where
  "replica_files used [] = Inr ()"
| "replica_files used ((name, content) # rest) =
     (if \<not> replica_name_ok name then Inl (UnexpectedFile name)
      else if filepath_base name \<noteq> name then Inl (UnsafeFileName name)
      else if used + int (length content) > 536870912 then Inl TooLarge
      else replica_files (used + int (length content)) rest)"

definition validateReplicaFiles :: "files \<Rightarrow> file_error + unit" where
  "validateReplicaFiles files =
     (if length files < 2 \<or> length files > 64 then Inl InvalidFileCount
      else rbind (replica_files 0 files) (\<lambda>_. validateGeneratedFiles files))"

section \<open>Rendered state and the files it becomes\<close>

record renderedFiles =
  Corefile :: string
  LocalHosts :: string
  BlockHosts :: string
  ProtectionHosts :: files

definition put_all :: "files \<Rightarrow> files \<Rightarrow> files" where
  "put_all new files = foldl (\<lambda>fs (name, content). gm_put name content fs) files new"

definition filesFromRenderedState :: "renderedFiles \<Rightarrow> files" where
  "filesFromRenderedState state =
     put_all (ProtectionHosts state)
       [(''Corefile'', Corefile state),
        (''faro.hosts'', LocalHosts state @ [newline] @ BlockHosts state),
        (''local.hosts'', LocalHosts state),
        (''blocklist.hosts'', BlockHosts state)]"

definition runtimeFilesFromRenderedState :: "renderedFiles \<Rightarrow> file_error + files" where
  "runtimeFilesFromRenderedState state =
     (let allFiles = filesFromRenderedState state in
      rbind (corefileHostFiles (Corefile state)) (\<lambda>hostFiles.
      rbind (rmap (\<lambda>name. of_option (MissingHostsFile name) (gm_get allFiles name)) hostFiles) (\<lambda>contents.
      Inr (put_all (zip hostFiles contents) [(''Corefile'', file_content allFiles ''Corefile'')]))))"

definition validationFiles :: "string \<Rightarrow> files \<Rightarrow> file_error + files" where
  "validationFiles stagingDir files =
     rbind (validateGeneratedFiles files) (\<lambda>_.
       let corefile = replace_all coreDNSPathPrefix (stagingDir @ ''/'') (file_content files ''Corefile'');
           corefile = replace_all ''.:53 {'' ''.:0 {'' corefile;
           corefile = replace_all ''prometheus 0.0.0.0:9153'' ''prometheus 127.0.0.1:0'' corefile
       in Inr (gm_put ''Corefile'' corefile files))"

section \<open>The version a running CoreDNS reports\<close>

definition metricLabel :: "string \<Rightarrow> string \<Rightarrow> string" where
  "metricLabel labels name =
     (let needle = name @ [CHR ''='', dquote] in
      case index_of needle labels of
        None \<Rightarrow> []
      | Some start \<Rightarrow>
          (case cut [dquote] (drop (start + length needle) labels) of None \<Rightarrow> [] | Some (value, _) \<Rightarrow> value))"

definition line_hash :: "string \<Rightarrow> string option" where
  "line_hash raw =
     (let line = trim_space raw in
      if \<not> prefix ''coredns_reload_version_info{'' line then None
      else (case cut ''}'' line of
              None \<Rightarrow> None
            | Some (labels, _) \<Rightarrow>
                if \<not> equal_fold (metricLabel labels ''hash'') ''sha512'' then None
                else (let value = metricLabel labels ''value'' in if value \<noteq> [] then Some value else None)))"

text \<open>The body is cut at 4 MiB before it is read.\<close>

definition reloadHashFromMetrics :: "string \<Rightarrow> string option" where
  "reloadHashFromMetrics body =
     (case List.map_filter line_hash (split_on newline (take 4194304 body)) of [] \<Rightarrow> None | v # _ \<Rightarrow> Some v)"

definition shortHash :: "string \<Rightarrow> string" where
  "shortHash hash = (if length hash \<le> 12 then hash else take 12 hash)"

definition compactOutput :: "string \<Rightarrow> string" where
  "compactOutput output =
     (let out = trim_space output in if length out > 4096 then drop (length out - 4096) out else out)"

definition fileNames :: "files \<Rightarrow> string list" where
  "fileNames files = sort (gm_keys files)"

section \<open>What the validators accept\<close>

lemma filepath_base_plain: "filepath_base name = name \<longleftrightarrow> name \<noteq> [] \<and> (CHR ''/'' \<notin> set name \<or> name = ''/'')"
proof (cases "CHR ''/'' \<in> set name")
  case True
  define q where "q = rev (dropWhile (\<lambda>c. c = CHR ''/'') (rev name))"
  have "CHR ''/'' \<notin> set (last (split_on (CHR ''/'') q))"
    using split_on_parts last_in_set split_on_nonempty by blast
  moreover have "name \<noteq> []"
    using True by auto
  moreover have "filepath_base ''/'' = ''/''"
    by code_simp
  ultimately show ?thesis
    using True by (cases "name = ''/''") (auto simp: filepath_base_def Let_def q_def [symmetric])
next
  case False
  then have "dropWhile (\<lambda>c. c = CHR ''/'') (rev name) = rev name"
    by (cases "rev name") auto
  with False show ?thesis
    by (auto simp: filepath_base_def Let_def split_on_free)
qed

definition hosts_name :: "string \<Rightarrow> bool" where
  "hosts_name name = (CHR ''/'' \<notin> set name \<and> suffix ''.hosts'' name)"

lemma line_hosts_name: "line_hosts line = Inr (Some name) \<Longrightarrow> hosts_name name"
  by (auto simp: line_hosts_def hosts_name_def filepath_base_plain split: list.splits option.splits if_splits
      dest: suffix_length_le)

lemma set_map_filter_id: "set (List.map_filter id xs) = {x. Some x \<in> set xs}"
  by (induction xs) (auto simp: List.map_filter_simps split: option.splits)

lemma corefileHostFiles_names:
  assumes "corefileHostFiles corefile = Inr names"
  shows "sorted names" "distinct names" "list_all hosts_name names"
proof -
  obtain ns where ns: "rmap line_hosts (split_on newline corefile) = Inr ns" "names = sort_uniq (List.map_filter id ns)"
    using assms by (auto simp: corefileHostFiles_def ok_iff)
  show "sorted names" "distinct names"
    by (simp_all add: ns)
  show "list_all hosts_name names"
    using rmap_in_result [OF ns(1)] line_hosts_name by (fastforce simp: ns(2) list_all_iff set_map_filter_id)
qed

text \<open>A complete configuration: what \<open>validateGeneratedFiles\<close> promises to CoreDNS.\<close>

definition complete_files :: "files \<Rightarrow> bool" where
  "complete_files files \<longleftrightarrow>
     (\<exists>corefile names. gm_get files ''Corefile'' = Some corefile \<and> sublist ''.:53'' corefile \<and>
        sublist ''forward .'' corefile \<and> corefileHostFiles corefile = Inr names \<and> names \<noteq> [] \<and>
        set (gm_keys files) - {''Corefile''} = set names - {''Corefile''})"

lemma hosts_name_Corefile: "hosts_name name \<Longrightarrow> name \<noteq> ''Corefile''"
  by (auto simp: hosts_name_def suffix_def)

lemma file_content_nonempty: "sublist (c # cs) (file_content files n) \<Longrightarrow> gm_get files n = Some (file_content files n)"
  by (auto simp: file_content_def split: option.splits)

lemma find_None_all: "List.find P xs = None \<longleftrightarrow> list_all (\<lambda>x. \<not> P x) xs"
  by (auto simp: find_None_iff list_all_iff)

lemma validateGeneratedFiles_iff: "validateGeneratedFiles files = Inr u \<longleftrightarrow> complete_files files"
proof
  assume "validateGeneratedFiles files = Inr u"
  then obtain names where ok: "sublist ''.:53'' (file_content files ''Corefile'')"
      "sublist ''forward .'' (file_content files ''Corefile'')"
      "corefileHostFiles (file_content files ''Corefile'') = Inr names" "names \<noteq> []"
      "list_all (\<lambda>name. gm_get files name \<noteq> None) names"
      "list_all (\<lambda>name. name = ''Corefile'' \<or> containsString names name) (gm_keys files)"
    by (auto simp: validateGeneratedFiles_def Let_def ok_iff find_None_all split: if_splits option.splits)
  have "set names \<subseteq> set (gm_keys files)"
    using ok(5) gm_keys_get [of _ files] by (auto simp: list_all_iff)
  moreover have "set (gm_keys files) - {''Corefile''} \<subseteq> set names"
    using ok(6) by (auto simp: list_all_iff containsString_def list_ex_iff)
  ultimately show "complete_files files"
    unfolding complete_files_def using ok(1-4) file_content_nonempty by blast
next
  assume "complete_files files"
  then obtain corefile names where ok: "gm_get files ''Corefile'' = Some corefile" "sublist ''.:53'' corefile"
      "sublist ''forward .'' corefile" "corefileHostFiles corefile = Inr names" "names \<noteq> []"
      "set (gm_keys files) - {''Corefile''} = set names - {''Corefile''}"
    by (auto simp: complete_files_def)
  have "name \<in> set (gm_keys files)" if "name \<in> set names" for name
    using that ok(6) corefileHostFiles_names(3) [OF ok(4)] hosts_name_Corefile
    unfolding list_all_iff by blast
  then have present: "List.find (\<lambda>name. gm_get files name = None) names = None"
    unfolding find_None_all list_all_iff gm_keys_get by simp
  have "name = ''Corefile'' \<or> containsString names name" if "name \<in> set (gm_keys files)" for name
    using that ok(6) unfolding containsString_def list_ex_iff by blast
  then have known: "List.find (\<lambda>name. name \<noteq> ''Corefile'' \<and> \<not> containsString names name) (gm_keys files) = None"
    unfolding find_None_all list_all_iff by blast
  have "file_content files ''Corefile'' = corefile"
    by (simp add: file_content_def ok(1))
  then show "validateGeneratedFiles files = Inr u"
    unfolding validateGeneratedFiles_def Let_def     by (simp only: ok(2-5) rbind_simps simp_thms if_False present known option.case) simp
qed

section \<open>From a rendered state to a complete set of files\<close>

lemma put_all_get: "gm_get (put_all new files) = gm_get files ++ map_of (rev new)"
  unfolding put_all_def by (induction new arbitrary: files) (auto simp: fun_eq_iff map_add_def split: option.splits)

lemma put_all_keys: "set (gm_keys (put_all new files)) = set (gm_keys files) \<union> set (gm_keys new)"
proof (induction new arbitrary: files)
  case (Cons x new)
  have "put_all (x # new) files = put_all new (gm_put (fst x) (snd x) files)"
    by (simp add: put_all_def split_def)
  then show ?case
    using Cons by (simp add: dom_update)
qed (simp add: put_all_def)

lemma put_all_wf: "gm_wf files \<Longrightarrow> gm_wf (put_all new files)"
  unfolding put_all_def by (induction new arbitrary: files) auto

lemma rmap_of_option:
  assumes "\<forall>x \<in> set xs. f x \<noteq> None"
  shows "rmap (\<lambda>x. of_option (e x) (f x)) xs = Inr (map (\<lambda>x. the (f x)) xs)"
  using assms by (induction xs) auto

definition runtime_names_ok :: "renderedFiles \<Rightarrow> string list \<Rightarrow> bool" where
  "runtime_names_ok st names \<longleftrightarrow>
     corefileHostFiles (Corefile st) = Inr names \<and> names \<noteq> [] \<and>
     sublist ''.:53'' (Corefile st) \<and> sublist ''forward .'' (Corefile st) \<and>
     set names \<subseteq> set (gm_keys (filesFromRenderedState st)) \<and> ''Corefile'' \<notin> set (gm_keys (ProtectionHosts st))"

lemma filesFromRenderedState_Corefile:
  "''Corefile'' \<notin> set (gm_keys (ProtectionHosts st)) \<Longrightarrow>
     gm_get (filesFromRenderedState st) ''Corefile'' = Some (Corefile st)"
proof -
  assume "''Corefile'' \<notin> set (gm_keys (ProtectionHosts st))"
  then have "map_of (rev (ProtectionHosts st)) ''Corefile'' = None"
    by (simp add: map_of_eq_None_iff)
  then show ?thesis
    by (simp add: filesFromRenderedState_def put_all_get map_add_def)
qed

lemma map_of_zip_the:
  "n \<in> set names \<Longrightarrow> map_of (rev (zip names (map f names))) n = Some (f n)"
proof -
  assume "n \<in> set names"
  moreover have "zip names (map f names) = map (\<lambda>x. (x, f x)) names"
    by (induction names) simp_all
  ultimately show ?thesis
    by (simp add: rev_map map_of_map_restrict)
qed

lemma runtimeFiles_complete:
  assumes "runtime_names_ok st names"
  obtains files where "runtimeFilesFromRenderedState st = Inr files" "complete_files files"
    "gm_get files ''Corefile'' = Some (Corefile st)" "set (gm_keys files) = insert ''Corefile'' (set names)" "gm_wf files"
    "\<forall>n \<in> set names. gm_get files n = gm_get (filesFromRenderedState st) n"
proof -
  let ?all = "filesFromRenderedState st"
  define files where "files = put_all (zip names (map (\<lambda>n. the (gm_get ?all n)) names)) [(''Corefile'', Corefile st)]"
  have core: "gm_get ?all ''Corefile'' = Some (Corefile st)"
    using assms filesFromRenderedState_Corefile by (simp add: runtime_names_ok_def)
  have present: "\<forall>n \<in> set names. gm_get ?all n \<noteq> None"
    using assms unfolding runtime_names_ok_def gm_keys_get [symmetric] by blast
  have "rmap (\<lambda>n. of_option (MissingHostsFile n) (gm_get ?all n)) names = Inr (map (\<lambda>n. the (gm_get ?all n)) names)"
    by (rule rmap_of_option [OF present])
  then have run: "runtimeFilesFromRenderedState st = Inr files"
    using assms core
    by (simp add: runtimeFilesFromRenderedState_def runtime_names_ok_def files_def file_content_def)
  have other: "''Corefile'' \<notin> set names"
    using assms corefileHostFiles_names(3) hosts_name_Corefile
    by (fastforce simp: runtime_names_ok_def list_all_iff)
  then have "map_of (rev (zip names (map (\<lambda>n. the (gm_get ?all n)) names))) ''Corefile'' = None"
    by (auto simp: map_of_eq_None_iff dest: set_zip_leftD)
  then have get_core: "gm_get files ''Corefile'' = Some (Corefile st)"
    by (simp add: files_def put_all_get map_add_def)
  have keys: "set (gm_keys files) = insert ''Corefile'' (set names)"
    unfolding files_def put_all_keys by (auto simp: map_fst_zip)
  have "complete_files files"
    unfolding complete_files_def
    using assms get_core keys other by (auto simp: runtime_names_ok_def)
  moreover have "gm_get files n = gm_get ?all n" if "n \<in> set names" for n
    using bspec [OF present that] that by (auto simp: files_def put_all_get map_add_def map_of_zip_the)
  moreover have "gm_wf files"
    unfolding files_def by (rule put_all_wf) (simp add: gm_wf_def)
  ultimately show ?thesis
    using that run get_core keys by blast
qed

end
