(* ===== verification/CoreDNS_Render.thy ===== *)
theory CoreDNS_Render
  imports CoreDNS_Files
begin

text \<open>
  Rendering (\<^verbatim>\<open>Manager.render\<close> and its helpers in \<^verbatim>\<open>internal/coredns/coredns.go\<close>): from the tables of the
  database to a Corefile and one hosts file per protection profile. The text templates of the source are
  lists of lines (\<open>serverBlock\<close>, \<open>pauseBlock\<close>), written out by \<open>unlines\<close>.

  Rendering reads the clock at several places; \<open>instants\<close> names those readings: two for each profile row
  (for its pause and for its schedule), one for the paused devices, and the \<^verbatim>\<open>'now'\<close> of the SQL query that
  runs for each profile. A query without a complete ORDER BY returns rows in an order SQL leaves open;
  the model takes the order of the table.
\<close>

record instants =
  at_pause :: "int \<Rightarrow> time"
  at_schedule :: "int \<Rightarrow> time"
  at_devices :: time
  at_sql :: "int \<Rightarrow> time"

definition instants_at :: "time \<Rightarrow> instants" where
  "instants_at now = \<lparr>at_pause = \<lambda>_. now, at_schedule = \<lambda>_. now, at_devices = now, at_sql = \<lambda>_. now\<rparr>"

record renderState =
  Upstreams :: "string list"
  CacheEnabled :: bool
  CacheTTL :: int
  DenialTTL :: int
  AllowedCIDRs :: "string list"

record protectionRender =
  pr_ID :: int
  pr_Name :: string
  pr_IsDefault :: bool
  pr_ClientIPs :: "string list"
  pr_HostsFile :: string
  pr_BlockHosts :: string
  pr_Active :: bool

record pausedDeviceRender =
  pd_ID :: int
  pd_ClientIPs :: "string list"

datatype render_error =
    TooManyUpstreams
  | InvalidUpstream string
  | InvalidTransport string
  | InvalidCIDR string
  | InvalidStoredRecord string record_error
  | InvalidStoredAllow string domain_error
  | InvalidStoredBlock string domain_error
  | HomeProtectionMissing

section \<open>Settings\<close>

definition splitCSV :: "string \<Rightarrow> string list" where
  "splitCSV value = filter (\<lambda>part. part \<noteq> []) (map trim_space (split_on (CHR '','') value))"

definition setting_value :: "(string, string) gomap \<Rightarrow> string \<Rightarrow> string" where
  "setting_value m key = (case gm_get m key of None \<Rightarrow> [] | Some v \<Rightarrow> v)"

definition default_cidrs :: "string list" where
  "default_cidrs = [''127.0.0.0/8'', ''10.0.0.0/8'', ''100.64.0.0/10'', ''172.16.0.0/12'', ''192.168.0.0/16'',
     ''::1/128'', ''fc00::/7'', ''fe80::/10'']"

definition renderStateForSettings :: "(string, string) gomap \<Rightarrow> render_error + renderState" where
  "renderStateForSettings m =
     (let configured = splitCSV (setting_value m ''upstream_dns'');
          upstreams = (if configured = [] then [''1.1.1.1'', ''9.9.9.9''] else configured) in
      if length upstreams > 15 then Inl TooManyUpstreams
      else (case List.find (\<lambda>u. parse_ip u = None) upstreams of
        Some u \<Rightarrow> Inl (InvalidUpstream u)
      | None \<Rightarrow>
          (let t = trim_space (setting_value m ''upstream_transport'');
               transport = (if t = [] then ''standard'' else t) in
           if transport \<noteq> ''standard'' \<and> transport \<noteq> ''encrypted'' then Inl (InvalidTransport transport)
           else
             let ups = (if transport = ''encrypted'' then [''127.0.0.1:5053''] else upstreams);
                 cacheTTL = (case atoi (setting_value m ''dns_cache_ttl'') of
                    None \<Rightarrow> 300 | Some parsed \<Rightarrow> max 30 (min parsed 3600));
                 allowed = splitCSV (setting_value m ''allowed_client_cidrs'');
                 cidrs = (if allowed = [] then default_cidrs else allowed) in
             (case List.find (\<lambda>c. parse_cidr c = None) cidrs of
                Some c \<Rightarrow> Inl (InvalidCIDR c)
              | None \<Rightarrow>
                  Inr \<lparr>Upstreams = ups, CacheEnabled = setting_value m ''dns_cache_enabled'' \<noteq> ''false'',
                       CacheTTL = cacheTTL, DenialTTL = min cacheTTL 60, AllowedCIDRs = cidrs\<rparr>))))"

section \<open>Hosts files\<close>

definition unlines :: "string list \<Rightarrow> string" where
  "unlines ls = concat (map (\<lambda>l. l @ [newline]) ls)"

definition localHosts :: "Store \<Rightarrow> render_error + string" where
  "localHosts s =
     rbind (rmap (\<lambda>r. case NormalizeRecord (dr_hostname r) (dr_type r) (dr_value r) of
                     Inl e \<Rightarrow> Inl (InvalidStoredRecord (dr_hostname r) e)
                   | Inr (host, typ, value) \<Rightarrow>
                       Inr (if typ = ''A'' \<or> typ = ''AAAA'' then [value @ '' '' @ host] else []))
              (sort_key dr_hostname (dns_records s)))
       (\<lambda>ls. Inr (unlines (''# Generated by Faro. Manual edits will be replaced.'' # concat ls)))"

text \<open>\<^verbatim>\<open>julianday(expires_at) > julianday('now')\<close>: a text that is no time gives NULL, which is not true.\<close>

definition expires_after :: "host \<Rightarrow> time \<Rightarrow> string \<Rightarrow> bool" where
  "expires_after h now expires = (case julianday h expires of None \<Rightarrow> False | Some ms \<Rightarrow> ms > now div 1000000)"

definition allow_domains :: "host \<Rightarrow> time \<Rightarrow> Store \<Rightarrow> int \<Rightarrow> string list" where
  "allow_domains h now s protection =
     sort_uniq (map pe_domain (filter (\<lambda>e. pe_protection_id e = protection) (protection_allow_entries s)) @
       map te_domain (filter (\<lambda>t. te_protection_id t = protection \<and> expires_after h now (te_expires_at t))
         (troubleshooting_exceptions s)))"

definition enabled_lists :: "Store \<Rightarrow> int \<Rightarrow> int list" where
  "enabled_lists s protection =
     map bl_id (filter (\<lambda>b. bl_enabled b \<and> (protection, bl_id b) \<in> set (protection_blocklists s)) (blocklists s))"

definition block_domains :: "Store \<Rightarrow> int \<Rightarrow> string list" where
  "block_domains s protection =
     sort_uniq (map pe_domain (filter (\<lambda>e. pe_protection_id e = protection) (protection_block_entries s)) @
       map be_domain (filter (\<lambda>e. be_blocklist_id e \<in> set (enabled_lists s protection)) (blocklist_entries s)))"

definition normalize_stored :: "(string \<Rightarrow> domain_error \<Rightarrow> render_error) \<Rightarrow> string \<Rightarrow> render_error + string" where
  "normalize_stored wrap raw = (case NormalizeDomain raw of Inl e \<Rightarrow> Inl (wrap raw e) | Inr d \<Rightarrow> Inr d)"

definition blockHostsForProtection :: "host \<Rightarrow> time \<Rightarrow> Store \<Rightarrow> int \<Rightarrow> render_error + string" where
  "blockHostsForProtection h now s protection =
     rbind (rmap (normalize_stored InvalidStoredAllow) (allow_domains h now s protection)) (\<lambda>allowed.
     rbind (rmap (normalize_stored InvalidStoredBlock) (block_domains s protection)) (\<lambda>blocked.
       Inr (unlines (''# Generated by Faro. Allowlist entries are excluded.'' #
         map (\<lambda>d. ''0.0.0.0 '' @ d) (filter (\<lambda>d. d \<notin> set allowed) blocked)))))"

section \<open>Profiles and paused devices\<close>

definition profile_active :: "host \<Rightarrow> time \<Rightarrow> time \<Rightarrow> protection_profile \<Rightarrow> bool" where
  "profile_active h pause_now schedule_now p \<longleftrightarrow>
     \<not> PausedAt (pp_paused_until p) pause_now \<and> ActiveAt (load_location h) (pp_schedule p) schedule_now"

definition protection_clients :: "Store \<Rightarrow> int \<Rightarrow> string list" where
  "protection_clients s protection =
     sort_uniq (map da_address (filter (\<lambda>a. gm_get (device_protection_memberships s) (da_device_id a) = Some protection)
         (device_addresses s)) @
       map fst (filter (\<lambda>(ip, p). p = protection) (device_protection_assignments s)))"

definition hosts_file :: "int \<Rightarrow> string" where
  "hosts_file protection = ''protection-'' @ itoa protection @ ''.hosts''"

definition profile_rows :: "Store \<Rightarrow> protection_profile list" where
  "profile_rows s = (let ps = sort_key pp_id (protection_profiles s) in
     filter (\<lambda>p. \<not> pp_is_default p) ps @ filter pp_is_default ps)"

definition protection_render :: "host \<Rightarrow> instants \<Rightarrow> Store \<Rightarrow> protection_profile \<Rightarrow> render_error + protectionRender" where
  "protection_render h at s p =
     (let active = profile_active h (at_pause at (pp_id p)) (at_schedule at (pp_id p)) p in
      rbind (if active then blockHostsForProtection h (at_sql at (pp_id p)) s (pp_id p) else Inr [])
        (\<lambda>hosts. Inr \<lparr>pr_ID = pp_id p, pr_Name = pp_name p, pr_IsDefault = pp_is_default p,
           pr_ClientIPs = protection_clients s (pp_id p), pr_HostsFile = hosts_file (pp_id p),
           pr_BlockHosts = hosts, pr_Active = active\<rparr>))"

definition protections :: "host \<Rightarrow> instants \<Rightarrow> Store \<Rightarrow> render_error + protectionRender list" where
  "protections h at s = rmap (protection_render h at s) (profile_rows s)"

definition device_ips :: "Store \<Rightarrow> int \<Rightarrow> string list" where
  "device_ips s device = sort (map da_address (filter (\<lambda>a. da_device_id a = device) (device_addresses s)))"

definition pausedDevices :: "time \<Rightarrow> Store \<Rightarrow> pausedDeviceRender list" where
  "pausedDevices now s =
     filter (\<lambda>d. pd_ClientIPs d \<noteq> [])
       (map (\<lambda>(device, _). \<lparr>pd_ID = device, pd_ClientIPs = device_ips s device\<rparr>)
         (filter (\<lambda>(_, until). PausedAt until now) (sort_key fst (device_dns_pauses s))))"

section \<open>The Corefile\<close>

definition protectionViewExpression :: "string list \<Rightarrow> string" where
  "protectionViewExpression clientIPs =
     join '' || '' (map (\<lambda>ip.
       let bits = (case parse_ip ip of Some a \<Rightarrow> if to4 a = None then 128 else 32 | None \<Rightarrow> 32) in
       ''incidr(client_ip(), '' @ [CHR 0x27] @ ip @ ''/'' @ itoa bits @ [CHR 0x27] @ '')'') clientIPs)"

definition log_line :: string where
  "log_line = ''    log . '' @ [dquote] @ ''FARO|{remote}|{type}|{name}|{rcode}|{duration}|{/forward/upstream}'' @ [dquote]"

definition spaced :: "string list \<Rightarrow> string" where
  "spaced items = concat (map (\<lambda>i. i @ '' '') items)"

definition block_head :: "protectionRender \<Rightarrow> string list" where
  "block_head p =
     [''.:53 {''] @
     (if \<not> pr_IsDefault p
      then [''    view protection_'' @ itoa (pr_ID p) @ '' {'',
            ''        expr '' @ protectionViewExpression (pr_ClientIPs p),
            ''    }'', ''    '']
      else [''    '']) @
     [''    errors'', ''    metadata'', log_line] @
     (if pr_IsDefault p
      then [''    '', ''    prometheus 0.0.0.0:9153'', ''    reload 2s'', [tab]]
      else [''    ''])"

definition block_hosts :: "renderState \<Rightarrow> protectionRender \<Rightarrow> string list" where
  "block_hosts state p =
     [[tab] @ ''acl {'', [tab, tab] @ ''allow net '' @ spaced (AllowedCIDRs state), [tab, tab] @ ''block'', [tab] @ ''}'',
      [tab] @ ''    hosts '' @ coreDNSPathPrefix @ pr_HostsFile p @ '' {'',
      ''        ttl 60'', ''        fallthrough'', ''    }'']"

definition block_tail :: "renderState \<Rightarrow> string list" where
  "block_tail state =
     (if CacheEnabled state
      then [''    cache '' @ itoa (CacheTTL state) @ '' {'',
            ''        success 9984 '' @ itoa (CacheTTL state) @ '' 5'',
            ''        denial 4096 '' @ itoa (DenialTTL state) @ '' 5'',
            ''    }'']
      else []) @
     [''    forward . '' @ spaced (Upstreams state), ''}'']"

definition serverBlock :: "renderState \<Rightarrow> protectionRender \<Rightarrow> string list" where
  "serverBlock state p = block_head p @ block_hosts state p @ block_tail state"

definition pauseBlock :: "renderState \<Rightarrow> pausedDeviceRender \<Rightarrow> string list" where
  "pauseBlock state d =
     [''.:53 {'',
      ''    view device_pause_'' @ itoa (pd_ID d) @ '' {'',
      ''        expr '' @ protectionViewExpression (pd_ClientIPs d),
      ''    }'',
      ''    errors'', ''    metadata'', log_line,
      ''    acl {'', ''        allow net '' @ join '' '' (AllowedCIDRs state), ''        block'', ''    }'',
      ''    template ANY ANY {'', ''        rcode REFUSED'', ''    }'', ''}'']"

definition has_block :: "protectionRender \<Rightarrow> bool" where
  "has_block p \<longleftrightarrow> \<not> (\<not> pr_IsDefault p \<and> pr_ClientIPs p = [])"

definition protection_files :: "string \<Rightarrow> protectionRender list \<Rightarrow> files" where
  "protection_files local ps = put_all (map (\<lambda>p. (pr_HostsFile p, local @ [newline] @ pr_BlockHosts p)) ps) []"

definition default_blocks :: "protectionRender list \<Rightarrow> string" where
  "default_blocks ps = foldl (\<lambda>acc p. if pr_IsDefault p then pr_BlockHosts p else acc) [] ps"

definition renderProtectionBlocks :: "renderState \<Rightarrow> string \<Rightarrow> protectionRender list \<Rightarrow> string list \<times> files \<times> string" where
  "renderProtectionBlocks state local ps =
     (concat (map (serverBlock state) (filter has_block ps)), protection_files local ps, default_blocks ps)"

definition render :: "host \<Rightarrow> instants \<Rightarrow> Store \<Rightarrow> render_error + renderedFiles" where
  "render h at s =
     rbind (renderStateForSettings (settings s)) (\<lambda>state.
     rbind (localHosts s) (\<lambda>local.
     rbind (protections h at s) (\<lambda>ps.
     if ps = [] then Inl HomeProtectionMissing
     else
       (let paused = pausedDevices (at_devices at) s;
            (blocks, hosts, defaults) = renderProtectionBlocks state local ps in
        Inr \<lparr>Corefile = unlines (concat (map (pauseBlock state) paused) @ blocks),
             LocalHosts = local, BlockHosts = defaults, ProtectionHosts = hosts\<rparr>))))"

section \<open>The hosts files a rendered Corefile names\<close>

definition names_of :: "string list \<Rightarrow> string list \<Rightarrow> bool" where
  "names_of ls names \<longleftrightarrow> (\<exists>ns. rmap line_hosts ls = Inr ns \<and> List.map_filter id ns = names)"

lemma names_of_Nil: "names_of [] []"
  by (simp add: names_of_def List.map_filter_simps)

lemma names_of_skip: "line_hosts l = Inr None \<Longrightarrow> names_of ls ns \<Longrightarrow> names_of (l # ls) ns"
  by (auto simp: names_of_def List.map_filter_simps)

lemma names_of_take: "line_hosts l = Inr (Some n) \<Longrightarrow> names_of ls ns \<Longrightarrow> names_of (l # ls) (n # ns)"
  by (auto simp: names_of_def List.map_filter_simps)

lemma names_of_append: "names_of xs a \<Longrightarrow> names_of ys b \<Longrightarrow> names_of (xs @ ys) (a @ b)"
proof (induction xs arbitrary: a)
  case Nil
  then show ?case by (simp add: names_of_def List.map_filter_simps)
next
  case (Cons x xs)
  then obtain n ns where x: "line_hosts x = Inr n" "rmap line_hosts xs = Inr ns" "a = List.map_filter id (n # ns)"
    by (auto simp: names_of_def ok_iff)
  then have "names_of (xs @ ys) (List.map_filter id ns @ b)"
    using Cons by (auto simp: names_of_def)
  then show ?case
    using x by (cases n) (auto simp: List.map_filter_simps intro: names_of_skip names_of_take)
qed

lemma names_of_concat:
  "\<forall>x \<in> set xs. names_of (f x) (g x) \<Longrightarrow> names_of (concat (map f xs)) (concat (map g xs))"
  by (induction xs) (auto intro: names_of_Nil names_of_append)

lemma line_hosts_word:
  assumes "set b \<subseteq> {CHR '' '', tab}" "w \<noteq> []" "set w \<inter> space_bytes = {}" "w \<noteq> ''hosts''"
    "s = [] \<or> hd s \<in> {CHR '' '', tab}"
  shows "line_hosts (b @ w @ s) = Inr None"
proof -
  obtain r where "go_fields (trim_space (b @ w @ s)) = w # go_fields r"
    using go_fields_line [OF assms(1-3,5)] by auto
  with assms(4) show ?thesis
    by (auto simp: line_hosts_def split: list.splits)
qed

lemma ascii_not_space: "33 \<le> byte_of c \<and> byte_of c < (128::nat) \<Longrightarrow> c \<notin> space_bytes"
  by (auto simp: space_bytes_def)

lemma itoa_plain: "c \<in> set (itoa i) \<Longrightarrow> is_digit c \<or> c = CHR ''-''"
  using nat_to_string_digits by (auto simp: itoa_def list_all_iff split: if_splits)

lemma itoa_space: "set (itoa i) \<inter> space_bytes = {}"
proof -
  have "c \<notin> space_bytes" if "c \<in> set (itoa i)" for c
    using itoa_plain [OF that] by (auto simp: is_digit_def intro!: ascii_not_space)
  then show ?thesis
    by blast
qed

lemma space_bytes_simps [simp]: "newline \<in> space_bytes" "CHR '' '' \<in> space_bytes" "CHR ''{'' \<notin> space_bytes"
  by (simp_all add: space_bytes_def)

lemma hosts_file_plain: "set (hosts_file i) \<inter> space_bytes = {}" "hosts_name (hosts_file i)"
proof -
  have "set (''protection-'' @ ''.hosts'') \<inter> space_bytes = {}"
    by (auto simp: space_bytes_def)
  then show "set (hosts_file i) \<inter> space_bytes = {}"
    using itoa_space by (auto simp: hosts_file_def)
  have "CHR ''/'' \<notin> set (itoa i)"
    using itoa_plain [of "CHR ''/''" i] by (auto simp: is_digit_def)
  then show "hosts_name (hosts_file i)"
    by (auto simp: hosts_name_def hosts_file_def suffix_def)
qed

lemma go_fields_hosts_line:
  assumes "set name \<inter> space_bytes = {}"
  shows "go_fields (trim_space ([tab] @ ''    hosts '' @ coreDNSPathPrefix @ name @ '' {'')) =
    [''hosts'', coreDNSPathPrefix @ name, ''{'']"
proof -
  have prefix_plain: "set coreDNSPathPrefix \<inter> space_bytes = {}" "coreDNSPathPrefix \<noteq> []"
    by (auto simp: coreDNSPathPrefix_def space_bytes_def)
  have hosts: "set ''hosts'' \<inter> space_bytes = {}"
    by (auto simp: space_bytes_def)
  have 3: "go_fields ('' '' @ ''{'' @ []) = [''{'']"
    using go_fields_word [of "'' ''" "''{''" "[]"] by (simp add: go_fields_Nil)
  have 2: "go_fields ('' '' @ (coreDNSPathPrefix @ name) @ '' {'') = (coreDNSPathPrefix @ name) # [''{'']"
    using go_fields_word [of "'' ''" "coreDNSPathPrefix @ name" "'' {''"] prefix_plain assms 3 by auto
  have 1: "go_fields ([] @ ''hosts'' @ '' '' @ (coreDNSPathPrefix @ name) @ '' {'') = [''hosts'', coreDNSPathPrefix @ name, ''{'']"
    using go_fields_word [of "[]" "''hosts''" "'' '' @ (coreDNSPathPrefix @ name) @ '' {''"] hosts 2 by simp
  have "trim_left ([tab] @ ''    hosts '' @ coreDNSPathPrefix @ name @ '' {'') = ''hosts '' @ coreDNSPathPrefix @ name @ '' {''"
    using trim_left_blanks [of "[tab] @ ''    ''" "''hosts '' @ coreDNSPathPrefix @ name @ '' {''"]
      trim_left_word [of "''hosts ''" "coreDNSPathPrefix @ name @ '' {''"] ascii_not_space [of "CHR ''h''"] by simp
  moreover have "trim_right (''hosts '' @ coreDNSPathPrefix @ name @ '' {'') = ''hosts '' @ coreDNSPathPrefix @ name @ '' {''"
    using trim_right_last [of "CHR ''{''" "''hosts '' @ coreDNSPathPrefix @ name @ '' ''"] by simp
  ultimately show ?thesis
    using 1 by (simp add: trim_space_def)
qed

lemma line_hosts_hosts: "line_hosts ([tab] @ ''    hosts '' @ coreDNSPathPrefix @ hosts_file i @ '' {'') = Inr (Some (hosts_file i))"
proof -
  have "cut_prefix coreDNSPathPrefix (coreDNSPathPrefix @ hosts_file i) = Some (hosts_file i)"
    by (simp add: cut_prefix_def)
  moreover have "filepath_base (hosts_file i) = hosts_file i" "suffix ''.hosts'' (hosts_file i)"
    using hosts_file_plain(2) [of i] by (auto simp: filepath_base_plain hosts_name_def)
  ultimately show ?thesis
    unfolding line_hosts_def go_fields_hosts_line [OF hosts_file_plain(1)] by simp
qed

lemma plain_words:
  "set ''view'' \<inter> space_bytes = {}" "set ''expr'' \<inter> space_bytes = {}" "set ''allow'' \<inter> space_bytes = {}"
  "set ''cache'' \<inter> space_bytes = {}" "set ''success'' \<inter> space_bytes = {}" "set ''denial'' \<inter> space_bytes = {}"
  "set ''forward'' \<inter> space_bytes = {}"
  by (auto simp: space_bytes_def)

text \<open>No line of the templates other than the one of the hosts plugin names a hosts file.\<close>

lemma line_hosts_open:
  "line_hosts (''    view protection_'' @ x) = Inr None"
  "line_hosts (''    view device_pause_'' @ x) = Inr None"
  "line_hosts (''        expr '' @ x) = Inr None"
  "line_hosts ([tab, tab] @ ''allow net '' @ x) = Inr None"
  "line_hosts (''        allow net '' @ x) = Inr None"
  "line_hosts (''    cache '' @ x) = Inr None"
  "line_hosts (''        success 9984 '' @ x) = Inr None"
  "line_hosts (''        denial 4096 '' @ x) = Inr None"
  "line_hosts (''    forward . '' @ x) = Inr None"
  using line_hosts_word [of "''    ''" "''view''" "'' protection_'' @ x"]
    line_hosts_word [of "''    ''" "''view''" "'' device_pause_'' @ x"]
    line_hosts_word [of "''        ''" "''expr''" "'' '' @ x"]
    line_hosts_word [of "[tab, tab]" "''allow''" "'' net '' @ x"]
    line_hosts_word [of "''        ''" "''allow''" "'' net '' @ x"]
    line_hosts_word [of "''    ''" "''cache''" "'' '' @ x"]
    line_hosts_word [of "''        ''" "''success''" "'' 9984 '' @ x"]
    line_hosts_word [of "''        ''" "''denial''" "'' 4096 '' @ x"]
    line_hosts_word [of "''    ''" "''forward''" "'' . '' @ x"] plain_words
  by simp_all

lemma line_hosts_closed:
  "line_hosts ''.:53 {'' = Inr None" "line_hosts ''    }'' = Inr None" "line_hosts ''    '' = Inr None"
  "line_hosts ''    errors'' = Inr None" "line_hosts ''    metadata'' = Inr None" "line_hosts log_line = Inr None"
  "line_hosts ''    prometheus 0.0.0.0:9153'' = Inr None" "line_hosts ''    reload 2s'' = Inr None"
  "line_hosts [tab] = Inr None" "line_hosts ([tab] @ ''acl {'') = Inr None" "line_hosts ([tab, tab] @ ''block'') = Inr None"
  "line_hosts ([tab] @ ''}'') = Inr None" "line_hosts ''        ttl 60'' = Inr None"
  "line_hosts ''        fallthrough'' = Inr None" "line_hosts ''}'' = Inr None" "line_hosts ''    acl {'' = Inr None"
  "line_hosts ''        block'' = Inr None" "line_hosts ''    template ANY ANY {'' = Inr None"
  "line_hosts ''        rcode REFUSED'' = Inr None"
  by code_simp+

lemma names_of_list: "list_all (\<lambda>l. line_hosts l = Inr None) ls \<Longrightarrow> names_of ls []"
  by (induction ls) (auto intro: names_of_Nil names_of_skip)

lemma names_of_pauseBlock: "names_of (pauseBlock state d) []"
  by (rule names_of_list) (simp only: pauseBlock_def list.pred_inject line_hosts_open line_hosts_closed simp_thms)

lemmas line_hosts_all = list.pred_inject list_all_append line_hosts_open line_hosts_closed simp_thms

lemma names_of_serverBlock:
  assumes "pr_HostsFile p = hosts_file i"
  shows "names_of (serverBlock state p) [hosts_file i]"
proof -
  have "names_of (block_head p) []"
    by (rule names_of_list) (cases "pr_IsDefault p"; simp only: block_head_def if_True if_False line_hosts_all)
  moreover have "names_of (block_hosts state p) [hosts_file i]"
    unfolding block_hosts_def assms
    by (intro names_of_skip names_of_take names_of_Nil line_hosts_hosts line_hosts_open line_hosts_closed)
  moreover have "names_of (block_tail state) []"
    by (rule names_of_list) (cases "CacheEnabled state"; simp only: block_tail_def if_True if_False line_hosts_all)
  ultimately have "names_of (block_head p @ block_hosts state p @ block_tail state) ([] @ [hosts_file i] @ [])"
    by (intro names_of_append)
  then show ?thesis
    by (simp add: serverBlock_def)
qed

section \<open>Lines\<close>

lemma split_on_unlines:
  assumes "\<forall>l \<in> set ls. newline \<notin> set l"
  shows "split_on newline (unlines ls) = ls @ [[]]"
  using assms
proof (induction ls)
  case (Cons l ls)
  then show ?case
    using split_on_append [of newline l "unlines ls"] by (simp add: unlines_def split_on_free)
qed (simp add: unlines_def)

lemma corefileHostFiles_unlines:
  assumes "\<forall>l \<in> set ls. newline \<notin> set l" "names_of ls names"
  shows "corefileHostFiles (unlines ls) = Inr (sort_uniq names)"
proof -
  have "line_hosts [] = Inr None"
    by code_simp
  then have "names_of (ls @ [[]]) (names @ [])"
    using assms(2) by (intro names_of_append names_of_skip names_of_Nil)
  then show ?thesis
    using assms(1) by (auto simp: corefileHostFiles_def split_on_unlines names_of_def)
qed

lemma sublist_unlines: "l \<in> set ls \<Longrightarrow> sublist p l \<Longrightarrow> sublist p (unlines ls)"
proof -
  assume "l \<in> set ls" "sublist p l"
  then obtain us vs a b where "ls = us @ l # vs" "l = a @ p @ b"
    by (auto simp: in_set_conv_decomp sublist_def)
  then have "unlines ls = (unlines us @ a) @ p @ (b @ newline # unlines vs)"
    by (simp add: unlines_def)
  then show ?thesis
    by (metis sublist_appendI)
qed

lemma addr_chars_newline: "list_all addr_char s \<Longrightarrow> newline \<notin> set s"
  using addr_char_plain by (fastforce simp: list_all_iff)

lemma parse_ip_newline: "parse_ip s \<noteq> None \<Longrightarrow> newline \<notin> set s"
  using parse_ip_chars addr_chars_newline by blast

lemma cut_slash: "cut ''/'' s = Some (a, b) \<Longrightarrow> s = a @ ''/'' @ b"
proof -
  assume "cut ''/'' s = Some (a, b)"
  then obtain z where z: "a = take z s" "b = drop (Suc z) s" "take (Suc 0) (drop z s) = ''/''"
    by (auto simp: cut_def split: option.splits dest!: index_of_Some)
  then have "drop z s = ''/'' @ b"
    by (metis append_take_drop_id drop_drop plus_1_eq_Suc One_nat_def)
  then show ?thesis
    by (metis z(1) append_take_drop_id)
qed

lemma digits_newline: "list_all is_digit b \<Longrightarrow> newline \<notin> set b"
  by (auto simp: list_all_iff is_digit_def dest: bspec [of _ _ newline])

lemma parse_cidr_newline:
  assumes "parse_cidr s \<noteq> None"
  shows "newline \<notin> set s"
proof -
  obtain a b where "cut ''/'' s = Some (a, b)" "parse_ip a \<noteq> None" "cidr_bits b \<noteq> None"
    using assms by (auto simp: parse_cidr_def split: option.splits if_splits)
  then show ?thesis
    using parse_ip_newline [of a] digits_newline [of b]
    by (auto simp: cidr_bits_def dest!: cut_slash split: if_splits)
qed

lemma itoa_newline: "newline \<notin> set (itoa i)"
  using itoa_space [of i] by auto

lemma spaced_newline: "\<forall>x \<in> set xs. newline \<notin> set x \<Longrightarrow> newline \<notin> set (spaced xs)"
  by (auto simp: spaced_def)

lemma join_newline: "newline \<notin> set sep \<Longrightarrow> \<forall>x \<in> set xs. newline \<notin> set x \<Longrightarrow> newline \<notin> set (join sep xs)"
  using set_join [of sep xs] by auto

lemma viewExpression_newline:
  "\<forall>ip \<in> set ips. newline \<notin> set ip \<Longrightarrow> newline \<notin> set (protectionViewExpression ips)"
  unfolding protectionViewExpression_def
  by (rule join_newline) (auto simp: Let_def itoa_newline)

lemma hosts_file_newline: "newline \<notin> set (hosts_file i)"
  using hosts_file_plain(1) [of i] by auto

definition state_ok :: "renderState \<Rightarrow> bool" where
  "state_ok st \<longleftrightarrow>
     1 \<le> length (Upstreams st) \<and> length (Upstreams st) \<le> 15 \<and>
     list_all (\<lambda>u. parse_ip u \<noteq> None \<or> u = ''127.0.0.1:5053'') (Upstreams st) \<and>
     30 \<le> CacheTTL st \<and> CacheTTL st \<le> 3600 \<and> DenialTTL st = min (CacheTTL st) 60 \<and>
     AllowedCIDRs st \<noteq> [] \<and> list_all (\<lambda>c. parse_cidr c \<noteq> None) (AllowedCIDRs st)"

lemma renderStateForSettings_ok: "renderStateForSettings m = Inr st \<Longrightarrow> state_ok st"
proof -
  define configured where "configured = splitCSV (setting_value m ''upstream_dns'')"
  define ups where "ups = (if configured = [] then [''1.1.1.1'', ''9.9.9.9''] else configured)"
  define allowed where "allowed = splitCSV (setting_value m ''allowed_client_cidrs'')"
  define cidrs where "cidrs = (if allowed = [] then default_cidrs else allowed)"
  define ttl where "ttl = (case atoi (setting_value m ''dns_cache_ttl'') of
    None \<Rightarrow> 300 | Some parsed \<Rightarrow> max 30 (min parsed 3600))"
  note defs = configured_def [symmetric] ups_def [symmetric] allowed_def [symmetric] cidrs_def [symmetric]
    ttl_def [symmetric]
  have ne: "ups \<noteq> []" "cidrs \<noteq> []" and ttl: "30 \<le> ttl" "ttl \<le> 3600"
    by (simp_all add: ups_def cidrs_def default_cidrs_def ttl_def split: option.split)
  assume "renderStateForSettings m = Inr st"
  then have "\<not> length ups > 15" "List.find (\<lambda>u. parse_ip u = None) ups = None"
    "List.find (\<lambda>c. parse_cidr c = None) cidrs = None"
    "Upstreams st = ups \<or> Upstreams st = [''127.0.0.1:5053'']"
    "AllowedCIDRs st = cidrs" "CacheTTL st = ttl" "DenialTTL st = min ttl 60"
    unfolding renderStateForSettings_def Let_def defs
    by (simp_all split: if_splits option.splits) auto
  with ne ttl show ?thesis
    by (auto simp: state_ok_def find_None_all list_all_iff Suc_le_eq)
qed

lemma serverBlock_newline:
  assumes "state_ok state" "pr_HostsFile p = hosts_file i" "\<forall>ip \<in> set (pr_ClientIPs p). newline \<notin> set ip"
  shows "\<forall>l \<in> set (serverBlock state p). newline \<notin> set l"
proof -
  have "newline \<notin> set (spaced (AllowedCIDRs state))" "newline \<notin> set (spaced (Upstreams state))"
    using assms(1) parse_cidr_newline parse_ip_newline
    by (auto simp: state_ok_def list_all_iff intro!: spaced_newline)
  then show ?thesis
    using viewExpression_newline [OF assms(3)] hosts_file_newline [of i] itoa_newline
    by (auto simp: serverBlock_def block_head_def block_hosts_def block_tail_def assms(2) coreDNSPathPrefix_def log_line_def)
qed

lemma pauseBlock_newline:
  assumes "state_ok state" "\<forall>ip \<in> set (pd_ClientIPs d). newline \<notin> set ip"
  shows "\<forall>l \<in> set (pauseBlock state d). newline \<notin> set l"
proof -
  have "newline \<notin> set (join '' '' (AllowedCIDRs state))"
    using assms(1) parse_cidr_newline by (intro join_newline) (auto simp: state_ok_def list_all_iff)
  then show ?thesis
    using viewExpression_newline [OF assms(2)] itoa_newline
    by (auto simp: pauseBlock_def log_line_def)
qed

section \<open>Rendering produces a complete configuration\<close>

lemma protections_rendered:
  assumes "protections h at s = Inr ps"
  shows "list_all2 (\<lambda>p r. protection_render h at s p = Inr r) (profile_rows s) ps"
  using assms by (simp add: protections_def rmap_eq_Inr)

lemma protection_render_fields:
  assumes "protection_render h at s p = Inr r"
  shows "pr_ID r = pp_id p" "pr_IsDefault r = pp_is_default p" "pr_HostsFile r = hosts_file (pp_id p)"
    "pr_ClientIPs r = protection_clients s (pp_id p)"
    "pr_Active r = profile_active h (at_pause at (pp_id p)) (at_schedule at (pp_id p)) p"
  using assms by (auto simp: protection_render_def Let_def ok_iff)

lemma set_profile_rows: "set (profile_rows s) = set (protection_profiles s)"
  by (auto simp: profile_rows_def Let_def)

lemma protections_member:
  assumes "protections h at s = Inr ps"
  shows "r \<in> set ps \<Longrightarrow> \<exists>p \<in> set (protection_profiles s). protection_render h at s p = Inr r"
    and "p \<in> set (protection_profiles s) \<Longrightarrow> \<exists>r \<in> set ps. protection_render h at s p = Inr r"
  using rmap_in_result [OF assms [unfolded protections_def]] rmap_in_source [OF assms [unfolded protections_def]]
  by (auto simp: set_profile_rows)

text \<open>The addresses of the database contain no line break.\<close>

definition addresses_safe :: "Store \<Rightarrow> bool" where
  "addresses_safe s \<longleftrightarrow> list_all (\<lambda>a. newline \<notin> set (da_address a)) (device_addresses s) \<and>
     list_all (\<lambda>ip. newline \<notin> set ip) (gm_keys (device_protection_assignments s))"

lemma addresses_safe_clients:
  assumes "addresses_safe s"
  shows "\<forall>ip \<in> set (protection_clients s i). newline \<notin> set ip" "\<forall>ip \<in> set (device_ips s d). newline \<notin> set ip"
  using assms by (auto simp: addresses_safe_def protection_clients_def device_ips_def list_all_iff)

definition corefile_lines :: "renderState \<Rightarrow> pausedDeviceRender list \<Rightarrow> protectionRender list \<Rightarrow> string list" where
  "corefile_lines state paused ps =
     concat (map (pauseBlock state) paused) @ concat (map (serverBlock state) (filter has_block ps))"

lemma render_Inr:
  assumes "render h at s = Inr r"
  obtains state local ps where "renderStateForSettings (settings s) = Inr state" "localHosts s = Inr local"
    "protections h at s = Inr ps" "ps \<noteq> []"
    "r = \<lparr>Corefile = unlines (corefile_lines state (pausedDevices (at_devices at) s) ps), LocalHosts = local,
          BlockHosts = default_blocks ps, ProtectionHosts = protection_files local ps\<rparr>"
  using assms
  by (auto simp: render_def ok_iff renderProtectionBlocks_def corefile_lines_def Let_def split: if_splits)

lemma corefile_lines_safe:
  assumes "state_ok state" "protections h at s = Inr ps" "addresses_safe s"
  shows "\<forall>l \<in> set (corefile_lines state (pausedDevices now s) ps). newline \<notin> set l"
proof -
  have "newline \<notin> set l" if "l \<in> set (serverBlock state r)" "r \<in> set ps" for l r
    using that protections_member(1) [OF assms(2)] protection_render_fields addresses_safe_clients [OF assms(3)]
      serverBlock_newline [OF assms(1)] by metis
  moreover have "newline \<notin> set l" if "l \<in> set (pauseBlock state d)" "d \<in> set (pausedDevices now s)" for l d
  proof -
    have "pd_ClientIPs d = device_ips s (pd_ID d)"
      using that(2) by (auto simp: pausedDevices_def)
    then show ?thesis
      using that(1) pauseBlock_newline [OF assms(1), of d] addresses_safe_clients(2) [OF assms(3)] by auto
  qed
  ultimately show ?thesis
    by (auto simp: corefile_lines_def)
qed

lemma corefile_lines_names:
  assumes "protections h at s = Inr ps"
  shows "names_of (corefile_lines state paused ps) (map pr_HostsFile (filter has_block ps))"
proof -
  have "names_of (serverBlock state r) [pr_HostsFile r]" if "r \<in> set ps" for r
    using protections_member(1) [OF assms that] protection_render_fields(3) names_of_serverBlock by metis
  then have "names_of (concat (map (serverBlock state) (filter has_block ps)))
      (concat (map (\<lambda>r. [pr_HostsFile r]) (filter has_block ps)))"
    by (intro names_of_concat) auto
  moreover have "names_of (concat (map (pauseBlock state) paused)) (concat (map (\<lambda>_. []) paused))"
    by (intro names_of_concat) (auto intro: names_of_pauseBlock)
  ultimately have "names_of (corefile_lines state paused ps)
      (concat (map (\<lambda>_. []) paused) @ concat (map (\<lambda>r. [pr_HostsFile r]) (filter has_block ps)))"
    unfolding corefile_lines_def by (intro names_of_append)
  moreover have "concat (map (\<lambda>_. []) paused) = ([] :: string list)"
    by (induction paused) simp_all
  ultimately show ?thesis
    by (simp add: concat_map_singleton)
qed

lemma serverBlock_sublists:
  "\<exists>l \<in> set (serverBlock state p). sublist ''.:53'' l" "\<exists>l \<in> set (serverBlock state p). sublist ''forward .'' l"
proof -
  have "''.:53 {'' \<in> set (serverBlock state p)" "''    forward . '' @ spaced (Upstreams state) \<in> set (serverBlock state p)"
    by (simp_all add: serverBlock_def block_head_def block_tail_def)
  moreover have "sublist ''.:53'' ''.:53 {''"
    by code_simp
  moreover have "sublist ''forward .'' (''    '' @ ''forward .'' @ '' '' @ spaced (Upstreams state))"
    by (rule sublist_appendI)
  ultimately show "\<exists>l \<in> set (serverBlock state p). sublist ''.:53'' l"
    "\<exists>l \<in> set (serverBlock state p). sublist ''forward .'' l"
    by (auto simp del: Cons_eq_appendI)
qed

lemma itoa_inj: "itoa i = itoa j \<longleftrightarrow> i = j"
proof -
  have sign: "itoa a \<noteq> itoa b" if "a < 0" "0 \<le> b" for a b
  proof
    assume "itoa a = itoa b"
    moreover have "CHR ''-'' \<in> set (itoa a)"
      using that(1) by (simp add: itoa_def)
    ultimately show False
      using itoa_chars [OF that(2)] not_digit_sign(1) by (auto simp: list_all_iff)
  qed
  have "i = j" if "itoa i = itoa j" "i < 0" "j < 0"
  proof -
    have "nat_to_string (nat (- i)) = nat_to_string (nat (- j))"
      using that by (simp add: itoa_def del: nat_to_string.simps)
    then have "nat (- i) = nat (- j)"
      by (metis digits_value_nat_to_string)
    then show ?thesis
      using that(2,3) by linarith
  qed
  then show ?thesis
    using sign [of i j] sign [of j i] itoa_inject [of i j] by (metis not_less)
qed

lemma hosts_file_inj: "hosts_file i = hosts_file j \<longleftrightarrow> i = j"
  by (simp add: hosts_file_def itoa_inj)

definition block_profiles :: "Store \<Rightarrow> protection_profile set" where
  "block_profiles s = {p \<in> set (protection_profiles s). pp_is_default p \<or> protection_clients s (pp_id p) \<noteq> []}"

lemma protections_hosts_files:
  assumes "protections h at s = Inr ps"
  shows "pr_HostsFile ` set (filter has_block ps) = hosts_file ` pp_id ` block_profiles s" "''Corefile'' \<notin> pr_HostsFile ` set ps"
    "list_ex pp_is_default (protection_profiles s) \<Longrightarrow> \<exists>p \<in> set ps. pr_IsDefault p"
proof -
  show "pr_HostsFile ` set (filter has_block ps) = hosts_file ` pp_id ` block_profiles s"
    using protections_member [OF assms] protection_render_fields by (fastforce simp: block_profiles_def has_block_def image_iff)
  show "''Corefile'' \<notin> pr_HostsFile ` set ps"
    using protections_member(1) [OF assms] protection_render_fields(3) hosts_file_plain(2) hosts_name_Corefile by fastforce
  show "list_ex pp_is_default (protection_profiles s) \<Longrightarrow> \<exists>p \<in> set ps. pr_IsDefault p"
    using protections_member(2) [OF assms] protection_render_fields(2) by (fastforce simp: list_ex_iff)
qed

lemma render_names:
  assumes "render h at s = Inr r" "list_ex pp_is_default (protection_profiles s)" "addresses_safe s"
  shows "\<exists>names. runtime_names_ok r names \<and> set names = hosts_file ` pp_id ` block_profiles s"
proof -
  obtain state local ps where r: "renderStateForSettings (settings s) = Inr state" "localHosts s = Inr local"
    "protections h at s = Inr ps" "ps \<noteq> []"
    "r = \<lparr>Corefile = unlines (corefile_lines state (pausedDevices (at_devices at) s) ps), LocalHosts = local,
          BlockHosts = default_blocks ps, ProtectionHosts = protection_files local ps\<rparr>"
    using render_Inr [OF assms(1)] .
  define names where "names = sort_uniq (map pr_HostsFile (filter has_block ps))"
  let ?ls = "corefile_lines state (pausedDevices (at_devices at) s) ps"
  have hosts: "corefileHostFiles (unlines ?ls) = Inr names"
    unfolding names_def
    by (intro corefileHostFiles_unlines corefile_lines_safe [OF _ r(3) assms(3)] corefile_lines_names [OF r(3)]
        renderStateForSettings_ok [OF r(1)])
  obtain p where p: "p \<in> set ps" "pr_IsDefault p"
    using protections_hosts_files(3) [OF r(3) assms(2)] by blast
  then have "set (serverBlock state p) \<subseteq> set ?ls"
    by (auto simp: corefile_lines_def has_block_def)
  then have sub: "sublist ''.:53'' (unlines ?ls)" "sublist ''forward .'' (unlines ?ls)"
    using serverBlock_sublists [of state p] sublist_unlines by blast+
  have keys: "set (gm_keys (protection_files local ps)) = pr_HostsFile ` set ps"
    unfolding protection_files_def put_all_keys by (force simp: image_iff)
  have "set names \<subseteq> pr_HostsFile ` set ps" "names \<noteq> []"
    using p set_sort_uniq [of "map pr_HostsFile (filter has_block ps)"]
    by (auto simp: names_def has_block_def simp del: set_sort_uniq)
  moreover have "pr_HostsFile ` set ps \<subseteq> set (gm_keys (filesFromRenderedState r))"
    unfolding filesFromRenderedState_def put_all_keys r(5) using keys by auto
  ultimately have "runtime_names_ok r names"
    using hosts sub keys protections_hosts_files(2) [OF r(3)] unfolding runtime_names_ok_def r(5) by auto
  then show ?thesis
    using protections_hosts_files(1) [OF r(3)] by (intro exI [of _ names]) (simp add: names_def)
qed

lemma render_files:
  assumes "render h at s = Inr r" "list_ex pp_is_default (protection_profiles s)" "addresses_safe s"
  obtains files where "runtimeFilesFromRenderedState r = Inr files" "complete_files files" "gm_get files ''Corefile'' = Some (Corefile r)"
    "set (gm_keys files) = insert ''Corefile'' (hosts_file ` pp_id ` block_profiles s)"
  using render_names [OF assms] runtimeFiles_complete by metis

text \<open>
  C2. Whatever the database holds, if rendering succeeds, a default profile exists and no stored client
  address contains a line break, then the rendered state yields a set of runtime files that passes
  \<open>validateGeneratedFiles\<close>: the Corefile has its server and forward blocks, names at least one hosts file, and the
  other files are exactly the hosts files it names, one for each profile that has a server block.
\<close>

theorem render_complete:
  assumes "render h at s = Inr r" "list_ex pp_is_default (protection_profiles s)" "addresses_safe s"
  shows "\<exists>files. runtimeFilesFromRenderedState r = Inr files \<and> validateGeneratedFiles files = Inr () \<and>
    gm_get files ''Corefile'' = Some (Corefile r) \<and>
    set (gm_keys files) = insert ''Corefile'' (hosts_file ` pp_id ` {p \<in> set (protection_profiles s).
        pp_is_default p \<or> protection_clients s (pp_id p) \<noteq> []})"
proof -
  obtain files where "runtimeFilesFromRenderedState r = Inr files" "complete_files files" "gm_get files ''Corefile'' = Some (Corefile r)"
    "set (gm_keys files) = insert ''Corefile'' (hosts_file ` pp_id ` block_profiles s)"
    using render_files [OF assms] .
  then show ?thesis
    using validateGeneratedFiles_iff unfolding block_profiles_def by auto
qed

subsection \<open>A small household\<close>

definition plain_host :: host where
  "plain_host = \<lparr>load_location = utc_only, julianday = \<lambda>_. None, sql_datetime = \<lambda>_. None\<rparr>"

definition always_on :: Schedule where
  "always_on = \<lparr>Enabled = False, Days = [], Start = [], End = [], Timezone = ''UTC''\<rparr>"

definition demo_store :: Store where
  "demo_store = \<lparr>
     dns_records = [],
     blocklists = [\<lparr>bl_id = 1, bl_name = ''Ads'', bl_url = ''https://lists.example/ads'', bl_enabled = True, bl_last_refreshed_at = None, bl_updated_at = []\<rparr>],
     blocklist_entries = [\<lparr>be_id = 1, be_blocklist_id = 1, be_domain = ''ads.example'', be_created_at = []\<rparr>,
       \<lparr>be_id = 2, be_blocklist_id = 1, be_domain = ''cdn.example'', be_created_at = []\<rparr>],
     protection_profiles = [\<lparr>pp_id = 1, pp_name = ''Home'', pp_is_default = True, pp_paused_until = [], pp_schedule = always_on, pp_icon = ''house'', pp_created_at = [], pp_updated_at = []\<rparr>,
       \<lparr>pp_id = 2, pp_name = ''Kids'', pp_is_default = False, pp_paused_until = [], pp_schedule = always_on, pp_icon = ''house'', pp_created_at = [], pp_updated_at = []\<rparr>],
     protection_blocklists = [(1, 1), (2, 1)],
     protection_allow_entries = [\<lparr>pe_id = 1, pe_protection_id = 1, pe_domain = ''cdn.example'', pe_created_at = []\<rparr>],
     protection_block_entries = [\<lparr>pe_id = 1, pe_protection_id = 2, pe_domain = ''games.example'', pe_created_at = []\<rparr>],
     device_protection_assignments = [],
     devices = [\<lparr>dv_id = 7, dv_name = ''Tablet'', dv_location = None, dv_notes = None, dv_confirmed = True, dv_first_seen_at = None, dv_last_seen_at = None\<rparr>],
     device_addresses = [\<lparr>da_id = 1, da_device_id = 7, da_address = ''10.0.0.7'', da_family = ''ipv4'', da_source = ''dns'', da_last_seen_at = []\<rparr>],
     device_identifiers = [], device_names = [], unifi_client_snapshots = [], device_classifications = [],
     device_protection_memberships = [(7, 2)],
     device_dns_pauses = [],
     troubleshooting_exceptions = [],
     allowlist_entries = [], manual_block_entries = [],
     dns_queries = [], events = [], notification_states = [],
     settings = [(''upstream_dns'', ''1.1.1.1''), (''allowed_client_cidrs'', ''10.0.0.0/8'')],
     redundancy_role = ''standalone'', query_log_progress = [], sqlite_sequence = []\<rparr>"

lemma demo_wf: "store_wf demo_store"
  by code_simp

lemma demo_state: "renderStateForSettings (settings demo_store) =
    Inr \<lparr>Upstreams = [''1.1.1.1''], CacheEnabled = True, CacheTTL = 300, DenialTTL = 60, AllowedCIDRs = [''10.0.0.0/8'']\<rparr>"
proof -
  have csv: "splitCSV ''1.1.1.1'' = [''1.1.1.1'']" "splitCSV ''10.0.0.0/8'' = [''10.0.0.0/8'']"
    "trim_space [] = []" "atoi [] = None"
    by code_simp+
  have "parse_ip ''1.1.1.1'' = Some [0, 0, 0, 0, 0, 65535, 257, 257]"
    by (simp add: net_eval)
  moreover have "parse_cidr ''10.0.0.0/8'' = Some ([0, 0, 0, 0, 0, 65535, 2560, 0], 8)"
    by (simp add: parse_cidr_def cut_def cidr_bits_def net_eval)
  ultimately show ?thesis
    by (simp add: renderStateForSettings_def demo_store_def setting_value_def csv Let_def)
qed

definition hosts_text :: "string list \<Rightarrow> string" where
  "hosts_text ds = unlines (''# Generated by Faro. Allowlist entries are excluded.'' # map (\<lambda>d. ''0.0.0.0 '' @ d) ds)"

lemma demo_allow: "allow_domains plain_host 0 demo_store 1 = [''cdn.example'']" "allow_domains plain_host 0 demo_store 2 = []"
  by code_simp+

lemma demo_block: "block_domains demo_store 1 = [''ads.example'', ''cdn.example'']"
  "block_domains demo_store 2 = [''ads.example'', ''cdn.example'', ''games.example'']"
  by code_simp+

lemma demo_domains: "NormalizeDomain ''ads.example'' = Inr ''ads.example''"
  "NormalizeDomain ''cdn.example'' = Inr ''cdn.example''" "NormalizeDomain ''games.example'' = Inr ''games.example''"
  by code_simp+

lemma demo_blockHosts:
  "blockHostsForProtection plain_host 0 demo_store 1 = Inr (hosts_text [''ads.example''])"
  "blockHostsForProtection plain_host 0 demo_store 2 = Inr (hosts_text [''ads.example'', ''cdn.example'', ''games.example''])"
  by (simp_all add: blockHostsForProtection_def demo_allow demo_block demo_domains normalize_stored_def hosts_text_def)

lemma demo_rows: "profile_rows demo_store =
   [\<lparr>pp_id = 2, pp_name = ''Kids'', pp_is_default = False, pp_paused_until = [], pp_schedule = always_on, pp_icon = ''house'', pp_created_at = [], pp_updated_at = []\<rparr>,
    \<lparr>pp_id = 1, pp_name = ''Home'', pp_is_default = True, pp_paused_until = [], pp_schedule = always_on, pp_icon = ''house'', pp_created_at = [], pp_updated_at = []\<rparr>]"
  by code_simp

lemma demo_clients: "protection_clients demo_store 2 = [''10.0.0.7'']" "protection_clients demo_store 1 = []"
  by code_simp+

lemma demo_hosts_file: "hosts_file 1 = ''protection-1.hosts''" "hosts_file 2 = ''protection-2.hosts''"
  by code_simp+

lemma always_active: "profile_active plain_host a b \<lparr>pp_id = i, pp_name = n, pp_is_default = d, pp_paused_until = [], pp_schedule = always_on, pp_icon = ''house'', pp_created_at = [], pp_updated_at = []\<rparr>"
proof -
  have "trim_space [] = []"
    by code_simp
  then show ?thesis
    by (simp add: profile_active_def PausedAt_def ActiveAt_def always_on_def)
qed

lemma demo_protections:
  "protections plain_host (instants_at 0) demo_store = Inr
     [\<lparr>pr_ID = 2, pr_Name = ''Kids'', pr_IsDefault = False, pr_ClientIPs = [''10.0.0.7''],
       pr_HostsFile = ''protection-2.hosts'', pr_BlockHosts = hosts_text [''ads.example'', ''cdn.example'', ''games.example''], pr_Active = True\<rparr>,
      \<lparr>pr_ID = 1, pr_Name = ''Home'', pr_IsDefault = True, pr_ClientIPs = [],
       pr_HostsFile = ''protection-1.hosts'', pr_BlockHosts = hosts_text [''ads.example''], pr_Active = True\<rparr>]"
  by (simp add: protections_def demo_rows protection_render_def always_active instants_at_def demo_blockHosts demo_clients
      demo_hosts_file)

lemma demo_localHosts: "localHosts demo_store = Inr (unlines [''# Generated by Faro. Manual edits will be replaced.''])"
  by code_simp

lemma demo_render: "\<exists>r. render plain_host (instants_at 0) demo_store = Inr r"
  by (simp add: render_def demo_state demo_localHosts demo_protections Let_def split_def)

lemma demo_safe: "addresses_safe demo_store" "list_ex pp_is_default (protection_profiles demo_store)"
  by (simp_all add: addresses_safe_def demo_store_def)

theorem render_complete_witness:
  "\<exists>r files. render plain_host (instants_at 0) demo_store = Inr r \<and> runtimeFilesFromRenderedState r = Inr files \<and>
     validateGeneratedFiles files = Inr ()"
proof -
  obtain r where "render plain_host (instants_at 0) demo_store = Inr r"
    using demo_render ..
  then show ?thesis
    using render_complete [OF _ demo_safe(2,1)] by meson
qed

end
