(* ===== verification/CoreDNS_Explain.thy ===== *)
theory CoreDNS_Explain
  imports CoreDNS_Render
begin

text \<open>
  Explaining a decision (\<^verbatim>\<open>ExplainDomain\<close> and \<^verbatim>\<open>ExplainDomainForClient\<close> in \<^verbatim>\<open>internal/coredns/coredns.go\<close>): what the
  query log records and the user interface shows for a domain and a client. The theorems relate it to
  what the rendered configuration enforces: the hosts file of the profile, and the server block whose
  view takes the client.

  CoreDNS is not part of the sources; \<open>serving_profile\<close> states its documented choice of a server block: the
  blocks are tried in the order of the Corefile, a block with a view takes the client when its expression
  holds, and the block without a view takes the rest.
\<close>

record RuleMatch =
  rm_Kind :: string
  rm_ID :: int
  rm_Name :: string

record LocalRecordMatch =
  lr_ID :: int
  lr_Type :: string
  lr_Value :: string

record DomainDecision =
  Action :: string
  Reason :: string
  Protection :: "RuleMatch option"
  Allowlist :: "RuleMatch option"
  ManualBlock :: "RuleMatch option"
  Blocklists :: "RuleMatch list"
  LocalRecord :: "LocalRecordMatch option"

definition plain_decision :: DomainDecision where
  "plain_decision = \<lparr>Action = ''allowed'', Reason = [], Protection = None, Allowlist = None, ManualBlock = None,
     Blocklists = [], LocalRecord = None\<rparr>"

section \<open>The queries\<close>

definition device_of :: "Store \<Rightarrow> string \<Rightarrow> int option" where
  "device_of s ip = map_option da_device_id (List.find (\<lambda>a. da_address a = ip) (device_addresses s))"

definition device_pause :: "Store \<Rightarrow> string \<Rightarrow> string option" where
  "device_pause s ip = (case device_of s ip of None \<Rightarrow> None | Some d \<Rightarrow> gm_get (device_dns_pauses s) d)"

definition is_member :: "Store \<Rightarrow> string \<Rightarrow> protection_profile \<Rightarrow> bool" where
  "is_member s ip p = (case device_of s ip of None \<Rightarrow> False
     | Some d \<Rightarrow> gm_get (device_protection_memberships s) d = Some (pp_id p))"

definition is_legacy :: "Store \<Rightarrow> string \<Rightarrow> protection_profile \<Rightarrow> bool" where
  "is_legacy s ip p = (gm_get (device_protection_assignments s) ip = Some (pp_id p))"

definition profile_rank :: "Store \<Rightarrow> string \<Rightarrow> protection_profile \<Rightarrow> nat" where
  "profile_rank s ip p = (if is_member s ip p then 0 else if is_legacy s ip p then 1 else 2)"

definition selected_profile :: "Store \<Rightarrow> string \<Rightarrow> protection_profile option" where
  "selected_profile s ip =
     (case sort_key (profile_rank s ip)
        (filter (\<lambda>p. is_member s ip p \<or> is_legacy s ip p \<or> pp_is_default p) (protection_profiles s)) of
        [] \<Rightarrow> None | p # _ \<Rightarrow> Some p)"

definition first_entry :: "protection_entry list \<Rightarrow> int \<Rightarrow> string \<Rightarrow> int" where
  "first_entry es protection domain =
     (case List.find (\<lambda>e. pe_protection_id e = protection \<and> pe_domain e = domain) es of
        None \<Rightarrow> 0 | Some e \<Rightarrow> pe_id e)"

definition local_record :: "Store \<Rightarrow> string \<Rightarrow> LocalRecordMatch option" where
  "local_record s domain =
     (case sort_key dr_id (filter (\<lambda>r. dr_hostname r = domain) (dns_records s)) of
        [] \<Rightarrow> None | r # _ \<Rightarrow> Some \<lparr>lr_ID = dr_id r, lr_Type = dr_type r, lr_Value = dr_value r\<rparr>)"

definition live_trial :: "host \<Rightarrow> time \<Rightarrow> Store \<Rightarrow> int \<Rightarrow> string \<Rightarrow> int option" where
  "live_trial h now s protection domain =
     map_option te_id (List.find (\<lambda>t. te_protection_id t = protection \<and> te_domain t = domain \<and>
       expires_after h now (te_expires_at t)) (troubleshooting_exceptions s))"

definition matching_lists :: "Store \<Rightarrow> int \<Rightarrow> string \<Rightarrow> RuleMatch list" where
  "matching_lists s protection domain =
     map (\<lambda>b. \<lparr>rm_Kind = ''blocklist'', rm_ID = bl_id b, rm_Name = bl_name b\<rparr>)
       (sort_key bl_name (concat (map (\<lambda>e. filter (\<lambda>b. bl_id b = be_blocklist_id e \<and> bl_enabled b \<and>
            (protection, bl_id b) \<in> set (protection_blocklists s)) (blocklists s))
          (filter (\<lambda>e. be_domain e = domain) (blocklist_entries s)))))"

section \<open>The decision\<close>

definition decide :: "string \<Rightarrow> bool \<Rightarrow> DomainDecision \<Rightarrow> DomainDecision" where
  "decide name filteringActive d =
     (if \<not> filteringActive
      then d\<lparr>Reason := ''Filtering is currently bypassed by '' @ name @ '' time controls.''\<rparr>
      else if Allowlist d \<noteq> None then d\<lparr>Reason := ''An exception in '' @ name @ '' bypassed filtering.''\<rparr>
      else if ManualBlock d \<noteq> None
      then d\<lparr>Action := ''blocked'', Reason := ''Matched a custom block in '' @ name @ ''.''\<rparr>
      else (case Blocklists d of
              [b] \<Rightarrow> d\<lparr>Action := ''blocked'', Reason := ''Matched the '' @ rm_Name b @ '' blocklist in '' @ name @ ''.''\<rparr>
            | _ # _ # _ \<Rightarrow> d\<lparr>Action := ''blocked'',
                Reason := ''Matched '' @ nat_to_string (length (Blocklists d)) @ '' blocklists in '' @ name @ ''.''\<rparr>
            | [] \<Rightarrow> if LocalRecord d \<noteq> None then d\<lparr>Reason := ''Matched a Faro Local DNS record.''\<rparr> else d))"

definition explain_profile :: "host \<Rightarrow> instants \<Rightarrow> Store \<Rightarrow> string \<Rightarrow> protection_profile \<Rightarrow> DomainDecision" where
  "explain_profile h at s domain p =
     (let pid = pp_id p; name = pp_name p;
          allowID = first_entry (protection_allow_entries s) pid domain;
          manualID = first_entry (protection_block_entries s) pid domain;
          trial = map_option (\<lambda>t. \<lparr>rm_Kind = ''allowlist'', rm_ID = t, rm_Name = name @ '' temporary troubleshooting exception''\<rparr>)
            (live_trial h (at_sql at pid) s pid domain);
          allow = (if allowID \<noteq> 0 then Some \<lparr>rm_Kind = ''allowlist'', rm_ID = allowID, rm_Name = name @ '' exception''\<rparr> else trial);
          manual = (if manualID \<noteq> 0 then Some \<lparr>rm_Kind = ''manual_block'', rm_ID = manualID, rm_Name = name @ '' custom block''\<rparr> else None);
          localRecord = (case local_record s domain of None \<Rightarrow> None | Some r \<Rightarrow> if lr_ID r \<noteq> 0 then Some r else None) in
      decide name (profile_active h (at_pause at pid) (at_schedule at pid) p)
        (plain_decision\<lparr>Protection := Some \<lparr>rm_Kind = ''protection'', rm_ID = pid, rm_Name = name\<rparr>,
           Allowlist := allow, ManualBlock := manual, Blocklists := matching_lists s pid domain,
           LocalRecord := localRecord\<rparr>))"

definition ExplainDomainForClient :: "host \<Rightarrow> instants \<Rightarrow> Store \<Rightarrow> string \<Rightarrow> string \<Rightarrow> DomainDecision" where
  "ExplainDomainForClient h at s domain clientIP =
     (case NormalizeDomain domain of
        Inl _ \<Rightarrow> plain_decision
      | Inr normalized \<Rightarrow>
          if clientIP \<noteq> [] \<and> (case device_pause s clientIP of None \<Rightarrow> False | Some until \<Rightarrow> PausedAt until (at_devices at))
          then plain_decision\<lparr>Action := ''blocked'', Reason := ''DNS access is temporarily paused for this device.''\<rparr>
          else (case selected_profile s clientIP of
                  None \<Rightarrow> plain_decision\<lparr>LocalRecord := local_record s normalized\<rparr>
                | Some p \<Rightarrow> explain_profile h at s normalized p))"

definition ExplainDomain :: "host \<Rightarrow> instants \<Rightarrow> Store \<Rightarrow> string \<Rightarrow> DomainDecision" where
  "ExplainDomain h at s domain = ExplainDomainForClient h at s domain []"

section \<open>What is stored\<close>

text \<open>
  Every domain that the API and the blocklist refresh write has passed \<open>NormalizeDomain\<close>, and SQLite never
  gives out the row id 0.
\<close>

definition stored_canonical :: "Store \<Rightarrow> bool" where
  "stored_canonical s \<longleftrightarrow>
     list_all (\<lambda>e. domain_wf (pe_domain e) \<and> pe_id e \<noteq> 0) (protection_allow_entries s) \<and>
     list_all (\<lambda>e. domain_wf (pe_domain e) \<and> pe_id e \<noteq> 0) (protection_block_entries s) \<and>
     list_all (\<lambda>e. domain_wf (be_domain e)) (blocklist_entries s) \<and>
     list_all (\<lambda>t. domain_wf (te_domain t)) (troubleshooting_exceptions s)"

lemma stored_domains_wf:
  assumes "stored_canonical s"
  shows "d \<in> set (allow_domains h now s p) \<Longrightarrow> domain_wf d" "d \<in> set (block_domains s p) \<Longrightarrow> domain_wf d"
  using assms by (auto simp: stored_canonical_def allow_domains_def block_domains_def list_all_iff)

lemma normalize_stored_wf: "domain_wf d \<Longrightarrow> normalize_stored w d = Inr d"
  by (simp add: normalize_stored_def NormalizeDomain_fixed)

lemma blockHosts_canonical:
  assumes "stored_canonical s"
  shows "blockHostsForProtection h now s p =
    Inr (hosts_text (filter (\<lambda>d. d \<notin> set (allow_domains h now s p)) (block_domains s p)))"
proof -
  have "rmap (normalize_stored w) (allow_domains h now s p) = Inr (allow_domains h now s p)" for w
    using stored_domains_wf(1) [OF assms] by (intro rmap_identity) (auto intro: normalize_stored_wf)
  moreover have "rmap (normalize_stored w) (block_domains s p) = Inr (block_domains s p)" for w
    using stored_domains_wf(2) [OF assms] by (intro rmap_identity) (auto intro: normalize_stored_wf)
  ultimately show ?thesis
    by (simp add: blockHostsForProtection_def hosts_text_def)
qed

lemma domain_wf_newline: "domain_wf d \<Longrightarrow> newline \<notin> set d"
  using domain_wf_chars domain_char_plain(4) by blast

definition header_line :: string where
  "header_line = ''# Generated by Faro. Allowlist entries are excluded.''"

lemma hosts_text_lines:
  assumes "\<forall>d \<in> set ds. newline \<notin> set d"
  shows "set (split_on newline (hosts_text ds)) = insert [] (insert header_line ((\<lambda>d. ''0.0.0.0 '' @ d) ` set ds))"
  unfolding hosts_text_def
  by (subst split_on_unlines) (auto simp: assms header_line_def)

lemma blocked_line_iff:
  assumes "\<forall>d \<in> set ds. newline \<notin> set d"
  shows "''0.0.0.0 '' @ d \<in> set (split_on newline (hosts_text ds)) \<longleftrightarrow> d \<in> set ds"
  unfolding hosts_text_lines [OF assms] by (auto simp: header_line_def)

section \<open>The decision and the hosts file\<close>

lemma first_entry_iff:
  assumes "list_all (\<lambda>e. domain_wf (pe_domain e) \<and> pe_id e \<noteq> 0) es"
  shows "first_entry es p d \<noteq> 0 \<longleftrightarrow> d \<in> set (map pe_domain (filter (\<lambda>e. pe_protection_id e = p) es))"
proof (cases "List.find (\<lambda>e. pe_protection_id e = p \<and> pe_domain e = d) es")
  case None
  then have "first_entry es p d = 0"
    by (simp add: first_entry_def)
  moreover have "d \<notin> set (map pe_domain (filter (\<lambda>e. pe_protection_id e = p) es))"
    using None by (auto simp: find_None_iff)
  ultimately show ?thesis
    by simp
next
  case (Some e)
  then have "e \<in> set es" "pe_protection_id e = p" "pe_domain e = d"
    by (auto simp: find_Some_iff)
  with Some assms show ?thesis
    by (auto simp: first_entry_def list_all_iff)
qed

lemma live_trial_iff:
  "live_trial h now s p d \<noteq> None \<longleftrightarrow>
     d \<in> set (map te_domain (filter (\<lambda>t. te_protection_id t = p \<and> expires_after h now (te_expires_at t))
       (troubleshooting_exceptions s)))"
  by (auto simp: live_trial_def find_None_iff)

lemma matching_lists_iff:
  "matching_lists s p d \<noteq> [] \<longleftrightarrow>
     d \<in> set (map be_domain (filter (\<lambda>e. be_blocklist_id e \<in> set (enabled_lists s p)) (blocklist_entries s)))"
proof -
  have "matching_lists s p d \<noteq> [] \<longleftrightarrow> set (matching_lists s p d) \<noteq> {}"
    by simp
  also have "\<dots> \<longleftrightarrow> (\<exists>e \<in> set (blocklist_entries s). be_domain e = d \<and> be_blocklist_id e \<in> set (enabled_lists s p))"
    unfolding matching_lists_def enabled_lists_def by (auto simp: image_iff) metis+
  finally show ?thesis
    by auto
qed

lemma decide_blocked:
  "Action d = ''allowed'' \<Longrightarrow> Action (decide name active d) = ''blocked'' \<longleftrightarrow>
     active \<and> Allowlist d = None \<and> (ManualBlock d \<noteq> None \<or> Blocklists d \<noteq> [])"
  by (auto simp: decide_def split: list.splits)

lemma explain_profile_blocked:
  assumes "stored_canonical s"
  shows "Action (explain_profile h at s d p) = ''blocked'' \<longleftrightarrow>
    profile_active h (at_pause at (pp_id p)) (at_schedule at (pp_id p)) p \<and>
    d \<notin> set (allow_domains h (at_sql at (pp_id p)) s (pp_id p)) \<and> d \<in> set (block_domains s (pp_id p))"
proof -
  have allow: "d \<in> set (allow_domains h now s i) \<longleftrightarrow>
      first_entry (protection_allow_entries s) i d \<noteq> 0 \<or> live_trial h now s i d \<noteq> None" for now i
    using assms unfolding live_trial_iff by (subst first_entry_iff) (auto simp: stored_canonical_def allow_domains_def)
  have block: "d \<in> set (block_domains s i) \<longleftrightarrow>
      first_entry (protection_block_entries s) i d \<noteq> 0 \<or> matching_lists s i d \<noteq> []" for i
    using assms unfolding matching_lists_iff by (subst first_entry_iff) (auto simp: stored_canonical_def block_domains_def)
  show ?thesis
    unfolding explain_profile_def Let_def allow block
    by (subst decide_blocked) (auto simp: plain_decision_def)
qed

lemma protection_render_canonical:
  assumes "stored_canonical s"
  shows "\<exists>r. protection_render h at s p = Inr r \<and>
    (''0.0.0.0 '' @ d \<in> set (split_on newline (pr_BlockHosts r)) \<longleftrightarrow>
      profile_active h (at_pause at (pp_id p)) (at_schedule at (pp_id p)) p \<and>
      d \<notin> set (allow_domains h (at_sql at (pp_id p)) s (pp_id p)) \<and> d \<in> set (block_domains s (pp_id p)))"
proof -
  define ds where "ds = filter (\<lambda>d. d \<notin> set (allow_domains h (at_sql at (pp_id p)) s (pp_id p))) (block_domains s (pp_id p))"
  have "\<forall>d \<in> set ds. newline \<notin> set d"
    using stored_domains_wf(2) [OF assms] domain_wf_newline by (auto simp: ds_def)
  then have "''0.0.0.0 '' @ d \<in> set (split_on newline (hosts_text ds)) \<longleftrightarrow> d \<in> set ds"
    by (rule blocked_line_iff)
  then show ?thesis
    using blockHosts_canonical [OF assms]
    by (auto simp: protection_render_def Let_def ds_def)
qed

definition device_paused :: "Store \<Rightarrow> string \<Rightarrow> time \<Rightarrow> bool" where
  "device_paused s ip now \<longleftrightarrow> ip \<noteq> [] \<and>
     (case device_pause s ip of None \<Rightarrow> False | Some until \<Rightarrow> PausedAt until now)"

lemma ExplainDomainForClient_profile:
  assumes "NormalizeDomain domain = Inr d" "\<not> device_paused s ip (at_devices at)" "selected_profile s ip = Some p"
  shows "ExplainDomainForClient h at s domain ip = explain_profile h at s d p"
  using assms by (auto simp: ExplainDomainForClient_def device_paused_def)


lemma demo_canonical: "stored_canonical demo_store"
  by code_simp

lemma demo_selected: "selected_profile demo_store ''10.0.0.7'' =
    Some \<lparr>pp_id = 2, pp_name = ''Kids'', pp_is_default = False, pp_paused_until = [], pp_schedule = always_on, pp_icon = ''house'', pp_created_at = [], pp_updated_at = []\<rparr>"
  by code_simp

lemma demo_not_paused: "\<not> device_paused demo_store ''10.0.0.7'' 0"
  by code_simp


section \<open>The server block that takes a client\<close>

text \<open>The view of a block holds for a client when \<^verbatim>\<open>incidr\<close> finds it in a network of one address.\<close>

definition serves :: "string \<Rightarrow> string list \<Rightarrow> bool" where
  "serves client ips = list_ex (\<lambda>ip. parse_ip ip \<noteq> None \<and> parse_ip ip = parse_ip client) ips"

definition serving_profile :: "Store \<Rightarrow> string \<Rightarrow> protection_profile option" where
  "serving_profile s client =
     List.find (\<lambda>p. pp_is_default p \<or> serves client (protection_clients s (pp_id p))) (profile_rows s)"

definition ip_canonical :: "string \<Rightarrow> bool" where
  "ip_canonical x = (case parse_ip x of None \<Rightarrow> False | Some a \<Rightarrow> x = ip_string a)"

definition addresses_canonical :: "Store \<Rightarrow> bool" where
  "addresses_canonical s \<longleftrightarrow> list_all (\<lambda>a. ip_canonical (da_address a)) (device_addresses s) \<and>
     list_all ip_canonical (gm_keys (device_protection_assignments s))"

definition membership_of :: "Store \<Rightarrow> string \<Rightarrow> int option" where
  "membership_of s ip = Option.bind (device_of s ip) (gm_get (device_protection_memberships s))"

definition legacy_consistent :: "Store \<Rightarrow> string \<Rightarrow> bool" where
  "legacy_consistent s ip \<longleftrightarrow> (case (gm_get (device_protection_assignments s) ip, membership_of s ip) of
     (Some q, Some m) \<Rightarrow> q = m | _ \<Rightarrow> True)"

lemma canonical_eq: "ip_canonical x \<Longrightarrow> ip_canonical y \<Longrightarrow> parse_ip x = parse_ip y \<Longrightarrow> x = y"
  by (auto simp: ip_canonical_def split: option.splits)

lemma serves_canonical:
  assumes "list_all ip_canonical ips" "ip_canonical client"
  shows "serves client ips \<longleftrightarrow> client \<in> set ips"
  using assms canonical_eq
  by (auto simp: serves_def list_ex_iff list_all_iff ip_canonical_def split: option.splits)

lemma device_of_iff:
  assumes "distinct (map da_address (device_addresses s))"
  shows "device_of s ip = Some d \<longleftrightarrow> (\<exists>a \<in> set (device_addresses s). da_address a = ip \<and> da_device_id a = d)"
proof (cases "List.find (\<lambda>a. da_address a = ip) (device_addresses s)")
  case None
  then have "device_of s ip = None" "\<forall>a \<in> set (device_addresses s). da_address a \<noteq> ip"
    by (simp_all add: device_of_def find_None_iff)
  then show ?thesis
    by auto
next
  case (Some a)
  then have "a \<in> set (device_addresses s)" "da_address a = ip"
    by (auto simp: find_Some_iff)
  moreover have "b = a" if "b \<in> set (device_addresses s)" "da_address b = ip" for b
    using assms that calculation by (simp add: distinct_map inj_on_def)
  moreover have "device_of s ip = Some (da_device_id a)"
    by (simp add: device_of_def Some)
  ultimately show ?thesis
    by (metis option.inject)
qed

lemma store_wf_unique:
  assumes "store_wf s"
  shows "distinct (map pp_id (protection_profiles s))" "length (filter pp_is_default (protection_profiles s)) \<le> 1"
    "distinct (map da_address (device_addresses s))" "gm_wf (device_protection_assignments s)"
  using assms by (simp_all add: store_wf_def)

lemma store_wf_refs:
  assumes "store_wf s"
  shows "snd ` set (device_protection_assignments s) \<subseteq> pp_id ` set (protection_profiles s)"
    "snd ` set (device_protection_memberships s) \<subseteq> pp_id ` set (protection_profiles s)"
  using assms by (simp_all add: store_wf_def)

lemma client_of_profile:
  assumes "store_wf s" "addresses_canonical s" "ip_canonical client"
  shows "serves client (protection_clients s (pp_id p)) \<longleftrightarrow> is_member s client p \<or> is_legacy s client p"
proof -
  have "list_all ip_canonical (protection_clients s (pp_id p))"
    using assms(2) by (auto simp: addresses_canonical_def protection_clients_def list_all_iff)
  then have "serves client (protection_clients s (pp_id p)) \<longleftrightarrow> client \<in> set (protection_clients s (pp_id p))"
    by (rule serves_canonical) fact
  also have "\<dots> \<longleftrightarrow> is_member s client p \<or> is_legacy s client p"
  proof -
    have "is_member s client p \<longleftrightarrow> (\<exists>a \<in> set (device_addresses s). da_address a = client \<and>
        gm_get (device_protection_memberships s) (da_device_id a) = Some (pp_id p))"
    proof -
      have "is_member s client p \<longleftrightarrow> (\<exists>d. device_of s client = Some d \<and>
          gm_get (device_protection_memberships s) d = Some (pp_id p))"
        by (auto simp: is_member_def split: option.splits)
      then show ?thesis
        unfolding device_of_iff [OF store_wf_unique(3) [OF assms(1)]] by blast
    qed
    moreover have "is_legacy s client p \<longleftrightarrow> (client, pp_id p) \<in> set (device_protection_assignments s)"
      using store_wf_unique(4) [OF assms(1)] by (simp add: is_legacy_def gm_wf_def)
    ultimately show ?thesis
      by (auto simp: protection_clients_def image_iff)
  qed
  finally show ?thesis .
qed

lemma distinct_length_le_1: "length xs \<le> 1 \<Longrightarrow> x \<in> set xs \<Longrightarrow> y \<in> set xs \<Longrightarrow> x = y"
  by (cases xs) auto

lemma find_unique:
  assumes "x \<in> set xs" "P x" "\<And>y. y \<in> set xs \<Longrightarrow> P y \<Longrightarrow> y = x"
  shows "List.find P xs = Some x"
proof (cases "List.find P xs")
  case None
  with assms(1,2) show ?thesis
    by (auto simp: find_None_iff)
next
  case (Some y)
  then have "y \<in> set xs" "P y"
    by (auto simp: find_Some_iff)
  with assms(3) Some show ?thesis
    by simp
qed

lemma hd_sort_key_min:
  assumes "x \<in> set xs" "\<And>y. y \<in> set xs \<Longrightarrow> f y \<le> f x \<Longrightarrow> y = x"
  shows "\<exists>ys. sort_key f xs = x # ys"
proof -
  obtain z ys where z: "sort_key f xs = z # ys"
    using assms(1) set_sort [of f xs] by (cases "sort_key f xs") auto
  have "z \<in> set xs" "x \<in> set (z # ys)" "sorted (map f (z # ys))"
    using z assms(1) set_sort [of f xs] sorted_sort_key [of f xs] by auto
  then have "f z \<le> f x"
    by auto
  with \<open>z \<in> set xs\<close> assms(2) have "z = x"
    by blast
  with z show ?thesis
    by simp
qed

text \<open>The profile that both the query of \<open>selected_profile\<close> and the order of the Corefile must find.\<close>

definition target_profile :: "Store \<Rightarrow> string \<Rightarrow> protection_profile \<Rightarrow> bool" where
  "target_profile s ip p \<longleftrightarrow> p \<in> set (protection_profiles s) \<and>
     (is_member s ip p \<or> is_legacy s ip p \<or>
      pp_is_default p \<and> membership_of s ip = None \<and> gm_get (device_protection_assignments s) ip = None)"

lemma is_member_membership: "is_member s ip p \<longleftrightarrow> membership_of s ip = Some (pp_id p)"
  by (auto simp: is_member_def membership_of_def split: option.splits)

lemma profile_by_id:
  assumes "store_wf s" "p \<in> set (protection_profiles s)" "q \<in> set (protection_profiles s)" "pp_id p = pp_id q"
  shows "p = q"
  using assms store_wf_unique(1) [OF assms(1)] by (meson distinct_map inj_onD)

lemma target_exists:
  assumes "store_wf s" "list_ex pp_is_default (protection_profiles s)"
  obtains p where "target_profile s ip p"
proof -
  have member: "\<exists>p \<in> set (protection_profiles s). pp_id p = i" if "membership_of s ip = Some i" for i
  proof -
    have "i \<in> snd ` set (device_protection_memberships s)"
      using that by (force simp: membership_of_def bind_eq_Some_conv dest: map_of_SomeD)
    then have "i \<in> pp_id ` set (protection_profiles s)"
      by (rule subsetD [OF store_wf_refs(2) [OF assms(1)]])
    then show ?thesis
      by (auto simp: image_iff)
  qed
  have legacy: "\<exists>p \<in> set (protection_profiles s). pp_id p = i"
    if "gm_get (device_protection_assignments s) ip = Some i" for i
  proof -
    have "i \<in> snd ` set (device_protection_assignments s)"
      using that by (force dest: map_of_SomeD)
    then have "i \<in> pp_id ` set (protection_profiles s)"
      by (rule subsetD [OF store_wf_refs(1) [OF assms(1)]])
    then show ?thesis
      by (auto simp: image_iff)
  qed
  show ?thesis
    using member legacy assms(2) that unfolding target_profile_def is_member_membership is_legacy_def list_ex_iff
    by (metis option.exhaust)
qed

lemma selected_is_target:
  assumes "store_wf s" "legacy_consistent s ip" "target_profile s ip p"
  shows "selected_profile s ip = Some p"
proof -
  have unique: "q = p" if "q \<in> set (protection_profiles s)" "is_member s ip q \<or> is_legacy s ip q \<or> pp_is_default q"
      "profile_rank s ip q \<le> profile_rank s ip p" for q
  proof (cases "is_member s ip p \<or> is_legacy s ip p")
    case True
    then have "pp_id q = pp_id p"
      using that(3) assms(2)
      by (auto simp: profile_rank_def is_member_membership is_legacy_def legacy_consistent_def split: if_splits option.splits)
    then show ?thesis
      using profile_by_id [OF assms(1) that(1)] assms(3) by (auto simp: target_profile_def)
  next
    case False
    then have "pp_is_default p" "pp_is_default q" "p \<in> set (protection_profiles s)"
      using assms(3) that(2) by (auto simp: target_profile_def is_member_membership is_legacy_def)
    then show ?thesis
      using distinct_length_le_1 [OF store_wf_unique(2) [OF assms(1)], of q p] that(1) by simp
  qed
  have "\<exists>ys. sort_key (profile_rank s ip)
      (filter (\<lambda>p. is_member s ip p \<or> is_legacy s ip p \<or> pp_is_default p) (protection_profiles s)) = p # ys"
    using assms(3) unique by (intro hd_sort_key_min) (auto simp: target_profile_def)
  then show ?thesis
    by (auto simp: selected_profile_def)
qed

lemma matches_is_target:
  assumes "store_wf s" "legacy_consistent s ip" "target_profile s ip p" "q \<in> set (protection_profiles s)"
    "is_member s ip q \<or> is_legacy s ip q"
  shows "q = p"
proof -
  have "pp_id q = pp_id p"
    using assms(2,3,5)
    by (auto simp: target_profile_def is_member_membership is_legacy_def legacy_consistent_def split: option.splits)
  then show ?thesis
    using profile_by_id [OF assms(1,4)] assms(3) by (simp add: target_profile_def)
qed

lemma default_unique:
  assumes "store_wf s" "p \<in> set (protection_profiles s)" "q \<in> set (protection_profiles s)" "pp_is_default p" "pp_is_default q"
  shows "q = p"
  using distinct_length_le_1 [OF store_wf_unique(2) [OF assms(1)], of q p] assms(2-5) by simp

lemma serving_is_target:
  assumes "store_wf s" "legacy_consistent s ip" "target_profile s ip p" "addresses_canonical s" "ip_canonical ip"
  shows "serving_profile s ip = Some p"
proof -
  define P where "P = (\<lambda>q. pp_is_default q \<or> is_member s ip q \<or> is_legacy s ip q)"
  define A where "A = filter (\<lambda>q. \<not> pp_is_default q) (sort_key pp_id (protection_profiles s))"
  define B where "B = filter pp_is_default (sort_key pp_id (protection_profiles s))"
  have p: "p \<in> set (protection_profiles s)"
    using assms(3) by (simp add: target_profile_def)
  have serving: "serving_profile s ip = (case List.find P A of None \<Rightarrow> List.find P B | Some x \<Rightarrow> Some x)"
    unfolding serving_profile_def profile_rows_def Let_def client_of_profile [OF assms(1,4,5)]
      find_append P_def A_def B_def ..
  have match: "q = p" if "q \<in> set A" "P q" for q
    using that matches_is_target [OF assms(1-3), of q] by (auto simp: A_def P_def)
  show ?thesis
  proof (cases "pp_is_default p")
    case True
    then have "List.find P A = None"
    proof -
      have "\<not> P q" if "q \<in> set A" for q
        using match [OF that] True that unfolding A_def by auto
      then show ?thesis
        unfolding find_None_iff by simp
    qed
    moreover have "List.find P B = Some p"
    proof (rule find_unique)
      show "p \<in> set B" "P p"
        using True p by (simp_all add: B_def P_def)
      show "q = p" if "q \<in> set B" "P q" for q
        using that(1) True default_unique [OF assms(1) p, of q] by (simp add: B_def)
    qed
    ultimately show ?thesis
      by (simp add: serving)
  next
    case False
    then have "P p" "p \<in> set A"
      using assms(3) by (auto simp: A_def P_def target_profile_def)
    then have "List.find P A = Some p"
      using match by (intro find_unique)
    then show ?thesis
      by (simp add: serving)
  qed
qed


lemma parse_10_0_0_7: "parse_ip ''10.0.0.7'' = Some [0, 0, 0, 0, 0, 65535, 2560, 7]"
  by (simp add: net_eval)

lemma canonical_10_0_0_7: "ip_canonical ''10.0.0.7''"
  by (simp add: ip_canonical_def parse_10_0_0_7 net_print_eval)

lemma demo_addresses: "addresses_canonical demo_store"
  by (simp add: addresses_canonical_def demo_store_def canonical_10_0_0_7)


definition moved_device :: Store where
  "moved_device = demo_store\<lparr>
     protection_profiles := protection_profiles demo_store @
       [\<lparr>pp_id = 3, pp_name = ''Guests'', pp_is_default = False, pp_paused_until = [], pp_schedule = always_on, pp_icon = ''house'', pp_created_at = [], pp_updated_at = []\<rparr>],
     device_addresses := device_addresses demo_store @ [\<lparr>da_id = 2, da_device_id = 7, da_address = ''10.0.0.8'', da_family = ''ipv4'', da_source = ''dns'', da_last_seen_at = []\<rparr>],
     device_protection_assignments := [(''10.0.0.7'', 2), (''10.0.0.8'', 3)],
     device_protection_memberships := [(7, 3)]\<rparr>"

lemma moved_rows: "profile_rows moved_device =
   [\<lparr>pp_id = 2, pp_name = ''Kids'', pp_is_default = False, pp_paused_until = [], pp_schedule = always_on, pp_icon = ''house'', pp_created_at = [], pp_updated_at = []\<rparr>,
    \<lparr>pp_id = 3, pp_name = ''Guests'', pp_is_default = False, pp_paused_until = [], pp_schedule = always_on, pp_icon = ''house'', pp_created_at = [], pp_updated_at = []\<rparr>,
    \<lparr>pp_id = 1, pp_name = ''Home'', pp_is_default = True, pp_paused_until = [], pp_schedule = always_on, pp_icon = ''house'', pp_created_at = [], pp_updated_at = []\<rparr>]"
  by code_simp

lemma moved_clients: "protection_clients moved_device 2 = [''10.0.0.7'']"
  by code_simp


end
