(* ===== verification/CoreDNS_Apply.thy ===== *)
theory CoreDNS_Apply
  imports CoreDNS_Explain "HOL-Library.Word"
begin

text \<open>
  Installing a configuration (\<^verbatim>\<open>Apply\<close>, \<^verbatim>\<open>ApplyReplica\<close>, \<^verbatim>\<open>applyFilesLocked\<close>, \<^verbatim>\<open>replaceWithRollback\<close>, \<^verbatim>\<open>rollback\<close>
  and the temporal reloads of \<^verbatim>\<open>internal/coredns/coredns.go\<close>): a transaction over the configuration
  directory that a running CoreDNS watches, with hooks for the encrypted transport.

  The directory is a map from names to nodes. A system call that can fail is a flag of \<open>disk\<close>, one for
  each name it is made for; the temporary file that a rename replaces has a hidden name and is not part
  of the directory. What is outside the sources is a parameter: the CoreDNS binary that checks a staged
  copy, its metrics page, the waits for its reload hash, and the hash itself (\<^verbatim>\<open>caddyfile.Parse\<close>) are
  the record \<open>engine\<close>; the hooks are functions on a world \<open>'w\<close> of the caller. The mutex makes every call
  run alone, so a call is a function on the manager.
\<close>

section \<open>The configuration directory\<close>

datatype node =
    Regular string
  | Link string
  | Directory

type_synonym directory = "(string, node) gomap"

record disk =
  mkdir_ok :: bool
  readdir_ok :: bool
  write_ok :: "string \<Rightarrow> bool"
  remove_ok :: "string \<Rightarrow> bool"
  restore_ok :: "string \<Rightarrow> bool"

datatype read_result = Content string | NotExist | ReadError

definition read_file :: "directory \<Rightarrow> string \<Rightarrow> read_result" where
  "read_file d name = (case gm_get d name of
     None \<Rightarrow> NotExist | Some (Regular c) \<Rightarrow> Content c | Some (Link c) \<Rightarrow> Content c | Some Directory \<Rightarrow> ReadError)"

fun snapshotFiles :: "directory \<Rightarrow> string list \<Rightarrow> files \<Rightarrow> files option" where
  "snapshotFiles d [] backups = Some backups"
| "snapshotFiles d (name # names) backups = (case read_file d name of
     Content c \<Rightarrow> snapshotFiles d names (gm_put name c backups)
   | NotExist \<Rightarrow> snapshotFiles d names backups
   | ReadError \<Rightarrow> None)"

definition is_regular :: "directory \<Rightarrow> string \<Rightarrow> bool" where
  "is_regular d name = (case gm_get d name of Some (Regular _) \<Rightarrow> True | _ \<Rightarrow> False)"

definition staleManagedFiles :: "directory \<Rightarrow> files \<Rightarrow> string list" where
  "staleManagedFiles d desired =
     sort (filter (\<lambda>name. isManagedDNSFileName name \<and> gm_get desired name = None \<and> is_regular d name) (gm_keys d))"

text \<open>\<^verbatim>\<open>os.WriteFile\<close> writes through a link; \<^verbatim>\<open>os.Rename\<close> replaces it.\<close>

definition restore_file :: "disk \<Rightarrow> files \<Rightarrow> string \<Rightarrow> directory \<Rightarrow> directory" where
  "restore_file k backups name d =
     (if \<not> restore_ok k name then d
      else (case gm_get backups name of
              Some c \<Rightarrow> (case gm_get d name of
                          Some (Link _) \<Rightarrow> gm_put name (Link c) d
                        | Some Directory \<Rightarrow> d
                        | _ \<Rightarrow> gm_put name (Regular c) d)
            | None \<Rightarrow> (case gm_get d name of Some Directory \<Rightarrow> d | _ \<Rightarrow> gm_del name d)))"

definition rollback :: "disk \<Rightarrow> files \<Rightarrow> string list \<Rightarrow> directory \<Rightarrow> directory" where
  "rollback k backups written d = foldl (\<lambda>d name. restore_file k backups name d) d written"

text \<open>All names in order, with the Corefile moved to the end.\<close>

definition write_order :: "files \<Rightarrow> string list" where
  "write_order files =
     (let names = fileNames files in
      if length names > 1 \<and> ''Corefile'' \<in> set names then remove1 ''Corefile'' names @ [''Corefile''] else names)"

definition rename_into :: "disk \<Rightarrow> files \<Rightarrow> string \<Rightarrow> directory \<Rightarrow> directory option" where
  "rename_into k files name d =
     (if \<not> write_ok k name \<or> gm_get d name = Some Directory then None
      else Some (gm_put name (Regular (file_content files name)) d))"

definition remove_file :: "disk \<Rightarrow> string \<Rightarrow> directory \<Rightarrow> directory option" where
  "remove_file k name d =
     (if gm_get d name = None then Some d else if remove_ok k name then Some (gm_del name d) else None)"

text \<open>
  The steps of \<open>replaceWithRollback\<close> before a possible rollback: the directories it passes through, the last
  first, and whether every step succeeded.
\<close>

fun run_steps :: "(directory \<Rightarrow> directory option) list \<Rightarrow> directory \<Rightarrow> directory list \<times> bool" where
  "run_steps [] d = ([d], True)"
| "run_steps (f # fs) d = (case f d of
     None \<Rightarrow> ([d], False)
   | Some d' \<Rightarrow> (let (ds, ok) = run_steps fs d' in (ds @ [d], ok)))"

definition replace_steps :: "disk \<Rightarrow> files \<Rightarrow> string list \<Rightarrow> (directory \<Rightarrow> directory option) list" where
  "replace_steps k files remove = map (rename_into k files) (write_order files) @ map (remove_file k) remove"

definition replaceWithRollback ::
  "disk \<Rightarrow> files \<Rightarrow> string list \<Rightarrow> files \<Rightarrow> string list \<Rightarrow> directory \<Rightarrow> directory \<times> bool" where
  "replaceWithRollback k files remove backups touched d =
     (let (ds, ok) = run_steps (replace_steps k files remove) d in
      if ok then (hd ds, True) else (rollback k backups touched (hd ds), False))"

section \<open>The manager\<close>

datatype live_hash = LiveHash string | HashUnavailable | LiveError

record engine =
  staged_ok :: "files \<Rightarrow> bool"
  live :: live_hash
  new_hash_seen :: "string \<Rightarrow> bool"
  old_hash_seen :: "string \<Rightarrow> bool"
  corefileHash :: "string \<Rightarrow> string option"

record 'w hooks =
  BeforeApply :: "('w \<Rightarrow> 'w \<times> bool) option"
  RollbackApply :: "('w \<Rightarrow> 'w \<times> bool) option"
  CommitApply :: "('w \<Rightarrow> 'w \<times> bool) option"
  AfterApply :: "('w \<Rightarrow> 'w) option"

record 'w manager =
  ConfigDir :: directory
  bootstrapped :: bool
  world :: 'w
  reloadTotal :: "64 word"
  reloadFailedTotal :: "64 word"
  temporalSignature :: string

datatype apply_error =
    RenderFailed render_error
  | RuntimeFilesFailed file_error
  | MkdirFailed
  | FilesInvalid file_error
  | StagedRejected
  | EngineUnverified
  | StaleFailed
  | SnapshotFailed
  | HashFailed
  | PrepareFailed
  | ReplaceFailed
  | RestoredWithoutHash
  | RollbackUnverified
  | Restored
  | RuntimeSettingsInvalid
  | TransportNotRestored apply_error

definition fail_with :: "apply_error \<Rightarrow> 'w manager \<Rightarrow> 'w manager \<times> bool \<times> apply_error option" where
  "fail_with e m = (m\<lparr>reloadFailedTotal := reloadFailedTotal m + 1\<rparr>, False, Some e)"

definition run_hook :: "('w \<Rightarrow> 'w \<times> bool) option \<Rightarrow> 'w manager \<Rightarrow> 'w manager \<times> bool" where
  "run_hook hook m = (case hook of
     None \<Rightarrow> (m, True)
   | Some f \<Rightarrow> (let (w, ok) = f (world m) in (m\<lparr>world := w\<rparr>, ok)))"

definition handleReloadFailure ::
  "disk \<Rightarrow> engine \<Rightarrow> files \<Rightarrow> string list \<Rightarrow> string \<Rightarrow> 'w manager \<Rightarrow> 'w manager \<times> apply_error" where
  "handleReloadFailure k e backups touched previousHash m =
     (m\<lparr>ConfigDir := rollback k backups touched (ConfigDir m)\<rparr>,
      if previousHash = [] then RestoredWithoutHash
      else if \<not> old_hash_seen e previousHash then RollbackUnverified
      else Restored)"

text \<open>The second component of the result says whether the prepare hook has succeeded (\<open>prepared\<close> of the callers).\<close>

definition finish_apply ::
  "disk \<Rightarrow> engine \<Rightarrow> ('w \<Rightarrow> 'w \<times> bool) option \<Rightarrow> files \<Rightarrow> string list \<Rightarrow> string \<Rightarrow> string \<Rightarrow> bool \<Rightarrow> bool \<Rightarrow>
   'w manager \<Rightarrow> 'w manager \<times> bool \<times> apply_error option" where
  "finish_apply k e commit backups touched expectedHash previousHash must_wait prepared m =
     (let failed = (\<lambda>m. let (m', err) = handleReloadFailure k e backups touched previousHash
                          (m\<lparr>reloadFailedTotal := reloadFailedTotal m + 1\<rparr>) in (m', prepared, Some err)) in
      if must_wait \<and> \<not> new_hash_seen e expectedHash then failed m
      else (let (m', ok) = run_hook commit m in
            if ok then (m'\<lparr>bootstrapped := True\<rparr>, prepared, None) else failed m'))"

definition touched_files :: "files \<Rightarrow> directory \<Rightarrow> string list" where
  "touched_files files d = fileNames files @ staleManagedFiles d files"

definition install_files ::
  "disk \<Rightarrow> engine \<Rightarrow> ('w \<Rightarrow> 'w \<times> bool) option \<Rightarrow> ('w \<Rightarrow> 'w \<times> bool) option \<Rightarrow> files \<Rightarrow> files \<Rightarrow> string \<Rightarrow>
   'w manager \<Rightarrow> 'w manager \<times> bool \<times> apply_error option" where
  "install_files k e prepare commit files backups expectedHash m =
     (let touched = touched_files files (ConfigDir m);
          previousHash = (case live e of LiveHash h \<Rightarrow> h | _ \<Rightarrow> []);
          corefileChanged = (corefileHash e (file_content backups ''Corefile'') \<noteq> Some expectedHash);
          (m1, prepared_ok) = run_hook prepare m in
      if \<not> prepared_ok then fail_with PrepareFailed m1
      else
        let (d, ok) = replaceWithRollback k files (staleManagedFiles (ConfigDir m) files) backups touched (ConfigDir m1);
            m2 = m1\<lparr>ConfigDir := d\<rparr>; prepared = (prepare \<noteq> None) in
        if \<not> ok then (m2\<lparr>reloadFailedTotal := reloadFailedTotal m2 + 1\<rparr>, prepared, Some ReplaceFailed)
        else finish_apply k e commit backups touched expectedHash previousHash
               ((case live e of LiveHash _ \<Rightarrow> True | _ \<Rightarrow> False) \<or>
                bootstrapped m \<and> live e = HashUnavailable \<and> corefileChanged) prepared m2)"

definition applyFilesLocked ::
  "disk \<Rightarrow> engine \<Rightarrow> ('w \<Rightarrow> 'w \<times> bool) option \<Rightarrow> ('w \<Rightarrow> 'w \<times> bool) option \<Rightarrow> files \<Rightarrow>
   'w manager \<Rightarrow> 'w manager \<times> bool \<times> apply_error option" where
  "applyFilesLocked k e prepare commit files m =
     (if \<not> mkdir_ok k then fail_with MkdirFailed m
      else (case validateGeneratedFiles files of
        Inl err \<Rightarrow> fail_with (FilesInvalid err) m
      | Inr _ \<Rightarrow>
          if \<not> staged_ok e files then fail_with StagedRejected m
          else if bootstrapped m \<and> live e = LiveError then fail_with EngineUnverified m
          else if \<not> readdir_ok k then fail_with StaleFailed m
          else (case snapshotFiles (ConfigDir m) (touched_files files (ConfigDir m)) [] of
            None \<Rightarrow> fail_with SnapshotFailed m
          | Some backups \<Rightarrow>
              (case corefileHash e (file_content files ''Corefile'') of
                 None \<Rightarrow> fail_with HashFailed m
               | Some expectedHash \<Rightarrow> install_files k e prepare commit files backups expectedHash m))))"

section \<open>Applying the database, applying a replica\<close>

definition after_failure ::
  "'w hooks \<Rightarrow> 'w manager \<times> bool \<times> apply_error option \<Rightarrow> apply_error \<Rightarrow> 'w manager \<times> apply_error" where
  "after_failure hk r err =
     (case r of (m, prepared, _) \<Rightarrow>
       if prepared \<and> RollbackApply hk \<noteq> None
       then (let (m', ok) = run_hook (RollbackApply hk) m in (m', if ok then err else TransportNotRestored err))
       else (m, err))"

definition run_after :: "'w hooks \<Rightarrow> 'w manager \<Rightarrow> 'w manager" where
  "run_after hk m = (case AfterApply hk of None \<Rightarrow> m | Some f \<Rightarrow> m\<lparr>world := f (world m)\<rparr>)"

definition currentTemporalSignature :: "host \<Rightarrow> Store \<Rightarrow> time \<Rightarrow> string" where
  "currentTemporalSignature h s now =
     concat (map (\<lambda>p. ''p:'' @ itoa (pp_id p) @ '':'' @ bool_text (profile_active h now now p) @ '';'')
       (sort_key pp_id (protection_profiles s))) @
     concat (map (\<lambda>(device, _). ''d:'' @ itoa device @ '';'')
       (filter (\<lambda>(_, until). PausedAt until now) (sort_key fst (device_dns_pauses s)))) @
     concat (map (\<lambda>t. ''t:'' @ itoa (te_id t) @ '';'')
       (filter (\<lambda>t. case (julianday h (te_expires_at t), julianday h (format_rfc3339nano now)) of
            (Some x, Some y) \<Rightarrow> x > y | _ \<Rightarrow> False) (sort_key te_id (troubleshooting_exceptions s))))"

definition rememberTemporalState :: "host \<Rightarrow> Store \<Rightarrow> time \<Rightarrow> 'w manager \<Rightarrow> 'w manager" where
  "rememberTemporalState h s now m = m\<lparr>temporalSignature := currentTemporalSignature h s now\<rparr>"

text \<open>Rendering reads the clock at the instants \<open>at\<close>, and \<open>rememberTemporalState\<close> at a later one.\<close>

definition Apply ::
  "host \<Rightarrow> instants \<Rightarrow> time \<Rightarrow> disk \<Rightarrow> engine \<Rightarrow> 'w hooks \<Rightarrow> Store \<Rightarrow> 'w manager \<Rightarrow> 'w manager \<times> apply_error option" where
  "Apply h at later k e hk s m0 =
     (let m = m0\<lparr>reloadTotal := reloadTotal m0 + 1\<rparr> in
      case render h at s of
        Inl err \<Rightarrow> (m\<lparr>reloadFailedTotal := reloadFailedTotal m + 1\<rparr>, Some (RenderFailed err))
      | Inr state \<Rightarrow>
          if \<not> mkdir_ok k then (m\<lparr>reloadFailedTotal := reloadFailedTotal m + 1\<rparr>, Some MkdirFailed)
          else (case runtimeFilesFromRenderedState state of
                  Inl err \<Rightarrow> (m\<lparr>reloadFailedTotal := reloadFailedTotal m + 1\<rparr>, Some (RuntimeFilesFailed err))
                | Inr files \<Rightarrow>
                    (let r = applyFilesLocked k e (BeforeApply hk) (CommitApply hk) files m in
                     case snd (snd r) of
                       Some err \<Rightarrow> (let (m', err') = after_failure hk r err in (m', Some err'))
                     | None \<Rightarrow> (rememberTemporalState h s later (run_after hk (fst r)), None))))"

definition temporal_tick ::
  "host \<Rightarrow> instants \<Rightarrow> time \<Rightarrow> time \<Rightarrow> disk \<Rightarrow> engine \<Rightarrow> 'w hooks \<Rightarrow> Store \<Rightarrow> 'w manager \<Rightarrow> 'w manager" where
  "temporal_tick h at later now k e hk s m =
     (let signature = currentTemporalSignature h s now; previous = temporalSignature m in
      if previous \<noteq> [] \<and> previous \<noteq> signature then fst (Apply h at later k e hk s m) else m)"

subsection \<open>Replicated configurations\<close>

text \<open>The hooks read the database, so they are given for each content of it.\<close>

definition runtime_keys :: "string list" where
  "runtime_keys = [''upstream_dns'', ''upstream_transport'']"

definition readRuntimeSettings :: "Store \<Rightarrow> (string, string) gomap option" where
  "readRuntimeSettings s =
     (if list_all (\<lambda>key. setting s key \<noteq> None) runtime_keys
      then Some (map (\<lambda>key. (key, the (setting s key))) runtime_keys) else None)"

definition runtime_settings_ok :: "(string, string) gomap \<Rightarrow> bool" where
  "runtime_settings_ok values \<longleftrightarrow>
     (let upstreams = splitCSV (setting_value values ''upstream_dns'');
          transport = trim_space (setting_value values ''upstream_transport'') in
      \<not> (length upstreams = 0 \<or> length upstreams > 15) \<and> list_all (\<lambda>u. parse_ip u \<noteq> None) upstreams \<and>
      \<not> (transport \<noteq> ''standard'' \<and> transport \<noteq> ''encrypted''))"

definition writeRuntimeSettings :: "(string, string) gomap \<Rightarrow> Store \<Rightarrow> Store option" where
  "writeRuntimeSettings values s =
     (if runtime_settings_ok values
      then Some (foldl (\<lambda>s key. put_setting key (setting_value values key) s) s runtime_keys) else None)"

definition ApplyReplica ::
  "disk \<Rightarrow> engine \<Rightarrow> (Store \<Rightarrow> 'w hooks) \<Rightarrow> files \<Rightarrow> (string, string) gomap \<Rightarrow> Store \<Rightarrow> 'w manager \<Rightarrow>
   Store \<times> 'w manager \<times> apply_error option" where
  "ApplyReplica k e hk files values s m0 =
     (let m = m0\<lparr>reloadTotal := reloadTotal m0 + 1\<rparr>;
          failed = m\<lparr>reloadFailedTotal := reloadFailedTotal m + 1\<rparr> in
      case validateReplicaFiles files of
        Inl err \<Rightarrow> (s, failed, Some (FilesInvalid err))
      | Inr _ \<Rightarrow>
          (case readRuntimeSettings s of
             None \<Rightarrow> (s, failed, Some RuntimeSettingsInvalid)
           | Some previous \<Rightarrow>
               (case writeRuntimeSettings values s of
                  None \<Rightarrow> (s, failed, Some RuntimeSettingsInvalid)
                | Some s1 \<Rightarrow>
                    (let r = applyFilesLocked k e (BeforeApply (hk s1)) (CommitApply (hk s1)) files m in
                     case snd (snd r) of
                       Some err \<Rightarrow>
                         (let (m1, err') = after_failure (hk s1) r err;
                              s2 = (case writeRuntimeSettings previous s1 of None \<Rightarrow> s1 | Some s2 \<Rightarrow> s2);
                              (m2, _) = run_hook (BeforeApply (hk s2)) m1 in
                          (s2, m2, Some err'))
                     | None \<Rightarrow> (s1, run_after (hk s1) (fst r), None)))))"

section \<open>Snapshots and rollback\<close>

definition content_of :: "read_result \<Rightarrow> string option" where
  "content_of r = (case r of Content c \<Rightarrow> Some c | _ \<Rightarrow> None)"

lemma read_file_Directory: "gm_get d n = Some Directory \<longleftrightarrow> read_file d n = ReadError"
  by (auto simp: read_file_def split: option.splits node.splits)

lemma snapshotFiles_get:
  "snapshotFiles d names b = Some b' \<Longrightarrow>
     (\<forall>n \<in> set names. gm_get d n \<noteq> Some Directory) \<and>
     gm_get b' n = (if n \<in> set names \<and> read_file d n \<noteq> NotExist then content_of (read_file d n) else gm_get b n)"
proof (induction d names b rule: snapshotFiles.induct)
  case (2 d name names b)
  show ?case
  proof (cases "read_file d name")
    case (Content c)
    with 2 show ?thesis
      by (auto simp: content_of_def read_file_Directory)
  next
    case NotExist
    with 2 show ?thesis
      by (auto simp: read_file_Directory)
  next
    case ReadError
    with 2(3) show ?thesis
      by simp
  qed
qed simp

lemma restore_file_get_other: "n \<noteq> name \<Longrightarrow> gm_get (restore_file k b name d) n = gm_get d n"
  by (auto simp: restore_file_def split: option.splits node.splits)

lemma restore_file_read:
  assumes "restore_ok k name" "gm_get d name \<noteq> Some Directory"
  shows "read_file (restore_file k b name d) name = (case gm_get b name of Some c \<Rightarrow> Content c | None \<Rightarrow> NotExist)"
    "gm_get (restore_file k b name d) name \<noteq> Some Directory"
  using assms by (auto simp: restore_file_def read_file_def split: option.splits node.splits)

lemma read_file_cong: "gm_get d n = gm_get d' n \<Longrightarrow> read_file d n = read_file d' n"
  by (simp add: read_file_def)

lemma rollback_simps:
  "rollback k b [] d = d"
  "rollback k b (name # names) d = rollback k b names (restore_file k b name d)"
  by (simp_all add: rollback_def)

lemma rollback_other: "n \<notin> set names \<Longrightarrow> gm_get (rollback k b names d) n = gm_get d n"
  by (induction names arbitrary: d) (simp_all add: rollback_simps restore_file_get_other)

lemma rollback_read:
  assumes "\<forall>n \<in> set names. restore_ok k n \<and> gm_get d n \<noteq> Some Directory"
  shows "read_file (rollback k b names d) n =
    (if n \<in> set names then (case gm_get b n of Some c \<Rightarrow> Content c | None \<Rightarrow> NotExist) else read_file d n)"
  using assms
proof (induction names arbitrary: d)
  case (Cons name names)
  let ?d = "restore_file k b name d"
  have keep: "\<forall>n \<in> set names. restore_ok k n \<and> gm_get ?d n \<noteq> Some Directory"
    using Cons.prems restore_file_read(2) [of k name d b] restore_file_get_other [of _ name k b d]
    by (metis list.set_intros)
  show ?case
  proof (cases "n \<in> set names \<or> n \<noteq> name")
    case True
    then show ?thesis
      using Cons.IH [OF keep] read_file_cong [OF restore_file_get_other, of n name k b d]
      by (auto simp: rollback_simps)
  next
    case False
    then show ?thesis
      using Cons.IH [OF keep] restore_file_read(1) [of k name d b] Cons.prems by (auto simp: rollback_simps)
  qed
qed (simp add: rollback_simps)

text \<open>A directory that differs from another at most in some names, none of which is a directory.\<close>

definition differs_at :: "string set \<Rightarrow> directory \<Rightarrow> directory \<Rightarrow> bool" where
  "differs_at names d0 d \<longleftrightarrow>
     (\<forall>n. n \<notin> names \<longrightarrow> gm_get d n = gm_get d0 n) \<and> (\<forall>n \<in> names. gm_get d n \<noteq> Some Directory)"

lemma differs_at_put: "n \<in> N \<Longrightarrow> differs_at N d0 d \<Longrightarrow> differs_at N d0 (gm_put n (Regular c) d)"
  by (auto simp: differs_at_def)

lemma differs_at_del: "n \<in> N \<Longrightarrow> differs_at N d0 d \<Longrightarrow> differs_at N d0 (gm_del n d)"
  by (auto simp: differs_at_def)

lemma rollback_restores:
  assumes "snapshotFiles d0 touched [] = Some backups" "differs_at (set touched) d0 d" "\<forall>n. restore_ok k n"
  shows "read_file (rollback k backups touched d) n = read_file d0 n"
proof (cases "n \<in> set touched")
  case True
  have "gm_get d0 n \<noteq> Some Directory" "gm_get backups n = content_of (read_file d0 n)"
    using snapshotFiles_get [OF assms(1), of n] True by (auto simp: content_of_def)
  then have "(case gm_get backups n of Some c \<Rightarrow> Content c | None \<Rightarrow> NotExist) = read_file d0 n"
    by (auto simp: content_of_def read_file_def split: option.splits node.splits)
  then show ?thesis
    using rollback_read [of touched k d backups n] assms(2,3) True by (simp add: differs_at_def)
next
  case False
  then show ?thesis
    using rollback_other [OF False] assms(2) by (auto simp: differs_at_def intro: read_file_cong)
qed

section \<open>Replacing the files\<close>

lemma run_steps_nonempty [simp]: "fst (run_steps fs d) \<noteq> []"
  by (induction fs arbitrary: d) (auto simp: Let_def split_def split: option.splits)

lemma run_steps_inv:
  assumes "\<And>f d d'. f \<in> set fs \<Longrightarrow> P d \<Longrightarrow> f d = Some d' \<Longrightarrow> P d'" "P d"
  shows "\<forall>x \<in> set (fst (run_steps fs d)). P x"
  using assms
proof (induction fs arbitrary: d)
  case (Cons f fs)
  show ?case
  proof (cases "f d")
    case None
    with Cons.prems show ?thesis by simp
  next
    case (Some d')
    then have "\<forall>x \<in> set (fst (run_steps fs d')). P x"
      using Cons by (metis list.set_intros)
    with Some Cons.prems(2) show ?thesis
      by (simp add: Let_def split_def)
  qed
qed simp

lemma run_steps_append:
  "run_steps (fs @ gs) d =
     (if snd (run_steps fs d)
      then (fst (run_steps gs (hd (fst (run_steps fs d)))) @ tl (fst (run_steps fs d)), snd (run_steps gs (hd (fst (run_steps fs d)))))
      else run_steps fs d)"
proof (induction fs arbitrary: d)
  case (Cons f fs)
  then show ?case
    by (cases "f d") (auto simp: Let_def split_def)
qed simp

lemma run_steps_Cons_True:
  assumes "snd (run_steps (f # fs) d)"
  obtains d' where "f d = Some d'" "snd (run_steps fs d')" "hd (fst (run_steps (f # fs) d)) = hd (fst (run_steps fs d'))"
  using assms by (cases "f d") (auto simp: Let_def split_def)

lemma run_renames:
  assumes "snd (run_steps (map (rename_into k files) ns) d)"
  shows "gm_get (hd (fst (run_steps (map (rename_into k files) ns) d))) n =
    (if n \<in> set ns then Some (Regular (file_content files n)) else gm_get d n)"
  using assms
proof (induction ns arbitrary: d)
  case (Cons m ns)
  obtain d' where d': "rename_into k files m d = Some d'" "snd (run_steps (map (rename_into k files) ns) d')"
    "hd (fst (run_steps (map (rename_into k files) (m # ns)) d)) = hd (fst (run_steps (map (rename_into k files) ns) d'))"
    using run_steps_Cons_True [of "rename_into k files m" "map (rename_into k files) ns" d] Cons.prems by auto
  have "gm_get d' n = (if n = m then Some (Regular (file_content files n)) else gm_get d n)"
    using d'(1) by (auto simp: rename_into_def split: if_splits)
  then show ?case
    unfolding d'(3) Cons.IH [OF d'(2)] by auto
qed simp

lemma run_removes:
  assumes "snd (run_steps (map (remove_file k) ns) d)"
  shows "gm_get (hd (fst (run_steps (map (remove_file k) ns) d))) n = (if n \<in> set ns then None else gm_get d n)"
  using assms
proof (induction ns arbitrary: d)
  case (Cons m ns)
  obtain d' where d': "remove_file k m d = Some d'" "snd (run_steps (map (remove_file k) ns) d')"
    "hd (fst (run_steps (map (remove_file k) (m # ns)) d)) = hd (fst (run_steps (map (remove_file k) ns) d'))"
    using run_steps_Cons_True [of "remove_file k m" "map (remove_file k) ns" d] Cons.prems by auto
  have "gm_get d' n = (if n = m then None else gm_get d n)"
    using d'(1) by (auto simp: remove_file_def split: if_splits)
  then show ?case
    unfolding d'(3) Cons.IH [OF d'(2)] by auto
qed simp

lemma set_write_order: "set (write_order files) = set (gm_keys files)"
proof -
  have "insert ''Corefile'' (set (remove1 ''Corefile'' xs)) = set xs" if "''Corefile'' \<in> set xs" for xs :: "string list"
    using that by (induction xs) auto
  then show ?thesis
    by (auto simp: write_order_def Let_def fileNames_def)
qed

lemma replace_steps_differ:
  assumes "\<forall>n \<in> set (gm_keys files) \<union> set stale. gm_get d n \<noteq> Some Directory"
    "x \<in> set (fst (run_steps (replace_steps k files stale) d))"
  shows "differs_at (set (gm_keys files) \<union> set stale) d x"
proof -
  let ?P = "differs_at (set (gm_keys files) \<union> set stale) d"
  have "?P d2" if f: "f \<in> set (replace_steps k files stale)" and P: "?P d1" and d2: "f d1 = Some d2" for f d1 d2
  proof -
    consider n where "n \<in> set (gm_keys files)" "rename_into k files n d1 = Some d2"
      | n where "n \<in> set stale" "remove_file k n d1 = Some d2"
      using f d2 set_write_order [of files] unfolding replace_steps_def by auto
    then show ?thesis
      using P by cases (auto simp: rename_into_def remove_file_def split: if_splits intro!: differs_at_put differs_at_del)
  qed
  moreover have "?P d"
    using assms(1) by (simp add: differs_at_def)
  ultimately show ?thesis
    using run_steps_inv [of "replace_steps k files stale" ?P d] assms(2) by blast
qed

lemma replaceWithRollback_ok:
  assumes "replaceWithRollback k files stale b touched d = (d', True)"
  shows "gm_get d' n = (if n \<in> set stale then None
    else if n \<in> set (gm_keys files) then Some (Regular (file_content files n)) else gm_get d n)"
proof -
  let ?w = "run_steps (map (rename_into k files) (write_order files)) d"
  let ?r = "run_steps (map (remove_file k) stale) (hd (fst ?w))"
  have ok: "snd ?w" "snd ?r" and d': "d' = hd (fst ?r)"
    using assms by (auto simp: replaceWithRollback_def replace_steps_def run_steps_append split_def Let_def split: if_splits)
  show ?thesis
    unfolding d' run_removes [OF ok(2)] run_renames [OF ok(1)] set_write_order by simp
qed

lemma steps_differ:
  assumes "snapshotFiles d touched [] = Some b" "set touched = set (gm_keys files) \<union> set stale"
  shows "differs_at (set touched) d (hd (fst (run_steps (replace_steps k files stale) d)))"
proof -
  have "\<forall>n \<in> set touched. gm_get d n \<noteq> Some Directory"
    using snapshotFiles_get [OF assms(1)] by blast
  then show ?thesis
    unfolding assms(2) by (intro replace_steps_differ [where k = k]) auto
qed

lemma replaceWithRollback_failed:
  assumes "replaceWithRollback k files stale b touched d = (d', False)"
    "snapshotFiles d touched [] = Some b" "set touched = set (gm_keys files) \<union> set stale" "\<forall>n. restore_ok k n"
  shows "read_file d' n = read_file d n"
proof -
  have "d' = rollback k b touched (hd (fst (run_steps (replace_steps k files stale) d)))"
    using assms(1) by (auto simp: replaceWithRollback_def split_def Let_def split: if_splits)
  then show ?thesis
    using rollback_restores [OF assms(2) steps_differ [OF assms(2,3)] assms(4)] by simp
qed

lemma replaceWithRollback_differs:
  assumes "replaceWithRollback k files stale b touched d = (d', True)"
    "snapshotFiles d touched [] = Some b" "set touched = set (gm_keys files) \<union> set stale"
  shows "differs_at (set touched) d d'"
proof -
  have "d' = hd (fst (run_steps (replace_steps k files stale) d))"
    using assms(1) by (auto simp: replaceWithRollback_def split_def Let_def split: if_splits)
  then show ?thesis
    using steps_differ [OF assms(2,3)] by simp
qed

section \<open>The transaction\<close>

lemma run_hook_keeps [keeps]:
  assumes "run_hook hook m = (m', ok)"
  shows "ConfigDir m' = ConfigDir m" "bootstrapped m' = bootstrapped m" "reloadFailedTotal m' = reloadFailedTotal m"
    "temporalSignature m' = temporalSignature m"
  using assms by (auto simp: run_hook_def split: option.splits prod.splits)

lemma fail_with_keeps:
  assumes "fail_with e m = (m', p, err)"
  shows "ConfigDir m' = ConfigDir m" "bootstrapped m' = bootstrapped m" "world m' = world m" "\<not> p" "err = Some e"
    "reloadFailedTotal m' = reloadFailedTotal m + 1"
  using assms by (auto simp: fail_with_def)

lemma finish_apply_failed:
  assumes "finish_apply k e commit backups touched new old must_wait prepared m = (m', p, Some err)"
  shows "ConfigDir m' = rollback k backups touched (ConfigDir m)" "bootstrapped m' = bootstrapped m"
    "reloadFailedTotal m' = reloadFailedTotal m + 1" "p = prepared"
  using assms
  by (auto simp: finish_apply_def handleReloadFailure_def Let_def keeps split: if_splits prod.splits)

lemma finish_apply_accepted:
  assumes "finish_apply k e commit backups touched new old must_wait prepared m = (m', p, None)"
  shows "ConfigDir m' = ConfigDir m" "bootstrapped m'" "reloadFailedTotal m' = reloadFailedTotal m"
    "must_wait \<Longrightarrow> new_hash_seen e new" "p = prepared"
  using assms
  by (auto simp: finish_apply_def handleReloadFailure_def Let_def keeps split: if_splits prod.splits)

text \<open>A call either stops before it touches the directory, or it installs the files.\<close>

lemma applyFilesLocked_cases:
  assumes "applyFilesLocked k e prepare commit files m = r"
  obtains (stopped) err where "fail_with err m = r"
  | (installs) backups new where "validateGeneratedFiles files = Inr ()" "staged_ok e files"
      "snapshotFiles (ConfigDir m) (touched_files files (ConfigDir m)) [] = Some backups"
      "corefileHash e (file_content files ''Corefile'') = Some new"
      "install_files k e prepare commit files backups new m = r"
  using assms unfolding applyFilesLocked_def by (auto split: if_splits sum.splits option.splits)

lemma set_touched_files: "set (touched_files files d) = set (gm_keys files) \<union> set (staleManagedFiles d files)"
  by (simp add: touched_files_def fileNames_def)

lemma install_files_cases:
  assumes "install_files k e prepare commit files backups new m = (m', p, err)"
  obtains (unprepared) m1 where "run_hook prepare m = (m1, False)" "fail_with PrepareFailed m1 = (m', p, err)"
  | (failed) m1 d where "run_hook prepare m = (m1, True)"
      "replaceWithRollback k files (staleManagedFiles (ConfigDir m) files) backups (touched_files files (ConfigDir m)) (ConfigDir m) = (d, False)"
      "m' = m1\<lparr>ConfigDir := d, reloadFailedTotal := reloadFailedTotal m1 + 1\<rparr>" "err = Some ReplaceFailed" "p = (prepare \<noteq> None)"
  | (replaced) m1 d old must_wait where "run_hook prepare m = (m1, True)"
      "replaceWithRollback k files (staleManagedFiles (ConfigDir m) files) backups (touched_files files (ConfigDir m)) (ConfigDir m) = (d, True)"
      "finish_apply k e commit backups (touched_files files (ConfigDir m)) new old must_wait (prepare \<noteq> None)
         (m1\<lparr>ConfigDir := d\<rparr>) = (m', p, err)"
      "\<And>x. live e = LiveHash x \<Longrightarrow> must_wait"
proof -
  obtain m1 ok1 where hook: "run_hook prepare m = (m1, ok1)"
    by fastforce
  obtain d ok where rep: "replaceWithRollback k files (staleManagedFiles (ConfigDir m) files) backups
      (touched_files files (ConfigDir m)) (ConfigDir m) = (d, ok)"
    by fastforce
  have dir: "ConfigDir m1 = ConfigDir m"
    using hook keeps by blast
  note step = assms [unfolded install_files_def Let_def hook prod.case dir rep]
  show ?thesis
  proof (cases "ok1 \<and> ok")
    case True
    then show ?thesis
      using replaced hook rep step by auto
  next
    case False
    then show ?thesis
      using unprepared failed hook rep step by (cases ok1) auto
  qed
qed

lemma applyFilesLocked_atomic_files:
  assumes "applyFilesLocked k e prepare commit files m = (m', p, Some err)" "\<forall>n. restore_ok k n"
  shows "(\<forall>n. read_file (ConfigDir m') n = read_file (ConfigDir m) n) \<and> bootstrapped m' = bootstrapped m \<and>
    reloadFailedTotal m' = reloadFailedTotal m + 1"
  using assms(1)
proof (cases rule: applyFilesLocked_cases)
  case (stopped e0)
  then show ?thesis
    using fail_with_keeps by metis
next
  case (installs backups new)
  note restored = replaceWithRollback_failed [OF _ installs(3) set_touched_files assms(2)]
  from installs(5) show ?thesis
  proof (cases rule: install_files_cases)
    case (unprepared m1)
    then show ?thesis
      using fail_with_keeps [OF unprepared(2)] keeps by metis
  next
    case (failed m1 d)
    then show ?thesis
      using restored [OF failed(2)] run_hook_keeps [OF failed(1)] by simp
  next
    case (replaced m1 d old must_wait)
    have "differs_at (set (touched_files files (ConfigDir m))) (ConfigDir m) d"
      using replaceWithRollback_differs [OF replaced(2) installs(3) set_touched_files] .
    then have "read_file (ConfigDir m') n = read_file (ConfigDir m) n" for n
      using rollback_restores [OF installs(3) _ assms(2)] finish_apply_failed(1) [OF replaced(3)] by simp
    then show ?thesis
      using finish_apply_failed [OF replaced(3)] run_hook_keeps [OF replaced(1)] by simp
  qed
qed

text \<open>
  C1. A configuration that cannot be installed leaves no trace: whatever goes wrong in \<open>applyFilesLocked\<close>
  (validation, a system call in the middle of the replacement, a reload that CoreDNS does not confirm, a
  commit that fails), if the system calls of the rollback succeed then every file of the directory reads
  as before the call, the bootstrap state is unchanged, and exactly one failure is counted.
\<close>

theorem applyFilesLocked_atomic:
  assumes "applyFilesLocked k e prepare commit files m = (m', p, Some err)" "\<forall>n. restore_ok k n"
  shows "(\<forall>n. read_file (ConfigDir m') n = read_file (ConfigDir m) n) \<and> bootstrapped m' = bootstrapped m \<and>
    reloadFailedTotal m' = reloadFailedTotal m + 1"
  using applyFilesLocked_atomic_files [OF assms] .

lemma set_staleManagedFiles:
  "set (staleManagedFiles d files) = {n. isManagedDNSFileName n \<and> gm_get files n = None \<and> is_regular d n}"
proof -
  have "n \<in> set (gm_keys d)" if "is_regular d n" for n
    using that unfolding gm_keys_get by (cases "gm_get d n") (auto simp: is_regular_def)
  then show ?thesis
    unfolding staleManagedFiles_def by auto
qed

text \<open>
  C4. A configuration that is installed is installed completely: when \<open>applyFilesLocked\<close> succeeds, the files
  were complete and accepted by the staged CoreDNS, each of them reads as given, the regular files with a
  managed name that do not belong to the new configuration are gone, everything else reads as before,
  and a CoreDNS that had reported a reload hash has reported the new one.
\<close>

theorem applyFilesLocked_installs:
  assumes "applyFilesLocked k e prepare commit files m = (m', p, None)"
  shows "complete_files files \<and> staged_ok e files \<and> bootstrapped m' \<and>
    (\<forall>n. read_file (ConfigDir m') n =
       (case gm_get files n of Some c \<Rightarrow> Content c
        | None \<Rightarrow> if isManagedDNSFileName n \<and> is_regular (ConfigDir m) n then NotExist else read_file (ConfigDir m) n)) \<and>
    (case live e of LiveHash _ \<Rightarrow> \<exists>h. corefileHash e (file_content files ''Corefile'') = Some h \<and> new_hash_seen e h | _ \<Rightarrow> True)"
  using assms
proof (cases rule: applyFilesLocked_cases)
  case (stopped err)
  then show ?thesis by (simp add: fail_with_def)
next
  case (installs backups new)
  from installs(5) show ?thesis
  proof (cases rule: install_files_cases)
    case (replaced m1 d old must_wait)
    note fin = finish_apply_accepted [OF replaced(3)]
    have get: "gm_get (ConfigDir m') n = (if n \<in> set (staleManagedFiles (ConfigDir m) files) then None
        else if n \<in> set (gm_keys files) then Some (Regular (file_content files n)) else gm_get (ConfigDir m) n)" for n
      using fin(1) replaceWithRollback_ok [OF replaced(2)] by simp
    have "read_file (ConfigDir m') n =
       (case gm_get files n of Some c \<Rightarrow> Content c
        | None \<Rightarrow> if isManagedDNSFileName n \<and> is_regular (ConfigDir m) n then NotExist else read_file (ConfigDir m) n)" for n
      unfolding read_file_def get set_staleManagedFiles gm_keys_get
      by (auto simp: file_content_def split: option.split)
    moreover have "complete_files files"
      using installs(1) by (simp add: validateGeneratedFiles_iff)
    ultimately show ?thesis
      using installs(2,4) fin replaced(4) by (auto split: live_hash.split)
  qed (simp_all add: fail_with_def)
qed

section \<open>What a reader of the directory can see\<close>

text \<open>Every hosts file that the Corefile of the directory names can be read.\<close>

definition refs_ok :: "directory \<Rightarrow> bool" where
  "refs_ok d = (case read_file d ''Corefile'' of
     Content c \<Rightarrow> (case corefileHostFiles c of
        Inr names \<Rightarrow> list_all (\<lambda>n. content_of (read_file d n) \<noteq> None) names | Inl _ \<Rightarrow> True)
   | _ \<Rightarrow> True)"

lemma remove1_notin: "distinct xs \<Longrightarrow> x \<notin> set (remove1 x xs)"
  by (induction xs) auto

lemma write_order_Corefile:
  assumes "complete_files files" "gm_wf files"
  obtains front where "write_order files = front @ [''Corefile'']" "''Corefile'' \<notin> set front"
    "insert ''Corefile'' (set front) = set (gm_keys files)"
proof -
  obtain names where names: "gm_get files ''Corefile'' \<noteq> None" "names \<noteq> []"
    "set (gm_keys files) - {''Corefile''} = set names - {''Corefile''}" "list_all hosts_name names"
    using assms(1) corefileHostFiles_names(3) by (auto simp: complete_files_def)
  have core: "''Corefile'' \<in> set (gm_keys files)"
    using names(1) gm_keys_get by metis
  obtain n where "n \<in> set names" "n \<noteq> ''Corefile''"
    using names(2,4) hosts_name_Corefile by (cases names) auto
  then have "n \<in> set (gm_keys files)"
    using names(3) by blast
  with core \<open>n \<noteq> ''Corefile''\<close> have "card {n, ''Corefile''} \<le> card (set (gm_keys files))"
    by (intro card_mono) auto
  then have "1 < length (gm_keys files)"
    using \<open>n \<noteq> ''Corefile''\<close> card_length [of "gm_keys files"] by simp
  then have order: "write_order files = remove1 ''Corefile'' (fileNames files) @ [''Corefile'']"
    using core by (simp add: write_order_def fileNames_def)
  moreover have "''Corefile'' \<notin> set (remove1 ''Corefile'' (fileNames files))"
    using assms(2) by (intro remove1_notin) (simp add: fileNames_def gm_wf_def)
  ultimately show ?thesis
    using that set_write_order [of files] by simp
qed

lemma run_steps_trace:
  "x \<in> set (fst (run_steps (fs @ gs) d)) \<Longrightarrow>
     x \<in> set (fst (run_steps fs d)) \<or>
     snd (run_steps fs d) \<and> x \<in> set (fst (run_steps gs (hd (fst (run_steps fs d)))))"
  unfolding run_steps_append by (auto split: if_splits dest: list.set_sel(2) [rotated])

text \<open>Before the Corefile is replaced nothing has disappeared; afterwards the new configuration is in place.\<close>

definition still_old :: "directory \<Rightarrow> directory \<Rightarrow> bool" where
  "still_old d0 d \<longleftrightarrow> read_file d ''Corefile'' = read_file d0 ''Corefile'' \<and>
     (\<forall>n. content_of (read_file d0 n) \<noteq> None \<longrightarrow> content_of (read_file d n) \<noteq> None)"

definition is_new :: "files \<Rightarrow> directory \<Rightarrow> bool" where
  "is_new files d \<longleftrightarrow> (\<forall>n c. gm_get files n = Some c \<longrightarrow> read_file d n = Content c)"

lemma still_old_refs: "refs_ok d0 \<Longrightarrow> still_old d0 d \<Longrightarrow> refs_ok d"
  by (auto simp: refs_ok_def still_old_def list_all_iff split: read_result.splits sum.splits)

lemma is_new_refs:
  assumes "complete_files files" "is_new files d"
  shows "refs_ok d"
proof -
  obtain corefile names where c: "gm_get files ''Corefile'' = Some corefile" "corefileHostFiles corefile = Inr names"
    "set (gm_keys files) - {''Corefile''} = set names - {''Corefile''}"
    using assms(1) by (auto simp: complete_files_def)
  have "n \<in> set (gm_keys files)" if "n \<in> set names" for n
    using that c(3) corefileHostFiles_names(3) [OF c(2)] hosts_name_Corefile unfolding list_all_iff by blast
  then have "\<exists>x. read_file d n = Content x" if "n \<in> set names" for n
    using that assms(2) unfolding gm_keys_get is_new_def by blast
  then have "read_file d ''Corefile'' = Content corefile" "\<forall>n \<in> set names. content_of (read_file d n) \<noteq> None"
    using assms(2) c(1) unfolding is_new_def by (auto simp: content_of_def) (metis read_result.simps(8))
  then show ?thesis
    by (simp add: refs_ok_def c(2) list_all_iff)
qed

lemma rename_still_old: "still_old d0 d \<Longrightarrow> n \<noteq> ''Corefile'' \<Longrightarrow> rename_into k files n d = Some d' \<Longrightarrow> still_old d0 d'"
  by (auto simp: rename_into_def still_old_def read_file_def content_of_def split: if_splits)

lemma remove_is_new: "is_new files d \<Longrightarrow> gm_get files n = None \<Longrightarrow> remove_file k n d = Some d' \<Longrightarrow> is_new files d'"
  by (auto simp: remove_file_def is_new_def read_file_def split: if_splits)

lemma removes_is_new:
  assumes "is_new files d2" "y \<in> set (fst (run_steps (map (remove_file k) ns) d2))" "\<forall>n \<in> set ns. gm_get files n = None"
  shows "is_new files y"
proof -
  have "is_new files b" if f: "f \<in> set (map (remove_file k) ns)" and a: "is_new files a" and b: "f a = Some b" for f a b
  proof -
    obtain n where "n \<in> set ns" "f = remove_file k n"
      using f by auto
    then show ?thesis
      using remove_is_new [OF a] assms(3) b by blast
  qed
  then show ?thesis
    using run_steps_inv [of "map (remove_file k) ns" "is_new files" d2] assms(1,2) by blast
qed

lemma stale_not_desired: "n \<in> set (staleManagedFiles d files) \<Longrightarrow> gm_get files n = None"
  by (simp add: set_staleManagedFiles)


subsection \<open>A small installation\<close>

definition tiny_corefile :: "string \<Rightarrow> string" where
  "tiny_corefile name = unlines [''.:53 {'', ''    hosts '' @ coreDNSPathPrefix @ name @ '' {'', ''    forward . 1.1.1.1'', ''}'']"

definition tiny_files :: files where
  "tiny_files = [(''Corefile'', tiny_corefile ''protection-1.hosts''), (''protection-1.hosts'', ''0.0.0.0 ads.example'')]"

definition tiny_engine :: "bool \<Rightarrow> engine" where
  "tiny_engine seen = \<lparr>staged_ok = \<lambda>_. True, live = LiveHash ''old'', new_hash_seen = \<lambda>_. seen, old_hash_seen = \<lambda>_. True,
     corefileHash = Some\<rparr>"

definition good_disk :: disk where
  "good_disk = \<lparr>mkdir_ok = True, readdir_ok = True, write_ok = \<lambda>_. True, remove_ok = \<lambda>_. True, restore_ok = \<lambda>_. True\<rparr>"

definition tiny_manager :: "unit manager" where
  "tiny_manager = \<lparr>ConfigDir = [(''Corefile'', Regular (tiny_corefile ''protection-2.hosts'')), (''protection-2.hosts'', Regular [])],
     bootstrapped = True, world = (), reloadTotal = 0, reloadFailedTotal = 0, temporalSignature = []\<rparr>"

lemma tiny_rejected:
  "\<exists>m'. applyFilesLocked good_disk (tiny_engine False) None None tiny_files tiny_manager = (m', False, Some Restored)"
proof -
  have "snd (applyFilesLocked good_disk (tiny_engine False) None None tiny_files tiny_manager) = (False, Some Restored)"
    by code_simp
  then show ?thesis
    by (metis prod.collapse)
qed

theorem applyFilesLocked_atomic_witness:
  "\<exists>m'. applyFilesLocked good_disk (tiny_engine False) None None tiny_files tiny_manager = (m', False, Some Restored) \<and>
     (\<forall>n. read_file (ConfigDir m') n = read_file (ConfigDir tiny_manager) n) \<and> bootstrapped m' = bootstrapped tiny_manager \<and>
     reloadFailedTotal m' = reloadFailedTotal tiny_manager + 1"
proof -
  have ok: "\<forall>n. restore_ok good_disk n"
    by (simp add: good_disk_def)
  obtain m' where "applyFilesLocked good_disk (tiny_engine False) None None tiny_files tiny_manager = (m', False, Some Restored)"
    using tiny_rejected by blast
  then show ?thesis
    using applyFilesLocked_atomic [OF _ ok] by blast
qed

lemma tiny_accepted:
  "\<exists>m'. applyFilesLocked good_disk (tiny_engine True) None None tiny_files tiny_manager = (m', False, None)"
proof -
  have "snd (applyFilesLocked good_disk (tiny_engine True) None None tiny_files tiny_manager) = (False, None)"
    by code_simp
  then show ?thesis
    by (metis prod.collapse)
qed

theorem applyFilesLocked_installs_witness:
  "\<exists>m'. applyFilesLocked good_disk (tiny_engine True) None None tiny_files tiny_manager = (m', False, None) \<and>
     bootstrapped m' \<and> complete_files tiny_files"
  using tiny_accepted applyFilesLocked_installs by blast


section \<open>The transport that is prepared with a configuration\<close>

lemma run_hook_world: "run_hook hook m = (m', ok) \<Longrightarrow>
    (case hook of None \<Rightarrow> world m' = world m \<and> ok | Some f \<Rightarrow> f (world m) = (world m', ok))"
  by (auto simp: run_hook_def split: option.splits prod.splits)

lemma finish_apply_world:
  assumes "finish_apply k e commit backups touched new old must_wait prepared m = (m', p, err)"
  shows "world m' = world m \<or> (\<exists>c. commit = Some c \<and> world m' = fst (c (world m)))"
proof -
  obtain m1 ok where hook: "run_hook commit m = (m1, ok)"
    by fastforce
  have "world m1 = world m \<or> (\<exists>c. commit = Some c \<and> world m1 = fst (c (world m)))"
    using run_hook_world [OF hook] by (auto split: option.splits)
  then show ?thesis
    using assms by (auto simp: finish_apply_def handleReloadFailure_def Let_def hook split: if_splits)
qed

lemma applyFilesLocked_world:
  assumes "applyFilesLocked k e (Some before) commit files m = (m', p, Some err)"
  shows "\<not> p \<and> (world m' = world m \<or> before (world m) = (world m', False)) \<or>
    p \<and> (\<exists>w. before (world m) = (w, True) \<and> (world m' = w \<or> (\<exists>c. commit = Some c \<and> world m' = fst (c w))))"
  using assms
proof (cases rule: applyFilesLocked_cases)
  case (stopped e0)
  then show ?thesis
    using fail_with_keeps by metis
next
  case (installs backups new)
  from installs(5) show ?thesis
  proof (cases rule: install_files_cases)
    case (unprepared m1)
    then show ?thesis
      using run_hook_world [OF unprepared(1)] fail_with_keeps [OF unprepared(2)] by simp
  next
    case (failed m1 d)
    then show ?thesis
      using run_hook_world [OF failed(1)] by simp
  next
    case (replaced m1 d old must_wait)
    then show ?thesis
      using run_hook_world [OF replaced(1)] finish_apply_world [OF replaced(3)]
        finish_apply_failed(4) [OF replaced(3)] by auto
  qed
qed

lemma Apply_failed_cases:
  assumes "Apply h at later k e hk s m = (m', Some err)"
  obtains (early) "world m' = world m" "ConfigDir m' = ConfigDir m" "bootstrapped m' = bootstrapped m"
  | (late) files m1 p err1 where
      "applyFilesLocked k e (BeforeApply hk) (CommitApply hk) files (m\<lparr>reloadTotal := reloadTotal m + 1\<rparr>) = (m1, p, Some err1)"
      "after_failure hk (m1, p, Some err1) err1 = (m', err)"
proof (cases "render h at s")
  case (Inl e0)
  then show ?thesis
    using assms early by (auto simp: Apply_def Let_def)
next
  case (Inr state)
  show ?thesis
  proof (cases "\<exists>files. runtimeFilesFromRenderedState state = Inr files \<and> mkdir_ok k")
    case False
    then show ?thesis
      using assms early Inr by (auto simp: Apply_def Let_def split: sum.splits if_splits)
  next
    case True
    then obtain files where files: "runtimeFilesFromRenderedState state = Inr files" "mkdir_ok k"
      by blast
    obtain m1 p e1 where r: "applyFilesLocked k e (BeforeApply hk) (CommitApply hk) files (m\<lparr>reloadTotal := reloadTotal m + 1\<rparr>) = (m1, p, e1)"
      by (metis prod.collapse)
    show ?thesis
      using assms late [of files m1 p] Inr files r
      by (auto simp: Apply_def Let_def split: option.splits prod.splits)
  qed
qed

text \<open>
  The contract of the hooks: a refused preparation changes nothing that matters, and restoring undoes an
  accepted one, also after the commit hook has run.
\<close>

locale transport_hooks =
  fixes before :: "'w \<Rightarrow> 'w \<times> bool"
    and restore :: "'w \<Rightarrow> 'w \<times> bool"
    and commit :: "'w \<Rightarrow> 'w \<times> bool"
    and view :: "'w \<Rightarrow> 'v"
  assumes before_refused: "before w = (w', False) \<Longrightarrow> view w' = view w"
    and restore_view: "before w = (w', True) \<Longrightarrow> view (fst (restore w')) = view w"
    and commit_view: "before w = (w', True) \<Longrightarrow> view (fst (restore (fst (commit w')))) = view w"
begin

lemma failure_restores_view:
  assumes "Apply h at later k e \<lparr>BeforeApply = Some before, RollbackApply = Some restore, CommitApply = Some commit,
      AfterApply = after\<rparr> s m = (m', Some err)"
  shows "view (world m') = view (world m)"
proof -
  define hk where "hk = \<lparr>BeforeApply = Some before, RollbackApply = Some restore, CommitApply = Some commit, AfterApply = after\<rparr>"
  define m0 where "m0 = m\<lparr>reloadTotal := reloadTotal m + 1\<rparr>"
  from assms [folded hk_def] show ?thesis
  proof (cases rule: Apply_failed_cases)
    case (late files m1 p err1)
    have w0: "world m0 = world m"
      by (simp add: m0_def)
    have "applyFilesLocked k e (Some before) (Some commit) files m0 = (m1, p, Some err1)"
      using late(1) by (simp add: hk_def m0_def)
    from applyFilesLocked_world [OF this] show ?thesis
      using late(2) before_refused restore_view commit_view unfolding w0
      by (auto simp: after_failure_def hk_def run_hook_def split_def Let_def split: if_splits)
  qed simp
qed

end

section \<open>Replicas\<close>

lemma setting_put: "setting (put_setting key v s) k = (if k = key then Some v else setting s k)"
  by (simp add: setting_def put_setting_def)

lemma writeRuntimeSettings_get:
  assumes "writeRuntimeSettings values s = Some s'"
  shows "setting s' k = (if k \<in> set runtime_keys then Some (setting_value values k) else setting s k)"
  using assms by (auto simp: writeRuntimeSettings_def runtime_keys_def setting_put split: if_splits)

lemma readRuntimeSettings_value:
  assumes "readRuntimeSettings s = Some previous" "k \<in> set runtime_keys"
  shows "setting s k = Some (setting_value previous k)"
  using assms by (auto simp: readRuntimeSettings_def runtime_keys_def setting_value_def split: if_splits)

lemma after_failure_keeps:
  assumes "after_failure hk (m, p, x) err = (m', err')"
  shows "ConfigDir m' = ConfigDir m" "bootstrapped m' = bootstrapped m"
  using assms by (auto simp: after_failure_def Let_def keeps split: if_splits prod.splits)

lemma ApplyReplica_failed_cases:
  assumes "ApplyReplica k e hk files values s m = (s', m', Some err)"
  obtains (early) "s' = s" "ConfigDir m' = ConfigDir m" "bootstrapped m' = bootstrapped m"
  | (late) previous s1 m1 p err1 m2 err2 ok where "readRuntimeSettings s = Some previous" "writeRuntimeSettings values s = Some s1"
      "applyFilesLocked k e (BeforeApply (hk s1)) (CommitApply (hk s1)) files (m\<lparr>reloadTotal := reloadTotal m + 1\<rparr>) = (m1, p, Some err1)"
      "after_failure (hk s1) (m1, p, Some err1) err1 = (m2, err2)"
      "s' = (case writeRuntimeSettings previous s1 of None \<Rightarrow> s1 | Some s2 \<Rightarrow> s2)"
      "run_hook (BeforeApply (hk s')) m2 = (m', ok)"
proof (cases "validateReplicaFiles files")
  case (Inl e0)
  then show ?thesis
    using assms early by (auto simp: ApplyReplica_def Let_def)
next
  case (Inr u)
  show ?thesis
  proof (cases "readRuntimeSettings s \<noteq> None \<and> writeRuntimeSettings values s \<noteq> None")
    case False
    then show ?thesis
      using assms early Inr by (auto simp: ApplyReplica_def Let_def split: option.splits)
  next
    case True
    then obtain previous s1 where ps: "readRuntimeSettings s = Some previous" "writeRuntimeSettings values s = Some s1"
      by blast
    obtain m1 p e1 where r: "applyFilesLocked k e (BeforeApply (hk s1)) (CommitApply (hk s1)) files
        (m\<lparr>reloadTotal := reloadTotal m + 1\<rparr>) = (m1, p, e1)"
      by (metis prod.collapse)
    show ?thesis
    proof (cases e1)
      case None
      then show ?thesis
        using assms by (simp add: ApplyReplica_def Let_def Inr ps r)
    next
      case (Some err1)
      define s2 where "s2 = (case writeRuntimeSettings previous s1 of None \<Rightarrow> s1 | Some s2 \<Rightarrow> s2)"
      obtain m2 err2 where af: "after_failure (hk s1) (m1, p, Some err1) err1 = (m2, err2)"
        by fastforce
      obtain m3 ok where hook: "run_hook (BeforeApply (hk s2)) m2 = (m3, ok)"
        by fastforce
      have "s' = s2" "m' = m3"
        using assms by (simp_all add: ApplyReplica_def Let_def Inr ps r Some af s2_def [symmetric] hook)
      then show ?thesis
        using late [OF ps r [unfolded Some] af] hook s2_def by simp
    qed
  qed
qed



definition no_hooks :: "Store \<Rightarrow> unit hooks" where
  "no_hooks s = \<lparr>BeforeApply = None, RollbackApply = None, CommitApply = None, AfterApply = None\<rparr>"

definition replica_store :: "string \<Rightarrow> Store" where
  "replica_store upstreams = demo_store\<lparr>settings := [(''upstream_dns'', upstreams), (''upstream_transport'', ''standard'')]\<rparr>"

definition quad9 :: "(string, string) gomap" where
  "quad9 = [(''upstream_dns'', ''9.9.9.9''), (''upstream_transport'', ''standard'')]"

lemma parse_upstreams: "parse_ip ''1.1.1.1'' \<noteq> None" "parse_ip ''9.9.9.9'' \<noteq> None"
  by (simp_all add: net_eval)

lemma runtime_settings_examples:
  "runtime_settings_ok quad9" "runtime_settings_ok [(''upstream_dns'', ''1.1.1.1''), (''upstream_transport'', ''standard'')]"
proof -
  have "splitCSV ''1.1.1.1'' = [''1.1.1.1'']" "splitCSV ''9.9.9.9'' = [''9.9.9.9'']" "trim_space ''standard'' = ''standard''"
    by code_simp+
  then show "runtime_settings_ok quad9" "runtime_settings_ok [(''upstream_dns'', ''1.1.1.1''), (''upstream_transport'', ''standard'')]"
    using parse_upstreams by (simp_all add: runtime_settings_ok_def quad9_def setting_value_def)
qed

lemma tiny_replica: "validateReplicaFiles tiny_files = Inr ()"
  by code_simp

lemma replica_read: "readRuntimeSettings (replica_store u) = Some [(''upstream_dns'', u), (''upstream_transport'', ''standard'')]"
  by (simp add: readRuntimeSettings_def runtime_keys_def setting_def replica_store_def)

lemma replica_rejected:
  "\<exists>s' m' err. ApplyReplica good_disk (tiny_engine False) no_hooks tiny_files quad9 (replica_store u) tiny_manager = (s', m', Some err)"
proof -
  obtain s1 where s1: "writeRuntimeSettings quad9 (replica_store u) = Some s1"
    using runtime_settings_examples(1) by (simp add: writeRuntimeSettings_def)
  have "snd (applyFilesLocked good_disk (tiny_engine False) None None tiny_files
      (tiny_manager\<lparr>reloadTotal := reloadTotal tiny_manager + 1\<rparr>)) = (False, Some Restored)"
    by code_simp
  then obtain m1 where "applyFilesLocked good_disk (tiny_engine False) None None tiny_files
      (tiny_manager\<lparr>reloadTotal := reloadTotal tiny_manager + 1\<rparr>) = (m1, False, Some Restored)"
    by (metis prod.collapse)
  then show ?thesis
    by (simp add: ApplyReplica_def Let_def tiny_replica replica_read s1 no_hooks_def after_failure_def split: prod.split)
qed



section \<open>Temporal reloads\<close>

definition office_hours :: protection_profile where
  "office_hours = \<lparr>pp_id = 1, pp_name = ''Home'', pp_is_default = True, pp_paused_until = [],
     pp_schedule = \<lparr>Enabled = True, Days = ''1,2,3,4,5,6,7'', Start = ''09:00'', End = ''17:00'', Timezone = ''UTC''\<rparr>,
     pp_icon = ''house'', pp_created_at = [], pp_updated_at = []\<rparr>"

definition office_store :: Store where
  "office_store = demo_store\<lparr>protection_profiles := [office_hours]\<rparr>"

lemma office_active: "profile_active plain_host now now office_hours \<longleftrightarrow>
    540 \<le> local_minute (\<lambda>_. 0) now \<and> local_minute (\<lambda>_. 0) now < 1020"
proof -
  have clocks: "clockMinutes ''09:00'' = Some 540" "clockMinutes ''17:00'' = Some 1020" "trim_space [] = []"
    by code_simp+
  have "list_all (containsDay ''1,2,3,4,5,6,7'') [1, 2, 3, 4, 5, 6, 7]"
    by code_simp
  moreover have "isoWeekday (local_weekday (\<lambda>_. 0) now) \<in> set [1, 2, 3, 4, 5, 6, 7]"
    using isoWeekday_range [OF local_weekday_bound [of "\<lambda>_. 0" now]] by (simp add: insert_iff) presburger
  ultimately have "containsDay ''1,2,3,4,5,6,7'' (isoWeekday (local_weekday (\<lambda>_. 0) now))"
    unfolding list_all_iff by blast
  then show ?thesis
    by (simp add: profile_active_def office_hours_def PausedAt_def ActiveAt_def plain_host_def utc_only_def clocks Let_def)
qed

lemma office_minutes:
  "local_minute (\<lambda>_. 0) (32399 * second) = 539" "local_minute (\<lambda>_. 0) (32401 * second) = 540"
  "local_minute (\<lambda>_. 0) (32415 * second) = 540"
  by (simp_all add: local_minute_def local_seconds_def second_def)

lemma office_signature:
  "currentTemporalSignature plain_host office_store now =
     ''p:1:'' @ bool_text (profile_active plain_host now now office_hours) @ '';''"
proof -
  have "itoa 1 = ''1''"
    by code_simp
  then show ?thesis
    by (simp add: currentTemporalSignature_def office_store_def office_hours_def demo_store_def)
qed

text \<open>
  A boundary can be missed. \<open>Apply\<close> renders at one instant and \<open>rememberTemporalState\<close> evaluates the
  schedules at a later one; when a schedule switches between the two, the remembered signature describes a
  configuration that was never rendered. Here the filter is off at the instant of rendering (08:59:59), on at
  the instant that is remembered (09:00:01), and the tick at 09:00:15 does not apply, although filtering
  should be on: it stays off until the next boundary or change.
\<close>

theorem temporal_boundary_missed:
  "\<not> profile_active plain_host (32399 * second) (32399 * second) office_hours \<and>
   profile_active plain_host (32415 * second) (32415 * second) office_hours \<and>
   temporal_tick plain_host at later (32415 * second) k e hk office_store
     (rememberTemporalState plain_host office_store (32401 * second) m) =
   rememberTemporalState plain_host office_store (32401 * second) m"
  by (simp add: office_active office_minutes temporal_tick_def rememberTemporalState_def office_signature)

section \<open>A healthy host applies\<close>

definition hook_result :: "('w \<Rightarrow> 'w \<times> bool) option \<Rightarrow> 'w \<Rightarrow> 'w \<times> bool" where
  "hook_result hook w = (case hook of None \<Rightarrow> (w, True) | Some f \<Rightarrow> f w)"

lemma run_hook_result: "run_hook hook m = (m\<lparr>world := fst (hook_result hook (world m))\<rparr>, snd (hook_result hook (world m)))"
  by (simp add: run_hook_def hook_result_def split_def Let_def split: option.split)

definition healthy_disk :: "disk \<Rightarrow> bool" where
  "healthy_disk k \<longleftrightarrow> mkdir_ok k \<and> readdir_ok k \<and> (\<forall>n. write_ok k n) \<and> (\<forall>n. remove_ok k n)"

definition healthy_engine :: "engine \<Rightarrow> bool" where
  "healthy_engine e \<longleftrightarrow> (\<forall>files. staged_ok e files) \<and> live e \<noteq> LiveError \<and> (\<forall>x. new_hash_seen e x) \<and> (\<forall>c. corefileHash e c \<noteq> None)"

definition no_directory :: "directory \<Rightarrow> bool" where
  "no_directory d \<longleftrightarrow> Directory \<notin> ran (gm_get d)"

lemma no_directory_get: "no_directory d \<Longrightarrow> gm_get d n \<noteq> Some Directory"
  by (auto simp: no_directory_def ran_def)

lemma snapshotFiles_total: "no_directory d \<Longrightarrow> \<exists>b'. snapshotFiles d names b = Some b'"
  by (induction names arbitrary: b) (auto dest: no_directory_get simp: read_file_def split: option.splits node.splits)

lemma renames_total: "healthy_disk k \<Longrightarrow> no_directory d \<Longrightarrow> snd (run_steps (map (rename_into k files) ns) d)"
proof (induction ns arbitrary: d)
  case (Cons n ns)
  then have "no_directory (gm_put n (Regular (file_content files n)) d)"
    by (auto simp: no_directory_def ran_def split: if_splits)
  then show ?case
    using Cons no_directory_get [OF Cons.prems(2)] by (simp add: rename_into_def healthy_disk_def split_def Let_def)
qed simp

lemma removes_total: "healthy_disk k \<Longrightarrow> snd (run_steps (map (remove_file k) ns) d)"
  by (induction ns arbitrary: d) (auto simp: remove_file_def healthy_disk_def split_def Let_def)

lemma replaceWithRollback_total:
  assumes "healthy_disk k" "no_directory d"
  shows "\<exists>d'. replaceWithRollback k files stale b touched d = (d', True)"
  using renames_total [OF assms] removes_total [OF assms(1)]
  by (simp add: replaceWithRollback_def replace_steps_def run_steps_append split_def Let_def)

lemma applyFilesLocked_healthy:
  assumes "healthy_disk k" "healthy_engine e" "no_directory (ConfigDir m)" "complete_files files"
    "hook_result prepare (world m) = (w, True)" "snd (hook_result commit w)"
  shows "\<exists>m' p. applyFilesLocked k e prepare commit files m = (m', p, None)"
proof -
  obtain b where b: "snapshotFiles (ConfigDir m) (touched_files files (ConfigDir m)) [] = Some b"
    using snapshotFiles_total [OF assms(3)] by blast
  obtain x where x: "corefileHash e (file_content files ''Corefile'') = Some x"
    using assms(2) unfolding healthy_engine_def by blast
  obtain d where d: "replaceWithRollback k files (staleManagedFiles (ConfigDir m) files) b (touched_files files (ConfigDir m)) (ConfigDir m) = (d, True)"
    using replaceWithRollback_total [OF assms(1,3)] by blast
  have "\<exists>m' p. install_files k e prepare commit files b x m = (m', p, None)"
    using assms(2,5,6) d by (simp add: install_files_def run_hook_result finish_apply_def healthy_engine_def Let_def)
  moreover have v: "validateGeneratedFiles files = Inr ()"
    using assms(4) by (simp add: validateGeneratedFiles_iff)
  ultimately show ?thesis
    using assms(1,2) b x unfolding applyFilesLocked_def v sum.case healthy_disk_def healthy_engine_def by simp
qed

text \<open>
  C14. Nothing in Faro itself stands in the way of a change: on a host whose system calls succeed, with a
  CoreDNS that accepts what is staged and confirms the reload and with hooks that succeed, \<open>Apply\<close> returns
  without an error for every database that can be rendered, has a default profile and holds no line break in an
  address.
\<close>

theorem Apply_healthy:
  assumes "is_ok (render h at s)" "list_ex pp_is_default (protection_profiles s)" "addresses_safe s"
    "healthy_disk k" "healthy_engine e" "no_directory (ConfigDir m)"
    "hook_result (BeforeApply hk) (world m) = (w, True)" "snd (hook_result (CommitApply hk) w)"
  shows "\<exists>m'. Apply h at later k e hk s m = (m', None)"
proof -
  obtain r files where r: "render h at s = Inr r" "runtimeFilesFromRenderedState r = Inr files" "complete_files files"
    using assms(1) render_files [OF _ assms(2,3)] unfolding is_ok_iff by metis
  obtain m1 p where "applyFilesLocked k e (BeforeApply hk) (CommitApply hk) files (m\<lparr>reloadTotal := reloadTotal m + 1\<rparr>) = (m1, p, None)"
    using applyFilesLocked_healthy [OF assms(4,5) _ r(3) _ assms(8), of "m\<lparr>reloadTotal := reloadTotal m + 1\<rparr>" "BeforeApply hk"] assms(6,7)
    by auto
  then show ?thesis
    using assms(4) r by (simp add: Apply_def Let_def healthy_disk_def)
qed

lemma healthy_examples: "healthy_disk good_disk" "healthy_engine (tiny_engine True)" "no_directory (ConfigDir tiny_manager)"
  by (simp_all add: healthy_disk_def good_disk_def healthy_engine_def tiny_engine_def no_directory_def tiny_manager_def ran_def)

theorem Apply_healthy_witness:
  "\<exists>m'. Apply plain_host (instants_at 0) 1 good_disk (tiny_engine True) (no_hooks demo_store) demo_store tiny_manager = (m', None)"
proof (rule Apply_healthy [OF _ demo_safe(2,1) healthy_examples])
  show "is_ok (render plain_host (instants_at 0) demo_store)"
    using demo_render by (auto simp: is_ok_iff)
  show "hook_result (BeforeApply (no_hooks demo_store)) (world tiny_manager) = ((), True)" "snd (hook_result (CommitApply (no_hooks demo_store)) ())"
    by (simp_all add: hook_result_def no_hooks_def)
qed

end
