(* ===== verification/Doh_Catalog.thy ===== *)
theory Doh_Catalog
  imports CoreDNS_Apply
begin

text \<open>
  Encrypted providers and the configuration of the gateway (\<^verbatim>\<open>internal/dohproxy/catalog.go\<close>,
  \<^verbatim>\<open>internal/dohproxy/runtime.go\<close>, \<^verbatim>\<open>configuredTransport\<close> of \<^verbatim>\<open>internal/dohproxy/proxy.go\<close>). \<^verbatim>\<open>net/url.Parse\<close> and the
  JSON codec are parameters: \<open>url\<close> holds the parts of a parsed URL that the code reads, and a codec is an
  encoder and a decoder of \<open>RuntimeConfig\<close>.
\<close>

record Endpoint =
  ep_Name :: string
  ep_URL :: string
  ep_BootstrapIPs :: "string list"

definition endpoint :: "string \<Rightarrow> string \<Rightarrow> string list \<Rightarrow> Endpoint" where
  "endpoint name url ips = \<lparr>ep_Name = name, ep_URL = url, ep_BootstrapIPs = ips\<rparr>"

definition catalog :: "Endpoint list" where
  "catalog =
    [endpoint ''Cloudflare Standard'' ''https://cloudflare-dns.com/dns-query'' [''1.1.1.1'', ''1.0.0.1''],
     endpoint ''Cloudflare Malware Blocking'' ''https://security.cloudflare-dns.com/dns-query'' [''1.1.1.2'', ''1.0.0.2''],
     endpoint ''Cloudflare Family'' ''https://family.cloudflare-dns.com/dns-query'' [''1.1.1.3'', ''1.0.0.3''],
     endpoint ''Google Public DNS'' ''https://dns.google/dns-query'' [''8.8.8.8'', ''8.8.4.4''],
     endpoint ''Quad9 Secure'' ''https://dns.quad9.net/dns-query'' [''9.9.9.9'', ''149.112.112.112''],
     endpoint ''Quad9 Unfiltered'' ''https://dns10.quad9.net/dns-query'' [''9.9.9.10'', ''149.112.112.10''],
     endpoint ''Quad9 Secure with ECS'' ''https://dns11.quad9.net/dns-query'' [''9.9.9.11'', ''149.112.112.11''],
     endpoint ''AdGuard Default'' ''https://dns.adguard-dns.com/dns-query'' [''94.140.14.14'', ''94.140.15.15''],
     endpoint ''AdGuard Unfiltered'' ''https://unfiltered.adguard-dns.com/dns-query'' [''94.140.14.140'', ''94.140.14.141''],
     endpoint ''AdGuard Family'' ''https://family.adguard-dns.com/dns-query'' [''94.140.14.15'', ''94.140.15.16''],
     endpoint ''OpenDNS Standard'' ''https://doh.opendns.com/dns-query'' [''208.67.222.222'', ''208.67.220.220''],
     endpoint ''OpenDNS FamilyShield'' ''https://doh.familyshield.opendns.com/dns-query'' [''208.67.222.123'', ''208.67.220.123'']]"

definition buildAddressIndex :: "Endpoint list \<Rightarrow> (string, Endpoint) gomap" where
  "buildAddressIndex endpoints =
     foldl (\<lambda>index (e, raw). case parse_ip raw of None \<Rightarrow> index | Some a \<Rightarrow> gm_put (ip_string a) e index) []
       (concat (map (\<lambda>e. map (\<lambda>raw. (e, raw)) (ep_BootstrapIPs e)) endpoints))"

definition endpointByAddress :: "(string, Endpoint) gomap" where
  "endpointByAddress = buildAddressIndex catalog"

definition EndpointForAddress :: "string \<Rightarrow> Endpoint option" where
  "EndpointForAddress address = (case parse_ip (trim_space address) of
     None \<Rightarrow> None | Some a \<Rightarrow> gm_get endpointByAddress (ip_string a))"

datatype endpoint_error = UnavailableFor string | NoProvider

fun collect_endpoints :: "(string \<Rightarrow> Endpoint option) \<Rightarrow> string list \<Rightarrow> Endpoint list \<Rightarrow> string list \<Rightarrow> endpoint_error + Endpoint list" where
  "collect_endpoints lookup seen acc [] = Inr acc"
| "collect_endpoints lookup seen acc (address # rest) = (case lookup address of
     None \<Rightarrow> Inl (UnavailableFor (trim_space address))
   | Some e \<Rightarrow> if ep_URL e \<in> set seen then collect_endpoints lookup seen acc rest
       else collect_endpoints lookup (ep_URL e # seen) (acc @ [e]) rest)"

definition EndpointsForAddresses :: "string list \<Rightarrow> endpoint_error + Endpoint list" where
  "EndpointsForAddresses addresses =
     rbind (collect_endpoints EndpointForAddress [] [] addresses) (\<lambda>es. if es = [] then Inl NoProvider else Inr es)"

record url =
  url_Scheme :: string
  url_Hostname :: string
  url_Port :: string
  url_User :: bool

definition validateEndpoint :: "(string \<Rightarrow> url option) \<Rightarrow> Endpoint \<Rightarrow> bool" where
  "validateEndpoint parse_url e \<longleftrightarrow>
     (case parse_url (ep_URL e) of None \<Rightarrow> False
      | Some u \<Rightarrow> \<not> (url_Scheme u \<noteq> ''https'' \<or> url_Hostname u = [] \<or> url_Port u \<noteq> [] \<or> url_User u)) \<and>
     length (ep_BootstrapIPs e) \<noteq> 0 \<and> list_all (\<lambda>a. parse_ip a \<noteq> None) (ep_BootstrapIPs e)"

section \<open>Runtime configuration\<close>

record RuntimeConfig =
  rc_Transport :: string
  rc_UpstreamDNS :: string
  rc_Generation :: string

datatype runtime_error =
    BadTransport string
  | BadAddressCount
  | BadAddress string
  | BadEndpoint endpoint_error
  | NoPath
  | NoGeneration
  | DecodeFailed
  | FileFailed

definition runtimeAddresses :: "string \<Rightarrow> string list" where
  "runtimeAddresses value = filter (\<lambda>a. a \<noteq> []) (map trim_space (split_on (CHR '','') value))"

definition validate_config :: "RuntimeConfig \<Rightarrow> runtime_error + string \<times> string list" where
  "validate_config config =
     (let t = trim_space (rc_Transport config); transport = (if t = [] then ''standard'' else t);
          addresses = runtimeAddresses (rc_UpstreamDNS config) in
      if transport \<noteq> ''standard'' \<and> transport \<noteq> ''encrypted'' then Inl (BadTransport transport)
      else if length addresses = 0 \<or> length addresses > 15 then Inl BadAddressCount
      else (case List.find (\<lambda>a. parse_ip a = None) addresses of
              Some a \<Rightarrow> Inl (BadAddress a)
            | None \<Rightarrow>
                if transport = ''encrypted''
                then (case EndpointsForAddresses addresses of Inl e \<Rightarrow> Inl (BadEndpoint e) | Inr _ \<Rightarrow> Inr (transport, addresses))
                else Inr (transport, addresses)))"

definition configuredTransport :: "Store \<Rightarrow> string \<times> string list" where
  "configuredTransport s =
     (let t = trim_space (setting_value (settings s) ''upstream_transport'') in
      (if t = [] then ''standard'' else t,
       filter (\<lambda>v. v \<noteq> []) (map trim_space (split_on (CHR '','') (setting_value (settings s) ''upstream_dns'')))))"

definition RuntimeConfigFromStore :: "Store \<Rightarrow> RuntimeConfig" where
  "RuntimeConfigFromStore s = (case configuredTransport s of (transport, addresses) \<Rightarrow>
     \<lparr>rc_Transport = transport, rc_UpstreamDNS = join '','' addresses, rc_Generation = []\<rparr>)"

definition ReadRuntimeConfig :: "(string \<Rightarrow> RuntimeConfig option) \<Rightarrow> string option \<Rightarrow> runtime_error + RuntimeConfig" where
  "ReadRuntimeConfig decode data =
     rbind (of_option FileFailed data) (\<lambda>text.
     rbind (of_option DecodeFailed (decode text)) (\<lambda>config.
     rbind (guard_err (trim_space (rc_Generation config) \<noteq> []) NoGeneration) (\<lambda>_.
     rbind (validate_config config) (\<lambda>_. Inr config))))"

text \<open>
  Which system calls of the publication succeed: writing the temporary file (\<open>temporary_ok\<close> stands for the
  creation, the mode, the write, the sync and the close), the rename, and the fallback that removes the
  target and renames again. \<^const>\<open>None\<close> is a path without a file.
\<close>

record publication =
  temporary_ok :: bool
  rename_ok :: bool
  unlink_ok :: bool
  retry_ok :: bool

definition publish :: "publication \<Rightarrow> string \<Rightarrow> string option \<Rightarrow> string option \<times> runtime_error option" where
  "publish k payload old =
     (if \<not> temporary_ok k then (old, Some FileFailed)
      else if Doh_Catalog.rename_ok k then (Some payload, None)
      else if \<not> unlink_ok k then (old, Some FileFailed)
      else if retry_ok k then (Some payload, None)
      else (None, Some FileFailed))"

definition WriteRuntimeConfig ::
  "(RuntimeConfig \<Rightarrow> string) \<Rightarrow> time \<Rightarrow> publication \<Rightarrow> string \<Rightarrow> RuntimeConfig \<Rightarrow> string option \<Rightarrow>
   string option \<times> runtime_error option" where
  "WriteRuntimeConfig encode now k path config old =
     (if trim_space path = [] then (old, Some NoPath)
      else
        let config' = (if trim_space (rc_Generation config) = [] then config\<lparr>rc_Generation := itoa now\<rparr> else config) in
        (case validate_config config' of
           Inl e \<Rightarrow> (old, Some e)
         | Inr _ \<Rightarrow> publish k (encode config') old))"

definition WriteRuntimeConfigFromStore ::
  "(RuntimeConfig \<Rightarrow> string) \<Rightarrow> time \<Rightarrow> publication \<Rightarrow> string \<Rightarrow> Store \<Rightarrow> string option \<Rightarrow>
   string option \<times> runtime_error option" where
  "WriteRuntimeConfigFromStore encode now k path s old =
     WriteRuntimeConfig encode now k path ((RuntimeConfigFromStore s)\<lparr>rc_Generation := itoa now\<rparr>) old"

section \<open>Endpoints for addresses\<close>

lemma collect_endpoints_Inr:
  assumes "collect_endpoints lookup seen acc addresses = Inr es" "set seen = ep_URL ` set acc" "distinct (map ep_URL acc)"
  shows "distinct (map ep_URL es) \<and> (\<exists>new. es = acc @ new \<and> set new \<subseteq> {e. \<exists>a \<in> set addresses. lookup a = Some e}) \<and>
    (\<forall>a \<in> set addresses. \<exists>e. lookup a = Some e \<and> ep_URL e \<in> ep_URL ` set es)"
  using assms
proof (induction lookup seen acc addresses rule: collect_endpoints.induct)
  case (2 lookup seen acc address rest)
  obtain e where e: "lookup address = Some e"
    using 2(3) by (cases "lookup address") auto
  show ?case
  proof (cases "ep_URL e \<in> set seen")
    case True
    then have ih: "distinct (map ep_URL es) \<and> (\<exists>new. es = acc @ new \<and> set new \<subseteq> {e. \<exists>a \<in> set rest. lookup a = Some e}) \<and>
      (\<forall>a \<in> set rest. \<exists>e. lookup a = Some e \<and> ep_URL e \<in> ep_URL ` set es)"
      using 2(1) [OF e True] 2(3-5) e by simp
    then have "ep_URL e \<in> ep_URL ` set es"
      using True 2(4) by auto
    then show ?thesis
      using ih e by auto
  next
    case False
    then have ih: "distinct (map ep_URL es) \<and>
      (\<exists>new. es = (acc @ [e]) @ new \<and> set new \<subseteq> {e. \<exists>a \<in> set rest. lookup a = Some e}) \<and>
      (\<forall>a \<in> set rest. \<exists>e. lookup a = Some e \<and> ep_URL e \<in> ep_URL ` set es)"
      using 2(2) [OF e False] 2(3-5) e by auto
    then obtain new where new: "es = (acc @ [e]) @ new" "set new \<subseteq> {e. \<exists>a \<in> set rest. lookup a = Some e}"
      by blast
    have "es = acc @ (e # new)" "set (e # new) \<subseteq> {e. \<exists>a \<in> set (address # rest). lookup a = Some e}"
      using new e by auto
    moreover have "ep_URL e \<in> ep_URL ` set es"
      using new(1) by auto
    moreover have "\<exists>e. lookup a = Some e \<and> ep_URL e \<in> ep_URL ` set es" if "a \<in> set (address # rest)" for a
      using that ih e \<open>ep_URL e \<in> ep_URL ` set es\<close> by (cases "a = address") auto
    ultimately show ?thesis
      using ih by blast
  qed
qed auto

text \<open>
  The providers chosen for a list of resolver addresses: no provider is chosen twice, every chosen
  provider belongs to one of the addresses, every address is served by a chosen provider, and at least one
  provider is chosen.
\<close>

theorem EndpointsForAddresses_sound:
  assumes "EndpointsForAddresses addresses = Inr es"
  shows "es \<noteq> [] \<and> distinct (map ep_URL es) \<and>
    list_all (\<lambda>e. \<exists>a \<in> set addresses. EndpointForAddress a = Some e) es \<and>
    list_all (\<lambda>a. \<exists>e. EndpointForAddress a = Some e \<and> ep_URL e \<in> ep_URL ` set es) addresses"
proof -
  have "collect_endpoints EndpointForAddress [] [] addresses = Inr es" "es \<noteq> []"
    using assms by (auto simp: EndpointsForAddresses_def ok_iff split: if_splits)
  from collect_endpoints_Inr [OF this(1)] this(2) show ?thesis
    by (auto simp: list_all_iff)
qed

section \<open>The catalogue\<close>

definition canonical_address :: "string \<Rightarrow> bool" where
  "canonical_address a \<longleftrightarrow> map_option ip_string (parse_ip a) = Some a"

definition catalog_rows :: "Endpoint list \<Rightarrow> (string \<times> Endpoint) list" where
  "catalog_rows endpoints = concat (map (\<lambda>e. map (\<lambda>raw. (raw, e)) (ep_BootstrapIPs e)) endpoints)"

lemma put_rows:
  assumes "distinct (map fst (m @ rows))"
  shows "foldl (\<lambda>index (raw, e). gm_put raw e index) m rows = m @ rows"
  using assms
proof (induction rows arbitrary: m)
  case (Cons row rows)
  have "gm_put (fst row) (snd row) m = m @ [row]"
    using Cons.prems by (induction m) auto
  with Cons show ?case
    by (simp add: case_prod_unfold)
qed simp

lemma foldl_rows_cong:
  assumes "list_all (\<lambda>(raw, e). canonical_address raw) rows"
  shows "foldl (\<lambda>index (e, raw). case parse_ip raw of None \<Rightarrow> index | Some a \<Rightarrow> gm_put (ip_string a) e index) m
      (map (\<lambda>(raw, e). (e, raw)) rows) = foldl (\<lambda>index (raw, e). gm_put raw e index) m rows"
  using assms by (induction rows arbitrary: m) (auto simp: canonical_address_def)

lemma buildAddressIndex_rows:
  assumes "list_all (\<lambda>(raw, e). canonical_address raw) (catalog_rows endpoints)" "distinct (map fst (catalog_rows endpoints))"
  shows "buildAddressIndex endpoints = catalog_rows endpoints"
proof -
  have "concat (map (\<lambda>e. map (\<lambda>raw. (e, raw)) (ep_BootstrapIPs e)) endpoints) = map (\<lambda>(raw, e). (e, raw)) (catalog_rows endpoints)"
    by (induction endpoints) (auto simp: catalog_rows_def)
  then show ?thesis
    using assms by (simp add: buildAddressIndex_def foldl_rows_cong put_rows)
qed

lemma catalog_canonical: "list_all (\<lambda>(raw, e). canonical_address raw) (catalog_rows catalog)"
  by (simp add: catalog_rows_def catalog_def endpoint_def canonical_address_def net_eval net_print_eval)

lemma catalog_distinct: "distinct (map fst (catalog_rows catalog))"
  by code_simp

lemma endpointByAddress_rows: "endpointByAddress = catalog_rows catalog"
  by (simp add: endpointByAddress_def buildAddressIndex_rows catalog_canonical catalog_distinct)

lemma canonical_address_trim: "canonical_address a \<Longrightarrow> trim_space a = a"
  using ip_string_trim by (auto simp: canonical_address_def)

lemma catalog_provider: "e \<in> set catalog \<Longrightarrow> a \<in> set (ep_BootstrapIPs e) \<Longrightarrow> EndpointForAddress a = Some e"
proof -
  assume "e \<in> set catalog" "a \<in> set (ep_BootstrapIPs e)"
  then have row: "(a, e) \<in> set (catalog_rows catalog)"
    by (auto simp: catalog_rows_def)
  then have "canonical_address a"
    using catalog_canonical by (auto simp: list_all_iff)
  then obtain ip where "parse_ip (trim_space a) = Some ip" "ip_string ip = a"
    using canonical_address_trim [of a] by (auto simp: canonical_address_def)
  then show ?thesis
    using map_of_is_SomeI [OF catalog_distinct row] by (simp add: EndpointForAddress_def endpointByAddress_rows)
qed

text \<open>
  Every address of the catalogue belongs to the provider that lists it: no later provider takes it
  over in the index, so a configured resolver address is upgraded to the encrypted endpoint of its own operator.
\<close>

theorem catalog_serves_its_addresses:
  assumes "e \<in> set catalog" "a \<in> set (ep_BootstrapIPs e)"
  shows "EndpointForAddress a = Some e"
  using assms by (rule catalog_provider)

definition quad9_endpoint :: Endpoint where
  "quad9_endpoint = endpoint ''Quad9 Secure'' ''https://dns.quad9.net/dns-query'' [''9.9.9.9'', ''149.112.112.112'']"

lemma quad9_known: "quad9_endpoint \<in> set catalog" "set (ep_BootstrapIPs quad9_endpoint) = {''9.9.9.9'', ''149.112.112.112''}"
  by (simp add: catalog_def quad9_endpoint_def) (simp add: quad9_endpoint_def endpoint_def)

theorem catalog_serves_its_addresses_witness: "EndpointForAddress ''9.9.9.9'' = Some quad9_endpoint"
  by (rule catalog_serves_its_addresses [OF quad9_known(1)]) (simp add: quad9_known(2))

lemma quad9_provider: "a \<in> {''9.9.9.9'', ''149.112.112.112''} \<Longrightarrow> EndpointForAddress a = Some quad9_endpoint"
  by (rule catalog_provider) (simp_all only: quad9_known)

theorem EndpointsForAddresses_sound_witness:
  "EndpointsForAddresses [''9.9.9.9'', ''149.112.112.112''] = Inr [quad9_endpoint] \<and>
   list_all (\<lambda>a. \<exists>e. EndpointForAddress a = Some e \<and> ep_URL e = ''https://dns.quad9.net/dns-query'') [''9.9.9.9'', ''149.112.112.112'']"
proof -
  have run: "EndpointsForAddresses [''9.9.9.9'', ''149.112.112.112''] = Inr [quad9_endpoint]"
    by (simp add: EndpointsForAddresses_def quad9_provider)
  with EndpointsForAddresses_sound [OF run] show ?thesis
    by (auto simp: list_all_iff quad9_endpoint_def endpoint_def)
qed

end
