(* ===== verification/Doh_Gateway.thy ===== *)
theory Doh_Gateway
  imports Doh_Catalog "HOL-Library.Word" "HOL-Library.Signed_Division"
begin

text \<open>
  The encrypted DNS gateway (\<^verbatim>\<open>internal/dohproxy/proxy.go\<close>, \<^verbatim>\<open>clients.go\<close>, \<^verbatim>\<open>client.go\<close>, \<^verbatim>\<open>probe.go\<close>), its watcher
  (\<^verbatim>\<open>cmd/faro-dohproxy/main.go\<close>) and the hooks that connect it to the installation of a CoreDNS configuration
  (\<^verbatim>\<open>cmd/faro-api/main.go\<close>). A client pointer is a record with an identity, so that the closing of its idle
  connections can be observed; a DNS message is a list of bytes; the answer of a provider to a query is a
  parameter. The time limits of an exchange are the parameter \<open>cancelled\<close>, which says at which attempt the
  context has ended.
\<close>

unbundle bit_operations_syntax

type_synonym bytes = "8 word list"

definition maxDNSMessageBytes :: nat where
  "maxDNSMessageBytes = 65535"

section \<open>Messages\<close>

datatype exchange_error =
    InvalidQuery
  | ResponseBitSet
  | ShortResponse
  | MismatchedID
  | NoResponseBit
  | RequestFailed
  | HTTPStatus int
  | ContentType
  | BodyFailed
  | TooLarge
  | CloseFailed
  | NoProviders
  | Cancelled
  | ServFail
  | IndexPanic

definition validateQuery :: "bytes \<Rightarrow> exchange_error + unit" where
  "validateQuery message =
     (if length message < 12 \<or> length message > maxDNSMessageBytes then Inl InvalidQuery
      else if message ! 2 AND 0x80 \<noteq> 0 then Inl ResponseBitSet
      else Inr ())"

definition validateResponse :: "bytes \<Rightarrow> bytes \<Rightarrow> exchange_error + unit" where
  "validateResponse query response =
     (if length response < 12 then Inl ShortResponse
      else if take 2 response \<noteq> take 2 query then Inl MismatchedID
      else if response ! 2 AND 0x80 = 0 then Inl NoResponseBit
      else Inr ())"

definition serverFailure :: "bytes \<Rightarrow> bytes" where
  "serverFailure query =
     (if length query < 12 then []
      else let r1 = query[2 := query ! 2 OR 0x80];
               r2 = r1[3 := (r1 ! 3 AND 0xf0) OR 0x02];
               r3 = r2[3 := r2 ! 3 OR 0x80] in
           r3[6 := 0, 7 := 0, 8 := 0, 9 := 0])"

definition dnsResponseCode :: "bytes \<Rightarrow> 8 word" where
  "dnsResponseCode message = (if length message < 4 then 2 else message ! 3 AND 0x0f)"

text \<open>\<^verbatim>\<open>binary.BigEndian\<close> on 16 bits.\<close>

definition put_uint16 :: "nat \<Rightarrow> bytes" where
  "put_uint16 n = [word_of_nat (n div 256), word_of_nat (n mod 256)]"

definition uint16 :: "8 word \<Rightarrow> 8 word \<Rightarrow> nat" where
  "uint16 hi lo = 256 * unat hi + unat lo"

definition ascii_bytes :: "string \<Rightarrow> bytes" where
  "ascii_bytes s = map (\<lambda>c. word_of_nat (of_char c)) s"

definition probeQuery :: "16 word \<Rightarrow> bytes" where
  "probeQuery ident =
     put_uint16 (unat ident) @ put_uint16 0x0100 @ put_uint16 1 @ replicate 6 0 @
     concat (map (\<lambda>label. word_of_nat (length label) # ascii_bytes label) [''example'', ''com'']) @ [0, 0, 1, 0, 1]"

text \<open>
  A stream is what can still be read from the connection. The length is read as two bytes; a stream that
  ends early is an error.
\<close>

definition readTCPQuery :: "bytes \<Rightarrow> (bytes \<times> bytes) option" where
  "readTCPQuery stream = (case stream of
     hi # lo # rest \<Rightarrow>
       (let n = uint16 hi lo in
        if n < 12 then None else if length rest < n then None else Some (take n rest, drop n rest))
   | _ \<Rightarrow> None)"

definition writeTCPResponse :: "bytes \<Rightarrow> bytes option" where
  "writeTCPResponse response =
     (if length response = 0 \<or> length response > maxDNSMessageBytes then None
      else Some (put_uint16 (length response) @ response))"

section \<open>One provider\<close>

record endpointClient =
  ec_id :: nat
  ec_endpoint :: Endpoint

record http_response =
  hr_StatusCode :: int
  hr_ContentType :: "string option"
  hr_Body :: "bytes option"
  hr_close_ok :: bool

text \<open>
  \<open>hr_ContentType\<close> is the media type that \<^verbatim>\<open>mime.ParseMediaType\<close> finds in the header, \<open>hr_Body\<close> what reading the
  body gives. An error of closing the body replaces the message.
\<close>

definition exchangeWithClient :: "(bytes \<Rightarrow> http_response option) \<Rightarrow> bytes \<Rightarrow> exchange_error + bytes" where
  "exchangeWithClient post query =
     rbind (validateQuery query) (\<lambda>_.
     rbind (of_option RequestFailed (post query)) (\<lambda>response.
     let result =
       (if hr_StatusCode response \<noteq> 200 then Inl (HTTPStatus (hr_StatusCode response))
        else if (case hr_ContentType response of None \<Rightarrow> True | Some t \<Rightarrow> \<not> equal_fold t ''application/dns-message'')
          then Inl ContentType
        else rbind (of_option BodyFailed (hr_Body response)) (\<lambda>body.
             let message = take (maxDNSMessageBytes + 1) body in
             rbind (guard_err (length message \<le> maxDNSMessageBytes) TooLarge) (\<lambda>_.
             rbind (validateResponse query message) (\<lambda>_. Inr message)))) in
     if hr_close_ok response then result else Inl CloseFailed))"

text \<open>
  The dialer of a client only connects to the host of its endpoint, on the HTTPS port, through the bootstrap
  addresses: \<open>dial\<close> tells which of them answer. The result is the address that is used.
\<close>

datatype dial_error = UnexpectedConnection | NoBootstrap | DialFailed

definition bootstrapDialer :: "(string \<Rightarrow> bool) \<Rightarrow> string \<Rightarrow> string list \<Rightarrow> string \<times> string \<Rightarrow> dial_error + string" where
  "bootstrapDialer dial endpointHost addresses requested = (case requested of (hostname, port) \<Rightarrow>
     if \<not> equal_fold (trim_suffix ''.'' hostname) (trim_suffix ''.'' endpointHost) \<or> port \<noteq> ''443''
     then Inl UnexpectedConnection
     else (case List.find dial addresses of
             Some a \<Rightarrow> Inr a
           | None \<Rightarrow> if addresses = [] then Inl NoBootstrap else Inl DialFailed))"

definition check_redirect :: "string \<Rightarrow> url \<Rightarrow> nat \<Rightarrow> bool" where
  "check_redirect hostname u via \<longleftrightarrow>
     \<not> (url_Scheme u \<noteq> ''https'' \<or> \<not> equal_fold (url_Hostname u) hostname) \<and> \<not> via \<ge> 3"

section \<open>The proxy\<close>

record Proxy =
  px_state :: "endpointClient list option"
  px_previous :: "endpointClient list option"
  px_next :: "64 word"
  px_fresh :: nat
  px_idled :: "nat list"
  px_concurrent :: nat

definition New :: Proxy where
  "New = \<lparr>px_state = None, px_previous = None, px_next = 0, px_fresh = 0, px_idled = [], px_concurrent = 0\<rparr>"

definition state_clients :: "endpointClient list option \<Rightarrow> endpointClient list" where
  "state_clients st = (case st of None \<Rightarrow> [] | Some cs \<Rightarrow> cs)"

definition matchingClient :: "Endpoint \<Rightarrow> endpointClient list option list \<Rightarrow> endpointClient option" where
  "matchingClient e states =
     List.find (\<lambda>c. ep_URL (ec_endpoint c) = ep_URL e \<and> ep_BootstrapIPs (ec_endpoint c) = ep_BootstrapIPs e)
       (concat (map state_clients states))"

definition closeUnusedClients ::
  "endpointClient list option \<Rightarrow> endpointClient list option list \<Rightarrow> nat list \<Rightarrow> nat list" where
  "closeUnusedClients retired keep idled =
     (let retained = map ec_id (concat (map state_clients keep)) in
      idled @ remdups (filter (\<lambda>i. i \<notin> set retained) (map ec_id (state_clients retired))))"

definition replaceState :: "endpointClient list option \<Rightarrow> Proxy \<Rightarrow> Proxy" where
  "replaceState new_state p =
     p\<lparr>px_idled := closeUnusedClients (px_previous p) [px_state p, new_state] (px_idled p),
       px_previous := px_state p, px_state := new_state\<rparr>"

text \<open>The loop of \<open>ReloadConfig\<close>: the clients so far, the ones created by this call, and the next identity.\<close>

fun reload_clients ::
  "(string \<Rightarrow> url option) \<Rightarrow> Proxy \<Rightarrow> Endpoint list \<Rightarrow> endpointClient list \<Rightarrow> endpointClient list \<Rightarrow> nat \<Rightarrow>
   bool \<times> endpointClient list \<times> endpointClient list \<times> nat" where
  "reload_clients parse_url p [] clients created fresh = (True, clients, created, fresh)"
| "reload_clients parse_url p (e # es) clients created fresh =
     (case matchingClient e [px_state p, px_previous p] of
        Some c \<Rightarrow> reload_clients parse_url p es (clients @ [c]) created fresh
      | None \<Rightarrow>
          if \<not> validateEndpoint parse_url e then (False, clients, created, fresh)
          else (let c = \<lparr>ec_id = fresh, ec_endpoint = e\<rparr> in
                reload_clients parse_url p es (clients @ [c]) (created @ [c]) (Suc fresh)))"

datatype reload_error = ConfigRejected runtime_error | EndpointRejected

definition ReloadConfig :: "(string \<Rightarrow> url option) \<Rightarrow> RuntimeConfig \<Rightarrow> Proxy \<Rightarrow> Proxy \<times> reload_error option" where
  "ReloadConfig parse_url config p =
     (case validate_config config of
        Inl e \<Rightarrow> (p, Some (ConfigRejected e))
      | Inr (mode, addresses) \<Rightarrow>
          if mode \<noteq> ''encrypted'' then (replaceState (Some []) p, None)
          else (case EndpointsForAddresses addresses of
                  Inl e \<Rightarrow> (p, Some (ConfigRejected (BadEndpoint e)))
                | Inr endpoints \<Rightarrow>
                    (case reload_clients parse_url p endpoints [] [] (px_fresh p) of
                       (ok, clients, created, fresh) \<Rightarrow>
                         if \<not> ok
                         then (p\<lparr>px_fresh := fresh, px_idled := closeUnusedClients (Some created) [] (px_idled p)\<rparr>, Some EndpointRejected)
                         else (replaceState (Some clients) (p\<lparr>px_fresh := fresh\<rparr>), None))))"

definition Reload :: "(string \<Rightarrow> url option) \<Rightarrow> Store \<Rightarrow> Proxy \<Rightarrow> Proxy \<times> reload_error option" where
  "Reload parse_url s p = ReloadConfig parse_url (RuntimeConfigFromStore s) p"

definition RestorePrevious :: "Proxy \<Rightarrow> Proxy" where
  "RestorePrevious p =
     p\<lparr>px_state := px_previous p, px_idled := closeUnusedClients (px_state p) [px_previous p] (px_idled p)\<rparr>"

section \<open>Exchanging a query\<close>

fun try_clients ::
  "(endpointClient \<Rightarrow> bytes \<Rightarrow> exchange_error + bytes) \<Rightarrow> (nat \<Rightarrow> bool) \<Rightarrow> endpointClient list \<Rightarrow> int \<Rightarrow> bytes \<Rightarrow>
   nat \<Rightarrow> nat \<Rightarrow> exchange_error \<Rightarrow> exchange_error + bytes" where
  "try_clients answer cancelled clients start query offset 0 lastErr = Inl lastErr"
| "try_clients answer cancelled clients start query offset (Suc n) lastErr =
     (if cancelled offset then Inl Cancelled
      else let i = (start + int offset) smod int (length clients) in
           if i < 0 then Inl IndexPanic
           else (case answer (clients ! nat i) query of
                   Inr response \<Rightarrow>
                     if dnsResponseCode response \<noteq> 2 then Inr response
                     else try_clients answer cancelled clients start query (Suc offset) n ServFail
                 | Inl e \<Rightarrow> try_clients answer cancelled clients start query (Suc offset) n e))"

text \<open>\<^verbatim>\<open>int(proxy.next.Add(1)-1) % len\<close>: the counter before the addition, read as a signed number, with Go's remainder.\<close>

definition exchange ::
  "(endpointClient \<Rightarrow> bytes \<Rightarrow> exchange_error + bytes) \<Rightarrow> (nat \<Rightarrow> bool) \<Rightarrow> bytes \<Rightarrow> Proxy \<Rightarrow> Proxy \<times> (exchange_error + bytes)" where
  "exchange answer cancelled query p =
     (let clients = state_clients (px_state p) in
      if clients = [] then (p, Inl NoProviders)
      else (let p' = p\<lparr>px_next := px_next p + 1\<rparr>; start = sint (px_next p' - 1) smod int (length clients) in
            (p', try_clients answer cancelled clients start query 0 (length clients) NoProviders)))"

definition acquire :: "bool \<Rightarrow> Proxy \<Rightarrow> Proxy \<times> bool" where
  "acquire ended p =
     (if ended then (p, False)
      else if px_concurrent p < 256 then (p\<lparr>px_concurrent := px_concurrent p + 1\<rparr>, True)
      else (p, False))"

definition release :: "Proxy \<Rightarrow> Proxy" where
  "release p = p\<lparr>px_concurrent := px_concurrent p - 1\<rparr>"

definition responseAdmitted ::
  "(endpointClient \<Rightarrow> bytes \<Rightarrow> exchange_error + bytes) \<Rightarrow> (nat \<Rightarrow> bool) \<Rightarrow> bytes \<Rightarrow> Proxy \<Rightarrow> Proxy \<times> bytes" where
  "responseAdmitted answer cancelled query p =
     (let (p', r) = exchange answer cancelled query p in
      (p', case r of Inl _ \<Rightarrow> serverFailure query | Inr response \<Rightarrow> response))"

definition response ::
  "(endpointClient \<Rightarrow> bytes \<Rightarrow> exchange_error + bytes) \<Rightarrow> (nat \<Rightarrow> bool) \<Rightarrow> bool \<Rightarrow> bytes \<Rightarrow> Proxy \<Rightarrow> Proxy \<times> bytes" where
  "response answer cancelled ended query p =
     (let (p1, admitted) = acquire ended p in
      if \<not> admitted then (p1, serverFailure query)
      else let (p2, r) = responseAdmitted answer cancelled query p1 in (release p2, r))"

text \<open>
  The loop of \<open>handleTCP\<close> on what the client sends until it closes the connection; the result is what the
  client reads. Every query takes at least fourteen bytes of the stream. The output of a connection that breaks
  (a deadline, a failed write) is a prefix of it.
\<close>

function handleTCP :: "(bytes \<Rightarrow> Proxy \<Rightarrow> Proxy \<times> bytes) \<Rightarrow> bytes \<Rightarrow> Proxy \<Rightarrow> Proxy \<times> bytes" where
  "handleTCP respond stream p =
     (case readTCPQuery stream of
        None \<Rightarrow> (p, [])
      | Some (query, rest) \<Rightarrow>
          (let (p', r) = respond query p in
           case writeTCPResponse r of
             None \<Rightarrow> (p', [])
           | Some frame \<Rightarrow> (let (p'', out) = handleTCP respond rest p' in (p'', frame @ out))))"
  by pat_completeness auto

lemma readTCPQuery_shorter: "readTCPQuery stream = Some (query, rest) \<Longrightarrow> length rest < length stream"
  by (auto simp: readTCPQuery_def Let_def split: list.splits if_splits)

termination handleTCP
  by (relation "measure (\<lambda>(respond, stream, p). length stream)") (auto dest: readTCPQuery_shorter)

declare handleTCP.simps [simp del]

section \<open>The standalone gateway\<close>

definition initialRuntimeConfig ::
  "(string \<Rightarrow> RuntimeConfig option) \<Rightarrow> string option \<Rightarrow> Store \<Rightarrow> runtime_error + RuntimeConfig" where
  "initialRuntimeConfig decode file s =
     (case ReadRuntimeConfig decode file of
        Inr config \<Rightarrow> Inr config
      | Inl e \<Rightarrow> if file \<noteq> None then Inl e else Inr (RuntimeConfigFromStore s))"

definition watch_tick ::
  "(string \<Rightarrow> url option) \<Rightarrow> (string \<Rightarrow> RuntimeConfig option) \<Rightarrow> string option \<Rightarrow> Proxy \<times> string \<Rightarrow> Proxy \<times> string" where
  "watch_tick parse_url decode file st = (case st of (p, generation) \<Rightarrow>
     (case ReadRuntimeConfig decode file of
        Inl _ \<Rightarrow> (p, generation)
      | Inr config \<Rightarrow>
          if rc_Generation config = generation then (p, generation)
          else (case ReloadConfig parse_url config p of
                  (p', Some _) \<Rightarrow> (p', generation)
                | (p', None) \<Rightarrow> (p', rc_Generation config))))"

section \<open>The hooks of the installation\<close>

text \<open>What the hooks work on: the gateway of the control plane and the runtime configuration file.\<close>

record transport_world =
  tw_proxy :: Proxy
  tw_file :: "string option"

definition gateway_before :: "(string \<Rightarrow> url option) \<Rightarrow> Store \<Rightarrow> transport_world \<Rightarrow> transport_world \<times> bool" where
  "gateway_before parse_url s w = (let (p, err) = Reload parse_url s (tw_proxy w) in (w\<lparr>tw_proxy := p\<rparr>, err = None))"

definition gateway_restore :: "transport_world \<Rightarrow> transport_world \<times> bool" where
  "gateway_restore w = (w\<lparr>tw_proxy := RestorePrevious (tw_proxy w)\<rparr>, True)"

definition gateway_commit ::
  "(RuntimeConfig \<Rightarrow> string) \<Rightarrow> time \<Rightarrow> publication \<Rightarrow> string \<Rightarrow> Store \<Rightarrow> transport_world \<Rightarrow> transport_world \<times> bool" where
  "gateway_commit encode now k path s w =
     (let (file, err) = WriteRuntimeConfigFromStore encode now k path s (tw_file w) in (w\<lparr>tw_file := file\<rparr>, err = None))"

definition gateway_hooks ::
  "(string \<Rightarrow> url option) \<Rightarrow> (RuntimeConfig \<Rightarrow> string) \<Rightarrow> time \<Rightarrow> publication \<Rightarrow> string \<Rightarrow> (transport_world \<Rightarrow> transport_world) option \<Rightarrow>
   Store \<Rightarrow> transport_world hooks" where
  "gateway_hooks parse_url encode now k path after s =
     \<lparr>BeforeApply = Some (gateway_before parse_url s), RollbackApply = Some gateway_restore,
      CommitApply = Some (gateway_commit encode now k path s), AfterApply = after\<rparr>"

section \<open>Every query is answered\<close>

lemma high_bit_set: "(x OR 0x80) AND 0x80 \<noteq> (0 :: 8 word)"
proof -
  have "(x OR 0x80) AND 0x80 = (0x80 :: 8 word)"
    by (simp add: word_ao_absorbs)
  then show ?thesis
    by simp
qed

lemma failure_code: "((x AND 0xf0) OR 0x02 OR 0x80) AND 0x0f = (2 :: 8 word)"
proof -
  have "(x AND 0xf0) AND 0x0f = x AND (0xf0 AND 0x0f)"
    by (simp only: and.assoc)
  then show ?thesis
    by (simp add: word_ao_dist)
qed

lemma serverFailure_header:
  assumes "12 \<le> length query"
  shows "length (serverFailure query) = length query" "take 2 (serverFailure query) = take 2 query"
    "serverFailure query ! 2 = query ! 2 OR 0x80" "serverFailure query ! 3 = (query ! 3 AND 0xf0) OR 0x02 OR 0x80"
  using assms by (simp_all add: serverFailure_def Let_def or.assoc take_update_cancel)

lemma serverFailure_valid:
  assumes "12 \<le> length query"
  shows "validateResponse query (serverFailure query) = Inr ()" "dnsResponseCode (serverFailure query) = 2"
  using assms high_bit_set failure_code by (simp_all add: validateResponse_def dnsResponseCode_def serverFailure_header)

lemma exchangeWithClient_valid:
  assumes "exchangeWithClient post query = Inr r"
  shows "validateQuery query = Inr ()" "validateResponse query r = Inr ()" "length r \<le> maxDNSMessageBytes"
  using assms by (auto simp: exchangeWithClient_def ok_iff Let_def split: if_splits)

lemma smod_index:
  assumes "0 < n"
  shows "i smod int n < int n"
proof -
  have "0 \<le> \<bar>i\<bar> mod int n" "\<bar>i\<bar> mod int n < int n"
    using assms by simp_all
  moreover have "sgn i \<in> {- 1, 0, 1}"
    by (simp add: sgn_if)
  ultimately show ?thesis
    by (auto simp: signed_modulo_int_def)
qed

lemma try_clients_Inr:
  assumes "try_clients answer cancelled clients start query offset n lastErr = Inr r" "clients \<noteq> []"
  shows "\<exists>c \<in> set clients. answer c query = Inr r \<and> dnsResponseCode r \<noteq> 2"
  using assms
proof (induction answer cancelled clients start query offset n lastErr rule: try_clients.induct)
  case (2 answer cancelled clients start query offset n lastErr)
  let ?i = "(start + int offset) smod int (length clients)"
  have i: "\<not> ?i < 0" "nat ?i < length clients"
    using 2(3,4) smod_index [of "length clients" "start + int offset"] by (auto simp: Let_def split: if_splits)
  show ?case
    using 2 i nth_mem [OF i(2)] by (auto simp: Let_def split: if_splits sum.splits)
qed simp

lemma exchange_Inr:
  assumes "snd (exchange answer cancelled query p) = Inr r"
  shows "\<exists>c \<in> set (state_clients (px_state p)). answer c query = Inr r \<and> dnsResponseCode r \<noteq> 2"
  using assms try_clients_Inr by (auto simp: exchange_def Let_def split: if_splits)

definition legal_query :: "bytes \<Rightarrow> bool" where
  "legal_query q \<longleftrightarrow> 12 \<le> length q \<and> length q \<le> maxDNSMessageBytes"

lemma response_valid:
  assumes "legal_query query" "r = snd (response (\<lambda>c. exchangeWithClient (post c)) cancelled ended query p)"
  shows "validateResponse query r = Inr ()" "legal_query r"
proof -
  have "validateResponse query r = Inr () \<and> length r \<le> maxDNSMessageBytes"
  proof (cases "r = serverFailure query")
    case True
    then show ?thesis
      using assms(1) serverFailure_valid serverFailure_header by (simp add: legal_query_def)
  next
    case False
    then have "snd (exchange (\<lambda>c. exchangeWithClient (post c)) cancelled query (fst (acquire ended p))) = Inr r"
      by (auto simp: assms(2) response_def responseAdmitted_def split_def Let_def split: if_splits sum.splits)
    then show ?thesis
      using exchange_Inr exchangeWithClient_valid by blast
  qed
  then show "validateResponse query r = Inr ()" "legal_query r"
    by (auto simp: legal_query_def validateResponse_def split: if_splits)
qed

section \<open>Rotation\<close>

definition good_answer :: "(endpointClient \<Rightarrow> bytes \<Rightarrow> exchange_error + bytes) \<Rightarrow> bytes \<Rightarrow> endpointClient \<Rightarrow> bytes option" where
  "good_answer answer query c = (case answer c query of Inl _ \<Rightarrow> None | Inr r \<Rightarrow> if dnsResponseCode r = 2 then None else Some r)"

lemma smod_nonneg: "0 \<le> i \<Longrightarrow> i smod int n = int (nat i mod n)"
  by (simp add: signed_modulo_int_def sgn_if zmod_int)

lemma try_clients_rotation:
  assumes "\<forall>i. \<not> cancelled i" "offset + n = length clients" "clients \<noteq> []"
  shows "(case try_clients answer cancelled clients (int start) query offset n lastErr of Inl _ \<Rightarrow> None | Inr r \<Rightarrow> Some r) =
    (case List.find (\<lambda>c. good_answer answer query c \<noteq> None) (drop offset (rotate start clients)) of
       None \<Rightarrow> None | Some c \<Rightarrow> good_answer answer query c)"
  using assms(2)
proof (induction n arbitrary: offset lastErr)
  case (Suc n)
  define c where "c = rotate start clients ! offset"
  have "offset < length (rotate start clients)"
    using Suc.prems by simp
  then have drop: "drop offset (rotate start clients) = c # drop (Suc offset) (rotate start clients)"
    by (simp add: Cons_nth_drop_Suc c_def)
  have index: "(int start + int offset) smod int (length clients) = int ((start + offset) mod length clients)"
    using smod_nonneg [of "int start + int offset"] by (simp add: nat_int_add)
  have c: "clients ! ((start + offset) mod length clients) = c"
    using Suc.prems by (simp add: c_def nth_rotate)
  have ih: "(case try_clients answer cancelled clients (int start) query (Suc offset) n e of Inl _ \<Rightarrow> None | Inr r \<Rightarrow> Some r) =
    (case List.find (\<lambda>c. good_answer answer query c \<noteq> None) (drop (Suc offset) (rotate start clients)) of
       None \<Rightarrow> None | Some c \<Rightarrow> good_answer answer query c)" for e
    using Suc.IH [of "Suc offset" e] Suc.prems by simp
  show ?case
  proof (cases "good_answer answer query c")
    case None
    then obtain e where "try_clients answer cancelled clients (int start) query offset (Suc n) lastErr =
        try_clients answer cancelled clients (int start) query (Suc offset) n e"
      using assms(1) by (auto simp: index c Let_def good_answer_def split: sum.splits if_splits)
    then show ?thesis
      using None by (simp only: drop ih) simp
  next
    case (Some r)
    then have "answer c query = Inr r" "dnsResponseCode r \<noteq> 2"
      by (auto simp: good_answer_def split: sum.splits if_splits)
    then show ?thesis
      using Some assms(1) by (simp add: drop index c Let_def)
  qed
qed simp

lemma sint_small: "unat (w :: 64 word) < 2 ^ 63 \<Longrightarrow> sint w = int (unat w)"
proof -
  assume "unat w < 2 ^ 63"
  then have "int (unat w) < int (2 ^ 63)"
    by (simp only: of_nat_less_iff)
  then have "uint w < 2 ^ 63"
    by simp
  moreover have "- (2 ^ 63) \<le> uint w"
    by (rule order_trans [OF _ uint_nonnegative]) simp
  ultimately have "signed_take_bit 63 (uint w) = uint w"
    by (intro signed_take_bit_int_eq_self)
  then show ?thesis
    by (simp add: sint_uint)
qed

text \<open>
  A provider that fails does not hide one that works: as long as the context lasts and fewer than
  \<open>2 ^ 63\<close> queries were made, the result of an exchange is the answer of the first provider, in the order
  that starts at the position of the counter, that answers with something else than SERVFAIL; it is an error
  exactly when no provider does.
\<close>

theorem exchange_rotation:
  assumes "\<forall>i. \<not> cancelled i" "unat (px_next p) < 2 ^ 63" "state_clients (px_state p) = clients" "clients \<noteq> []"
  shows "(case snd (exchange answer cancelled query p) of Inl _ \<Rightarrow> None | Inr r \<Rightarrow> Some r) =
    (case List.find (\<lambda>c. good_answer answer query c \<noteq> None) (rotate (unat (px_next p)) clients) of
       None \<Rightarrow> None | Some c \<Rightarrow> good_answer answer query c)"
proof -
  have "sint (px_next p) smod int (length clients) = int (unat (px_next p) mod length clients)"
    using smod_nonneg [of "sint (px_next p)"] sint_small [OF assms(2)] by simp
  then show ?thesis
    using assms(4) try_clients_rotation [OF assms(1), of 0 "length clients" clients answer "unat (px_next p) mod length clients" query NoProviders]
    by (simp add: exchange_def assms(3) rotate_conv_mod [symmetric])
qed

section \<open>Framing on TCP\<close>

lemma put_uint16_bytes:
  assumes "n \<le> maxDNSMessageBytes"
  shows "uint16 (word_of_nat (n div 256)) (word_of_nat (n mod 256)) = n"
proof -
  have "n div 256 < 256"
    using assms by (simp add: maxDNSMessageBytes_def)
  then show ?thesis
    by (simp add: uint16_def unat_of_nat)
qed

lemma readTCPQuery_write:
  assumes "12 \<le> length q" "writeTCPResponse q = Some frame"
  shows "readTCPQuery (frame @ rest) = Some (q, rest)"
proof -
  have "length q \<le> maxDNSMessageBytes" "frame = put_uint16 (length q) @ q"
    using assms(2) by (auto simp: writeTCPResponse_def split: if_splits)
  then show ?thesis
    using assms(1) put_uint16_bytes [of "length q"] by (simp add: readTCPQuery_def put_uint16_def Let_def)
qed

definition framed :: "bytes list \<Rightarrow> bytes" where
  "framed ms = concat (map (\<lambda>m. put_uint16 (length m) @ m) ms)"

lemma legal_frame: "legal_query q \<Longrightarrow> writeTCPResponse q = Some (put_uint16 (length q) @ q)"
  by (auto simp: legal_query_def writeTCPResponse_def)

lemma framed_Cons: "framed (m # ms) = put_uint16 (length m) @ m @ framed ms"
  by (simp add: framed_def)

lemma handleTCP_framed:
  assumes "\<forall>q \<in> set qs. legal_query q"
    "\<And>q p. legal_query q \<Longrightarrow> validateResponse q (snd (respond q p)) = Inr () \<and> legal_query (snd (respond q p))"
  shows "\<exists>rs. snd (handleTCP respond (framed qs) p) = framed rs \<and> list_all2 (\<lambda>q r. validateResponse q r = Inr ()) qs rs"
  using assms(1)
proof (induction qs arbitrary: p)
  case Nil
  then show ?case
    by (simp add: framed_def handleTCP.simps readTCPQuery_def)
next
  case (Cons q qs)
  obtain p1 r where r: "respond q p = (p1, r)"
    by fastforce
  have q: "legal_query q"
    using Cons.prems by simp
  have read: "readTCPQuery (framed (q # qs)) = Some (q, framed qs)"
    using readTCPQuery_write [OF _ legal_frame [OF q], of "framed qs"] q by (simp add: framed_def legal_query_def)
  obtain rs where rs: "snd (handleTCP respond (framed qs) p1) = framed rs"
      "list_all2 (\<lambda>q r. validateResponse q r = Inr ()) qs rs"
    using Cons by fastforce
  have "legal_query r" "validateResponse q r = Inr ()"
    using assms(2) [OF q, of p] r by simp_all
  then have "snd (handleTCP respond (framed (q # qs)) p) = framed (r # rs)"
    using rs(1) by (subst handleTCP.simps) (simp add: read r legal_frame framed_Cons [of r rs] split_def)
  then show ?case
    using rs(2) \<open>validateResponse q r = Inr ()\<close> by (intro exI [of _ "r # rs"]) simp
qed


lemma probe_legal: "legal_query (probeQuery 7)"
  by (simp add: legal_query_def probeQuery_def put_uint16_def ascii_bytes_def maxDNSMessageBytes_def)


definition lone_client :: "nat \<Rightarrow> endpointClient" where
  "lone_client i = \<lparr>ec_id = i, ec_endpoint = quad9_endpoint\<rparr>"

definition two_clients :: Proxy where
  "two_clients = New\<lparr>px_state := Some [lone_client 0, lone_client 1], px_fresh := 2\<rparr>"

definition second_only :: "endpointClient \<Rightarrow> bytes \<Rightarrow> exchange_error + bytes" where
  "second_only c query = (if ec_id c = 0 then Inl RequestFailed else Inr [0, 7, 0x80, 0])"

theorem exchange_rotation_witness:
  "(case snd (exchange second_only (\<lambda>_. False) (probeQuery 7) two_clients) of Inl _ \<Rightarrow> None | Inr r \<Rightarrow> Some r) = Some [0, 7, 0x80, 0]"
  using exchange_rotation [of "\<lambda>_. False" two_clients "[lone_client 0, lone_client 1]" second_only "probeQuery 7"]
  by (simp add: two_clients_def New_def lone_client_def state_clients_def second_only_def good_answer_def dnsResponseCode_def)

section \<open>The life of the clients\<close>

definition live_clients :: "Proxy \<Rightarrow> endpointClient list" where
  "live_clients p = state_clients (px_state p) @ state_clients (px_previous p)"

definition proxy_inv :: "Proxy \<Rightarrow> bool" where
  "proxy_inv p \<longleftrightarrow>
     (\<forall>c \<in> set (live_clients p). ec_id c < px_fresh p \<and> ec_id c \<notin> set (px_idled p)) \<and>
     (\<forall>i \<in> set (px_idled p). i < px_fresh p)"

lemma set_closeUnusedClients:
  "set (closeUnusedClients retired keep idled) =
     set idled \<union> (ec_id ` set (state_clients retired) - ec_id ` (\<Union>st \<in> set keep. set (state_clients st)))"
  by (auto simp: closeUnusedClients_def Let_def)

lemma state_clients_simps [simp]: "state_clients None = []" "state_clients (Some cs) = cs"
  by (simp_all add: state_clients_def)

lemma matchingClient_live: "matchingClient e [px_state p, px_previous p] = Some c \<Longrightarrow> c \<in> set (live_clients p)"
  by (auto simp: matchingClient_def live_clients_def dest: find_Some_in)

lemma reload_clients_fresh:
  assumes "reload_clients parse_url p es clients created fresh = (ok, clients', created', fresh')"
    "\<forall>c \<in> set clients. c \<in> set (live_clients p) \<or> px_fresh p \<le> ec_id c \<and> ec_id c < fresh"
    "\<forall>c \<in> set created. px_fresh p \<le> ec_id c \<and> ec_id c < fresh" "px_fresh p \<le> fresh"
  shows "(\<forall>c \<in> set clients'. c \<in> set (live_clients p) \<or> px_fresh p \<le> ec_id c \<and> ec_id c < fresh') \<and>
    (\<forall>c \<in> set created'. px_fresh p \<le> ec_id c \<and> ec_id c < fresh') \<and> px_fresh p \<le> fresh'"
  using assms
proof (induction parse_url p es clients created fresh rule: reload_clients.induct)
  case (2 parse_url p e es clients created fresh)
  show ?case
  proof (cases "matchingClient e [px_state p, px_previous p]")
    case None
    show ?thesis
    proof (cases "validateEndpoint parse_url e")
      case True
      then show ?thesis
        using 2(1) [OF None _ refl] 2(3-6) None by (auto simp: Let_def less_Suc_eq)
    next
      case False
      then show ?thesis
        using 2(3-6) None by simp
    qed
  next
    case (Some c)
    then show ?thesis
      using 2(2) [OF Some] 2(3-6) matchingClient_live [OF Some] by simp
  qed
qed simp

lemma replaceState_inv:
  assumes "proxy_inv p" "px_fresh p \<le> fresh"
    "\<forall>c \<in> set new_clients. c \<in> set (live_clients p) \<or> px_fresh p \<le> ec_id c \<and> ec_id c < fresh"
  shows "proxy_inv (replaceState (Some new_clients) (p\<lparr>px_fresh := fresh\<rparr>))"
proof -
  define p' where "p' = replaceState (Some new_clients) (p\<lparr>px_fresh := fresh\<rparr>)"
  have live: "set (live_clients p') = set new_clients \<union> set (state_clients (px_state p))"
    by (simp add: p'_def replaceState_def live_clients_def)
  have idled: "set (px_idled p') = set (px_idled p) \<union>
      (ec_id ` set (state_clients (px_previous p)) - ec_id ` set (live_clients p'))"
    by (auto simp: p'_def replaceState_def live_clients_def set_closeUnusedClients)
  have old: "ec_id c < px_fresh p" "ec_id c \<notin> set (px_idled p)" if "c \<in> set (live_clients p)" for c
    using assms(1) that by (auto simp: proxy_inv_def)
  have small: "i < px_fresh p" if "i \<in> set (px_idled p)" for i
    using assms(1) that by (auto simp: proxy_inv_def)
  have "ec_id c < fresh \<and> ec_id c \<notin> set (px_idled p')" if "c \<in> set (live_clients p')" for c
  proof -
    have "c \<in> set (live_clients p) \<or> px_fresh p \<le> ec_id c \<and> ec_id c < fresh"
      using that assms(3) unfolding live by (auto simp: live_clients_def)
    then have "ec_id c < fresh" "ec_id c \<notin> set (px_idled p)"
      using old [of c] small [of "ec_id c"] assms(2) by auto
    then show ?thesis
      using that unfolding idled by auto
  qed
  moreover have "i < fresh" if "i \<in> set (px_idled p')" for i
  proof -
    have "i < px_fresh p"
      using that small [of i] old(1) unfolding idled by (auto simp: live_clients_def)
    then show ?thesis
      using assms(2) by simp
  qed
  moreover have "px_fresh p' = fresh"
    by (simp add: p'_def replaceState_def)
  ultimately show ?thesis
    unfolding p'_def [symmetric] proxy_inv_def by simp
qed

lemma ReloadConfig_inv:
  assumes "proxy_inv p" "ReloadConfig parse_url config p = (p', err)"
  shows "proxy_inv p' \<and> px_concurrent p' = px_concurrent p"
proof (cases "validate_config config")
  case (Inl e)
  then show ?thesis
    using assms by (simp add: ReloadConfig_def)
next
  case (Inr v)
  obtain mode addresses where v: "v = (mode, addresses)"
    by fastforce
  show ?thesis
  proof (cases "mode = ''encrypted'' \<and> is_ok (EndpointsForAddresses addresses)")
    case False
    moreover have "proxy_inv (replaceState (Some []) p)"
      using replaceState_inv [OF assms(1) order_refl, of "[]"] by simp
    ultimately show ?thesis
      using assms Inr v by (auto simp: ReloadConfig_def replaceState_def split: sum.splits if_splits)
  next
    case True
    then obtain endpoints where es: "EndpointsForAddresses addresses = Inr endpoints"
      by (auto simp: is_ok_iff)
    obtain ok clients created fresh where run: "reload_clients parse_url p endpoints [] [] (px_fresh p) = (ok, clients, created, fresh)"
      by (metis prod.collapse)
    have fresh: "\<forall>c \<in> set clients. c \<in> set (live_clients p) \<or> px_fresh p \<le> ec_id c \<and> ec_id c < fresh"
        "\<forall>c \<in> set created. px_fresh p \<le> ec_id c \<and> ec_id c < fresh" "px_fresh p \<le> fresh"
      using reload_clients_fresh [OF run] by auto
    show ?thesis
    proof (cases ok)
      case True
      then show ?thesis
        using assms(2) replaceState_inv [OF assms(1) fresh(3,1)] Inr v es run \<open>mode = ''encrypted'' \<and> _\<close>
        by (auto simp: ReloadConfig_def replaceState_def)
    next
      case False
      then have "p' = p\<lparr>px_fresh := fresh, px_idled := closeUnusedClients (Some created) [] (px_idled p)\<rparr>"
        using assms(2) Inr v es run \<open>mode = ''encrypted'' \<and> _\<close> by (simp add: ReloadConfig_def)
      then have p': "live_clients p' = live_clients p" "px_fresh p' = fresh" "px_concurrent p' = px_concurrent p"
          "set (px_idled p') = set (px_idled p) \<union> ec_id ` set created"
        by (simp_all add: live_clients_def set_closeUnusedClients)
      have "ec_id c < fresh \<and> ec_id c \<notin> set (px_idled p')" if "c \<in> set (live_clients p)" for c
      proof -
        have "ec_id c < px_fresh p" "ec_id c \<notin> set (px_idled p)"
          using assms(1) that by (auto simp: proxy_inv_def)
        then show ?thesis
          using fresh(2,3) by (fastforce simp: p'(4))
      qed
      moreover have "i < fresh" if "i \<in> set (px_idled p')" for i
        using assms(1) that fresh(2,3) by (fastforce simp: p'(4) proxy_inv_def)
      ultimately show ?thesis
        by (simp add: proxy_inv_def p'(1-3))
    qed
  qed
qed

lemma RestorePrevious_inv: "proxy_inv p \<Longrightarrow> proxy_inv (RestorePrevious p)"
  by (auto simp: proxy_inv_def RestorePrevious_def live_clients_def set_closeUnusedClients)

section \<open>The running gateway\<close>

text \<open>
  One step of the running gateway: a query is admitted or refused, an admitted query is answered and its
  place is given back, a configuration is loaded, the previous one is restored. The second component holds
  the queries whose handlers run.
\<close>

inductive gateway_step ::
  "(string \<Rightarrow> url option) \<Rightarrow> (endpointClient \<Rightarrow> bytes \<Rightarrow> exchange_error + bytes) \<Rightarrow> Proxy \<times> bytes list \<Rightarrow> Proxy \<times> bytes list \<Rightarrow> bool"
  for parse_url answer where
  admit: "acquire ended p = (p', True) \<Longrightarrow> gateway_step parse_url answer (p, running) (p', query # running)"
| refuse: "acquire ended p = (p', False) \<Longrightarrow> gateway_step parse_url answer (p, running) (p', running)"
| finish: "query \<in> set running \<Longrightarrow> responseAdmitted answer cancelled query p = (p', r) \<Longrightarrow>
    gateway_step parse_url answer (p, running) (release p', remove1 query running)"
| reload: "ReloadConfig parse_url config p = (p', err) \<Longrightarrow> gateway_step parse_url answer (p, running) (p', running)"
| restore: "gateway_step parse_url answer (p, running) (RestorePrevious p, running)"

inductive_cases gateway_stepE: "gateway_step parse_url answer (p, running) (p', running')"

abbreviation gateway_reachable ::
  "(string \<Rightarrow> url option) \<Rightarrow> (endpointClient \<Rightarrow> bytes \<Rightarrow> exchange_error + bytes) \<Rightarrow> Proxy \<Rightarrow> bytes list \<Rightarrow> bool" where
  "gateway_reachable parse_url answer p running \<equiv> (gateway_step parse_url answer)\<^sup>*\<^sup>* (New, []) (p, running)"

lemma responseAdmitted_keeps:
  assumes "responseAdmitted answer cancelled query p = (p', r)"
  shows "live_clients p' = live_clients p" "px_fresh p' = px_fresh p" "px_idled p' = px_idled p" "px_concurrent p' = px_concurrent p"
  using assms by (auto simp: responseAdmitted_def exchange_def live_clients_def Let_def split: if_splits)

lemma release_keeps:
  "live_clients (release p) = live_clients p" "px_fresh (release p) = px_fresh p" "px_idled (release p) = px_idled p"
  "px_concurrent (release p) = px_concurrent p - 1"
  by (simp_all add: release_def live_clients_def)

definition gateway_inv :: "Proxy \<times> bytes list \<Rightarrow> bool" where
  "gateway_inv g = (case g of (p, running) \<Rightarrow> proxy_inv p \<and> px_concurrent p = length running \<and> length running \<le> 256)"

lemma gateway_step_inv:
  assumes "gateway_step parse_url answer g g'" "gateway_inv g"
  shows "gateway_inv g'"
  using assms
proof (induction rule: gateway_step.induct)
  case (finish query running cancelled p p' r)
  then show ?case
    using responseAdmitted_keeps [OF finish(2)] length_remove1 [of query running]
    by (auto simp: gateway_inv_def proxy_inv_def release_keeps)
next
  case (reload config p p' err running)
  then show ?case
    using ReloadConfig_inv [of p] by (simp add: gateway_inv_def)
next
  case (restore p running)
  moreover have "px_concurrent (RestorePrevious p) = px_concurrent p"
    by (simp add: RestorePrevious_def)
  ultimately show ?case
    using RestorePrevious_inv by (simp add: gateway_inv_def)
qed (auto simp: gateway_inv_def proxy_inv_def live_clients_def acquire_def split: if_splits)

text \<open>
  C12. In every reachable state of the gateway, at most 256 queries are being handled and exactly the admitted
  ones hold a place; and no client of the current or of the previous configuration has had its connections
  closed: reloading, failing to reload and restoring retire a transport only when neither generation needs it.
\<close>

theorem gateway_reachable_inv:
  assumes "gateway_reachable parse_url answer p running"
  shows "length running \<le> 256 \<and> px_concurrent p = length running \<and>
    ec_id ` (set (state_clients (px_state p)) \<union> set (state_clients (px_previous p))) \<inter> set (px_idled p) = {}"
proof -
  have "gateway_inv (p, running)"
    using assms
  proof (induction "(p, running)" arbitrary: p running rule: rtranclp_induct)
    case base
    then show ?case
      by (simp add: gateway_inv_def proxy_inv_def live_clients_def New_def)
  next
    case (step y)
    then show ?case
      using gateway_step_inv by (metis prod.collapse)
  qed
  then show ?thesis
    by (auto simp: gateway_inv_def proxy_inv_def live_clients_def)
qed

definition loaded :: Proxy where
  "loaded = New\<lparr>px_state := Some [], px_concurrent := 1\<rparr>"

lemma standard_config: "validate_config \<lparr>rc_Transport = ''standard'', rc_UpstreamDNS = ''9.9.9.9'', rc_Generation = ''1''\<rparr> = Inr (''standard'', [''9.9.9.9''])"
proof -
  have "trim_space ''standard'' = ''standard''" "runtimeAddresses ''9.9.9.9'' = [''9.9.9.9'']"
    by code_simp+
  then show ?thesis
    using parse_upstreams by (simp add: validate_config_def)
qed

lemma loaded_reachable: "gateway_reachable parse_url answer loaded [probeQuery 7]"
proof -
  have "gateway_step parse_url answer (New, []) (New\<lparr>px_state := Some []\<rparr>, [])"
    by (rule reload [where config = "\<lparr>rc_Transport = ''standard'', rc_UpstreamDNS = ''9.9.9.9'', rc_Generation = ''1''\<rparr>" and err = None])
      (simp add: ReloadConfig_def standard_config replaceState_def New_def closeUnusedClients_def)
  moreover have "gateway_step parse_url answer (New\<lparr>px_state := Some []\<rparr>, []) (loaded, [probeQuery 7])"
    by (rule admit [where ended = False]) (simp add: acquire_def New_def loaded_def)
  ultimately show ?thesis
    by (meson converse_rtranclp_into_rtranclp r_into_rtranclp)
qed

theorem gateway_reachable_inv_witness:
  "length [probeQuery 7] \<le> 256 \<and> px_concurrent loaded = length [probeQuery 7] \<and>
    ec_id ` (set (state_clients (px_state loaded)) \<union> set (state_clients (px_previous loaded))) \<inter> set (px_idled loaded) = {}"
  using gateway_reachable_inv [OF loaded_reachable [of "\<lambda>_. None" "\<lambda>_ _. Inl Cancelled"]] .

section \<open>The gateway and the installation\<close>

lemma Reload_failed_state: "Reload parse_url s p = (p', Some e) \<Longrightarrow> px_state p' = px_state p"
  by (auto simp: Reload_def ReloadConfig_def split: sum.splits prod.splits if_splits)

lemma Reload_previous: "Reload parse_url s p = (p', None) \<Longrightarrow> px_previous p' = px_state p"
  by (auto simp: Reload_def ReloadConfig_def replaceState_def split: sum.splits prod.splits if_splits)

interpretation gateway: transport_hooks "gateway_before parse_url s" gateway_restore "gateway_commit encode now k path s"
  "\<lambda>w. px_state (tw_proxy w)"
proof unfold_locales
  fix w w'
  show "px_state (tw_proxy w') = px_state (tw_proxy w)" if "gateway_before parse_url s w = (w', False)"
    using that Reload_failed_state by (fastforce simp: gateway_before_def split: prod.splits)
  assume "gateway_before parse_url s w = (w', True)"
  then have "px_previous (tw_proxy w') = px_state (tw_proxy w)"
    using Reload_previous by (fastforce simp: gateway_before_def split: prod.splits)
  then show "px_state (tw_proxy (fst (gateway_restore w'))) = px_state (tw_proxy w)"
      "px_state (tw_proxy (fst (gateway_restore (fst (gateway_commit encode now k path s w'))))) = px_state (tw_proxy w)"
    by (simp_all add: gateway_restore_def gateway_commit_def RestorePrevious_def split_def Let_def)
qed

text \<open>
  The gateway and CoreDNS change together: if \<open>Apply\<close> fails at any point, after the hooks of the API
  process have loaded the new providers into the gateway or even tried to publish them, the gateway is back at
  the providers it had before the call.
\<close>

theorem failed_Apply_restores_gateway:
  assumes "Apply h at later d e (gateway_hooks parse_url encode now k path after s) s m = (m', Some err)"
  shows "px_state (tw_proxy (world m')) = px_state (tw_proxy (world m))"
  using gateway.failure_restores_view [OF assms [unfolded gateway_hooks_def]] .

text \<open>What a successful call has done with the hooks, and what CoreDNS has confirmed.\<close>

lemma applyFilesLocked_succeeds:
  assumes "applyFilesLocked k e (Some before) (Some commit) files m = (m', p, None)"
  obtains w1 where "before (world m) = (w1, True)" "commit w1 = (world m', True)"
    "\<And>x. live e = LiveHash x \<Longrightarrow> \<exists>y. new_hash_seen e y"
  using assms
proof (cases rule: applyFilesLocked_cases)
  case (installs backups new)
  from installs(5) show ?thesis
  proof (cases rule: install_files_cases)
    case (replaced m1 d old must_wait)
    then have "before (world m) = (world m1, True)" "commit (world m1) = (world m', True)"
      by (auto simp: run_hook_def finish_apply_def handleReloadFailure_def Let_def split: prod.splits if_splits)
    then show ?thesis
      using that finish_apply_accepted(4) [OF replaced(3)] replaced(4) by blast
  qed (simp_all add: fail_with_def)
qed (simp add: fail_with_def)

lemma Apply_succeeds:
  assumes "Apply h at later k e hk s m = (m', None)" "BeforeApply hk = Some before" "CommitApply hk = Some commit"
  obtains w1 w2 where "before (world m) = (w1, True)" "commit w1 = (w2, True)"
    "world m' = (case AfterApply hk of None \<Rightarrow> w2 | Some f \<Rightarrow> f w2)" "\<And>x. live e = LiveHash x \<Longrightarrow> \<exists>y. new_hash_seen e y"
proof -
  obtain files m1 p where r: "applyFilesLocked k e (Some before) (Some commit) files (m\<lparr>reloadTotal := reloadTotal m + 1\<rparr>) = (m1, p, None)"
      "m' = rememberTemporalState h s later (run_after hk m1)"
    using assms by (auto simp: Apply_def Let_def split: sum.splits if_splits option.splits prod.splits) (metis prod.collapse)
  have "world m' = (case AfterApply hk of None \<Rightarrow> world m1 | Some f \<Rightarrow> f (world m1))"
    by (simp add: r(2) rememberTemporalState_def run_after_def split: option.split)
  then show ?thesis
    using r(1) by (elim applyFilesLocked_succeeds) (rule that, simp_all)
qed

definition fresh_manager :: "transport_world manager" where
  "fresh_manager = \<lparr>ConfigDir = [], bootstrapped = False, world = \<lparr>tw_proxy = New, tw_file = None\<rparr>,
     reloadTotal = 0, reloadFailedTotal = 0, temporalSignature = []\<rparr>"

lemma silent_engine_fails:
  assumes "BeforeApply hk = Some before" "CommitApply hk = Some commit"
  shows "\<exists>m' err. Apply h at later k (tiny_engine False) hk s m = (m', Some err)"
proof -
  have "snd (Apply h at later k (tiny_engine False) hk s m) \<noteq> None"
  proof
    assume "snd (Apply h at later k (tiny_engine False) hk s m) = None"
    then obtain m' where "Apply h at later k (tiny_engine False) hk s m = (m', None)"
      by (metis prod.collapse)
    then show False
      using assms by (rule Apply_succeeds) (simp add: tiny_engine_def)
  qed
  then show ?thesis
    by (metis not_None_eq prod.collapse)
qed

definition good_publication :: publication where
  "good_publication = \<lparr>temporary_ok = True, rename_ok = True, unlink_ok = True, retry_ok = True\<rparr>"

theorem failed_Apply_restores_gateway_witness:
  "\<exists>m' err. Apply plain_host (instants_at 0) 1 good_disk (tiny_engine False)
      (gateway_hooks (\<lambda>_. None) rc_UpstreamDNS 7 good_publication ''/config/faro-doh.json'' None demo_store) demo_store fresh_manager = (m', Some err) \<and>
    px_state (tw_proxy (world m')) = px_state (tw_proxy (world fresh_manager))"
  using silent_engine_fails failed_Apply_restores_gateway unfolding gateway_hooks_def
  by (metis hooks.select_convs(1,3))

section \<open>From the database to the standalone gateway\<close>

definition provider_key :: "Endpoint \<Rightarrow> string \<times> string list" where
  "provider_key e = (ep_URL e, ep_BootstrapIPs e)"

definition providers :: "Proxy \<Rightarrow> (string \<times> string list) list" where
  "providers p = map (\<lambda>c. provider_key (ec_endpoint c)) (state_clients (px_state p))"

definition configured_providers :: "Store \<Rightarrow> (string \<times> string list) list" where
  "configured_providers s = (case configuredTransport s of (mode, addresses) \<Rightarrow>
     if mode \<noteq> ''encrypted'' then []
     else (case EndpointsForAddresses addresses of Inl _ \<Rightarrow> [] | Inr es \<Rightarrow> map provider_key es))"

lemma configured_addresses:
  assumes "configuredTransport s = (mode, addresses)"
  shows "runtimeAddresses (join '','' addresses) = addresses" "trim_space mode = mode" "mode \<noteq> []"
proof -
  define parts where "parts = split_on (CHR '','') (setting_value (settings s) ''upstream_dns'')"
  have addresses: "addresses = filter (\<lambda>v. v \<noteq> []) (map trim_space parts)"
    using assms by (auto simp: configuredTransport_def Let_def parts_def)
  have clean: "trim_space a = a" "a \<noteq> []" "CHR '','' \<notin> set a" if "a \<in> set addresses" for a
    using that set_trim_space split_on_parts unfolding addresses parts_def by fastforce+
  show "runtimeAddresses (join '','' addresses) = addresses"
  proof (cases "addresses = []")
    case True
    have "trim_space [] = []"
      by code_simp
    then show ?thesis
      by (simp add: True runtimeAddresses_def)
  next
    case False
    then have "split_on (CHR '','') (join '','' addresses) = addresses"
      using clean(3) by (intro split_on_join) auto
    moreover have "map trim_space addresses = addresses"
      using clean(1) by (simp add: map_idI)
    ultimately show ?thesis
      using clean(2) by (simp add: runtimeAddresses_def filter_id_conv)
  qed
  have "trim_space ''standard'' = ''standard''"
    by code_simp
  then show "trim_space mode = mode" "mode \<noteq> []"
    using assms by (auto simp: configuredTransport_def Let_def split: if_splits)
qed

lemma validate_config_cases:
  assumes "validate_config config = Inr (mode, addresses)" "trim_space (rc_Transport config) = t" "t \<noteq> []"
  shows "mode = t" "addresses = runtimeAddresses (rc_UpstreamDNS config)"
    "t = ''encrypted'' \<Longrightarrow> is_ok (EndpointsForAddresses addresses)"
  using assms by (auto simp: validate_config_def Let_def split: if_splits option.splits sum.splits)

lemma validate_config_generation [simp]: "validate_config (c\<lparr>rc_Generation := g\<rparr>) = validate_config c"
  by (simp add: validate_config_def)

lemma reload_clients_keys:
  assumes "reload_clients parse_url p es clients created fresh = (ok, clients', created', fresh')" "ok"
  shows "map (\<lambda>c. provider_key (ec_endpoint c)) clients' = map (\<lambda>c. provider_key (ec_endpoint c)) clients @ map provider_key es"
  using assms
proof (induction parse_url p es clients created fresh rule: reload_clients.induct)
  case (2 parse_url p e es clients created fresh)
  show ?case
  proof (cases "matchingClient e [px_state p, px_previous p]")
    case None
    then show ?thesis
      using 2(1) [OF None _ refl] 2(3,4) by (auto simp: Let_def split: if_splits)
  next
    case (Some c)
    then have "provider_key (ec_endpoint c) = provider_key e"
      using find_Some_in by (fastforce simp: matchingClient_def provider_key_def)
    then show ?thesis
      using 2(2) [OF Some] 2(3,4) Some by simp
  qed
qed simp

lemma ReloadConfig_providers:
  assumes "ReloadConfig parse_url config p = (p', None)" "configuredTransport s = (mode, addresses)"
    "rc_Transport config = mode" "rc_UpstreamDNS config = join '','' addresses"
  shows "providers p' = configured_providers s"
proof -
  obtain v where v: "validate_config config = Inr v"
    using assms(1) by (cases "validate_config config") (auto simp: ReloadConfig_def)
  obtain mode' addresses' where v': "v = (mode', addresses')"
    by fastforce
  then have "v = (mode, addresses)"
    using validate_config_cases [OF v [unfolded v'] refl] configured_addresses [OF assms(2)] assms(3,4) by simp
  then show ?thesis
    using assms(1) v reload_clients_keys [of parse_url p]
    by (auto simp: ReloadConfig_def configured_providers_def assms(2) providers_def replaceState_def split: if_splits sum.splits prod.splits)
qed

definition committed_config :: "time \<Rightarrow> Store \<Rightarrow> RuntimeConfig" where
  "committed_config now s = (RuntimeConfigFromStore s)\<lparr>rc_Generation := itoa now\<rparr>"

lemma trim_itoa: "trim_space (itoa n) = itoa n" "itoa n \<noteq> []"
proof -
  have "c \<notin> space_bytes" if "is_digit c \<or> c = CHR ''-''" for c
    using that by (auto simp: space_bytes_def is_digit_def)
  then have "set (itoa n) \<inter> space_bytes = {}"
    using nat_to_string_digits by (auto simp: itoa_def list_all_iff)
  then show "trim_space (itoa n) = itoa n"
    by (rule trim_space_bytes)
  show "itoa n \<noteq> []"
    by (simp add: itoa_def)
qed

lemma gateway_commit_publishes:
  assumes "gateway_commit encode now k path s w = (w', True)"
  shows "tw_file w' = Some (encode (committed_config now s))" "tw_proxy w' = tw_proxy w" "is_ok (validate_config (committed_config now s))"
  using assms
  by (auto simp: gateway_commit_def WriteRuntimeConfigFromStore_def WriteRuntimeConfig_def publish_def committed_config_def trim_itoa
      split: prod.splits if_splits sum.splits)

lemma EndpointForAddress_catalog: "EndpointForAddress a = Some e \<Longrightarrow> e \<in> set catalog"
  by (auto simp: EndpointForAddress_def endpointByAddress_rows catalog_rows_def dest!: map_of_SomeD split: option.splits)

lemma EndpointsForAddresses_catalog: "EndpointsForAddresses addresses = Inr es \<Longrightarrow> set es \<subseteq> set catalog"
  using collect_endpoints_Inr [of EndpointForAddress "[]" "[]" addresses es] EndpointForAddress_catalog
  by (fastforce simp: EndpointsForAddresses_def ok_iff split: if_splits)

lemma reload_clients_ok:
  "\<forall>e \<in> set es. validateEndpoint parse_url e \<Longrightarrow> fst (reload_clients parse_url p es clients created fresh)"
  by (induction parse_url p es clients created fresh rule: reload_clients.induct) (auto simp: Let_def split: option.split)

lemma ReloadConfig_accepts:
  assumes "validate_config config = Inr v" "\<forall>e \<in> set catalog. validateEndpoint parse_url e"
  shows "snd (ReloadConfig parse_url config p) = None"
proof -
  obtain mode addresses where v: "v = (mode, addresses)"
    by fastforce
  have "mode = ''encrypted'' \<Longrightarrow> is_ok (EndpointsForAddresses addresses)"
    using assms(1) v by (auto simp: validate_config_def Let_def split: if_splits option.splits sum.splits)
  moreover have "fst (reload_clients parse_url p es [] [] (px_fresh p))" if "EndpointsForAddresses addresses = Inr es" for es
    using reload_clients_ok EndpointsForAddresses_catalog [OF that] assms(2) by blast
  ultimately show ?thesis
    using assms(1) v by (auto simp: ReloadConfig_def is_ok_iff split: sum.splits prod.splits)
qed

text \<open>
  C11. An accepted configuration reaches the standalone gateway. After a successful \<open>Apply\<close> with the hooks of the
  API process, the gateway of that process serves the providers configured in the database, and the next tick of
  the standalone gateway makes it serve the same ones and remember the generation, whatever it served before. The
  hypotheses are that the JSON codec reads back what it wrote, that the URLs of the catalogue parse as they are
  written, and that the generation is a new one.
\<close>

theorem committed_reaches_gateway:
  assumes "Apply h at later d e (gateway_hooks parse_url encode now k path after s) s m = (m', None)"
    "\<forall>f. after = Some f \<longrightarrow> (\<forall>w. f w = w)" "decode (encode (committed_config now s)) = Some (committed_config now s)"
    "\<forall>e \<in> set catalog. validateEndpoint parse_url e" "generation \<noteq> itoa now"
  shows "providers (tw_proxy (world m')) = configured_providers s \<and>
    (\<exists>p'. watch_tick parse_url decode (tw_file (world m')) (p, generation) = (p', itoa now) \<and> providers p' = configured_providers s)"
proof -
  obtain mode addresses where cfg: "configuredTransport s = (mode, addresses)"
    by fastforce
  obtain w1 where w: "gateway_before parse_url s (world m) = (w1, True)" "gateway_commit encode now k path s w1 = (world m', True)"
    using assms(1)
  proof (rule Apply_succeeds)
    fix w1 w2
    assume "gateway_before parse_url s (world m) = (w1, True)" "gateway_commit encode now k path s w1 = (w2, True)"
      "world m' = (case AfterApply (gateway_hooks parse_url encode now k path after s) of None \<Rightarrow> w2 | Some f \<Rightarrow> f w2)"
    then show thesis
      using that assms(2) by (auto simp: gateway_hooks_def split: option.splits)
  qed (simp_all add: gateway_hooks_def)
  note out = gateway_commit_publishes [OF w(2)]
  have "ReloadConfig parse_url (RuntimeConfigFromStore s) (tw_proxy (world m)) = (tw_proxy w1, None)"
    using w(1) by (auto simp: gateway_before_def Reload_def split: prod.splits)
  then have "providers (tw_proxy w1) = configured_providers s"
    using cfg by (rule ReloadConfig_providers) (simp_all add: RuntimeConfigFromStore_def cfg)
  moreover
  define c where "c = committed_config now s"
  obtain v where v: "validate_config c = Inr v"
    using out(3) by (auto simp: is_ok_iff c_def)
  then have "ReadRuntimeConfig decode (tw_file (world m')) = Inr c"
    using assms(3) by (simp add: ReadRuntimeConfig_def out(1) c_def [symmetric]) (simp add: c_def committed_config_def trim_itoa)
  moreover obtain p' where p': "ReloadConfig parse_url c p = (p', None)"
    using ReloadConfig_accepts [OF v assms(4), of p] by (metis prod.collapse)
  moreover have "providers p' = configured_providers s"
    using p' cfg by (rule ReloadConfig_providers) (simp_all add: c_def committed_config_def RuntimeConfigFromStore_def cfg)
  moreover have "rc_Generation c = itoa now"
    by (simp add: c_def committed_config_def)
  ultimately show ?thesis
    using assms(5) out(2) by (simp add: watch_tick_def)
qed

definition plain_url :: "string \<Rightarrow> url option" where
  "plain_url u = map_option (\<lambda>rest. \<lparr>url_Scheme = ''https'', url_Hostname = takeWhile (\<lambda>c. c \<noteq> CHR ''/'') rest, url_Port = [], url_User = False\<rparr>)
     (cut_prefix ''https://'' u)"

definition line_encode :: "RuntimeConfig \<Rightarrow> string" where
  "line_encode c = join [newline] [rc_Transport c, rc_UpstreamDNS c, rc_Generation c]"

definition line_decode :: "string \<Rightarrow> RuntimeConfig option" where
  "line_decode text = (case split_on newline text of
     [t, u, g] \<Rightarrow> Some \<lparr>rc_Transport = t, rc_UpstreamDNS = u, rc_Generation = g\<rparr> | _ \<Rightarrow> None)"

lemma catalog_urls: "\<forall>e \<in> set catalog. validateEndpoint plain_url e"
proof
  fix e
  assume e: "e \<in> set catalog"
  have "list_all (\<lambda>e. case plain_url (ep_URL e) of None \<Rightarrow> False
      | Some u \<Rightarrow> \<not> (url_Scheme u \<noteq> ''https'' \<or> url_Hostname u = [] \<or> url_Port u \<noteq> [] \<or> url_User u)) catalog"
      "list_all (\<lambda>e. length (ep_BootstrapIPs e) \<noteq> 0) catalog"
    by code_simp+
  moreover have "parse_ip a \<noteq> None" if "a \<in> set (ep_BootstrapIPs e)" for a
    using that e catalog_canonical by (auto simp: list_all_iff catalog_rows_def canonical_address_def)
  ultimately show "validateEndpoint plain_url e"
    using e by (auto simp: validateEndpoint_def list_all_iff)
qed

lemma demo_config: "RuntimeConfigFromStore demo_store = \<lparr>rc_Transport = ''standard'', rc_UpstreamDNS = ''1.1.1.1'', rc_Generation = []\<rparr>"
  by code_simp

lemma demo_config_valid: "validate_config (RuntimeConfigFromStore demo_store) = Inr (''standard'', [''1.1.1.1''])"
proof -
  have "trim_space ''standard'' = ''standard''" "runtimeAddresses ''1.1.1.1'' = [''1.1.1.1'']"
    by code_simp+
  then show ?thesis
    using parse_upstreams by (simp add: demo_config validate_config_def)
qed

lemma demo_hooks:
  "gateway_before plain_url demo_store (world fresh_manager) =
     (\<lparr>tw_proxy = New\<lparr>px_state := Some []\<rparr>, tw_file = None\<rparr>, True)"
  "snd (gateway_commit line_encode 7 good_publication ''/config/faro-doh.json'' demo_store w)"
proof -
  have "trim_space ''/config/faro-doh.json'' \<noteq> []"
    by code_simp
  then show "snd (gateway_commit line_encode 7 good_publication ''/config/faro-doh.json'' demo_store w)"
    by (simp add: gateway_commit_def WriteRuntimeConfigFromStore_def WriteRuntimeConfig_def trim_itoa demo_config_valid
        publish_def good_publication_def split_def)
qed (simp add: gateway_before_def Reload_def ReloadConfig_def demo_config_valid fresh_manager_def replaceState_def New_def closeUnusedClients_def)

theorem committed_reaches_gateway_witness:
  "\<exists>m' p'. Apply plain_host (instants_at 0) 1 good_disk (tiny_engine True)
      (gateway_hooks plain_url line_encode 7 good_publication ''/config/faro-doh.json'' None demo_store) demo_store fresh_manager = (m', None) \<and>
    watch_tick plain_url line_decode (tw_file (world m')) (two_clients, ''1'') = (p', ''7'') \<and> providers p' = configured_providers demo_store"
proof -
  let ?hk = "gateway_hooks plain_url line_encode 7 good_publication ''/config/faro-doh.json'' None demo_store"
  obtain r files where r: "render plain_host (instants_at 0) demo_store = Inr r" "runtimeFilesFromRenderedState r = Inr files" "complete_files files"
    using demo_render render_files [OF _ demo_safe(2,1)] by metis
  obtain m1 p1 where "applyFilesLocked good_disk (tiny_engine True) (BeforeApply ?hk) (CommitApply ?hk) files
      (fresh_manager\<lparr>reloadTotal := reloadTotal fresh_manager + 1\<rparr>) = (m1, p1, None)"
    using applyFilesLocked_healthy [OF healthy_examples(1,2) _ r(3), of "fresh_manager\<lparr>reloadTotal := reloadTotal fresh_manager + 1\<rparr>"
        "BeforeApply ?hk" _ "CommitApply ?hk"] demo_hooks
    by (auto simp: gateway_hooks_def hook_result_def no_directory_def fresh_manager_def)
  then obtain m' where m': "Apply plain_host (instants_at 0) 1 good_disk (tiny_engine True) ?hk demo_store fresh_manager = (m', None)"
    using r by (simp add: Apply_def Let_def good_disk_def)
  have seven: "itoa 7 = ''7''"
    by code_simp
  have "line_decode (line_encode (committed_config 7 demo_store)) = Some (committed_config 7 demo_store)"
    by (simp add: line_encode_def line_decode_def committed_config_def demo_config seven)
  with committed_reaches_gateway [OF m' _ _ catalog_urls, of line_decode "''1''" two_clients] m' seven show ?thesis
    by auto
qed

text \<open>
  A database without upstream resolvers cannot be applied: rendering falls back to two public resolvers
  (\<open>renderStateForSettings\<close>), but the hooks refuse a configuration without addresses, so \<open>Apply\<close> fails for every
  state of the host and the fallback is never installed.
\<close>

theorem Apply_needs_upstream:
  assumes "snd (configuredTransport s) = []"
  shows "\<exists>m' err. Apply h at later d e (gateway_hooks parse_url encode now k path after s) s m = (m', Some err)"
proof -
  obtain mode where cfg: "configuredTransport s = (mode, [])"
    using assms by (metis prod.collapse)
  have refused: "\<not> snd (gateway_before parse_url s w)" for w
    using configured_addresses(1) [OF cfg]
    by (auto simp: gateway_before_def Reload_def ReloadConfig_def RuntimeConfigFromStore_def cfg validate_config_def Let_def split_def
        split: sum.splits)
  have "snd (Apply h at later d e (gateway_hooks parse_url encode now k path after s) s m) \<noteq> None"
  proof
    assume "snd (Apply h at later d e (gateway_hooks parse_url encode now k path after s) s m) = None"
    then obtain m' where "Apply h at later d e (gateway_hooks parse_url encode now k path after s) s m = (m', None)"
      by (metis prod.collapse)
    then show False
    proof (rule Apply_succeeds)
      show False if "gateway_before parse_url s (world m) = (w1, True)" for w1
        using refused [of "world m"] that by simp
    qed (simp_all add: gateway_hooks_def)
  qed
  then show ?thesis
    by (metis not_None_eq prod.collapse)
qed

theorem Apply_needs_upstream_witness:
  "is_ok (renderStateForSettings []) \<and>
   (\<exists>m' err. Apply plain_host (instants_at 0) 1 good_disk (tiny_engine True)
      (gateway_hooks plain_url line_encode 7 good_publication ''/config/faro-doh.json'' None (demo_store\<lparr>settings := []\<rparr>))
      (demo_store\<lparr>settings := []\<rparr>) fresh_manager = (m', Some err))"
proof (intro conjI Apply_needs_upstream)
  show "snd (configuredTransport (demo_store\<lparr>settings := []\<rparr>)) = []"
    by code_simp
  have eval: "splitCSV [] = []" "trim_space [] = []" "atoi [] = None"
    by code_simp+
  have "list_all (\<lambda>c. parse_cidr c \<noteq> None) default_cidrs"
    by (simp add: default_cidrs_def parse_cidr_def cut_def cidr_bits_def net_eval)
  then have "List.find (\<lambda>c. parse_cidr c = None) default_cidrs = None"
    by (simp add: find_None_iff list_all_iff)
  then show "is_ok (renderStateForSettings [])"
    using parse_upstreams by (simp add: renderStateForSettings_def setting_value_def eval Let_def)
qed

definition three_clients :: Proxy where
  "three_clients = New\<lparr>px_state := Some [lone_client 0, lone_client 1, lone_client 2], px_next := 2 ^ 63, px_fresh := 3\<rparr>"

text \<open>
  The counter of the rotation wraps around in its signed reading: after \<open>2 ^ 63\<close> queries, with three
  providers that all answer, the computed index is negative and the exchange panics instead of answering.
\<close>

theorem exchange_counter_wraps:
  "snd (exchange (\<lambda>_ _. Inr [0, 7, 0x80, 0]) (\<lambda>_. False) (probeQuery 7) three_clients) = Inl IndexPanic"
proof -
  have "sint (2 ^ 63 + 1 - 1 :: 64 word) = - (2 ^ 63)"
    by simp
  then show ?thesis
    by (simp add: exchange_def three_clients_def New_def signed_modulo_int_def numeral_3_eq_3)
qed

end
