(* ===== verification/Blocklist_Refresh.thy ===== *)
theory Blocklist_Refresh
  imports CoreDNS_Apply CoreDNS_Explain
begin

text \<open>
  Blocklists (\<^verbatim>\<open>internal/blocklists/blocklists.go\<close>): parsing a downloaded list, replacing the entries of a list in a
  transaction, applying the new entries to CoreDNS and restoring the old ones when that fails, and the pass that
  refreshes every list that is due. The files and the web are parameters; a transaction that fails leaves the
  database as it was, and whether the two transactions of a refresh commit is part of the environment.
\<close>

section \<open>Parsing\<close>

definition any_of :: "string \<Rightarrow> string \<Rightarrow> bool" where
  "any_of chars s = list_ex (\<lambda>c. c \<in> set chars) s"

definition rule_candidate :: "string list \<Rightarrow> string option" where
  "rule_candidate words =
     (let candidate = hd words in
      if length words > 1 \<and> candidate \<in> {''0.0.0.0'', ''127.0.0.1'', ''::1''} then Some (words ! 1)
      else if prefix ''@@'' candidate then None
      else if prefix ''||'' candidate then
        (let rest = drop 2 candidate in
         case index_of ''^'' rest of
           None \<Rightarrow> None
         | Some n \<Rightarrow> if n = 0 \<or> sublist ''/'' (take n rest) then None else Some (take n rest))
      else if any_of ''|*$=~[](){}'' candidate then None
      else Some candidate)"

definition parseBlocklistLine :: "string \<Rightarrow> string option" where
  "parseBlocklistLine raw =
     (let line = trim_space raw in
      if line = [] \<or> prefix ''#'' line \<or> prefix ''!'' line then None
      else if sublist ''##'' line \<or> sublist ''#@#'' line \<or> sublist ''#$#'' line \<or> sublist ''#?#'' line then None
      else let line = (case index_of ''#'' line of None \<Rightarrow> line | Some n \<Rightarrow> trim_space (take n line)) in
        if go_fields line = [] then None
        else (case rule_candidate (go_fields line) of
                None \<Rightarrow> None
              | Some candidate \<Rightarrow>
                  (case NormalizeDomain (trim_prefix ''.'' candidate) of Inl _ \<Rightarrow> None | Inr domain \<Rightarrow> Some domain)))"

datatype refresh_error =
    NoSuchList
  | OpenFailed
  | BadStatus int
  | LineTooLong
  | ReadFailed
  | DownloadTooLarge
  | NoValidDomains
  | TransactionFailed
  | ApplyFailed
  | ApplyAndRestoreFailed

definition maxLineBytes :: nat where
  "maxLineBytes = 1024 * 1024"

text \<open>The text that can be read, and whether reading it ends without an error.\<close>

definition Parse :: "string \<times> bool \<Rightarrow> refresh_error + string list" where
  "Parse reader = (case reader of (text, complete) \<Rightarrow>
     (case scan_lines maxLineBytes text of
        None \<Rightarrow> Inl LineTooLong
      | Some ls \<Rightarrow> if \<not> complete then Inl ReadFailed else Inr (sort_uniq (List.map_filter parseBlocklistLine ls))))"

section \<open>Sources\<close>

record sources =
  src_file :: "string \<Rightarrow> (string \<times> bool) option"
  src_get :: "string \<Rightarrow> (int \<times> string \<times> bool) option"

definition openSource :: "sources \<Rightarrow> string \<Rightarrow> refresh_error + string \<times> bool" where
  "openSource src source = (case cut_prefix ''file://'' source of
     Some path \<Rightarrow> of_option OpenFailed (src_file src path)
   | None \<Rightarrow>
       (case src_get src source of
          None \<Rightarrow> Inl OpenFailed
        | Some (status, body) \<Rightarrow> if status < 200 \<or> status > 299 then Inl (BadStatus status) else Inr body))"

definition blocklistDNSUpstreams :: "string list \<Rightarrow> Store \<Rightarrow> string list" where
  "blocklistDNSUpstreams fixed s =
     (if fixed \<noteq> [] then fixed
      else
        let faro = parse_ip (trim_space (setting_value (settings s) ''faro_lan_ip''));
            upstreams = map (\<lambda>a. join_host_port a ''53'')
              (filter (\<lambda>a. parse_ip a \<noteq> None \<and> \<not> (faro \<noteq> None \<and> parse_ip a = faro))
                (map trim_space (split_on (CHR '','') (setting_value (settings s) ''upstream_dns'')))) in
        if upstreams = [] then [''1.1.1.1:53'', ''9.9.9.9:53''] else upstreams)"

section \<open>Refreshing one list\<close>

record refresh_env =
  re_sources :: sources
  re_now :: string
  re_commit_ok :: bool
  re_restore_ok :: bool

definition maxDownloadBytes :: int where
  "maxDownloadBytes = 64 * 2 ^ 20"

definition delete_entries :: "int \<Rightarrow> Store \<Rightarrow> Store" where
  "delete_entries i s = s\<lparr>blocklist_entries := filter (\<lambda>e. be_blocklist_id e \<noteq> i) (blocklist_entries s)\<rparr>"

definition insert_entry :: "string \<Rightarrow> int \<Rightarrow> Store \<Rightarrow> string \<Rightarrow> Store" where
  "insert_entry now i s domain =
     (if list_ex (\<lambda>e. be_blocklist_id e = i \<and> be_domain e = domain) (blocklist_entries s) then s
      else (bump ''blocklist_entries'' s)\<lparr>blocklist_entries := blocklist_entries s @
        [\<lparr>be_id = next_id ''blocklist_entries'' s, be_blocklist_id = i, be_domain = domain, be_created_at = now\<rparr>]\<rparr>)"

definition update_list :: "int \<Rightarrow> string option \<Rightarrow> string \<Rightarrow> Store \<Rightarrow> Store" where
  "update_list i refreshed updated s =
     s\<lparr>blocklists := map (\<lambda>b. if bl_id b = i then b\<lparr>bl_last_refreshed_at := refreshed, bl_updated_at := updated\<rparr> else b) (blocklists s)\<rparr>"

definition replace_entries :: "string \<Rightarrow> int \<Rightarrow> string list \<Rightarrow> Store \<Rightarrow> Store" where
  "replace_entries now i domains s = foldl (insert_entry now i) (delete_entries i s) domains"

definition find_list :: "int \<Rightarrow> Store \<Rightarrow> blocklist option" where
  "find_list i s = List.find (\<lambda>b. bl_id b = i) (blocklists s)"

definition download :: "refresh_env \<Rightarrow> int \<Rightarrow> Store \<Rightarrow> refresh_error + string list" where
  "download env i s =
     rbind (of_option NoSuchList (find_list i s)) (\<lambda>b.
     rbind (openSource (re_sources env) (bl_url b)) (\<lambda>(text, complete).
     let limited = take (nat (maxDownloadBytes + 1)) text; cut_off = int (length text) > maxDownloadBytes in
     rbind (Parse (limited, complete \<or> cut_off)) (\<lambda>domains.
     rbind (guard_err (\<not> cut_off) DownloadTooLarge) (\<lambda>_.
     rbind (guard_err (domains \<noteq> []) NoValidDomains) (\<lambda>_. Inr domains)))))"

definition Refresh :: "refresh_env \<Rightarrow> int \<Rightarrow> Store \<Rightarrow> Store \<times> (refresh_error + nat)" where
  "Refresh env i s = (case download env i s of
     Inl e \<Rightarrow> (s, Inl e)
   | Inr domains \<Rightarrow>
       if re_commit_ok env
       then (update_list i (Some (re_now env)) (re_now env) (replace_entries (re_now env) i domains s), Inr (length domains))
       else (s, Inl TransactionFailed))"

record listSnapshot =
  ls_domains :: "string list"
  ls_lastRefreshedAt :: "string option"
  ls_updatedAt :: string

definition list_domains :: "int \<Rightarrow> Store \<Rightarrow> string list" where
  "list_domains i s = sort (map be_domain (filter (\<lambda>e. be_blocklist_id e = i) (blocklist_entries s)))"

definition snapshot :: "int \<Rightarrow> Store \<Rightarrow> listSnapshot option" where
  "snapshot i s = map_option (\<lambda>b. \<lparr>ls_domains = list_domains i s, ls_lastRefreshedAt = bl_last_refreshed_at b, ls_updatedAt = bl_updated_at b\<rparr>)
     (find_list i s)"

definition restore_list :: "refresh_env \<Rightarrow> int \<Rightarrow> listSnapshot \<Rightarrow> Store \<Rightarrow> Store \<times> bool" where
  "restore_list env i old s =
     (if re_restore_ok env
      then (update_list i (ls_lastRefreshedAt old) (ls_updatedAt old) (replace_entries (re_now env) i (ls_domains old) s), True)
      else (s, False))"

text \<open>\<open>apply\<close> acts on the world outside the database, given its content; \<^const>\<open>None\<close> is the missing function.\<close>

definition RefreshAndApply ::
  "refresh_env \<Rightarrow> (Store \<Rightarrow> 'w \<Rightarrow> 'w \<times> bool) option \<Rightarrow> int \<Rightarrow> Store \<times> 'w \<Rightarrow> (Store \<times> 'w) \<times> (refresh_error + nat)" where
  "RefreshAndApply env apply_fn i st = (case st of (s, w) \<Rightarrow>
     (case snapshot i s of
        None \<Rightarrow> ((s, w), Inl NoSuchList)
      | Some old \<Rightarrow>
          (case Refresh env i s of
             (s1, Inl e) \<Rightarrow> ((s1, w), Inl e)
           | (s1, Inr count) \<Rightarrow>
               (case apply_fn of
                  None \<Rightarrow> ((s1, w), Inr count)
                | Some f \<Rightarrow>
                    (case f s1 w of
                       (w1, True) \<Rightarrow> ((s1, w1), Inr count)
                     | (w1, False) \<Rightarrow>
                         (case restore_list env i old s1 of
                            (s2, False) \<Rightarrow> ((s2, w1), Inl ApplyAndRestoreFailed)
                          | (s2, True) \<Rightarrow> ((s2, fst (f s2 w1)), Inl ApplyFailed)))))))"

section \<open>Refreshing what is due\<close>

text \<open>The interval is a duration in nanoseconds; \<^verbatim>\<open>datetime(NULL)\<close> is not smaller than anything.\<close>

definition defaultRefreshAge :: int where
  "defaultRefreshAge = 24 * hour"

definition due_lists :: "host \<Rightarrow> int \<Rightarrow> time \<Rightarrow> Store \<Rightarrow> int list" where
  "due_lists h refresh_age now s =
     (let age = (if refresh_age \<le> 0 then defaultRefreshAge else refresh_age);
          cutoff = format_rfc3339 (now - age) in
      sort (map bl_id (filter (\<lambda>b. bl_enabled b \<and>
        (case bl_last_refreshed_at b of
           None \<Rightarrow> True
         | Some t \<Rightarrow> (case (sql_datetime h t, sql_datetime h cutoff) of (Some x, Some y) \<Rightarrow> x < y | _ \<Rightarrow> False))) (blocklists s))))"

fun refresh_all ::
  "refresh_env \<Rightarrow> (Store \<Rightarrow> 'w \<Rightarrow> 'w \<times> bool) option \<Rightarrow> int list \<Rightarrow> Store \<times> 'w \<Rightarrow> (Store \<times> 'w) \<times> bool" where
  "refresh_all env f [] st = (st, False)"
| "refresh_all env f (i # ids) st =
     (let (st1, r) = RefreshAndApply env f i st; (st2, failed) = refresh_all env f ids st1 in
      (st2, \<not> is_ok r \<or> failed))"

definition refreshDue ::
  "refresh_env \<Rightarrow> host \<Rightarrow> int \<Rightarrow> time \<Rightarrow> (Store \<Rightarrow> 'w \<Rightarrow> 'w \<times> bool) option \<Rightarrow> Store \<times> 'w \<Rightarrow> (Store \<times> 'w) \<times> bool" where
  "refreshDue env h refresh_age now f st = refresh_all env f (due_lists h refresh_age now (fst st)) st"

text \<open>How long \<open>Run\<close> waits before the first pass, and after a pass.\<close>

definition startup_wait :: "int \<Rightarrow> int" where
  "startup_wait startup = (if startup = 0 then 15 * second else if startup < 0 then 0 else startup)"

definition next_wait :: "int \<Rightarrow> int \<Rightarrow> bool \<Rightarrow> int" where
  "next_wait interval retry failed =
     (if failed then (if retry \<le> 0 then 5 * minute else retry) else (if interval \<le> 0 then 6 * hour else interval))"

section \<open>What parsing yields\<close>

lemma parseBlocklistLine_wf: "parseBlocklistLine l = Some d \<Longrightarrow> domain_wf d"
  by (auto simp: parseBlocklistLine_def Let_def NormalizeDomain_Inr_wf split: if_splits option.splits sum.splits)

lemma Parse_Inr:
  assumes "Parse (text, complete) = Inr ds"
  shows "complete" "ds = sort_uniq (List.map_filter parseBlocklistLine (map drop_cr (raw_lines text)))"
  using assms by (auto simp: Parse_def scan_lines_def split: if_splits)

lemma set_map_filter: "set (List.map_filter f xs) = {y. \<exists>x \<in> set xs. f x = Some y}"
  by (auto simp: List.map_filter_def image_iff) force


definition sample_list :: string where
  "sample_list = join [newline] [''# ads'', ''0.0.0.0 Ads.Example'', ''||cdn.example^$important'', ''@@||good.example^'', ''ads.example # again'', ''example.com##.banner'']"

lemma sample_parsed: "Parse (sample_list, True) = Inr [''ads.example'', ''cdn.example'']"
proof -
  have "raw_lines sample_list = [''# ads'', ''0.0.0.0 Ads.Example'', ''||cdn.example^$important'', ''@@||good.example^'', ''ads.example # again'', ''example.com##.banner'']"
    by code_simp
  moreover have "map (\<lambda>l. parseBlocklistLine (drop_cr l)) [''# ads'', ''0.0.0.0 Ads.Example'', ''||cdn.example^$important'', ''@@||good.example^'', ''ads.example # again'', ''example.com##.banner''] =
      [None, Some ''ads.example'', Some ''cdn.example'', None, Some ''ads.example'', None]"
    by code_simp
  moreover have "sort_uniq [''ads.example'', ''cdn.example'', ''ads.example''] = [''ads.example'', ''cdn.example'']"
    by code_simp
  ultimately show ?thesis
    by (simp add: Parse_def scan_lines_def maxLineBytes_def List.map_filter_def)
qed


lemma index_of_absent: "c \<notin> set s \<Longrightarrow> index_of [c] s = None"
  by (auto simp: index_of_None sublist_def)

lemma trim_space_ends:
  assumes "s \<noteq> []" "hd s \<notin> space_bytes" "last s \<notin> space_bytes"
  shows "trim_space s = s"
  using assms trim_left_word [of s "[]"] trim_right_last [of "last s" "butlast s"] by (simp add: trim_space_def)

lemma hosts_line_parsed:
  assumes "domain_wf d"
  shows "parseBlocklistLine (''0.0.0.0 '' @ d) = Some d"
proof -
  have chars: "domain_char c" if "c \<in> set d" for c
    using domain_wf_chars [OF assms that] .
  have plain: "set d \<inter> space_bytes = {}" "d \<noteq> []" "CHR ''#'' \<notin> set d"
    using chars domain_char_plain(3) domain_char_code [of "CHR ''#''"] assms by (auto simp: domain_wf_def)
  let ?l = "''0.0.0.0'' @ '' '' @ d"
  have zero: "set ''0.0.0.0'' \<inter> space_bytes = {}"
    by (auto simp: space_bytes_def)
  have dot: "\<not> prefix ''.'' d"
    using assms by (cases d) (auto simp: domain_wf_def label_ok_def)
  have words: "go_fields ?l = [''0.0.0.0'', d]"
    using go_fields_word [of "[]" "''0.0.0.0''" "'' '' @ d"] go_fields_word [of "'' ''" d "[]"] zero plain(1,2) go_fields_Nil by simp
  have "last d \<notin> space_bytes"
    using plain last_in_set by blast
  then have trim: "trim_space ?l = ?l"
    using plain(2) zero by (intro trim_space_ends) auto
  have hash: "CHR ''#'' \<notin> set ?l"
    using plain(3) by simp
  then have "\<not> sublist (CHR ''#'' # p) ?l" for p
    using set_mono_sublist [of "CHR ''#'' # p" ?l] by auto
  moreover have "index_of ''#'' ?l = None"
    using hash by (rule index_of_absent)
  moreover have "NormalizeDomain (trim_prefix ''.'' d) = Inr d"
    using dot NormalizeDomain_fixed [OF assms] by (simp add: trim_prefix_def)
  ultimately show ?thesis
    using trim words by (simp add: parseBlocklistLine_def rule_candidate_def)
qed

lemma domain_wf_line: "domain_wf d \<Longrightarrow> newline \<notin> set d \<and> drop_cr (''0.0.0.0 '' @ d) = ''0.0.0.0 '' @ d \<and> length d \<le> 253"
proof -
  assume d: "domain_wf d"
  have "\<forall>c \<in> set d. c \<noteq> carriage_return"
    using domain_wf_chars [OF d] domain_char_plain(4) unfolding carriage_return_def by blast
  then show ?thesis
    using domain_wf_newline [OF d] d by (auto simp: drop_cr_def domain_wf_def)
qed

lemma raw_lines_hosts:
  assumes "\<forall>d \<in> set ds. domain_wf d"
  shows "raw_lines (hosts_text ds) = header_line # map (\<lambda>d. ''0.0.0.0 '' @ d) ds"
proof -
  have "split_on newline (hosts_text ds) = (header_line # map (\<lambda>d. ''0.0.0.0 '' @ d) ds) @ [[]]"
    unfolding hosts_text_def header_line_def using assms domain_wf_line by (intro split_on_unlines) auto
  then show ?thesis
    by (simp add: raw_lines_def)
qed

lemma parse_hosts_text:
  assumes "\<forall>d \<in> set ds. domain_wf d"
  shows "Parse (hosts_text ds, True) = Inr (sort_uniq ds)"
proof -
  have header: "drop_cr header_line = header_line" "length header_line < 1000" "parseBlocklistLine header_line = None"
    by code_simp+
  have "length l < maxLineBytes" if "l \<in> set (raw_lines (hosts_text ds))" for l
    using that header(2) domain_wf_line assms unfolding raw_lines_hosts [OF assms] maxLineBytes_def by fastforce
  then have "scan_lines maxLineBytes (hosts_text ds) = Some (map drop_cr (raw_lines (hosts_text ds)))"
    by (auto simp: scan_lines_def list_ex_iff not_le)
  moreover have "map drop_cr (raw_lines (hosts_text ds)) = header_line # map (\<lambda>d. ''0.0.0.0 '' @ d) ds"
    using assms domain_wf_line header(1) by (simp add: raw_lines_hosts)
  moreover have "List.map_filter parseBlocklistLine (map (\<lambda>d. ''0.0.0.0 '' @ d) ds) = ds"
    using assms hosts_line_parsed by (induction ds) (auto simp: List.map_filter_def)
  ultimately show ?thesis
    using header(3) by (simp add: Parse_def List.map_filter_def)
qed



section \<open>Replacing the entries of a list\<close>

text \<open>The part of the database that inserting and deleting entries leaves alone.\<close>

definition other_tables :: "Store \<Rightarrow> Store" where
  "other_tables s = s\<lparr>blocklist_entries := [], sqlite_sequence := []\<rparr>"

definition other_entries :: "int \<Rightarrow> Store \<Rightarrow> blocklist_entry list" where
  "other_entries i s = filter (\<lambda>e. be_blocklist_id e \<noteq> i) (blocklist_entries s)"

definition own_domains :: "int \<Rightarrow> Store \<Rightarrow> string list" where
  "own_domains i s = map be_domain (filter (\<lambda>e. be_blocklist_id e = i) (blocklist_entries s))"

lemma insert_entry_keeps [simp]:
  "other_tables (insert_entry now i s d) = other_tables s" "other_entries i (insert_entry now i s d) = other_entries i s"
  by (simp_all add: insert_entry_def other_tables_def other_entries_def bump_def)

lemma insert_entry_domains: "own_domains i (insert_entry now i s d) = (if d \<in> set (own_domains i s) then own_domains i s else own_domains i s @ [d])"
  by (auto simp: insert_entry_def own_domains_def list_ex_iff image_iff)

lemma insert_entries:
  "other_tables (foldl (insert_entry now i) s ds) = other_tables s" "other_entries i (foldl (insert_entry now i) s ds) = other_entries i s"
  by (induction ds arbitrary: s) simp_all

lemma insert_domains:
  "distinct ds \<Longrightarrow> set ds \<inter> set (own_domains i s) = {} \<Longrightarrow> own_domains i (foldl (insert_entry now i) s ds) = own_domains i s @ ds"
proof (induction ds arbitrary: s)
  case (Cons d ds)
  then show ?case
    using insert_entry_domains [of i now s d] by simp
qed simp

lemma update_list_keeps [simp]:
  "blocklist_entries (update_list i r u s) = blocklist_entries s" "other_entries i (update_list i r u s) = other_entries i s"
  "own_domains i (update_list i r u s) = own_domains i s"
  "other_tables (update_list i r u s) = update_list i r u (other_tables s)"
  by (simp_all add: update_list_def other_entries_def own_domains_def other_tables_def)

lemma delete_entries_keeps [simp]:
  "other_tables (delete_entries i s) = other_tables s" "other_entries i (delete_entries i s) = other_entries i s" "own_domains i (delete_entries i s) = []"
  by (simp_all add: delete_entries_def other_tables_def other_entries_def own_domains_def)

lemma replace_entries_keeps [simp]:
  "other_tables (replace_entries now i ds s) = other_tables s" "other_entries i (replace_entries now i ds s) = other_entries i s"
  "distinct ds \<Longrightarrow> own_domains i (replace_entries now i ds s) = ds"
  by (simp_all add: replace_entries_def insert_entries insert_domains)

lemma update_list_twice [simp]: "update_list i r' u' (update_list i r u s) = update_list i r' u' s"
  by (simp add: update_list_def)

lemma download_distinct: "download env i s = Inr ds \<Longrightarrow> sorted ds \<and> distinct ds \<and> list_all domain_wf ds \<and> ds \<noteq> []"
  using parseBlocklistLine_wf
  by (auto simp: download_def ok_iff Let_def set_map_filter list_all_iff split: prod.splits dest!: Parse_Inr(2))

lemma store_wf_lists:
  assumes "store_wf s"
  shows "distinct (map bl_id (blocklists s))" "distinct (own_domains i s)"
proof -
  show "distinct (map bl_id (blocklists s))"
    using assms by (simp add: store_wf_def)
  have "distinct (map (\<lambda>e. (be_blocklist_id e, be_domain e)) (blocklist_entries s))"
    using assms by (simp add: store_wf_def)
  then show "distinct (own_domains i s)"
    unfolding own_domains_def distinct_map by (fastforce simp: inj_on_def)
qed

lemma update_list_id:
  assumes "find_list i s = Some b" "distinct (map bl_id (blocklists s))"
  shows "update_list i (bl_last_refreshed_at b) (bl_updated_at b) s = s"
proof -
  have b: "b \<in> set (blocklists s)" "bl_id b = i"
    using assms(1) find_Some_in by (fastforce simp: find_list_def)+
  have "c = b" if "c \<in> set (blocklists s)" "bl_id c = i" for c
    using that b assms(2) by (metis distinct_map inj_onD)
  then have "map (\<lambda>c. if bl_id c = i then c\<lparr>bl_last_refreshed_at := bl_last_refreshed_at b, bl_updated_at := bl_updated_at b\<rparr> else c) (blocklists s) = blocklists s"
    by (intro map_idI) auto
  then show ?thesis
    by (simp add: update_list_def)
qed

lemma RefreshAndApply_cases:
  assumes "RefreshAndApply env f i (s, w) = ((s', w'), r)"
  obtains (untouched) "s' = s" "\<not> is_ok r"
  | (refreshed) b ds where "find_list i s = Some b" "download env i s = Inr ds" "r = Inr (length ds)"
      "s' = update_list i (Some (re_now env)) (re_now env) (replace_entries (re_now env) i ds s)" "\<forall>g. f = Some g \<longrightarrow> g s' w = (w', True)"
  | (unrestored) b ds e where "find_list i s = Some b" "download env i s = Inr ds" "r = Inl e" "\<not> re_restore_ok env"
      "s' = update_list i (Some (re_now env)) (re_now env) (replace_entries (re_now env) i ds s)"
  | (restored) b ds s1 e where "find_list i s = Some b" "download env i s = Inr ds" "r = Inl e"
      "s1 = update_list i (Some (re_now env)) (re_now env) (replace_entries (re_now env) i ds s)"
      "s' = update_list i (bl_last_refreshed_at b) (bl_updated_at b) (replace_entries (re_now env) i (list_domains i s) s1)"
proof (cases "find_list i s")
  case None
  then show ?thesis
    using assms untouched by (auto simp: RefreshAndApply_def snapshot_def)
next
  case (Some b)
  show ?thesis
  proof (cases "\<exists>ds. download env i s = Inr ds \<and> re_commit_ok env")
    case False
    then show ?thesis
      using assms untouched Some by (auto simp: RefreshAndApply_def snapshot_def Refresh_def split: sum.splits if_splits)
  next
    case True
    then obtain ds where ds: "download env i s = Inr ds" "re_commit_ok env"
      by blast
    define s1 where "s1 = update_list i (Some (re_now env)) (re_now env) (replace_entries (re_now env) i ds s)"
    note run = assms [unfolded RefreshAndApply_def prod.case snapshot_def Some option.map option.case Refresh_def ds(1) sum.case, simplified ds(2) if_True, folded s1_def, simplified]
    show ?thesis
    proof (cases "\<exists>g w1. f = Some g \<and> g s1 w = (w1, False)")
      case False
      then show ?thesis
        using run refreshed [OF Some ds(1)] s1_def by (auto split: option.splits prod.splits bool.splits)
    next
      case True
      then obtain g w1 where g: "f = Some g" "g s1 w = (w1, False)"
        by blast
      then show ?thesis
        using run unrestored [OF Some ds(1)] restored [OF Some ds(1)] s1_def
        by (cases "re_restore_ok env") (auto simp: restore_list_def)
    qed
  qed
qed

text \<open>
  C34. A refresh that fails leaves the last known good list: whatever goes wrong (an unknown list, a source that
  cannot be read, a download without domains, a transaction that does not commit, a configuration that CoreDNS
  refuses), if the restoring transaction commits then the list has the domains it had, the entries of every other
  list are untouched, and all tables but the entries and the counters are unchanged, the times of the list included.
\<close>

theorem failed_refresh_restores:
  assumes "RefreshAndApply env f i (s, w) = ((s', w'), Inl e)" "store_wf s" "re_restore_ok env"
  shows "list_domains i s' = list_domains i s \<and> other_entries i s' = other_entries i s \<and> other_tables s' = other_tables s"
  using assms(1)
proof (cases rule: RefreshAndApply_cases)
  case (restored b ds s1 e')
  note b = restored(1) and s1 = restored(4) and s' = restored(5)
  have old: "distinct (list_domains i s)" "sort (list_domains i s) = list_domains i s"
    using store_wf_lists(2) [OF assms(2), of i] by (simp_all add: list_domains_def own_domains_def sorted_sort_id)
  have "list_domains i s' = sort (own_domains i s')"
    by (simp add: list_domains_def own_domains_def)
  then have "list_domains i s' = list_domains i s"
    using old by (simp add: s')
  moreover have "other_entries i s' = other_entries i s" "other_tables s' = update_list i (bl_last_refreshed_at b) (bl_updated_at b) (other_tables s)"
    by (simp_all add: s' s1)
  moreover have "update_list i (bl_last_refreshed_at b) (bl_updated_at b) (other_tables s) = other_tables s"
    using b store_wf_lists(1) [OF assms(2)] by (intro update_list_id) (simp_all add: find_list_def other_tables_def)
  ultimately show ?thesis
    by simp
qed (use assms(3) in simp_all)

text \<open>
  C35. A refresh that succeeds installs exactly the downloaded list: the domains of the list are the parsed ones,
  their number is returned, the entries of every other list are untouched, the other tables change only in the
  times of the list, and the configuration was applied from this database.
\<close>

theorem refresh_replaces:
  assumes "RefreshAndApply env f i (s, w) = ((s', w'), Inr n)"
  shows "\<exists>ds. download env i s = Inr ds \<and> n = length ds \<and> list_domains i s' = ds \<and> other_entries i s' = other_entries i s \<and>
    other_tables s' = update_list i (Some (re_now env)) (re_now env) (other_tables s) \<and> (\<forall>g. f = Some g \<longrightarrow> g s' w = (w', True))"
  using assms
proof (cases rule: RefreshAndApply_cases)
  case (refreshed b ds)
  have "sorted ds" "distinct ds"
    using download_distinct [OF refreshed(2)] by simp_all
  moreover have "list_domains i s' = sort (own_domains i s')"
    by (simp add: list_domains_def own_domains_def)
  ultimately have "list_domains i s' = ds"
    by (simp add: refreshed(4) sorted_sort_id)
  then show ?thesis
    using refreshed by simp
qed simp_all

section \<open>The pass over the lists\<close>

lemma update_list_ids [simp]: "map bl_id (blocklists (update_list i r u s)) = map bl_id (blocklists s)"
  by (simp add: update_list_def comp_def)

lemma store_wf_entries:
  assumes "store_wf s" "other_tables s' = other_tables s"
    "distinct (map (\<lambda>e. (be_blocklist_id e, be_domain e)) (blocklist_entries s'))"
    "be_blocklist_id ` set (blocklist_entries s') \<subseteq> bl_id ` set (blocklists s)"
  shows "store_wf s'"
proof -
  have "s'\<lparr>blocklist_entries := [], sqlite_sequence := []\<rparr> = s\<lparr>blocklist_entries := [], sqlite_sequence := []\<rparr>"
    using assms(2) by (simp add: other_tables_def)
  then have "s' = s\<lparr>blocklist_entries := blocklist_entries s', sqlite_sequence := sqlite_sequence s'\<rparr>"
    by (cases s; cases s') simp
  then obtain es seq where "s' = s\<lparr>blocklist_entries := es, sqlite_sequence := seq\<rparr>"
    by blast
  then show ?thesis
    using assms(1,3,4) by (simp add: store_wf_def)
qed

lemma delete_entries_wf: "store_wf s \<Longrightarrow> store_wf (delete_entries i s)"
  by (rule store_wf_entries) (auto simp: delete_entries_def store_wf_def distinct_map_filter)

lemma insert_entry_wf:
  assumes "store_wf s" "i \<in> bl_id ` set (blocklists s)"
  shows "store_wf (insert_entry now i s d)"
  using assms(1)
proof (rule store_wf_entries)
  show "other_tables (insert_entry now i s d) = other_tables s"
    by simp
  show "distinct (map (\<lambda>e. (be_blocklist_id e, be_domain e)) (blocklist_entries (insert_entry now i s d)))"
    using assms by (auto simp: insert_entry_def store_wf_def list_ex_iff)
  show "be_blocklist_id ` set (blocklist_entries (insert_entry now i s d)) \<subseteq> bl_id ` set (blocklists s)"
    using assms by (auto simp: insert_entry_def store_wf_def)
qed

lemma replace_entries_blocklists [simp]: "blocklists (replace_entries now i ds s) = blocklists s"
  using arg_cong [OF replace_entries_keeps(1) [of now i ds s], of blocklists] by (simp add: other_tables_def)

lemma insert_entries_wf:
  "store_wf s \<Longrightarrow> i \<in> bl_id ` set (blocklists s) \<Longrightarrow> store_wf (foldl (insert_entry now i) s ds)"
proof (induction ds arbitrary: s)
  case (Cons d ds)
  have "blocklists (insert_entry now i s d) = blocklists s"
    by (simp add: insert_entry_def bump_def)
  then show ?case
    using Cons insert_entry_wf by simp
qed simp

lemma replace_entries_wf:
  assumes "store_wf s" "i \<in> bl_id ` set (blocklists s)"
  shows "store_wf (replace_entries now i ds s)"
  unfolding replace_entries_def using delete_entries_wf [OF assms(1)] assms(2)
  by (intro insert_entries_wf) (simp_all add: delete_entries_def)

lemma store_wf_blocklists:
  assumes "store_wf s" "map bl_id bs = map bl_id (blocklists s)"
  shows "store_wf (s\<lparr>blocklists := bs\<rparr>)"
proof -
  have "bl_id ` set bs = bl_id ` set (blocklists s)"
    using assms(2) by (metis image_set)
  then show ?thesis
    using assms by (simp add: store_wf_def)
qed

lemma update_list_wf: "store_wf s \<Longrightarrow> store_wf (update_list i r u s)"
  unfolding update_list_def by (rule store_wf_blocklists) simp_all

lemma find_list_id: "find_list i s = Some b \<Longrightarrow> i \<in> bl_id ` set (blocklists s)"
  using find_Some_in by (fastforce simp: find_list_def)

lemma update_list_id_mem [simp]: "bl_id ` set (blocklists (update_list i r u s)) = bl_id ` set (blocklists s)"
  by (metis image_set update_list_ids)

lemma RefreshAndApply_wf:
  assumes "RefreshAndApply env f i (s, w) = ((s', w'), r)" "store_wf s"
  shows "store_wf s'"
  using assms(1)
  by (cases rule: RefreshAndApply_cases) (auto simp: assms(2) intro!: update_list_wf replace_entries_wf dest!: find_list_id)

lemma refresh_all_wf: "refresh_all env f ids (s, w) = ((s', w'), failed) \<Longrightarrow> store_wf s \<Longrightarrow> store_wf s'"
proof (induction ids arbitrary: s w failed)
  case (Cons i ids)
  obtain s1 w1 r where r: "RefreshAndApply env f i (s, w) = ((s1, w1), r)"
    by (metis prod.collapse)
  obtain failed1 where "refresh_all env f ids (s1, w1) = ((s', w'), failed1)"
    using Cons.prems(1) by (auto simp: r Let_def split: prod.splits)
  then show ?case
    using Cons.IH RefreshAndApply_wf [OF r Cons.prems(2)] by blast
qed simp

text \<open>
  The constraints of the schema hold after every pass: keys stay unique, entries belong to existing lists,
  and no list holds a domain twice, whatever the sources return and whichever refreshes fail.
\<close>

theorem refreshDue_wf:
  assumes "store_wf s"
  shows "store_wf (fst (fst (refreshDue env h refresh_age now f (s, w))))"
  using refresh_all_wf [OF _ assms] unfolding refreshDue_def by (metis prod.collapse)

lemma find_list_update:
  "find_list i (update_list j r u s) =
     (if i = j then map_option (\<lambda>b. b\<lparr>bl_last_refreshed_at := r, bl_updated_at := u\<rparr>) (find_list i s) else find_list i s)"
proof -
  have "List.find (\<lambda>b. bl_id b = i) (map (\<lambda>b. if bl_id b = j then b\<lparr>bl_last_refreshed_at := r, bl_updated_at := u\<rparr> else b) bs) =
     (if i = j then map_option (\<lambda>b. b\<lparr>bl_last_refreshed_at := r, bl_updated_at := u\<rparr>) (List.find (\<lambda>b. bl_id b = i) bs)
      else List.find (\<lambda>b. bl_id b = i) bs)" for bs
    by (induction bs) auto
  then show ?thesis
    unfolding find_list_def update_list_def by (simp split del: if_split)
qed

lemma find_list_replace [simp]: "find_list i (replace_entries now j ds s) = find_list i s"
  by (simp add: find_list_def)

definition refreshed_at :: "string \<Rightarrow> int \<Rightarrow> Store \<Rightarrow> bool" where
  "refreshed_at t i s \<longleftrightarrow> (\<exists>b. find_list i s = Some b \<and> bl_last_refreshed_at b = Some t)"

lemma RefreshAndApply_refreshed:
  assumes "RefreshAndApply env f j (s, w) = ((s', w'), Inr n)"
  shows "refreshed_at (re_now env) j s'" "refreshed_at (re_now env) i s \<Longrightarrow> refreshed_at (re_now env) i s'"
  using assms
  by (cases rule: RefreshAndApply_cases; auto simp: refreshed_at_def find_list_update)+

lemma refresh_all_refreshed:
  assumes "refresh_all env f ids (s, w) = ((s', w'), False)"
  shows "\<forall>i. i \<in> set ids \<or> refreshed_at (re_now env) i s \<longrightarrow> refreshed_at (re_now env) i s'"
  using assms
proof (induction ids arbitrary: s w)
  case (Cons j ids)
  obtain s1 w1 r where r: "RefreshAndApply env f j (s, w) = ((s1, w1), r)"
    by (metis prod.collapse)
  then obtain n where n: "r = Inr n" "refresh_all env f ids (s1, w1) = ((s', w'), False)"
    using Cons.prems by (auto simp: Let_def is_ok_iff split: prod.splits)
  show ?case
    using Cons.IH [OF n(2)] RefreshAndApply_refreshed [OF r [unfolded n(1)]] by auto
qed simp

text \<open>
  A pass that reports no failure has refreshed every list that was due: each of them carries the time of the
  pass, and refreshing a later list does not take that back.
\<close>

theorem refreshDue_complete:
  assumes "refreshDue env h refresh_age now f (s, w) = ((s', w'), False)" "i \<in> set (due_lists h refresh_age now s)"
  shows "\<exists>b. find_list i s' = Some b \<and> bl_last_refreshed_at b = Some (re_now env)"
  using refresh_all_refreshed [of env f "due_lists h refresh_age now s" s w s' w'] assms by (auto simp: refreshDue_def refreshed_at_def)

subsection \<open>A download\<close>

definition web :: refresh_env where
  "web = \<lparr>re_sources = \<lparr>src_file = \<lambda>_. None, src_get = \<lambda>_. Some (200, sample_list, True)\<rparr>, re_now = ''2025-01-01 00:00:00'',
     re_commit_ok = True, re_restore_ok = True\<rparr>"

lemma web_download: "download web 1 demo_store = Inr [''ads.example'', ''cdn.example'']"
proof -
  have "length sample_list < 200" "cut_prefix ''file://'' ''https://lists.example/ads'' = None"
    by code_simp+
  then show ?thesis
    using sample_parsed by (simp add: download_def find_list_def demo_store_def openSource_def web_def maxDownloadBytes_def)
qed

lemma web_refresh: "Refresh web 1 demo_store =
    (update_list 1 (Some ''2025-01-01 00:00:00'') ''2025-01-01 00:00:00'' (replace_entries ''2025-01-01 00:00:00'' 1 [''ads.example'', ''cdn.example''] demo_store), Inr 2)"
  by (simp add: Refresh_def web_download) (simp add: web_def)

lemma web_apply:
  "\<exists>s'. RefreshAndApply web (Some (\<lambda>_ w. (w, True))) 1 (demo_store, ()) = ((s', ()), Inr 2)"
  "\<exists>s'. RefreshAndApply web (Some (\<lambda>_ w. (w, False))) 1 (demo_store, ()) = ((s', ()), Inl ApplyFailed)"
proof -
  obtain old where "snapshot 1 demo_store = Some old"
    by (simp add: snapshot_def find_list_def demo_store_def)
  moreover have "re_restore_ok web"
    by (simp add: web_def)
  ultimately show
    "\<exists>s'. RefreshAndApply web (Some (\<lambda>_ w. (w, True))) 1 (demo_store, ()) = ((s', ()), Inr 2)"
    "\<exists>s'. RefreshAndApply web (Some (\<lambda>_ w. (w, False))) 1 (demo_store, ()) = ((s', ()), Inl ApplyFailed)"
    by (simp_all add: RefreshAndApply_def web_refresh restore_list_def)
qed

theorem failed_refresh_restores_witness:
  "\<exists>s'. RefreshAndApply web (Some (\<lambda>_ w. (w, False))) 1 (demo_store, ()) = ((s', ()), Inl ApplyFailed) \<and>
     list_domains 1 s' = list_domains 1 demo_store \<and> other_entries 1 s' = other_entries 1 demo_store \<and> other_tables s' = other_tables demo_store"
proof -
  have ok: "re_restore_ok web"
    by (simp add: web_def)
  obtain s' where s': "RefreshAndApply web (Some (\<lambda>_ w. (w, False))) 1 (demo_store, ()) = ((s', ()), Inl ApplyFailed)"
    using web_apply(2) by blast
  then show ?thesis
    using failed_refresh_restores [OF s' demo_wf ok] by blast
qed

theorem refresh_replaces_witness:
  "\<exists>s'. RefreshAndApply web (Some (\<lambda>_ w. (w, True))) 1 (demo_store, ()) = ((s', ()), Inr 2) \<and> list_domains 1 s' = [''ads.example'', ''cdn.example'']"
  using web_apply(1) refresh_replaces web_download by fastforce

theorem refreshDue_wf_witness:
  "store_wf (fst (fst (refreshDue web plain_host 0 0 (Some (\<lambda>_ w. (w, True))) (demo_store, ()))))"
  using refreshDue_wf [OF demo_wf] .

theorem refreshDue_complete_witness:
  "\<exists>s'. refreshDue web plain_host 0 0 (Some (\<lambda>_ w. (w, True))) (demo_store, ()) = ((s', ()), False) \<and>
     (\<exists>b. find_list 1 s' = Some b \<and> bl_last_refreshed_at b = Some ''2025-01-01 00:00:00'')"
proof -
  have due: "due_lists plain_host 0 0 demo_store = [1]"
    by (simp add: due_lists_def demo_store_def)
  obtain s' where "RefreshAndApply web (Some (\<lambda>_ w. (w, True))) 1 (demo_store, ()) = ((s', ()), Inr 2)"
    using web_apply(1) by blast
  then have run: "refreshDue web plain_host 0 0 (Some (\<lambda>_ w. (w, True))) (demo_store, ()) = ((s', ()), False)"
    by (simp add: refreshDue_def due)
  have "re_now web = ''2025-01-01 00:00:00''"
    by (simp add: web_def)
  then show ?thesis
    using run refreshDue_complete [OF run, of 1] due by simp
qed

end
