(* ===== verification/Auth_Manager.thy ===== *)
theory Auth_Manager
  imports Faro_Store
begin

text \<open>
  Accounts, sessions and login throttling (\<^verbatim>\<open>internal/auth/manager.go\<close>). The tables \<^verbatim>\<open>users\<close> and \<^verbatim>\<open>auth_sessions\<close> and
  the two values the handlers read from other tables are the record \<open>auth_db\<close>; the failure map of the process is
  beside it. bcrypt, SHA-256 and the random source are parameters (\<open>crypto\<close>); a handler maps a request and an
  instant to a new state and a reply. SQLite's \<^verbatim>\<open>datetime\<close> is the function of the host.
\<close>

section \<open>State, requests and replies\<close>

record user =
  u_id :: int
  u_username :: string
  u_password_hash :: string

record auth_session =
  as_user_id :: int
  as_token_hash :: string
  as_expires_at :: string
  as_last_seen_at :: string

record auth_db =
  users :: "user list"
  auth_sessions :: "auth_session list"
  last_user_id :: int
  redundancy_role :: "string option"
  onboarding_completed :: "string option"

record failureState =
  fs_Count :: int
  fs_LockedUntil :: time
  fs_ExpiresAt :: time

record auth =
  au_db :: auth_db
  failures :: "(string, failureState) gomap"
  nextFailurePrune :: time

record crypto =
  cr_compare :: "string \<Rightarrow> string \<Rightarrow> bool"
  cr_generate :: "string \<Rightarrow> string option"
  cr_token :: "string option"
  cr_sha256 :: "string \<Rightarrow> string"
  cr_dummy :: string

record credentials =
  c_Username :: string
  c_Password :: string

record passwordChange =
  pc_Current :: string
  pc_New :: string

text \<open>
  \<open>rq_RemoteHost\<close> is the host of the remote address, or the whole address when it has no port. The bodies are what
  the JSON decoder yields from at most 4096 bytes, \<^const>\<open>None\<close> when it fails.
\<close>

record request =
  rq_Method :: string
  rq_Path :: string
  rq_cookie :: "string option"
  rq_credentials :: "credentials option"
  rq_change :: "passwordChange option"
  rq_RemoteHost :: string
  rq_RealIP :: string
  rq_TLS :: bool
  rq_ForwardedProto :: string

record cookie =
  ck_Value :: string
  ck_MaxAge :: int
  ck_Secure :: bool

record reply =
  rp_status :: int
  rp_error :: string
  rp_retry_after :: "string option"
  rp_username :: "string option"
  rp_cookie :: "cookie option"

record sessionUser =
  su_ID :: int
  su_Username :: string

definition writeError :: "int \<Rightarrow> string \<Rightarrow> reply" where
  "writeError status message = \<lparr>rp_status = status, rp_error = message, rp_retry_after = None, rp_username = None, rp_cookie = None\<rparr>"

definition writeOk :: "int \<Rightarrow> reply" where
  "writeOk status = \<lparr>rp_status = status, rp_error = [], rp_retry_after = None, rp_username = None, rp_cookie = None\<rparr>"

definition methodNotAllowed :: reply where
  "methodNotAllowed = writeError 405 ''method not allowed''"

definition sessionLifetime :: int where
  "sessionLifetime = 7 * 24 * hour"

definition maxFailures :: int where
  "maxFailures = 5"

definition lockoutDuration :: int where
  "lockoutDuration = 5 * minute"

definition maxFailureEntries :: nat where
  "maxFailureEntries = 4096"

section \<open>Credentials\<close>

definition username_char :: "char \<Rightarrow> bool" where
  "username_char c \<longleftrightarrow> is_upper c \<or> is_lower c \<or> is_digit c \<or> c \<in> {CHR ''.'', CHR ''_'', CHR ''-''}"

definition usernamePattern :: "string \<Rightarrow> bool" where
  "usernamePattern s \<longleftrightarrow> 3 \<le> length s \<and> length s \<le> 64 \<and> list_all username_char s"

definition validatePassword :: "string \<Rightarrow> string option" where
  "validatePassword password =
     (if length password < 8 then Some ''password must be at least 8 characters''
      else if length password > 72 then Some ''password must be 72 bytes or fewer''
      else None)"

definition validateCredentials :: "credentials \<Rightarrow> string option" where
  "validateCredentials input =
     (if \<not> usernamePattern (trim_space (c_Username input))
      then Some ''username must be 3-64 characters using letters, numbers, dots, dashes, or underscores''
      else validatePassword (c_Password input))"

definition requestIsSecure :: "request \<Rightarrow> bool" where
  "requestIsSecure rq \<longleftrightarrow> rq_TLS rq \<or> equal_fold (rq_ForwardedProto rq) ''https''"

section \<open>Login failures\<close>

definition no_failure :: failureState where
  "no_failure = \<lparr>fs_Count = 0, fs_LockedUntil = zero_time, fs_ExpiresAt = zero_time\<rparr>"

definition failureKey :: "crypto \<Rightarrow> bool \<Rightarrow> request \<Rightarrow> string \<Rightarrow> string" where
  "failureKey cr trustProxy rq username =
     (let hostname = (if trustProxy then (case parse_ip (trim_space (rq_RealIP rq)) of None \<Rightarrow> rq_RemoteHost rq | Some a \<Rightarrow> ip_string a)
                      else rq_RemoteHost rq) in
      cr_sha256 cr (to_lower (trim_space username) @ ''|'' @ hostname))"

definition pruneFailures :: "time \<Rightarrow> auth \<Rightarrow> auth" where
  "pruneFailures now m =
     (if now < nextFailurePrune m \<and> length (failures m) < maxFailureEntries then m
      else m\<lparr>failures := filter (\<lambda>(_, st). now < fs_ExpiresAt st) (failures m), nextFailurePrune := now + minute\<rparr>)"

definition soonest :: "time \<Rightarrow> (string, failureState) gomap \<Rightarrow> int" where
  "soonest now fs = foldl (\<lambda>retry (_, st). min retry (fs_ExpiresAt st - now)) lockoutDuration fs"

definition drop_expired :: "time \<Rightarrow> string \<Rightarrow> auth \<Rightarrow> auth" where
  "drop_expired now key m = (case gm_get (failures m) key of
     None \<Rightarrow> m
   | Some st \<Rightarrow> if \<not> now < fs_ExpiresAt st then m\<lparr>failures := gm_del key (failures m)\<rparr> else m)"

definition blocked :: "time \<Rightarrow> string \<Rightarrow> auth \<Rightarrow> auth \<times> string option" where
  "blocked now key m0 =
     (let m2 = drop_expired now key (pruneFailures now m0);
          st = (case gm_get (failures m2) key of None \<Rightarrow> no_failure | Some st \<Rightarrow> st) in
      if gm_get (failures m2) key = None \<and> length (failures m2) \<ge> maxFailureEntries
        then (m2, Some (itoa (max 1 (soonest now (failures m2) div second + 1))))
      else if fs_LockedUntil st > now then (m2, Some (itoa (max ((fs_LockedUntil st - now) div second) 1)))
      else if fs_LockedUntil st \<noteq> zero_time then (m2\<lparr>failures := gm_del key (failures m2)\<rparr>, None)
      else (m2, None))"

definition recordFailure :: "time \<Rightarrow> string \<Rightarrow> auth \<Rightarrow> auth" where
  "recordFailure now key m0 =
     (let m = pruneFailures now m0 in
      if gm_get (failures m) key = None \<and> length (failures m) \<ge> maxFailureEntries then m
      else
        let old = (case gm_get (failures m) key of None \<Rightarrow> no_failure | Some st \<Rightarrow> st);
            st = (if \<not> now < fs_ExpiresAt old then no_failure else old);
            count = fs_Count st + 1 in
        m\<lparr>failures := gm_put key
          \<lparr>fs_Count = count,
           fs_LockedUntil = (if count \<ge> maxFailures then now + lockoutDuration else fs_LockedUntil st),
           fs_ExpiresAt = now + lockoutDuration\<rparr> (failures m)\<rparr>)"

definition clearFailures :: "string \<Rightarrow> auth \<Rightarrow> auth" where
  "clearFailures key m = m\<lparr>failures := gm_del key (failures m)\<rparr>"

section \<open>Sessions\<close>

text \<open>\<^verbatim>\<open>time.Parse("2006-01-02 15:04:05", s)\<close>: a blank of the layout takes any number of blanks.\<close>

definition parse_datetime :: "string \<Rightarrow> time option" where
  "parse_datetime s =
     Option.bind (cut_prefix '' '' (drop 10 s)) (\<lambda>r.
     parse_rfc3339 (take 10 s @ ''T'' @ dropWhile (\<lambda>c. c = CHR '' '') r @ ''Z''))"

definition after_datetime :: "host \<Rightarrow> string \<Rightarrow> string \<Rightarrow> bool" where
  "after_datetime h a b = (case (sql_datetime h a, sql_datetime h b) of (Some x, Some y) \<Rightarrow> x > y | _ \<Rightarrow> False)"

definition delete_session :: "string \<Rightarrow> auth_db \<Rightarrow> auth_db" where
  "delete_session token_hash d = d\<lparr>auth_sessions := filter (\<lambda>s. as_token_hash s \<noteq> token_hash) (auth_sessions d)\<rparr>"

definition session_user :: "host \<Rightarrow> time \<Rightarrow> string \<Rightarrow> auth_db \<Rightarrow> (auth_session \<times> user) option" where
  "session_user h now token_hash d =
     (case List.find (\<lambda>s. as_token_hash s = token_hash \<and> after_datetime h (as_expires_at s) (format_rfc3339 now)) (auth_sessions d) of
        None \<Rightarrow> None
      | Some s \<Rightarrow> map_option (\<lambda>u. (s, u)) (List.find (\<lambda>u. u_id u = as_user_id s) (users d)))"

definition touch_session :: "time \<Rightarrow> auth_session \<Rightarrow> auth_db \<Rightarrow> auth_db" where
  "touch_session now s d =
     (if (case parse_datetime (as_last_seen_at s) of None \<Rightarrow> True | Some seen \<Rightarrow> now - seen \<ge> minute)
      then d\<lparr>auth_sessions := map (\<lambda>x. if as_token_hash x = as_token_hash s \<and> as_last_seen_at x = as_last_seen_at s
               then x\<lparr>as_last_seen_at := format_datetime now\<rparr> else x) (auth_sessions d)\<rparr>
      else d)"

definition authenticate :: "host \<Rightarrow> crypto \<Rightarrow> time \<Rightarrow> request \<Rightarrow> auth_db \<Rightarrow> auth_db \<times> sessionUser option" where
  "authenticate h cr now rq d =
     (case rq_cookie rq of
        None \<Rightarrow> (d, None)
      | Some token \<Rightarrow>
          if token = [] then (d, None)
          else (case session_user h now (cr_sha256 cr token) d of
                  None \<Rightarrow> (delete_session (cr_sha256 cr token) d, None)
                | Some (s, u) \<Rightarrow> (touch_session now s d, Some \<lparr>su_ID = u_id u, su_Username = u_username u\<rparr>)))"

text \<open>What \<^verbatim>\<open>DELETE ... WHERE datetime(expires_at) <= datetime(?)\<close> keeps.\<close>

definition session_kept :: "host \<Rightarrow> time \<Rightarrow> auth_session \<Rightarrow> bool" where
  "session_kept h now s = (case (sql_datetime h (as_expires_at s), sql_datetime h (format_rfc3339 now)) of
     (Some x, Some y) \<Rightarrow> \<not> x \<le> y | _ \<Rightarrow> True)"

definition createSession :: "host \<Rightarrow> crypto \<Rightarrow> time \<Rightarrow> request \<Rightarrow> int \<Rightarrow> auth_db \<Rightarrow> auth_db \<times> cookie option" where
  "createSession h cr now rq userID d0 =
     (case cr_token cr of
        None \<Rightarrow> (d0, None)
      | Some token \<Rightarrow>
          (let d = d0\<lparr>auth_sessions := filter (session_kept h now) (auth_sessions d0)\<rparr> in
           if cr_sha256 cr token \<in> as_token_hash ` set (auth_sessions d) then (d, None)
           else (d\<lparr>auth_sessions := auth_sessions d @
                   [\<lparr>as_user_id = userID, as_token_hash = cr_sha256 cr token,
                     as_expires_at = format_rfc3339 (now + sessionLifetime), as_last_seen_at = format_datetime now\<rparr>]\<rparr>,
                 Some \<lparr>ck_Value = token, ck_MaxAge = sessionLifetime div second, ck_Secure = requestIsSecure rq\<rparr>)))"

definition expireCookie :: "request \<Rightarrow> cookie" where
  "expireCookie rq = \<lparr>ck_Value = [], ck_MaxAge = - 1, ck_Secure = requestIsSecure rq\<rparr>"

definition configured :: "auth_db \<Rightarrow> bool" where
  "configured d \<longleftrightarrow> length (users d) > 0"

definition OnboardingComplete :: "auth_db \<Rightarrow> bool" where
  "OnboardingComplete d \<longleftrightarrow> onboarding_completed d = Some ''true''"

section \<open>Handlers\<close>

record environment =
  en_host :: host
  en_crypto :: crypto
  en_trustProxy :: bool
  en_now :: time

record status_payload =
  sp_configured :: bool
  sp_authenticated :: bool
  sp_onboarding_complete :: bool
  sp_username :: "string option"

definition Status :: "environment \<Rightarrow> request \<Rightarrow> auth \<Rightarrow> auth \<times> (reply + status_payload)" where
  "Status en rq m =
     (if rq_Method rq \<noteq> ''GET'' then (m, Inl methodNotAllowed)
      else (let (d, u) = authenticate (en_host en) (en_crypto en) (en_now en) rq (au_db m) in
            (m\<lparr>au_db := d\<rparr>,
             Inr \<lparr>sp_configured = configured (au_db m), sp_authenticated = u \<noteq> None, sp_onboarding_complete = OnboardingComplete d,
                  sp_username = map_option su_Username u\<rparr>)))"

text \<open>The table \<^verbatim>\<open>users\<close> holds at most one row (\<^verbatim>\<open>singleton\<close>), so a second insertion fails.\<close>

definition insert_user :: "string \<Rightarrow> string \<Rightarrow> auth_db \<Rightarrow> (auth_db \<times> int) option" where
  "insert_user username password_hash d =
     (if users d \<noteq> [] then None
      else Some (d\<lparr>users := [\<lparr>u_id = last_user_id d + 1, u_username = username, u_password_hash = password_hash\<rparr>], last_user_id := last_user_id d + 1\<rparr>,
                 last_user_id d + 1))"

text \<open>The checks of \<open>Setup\<close> up to the hash of the password: the reply of the first one that fails, or the account.\<close>

definition setup_account :: "environment \<Rightarrow> request \<Rightarrow> auth_db \<Rightarrow> reply + string \<times> string" where
  "setup_account en rq d =
     rbind (guard_err (rq_Method rq = ''POST'') methodNotAllowed) (\<lambda>_.
     rbind (of_option (writeError 500 ''could not verify this Faro server's role'') (redundancy_role d)) (\<lambda>role.
     rbind (guard_err (role \<noteq> ''replica'') (writeError 409 ''replica servers are managed by the primary Faro server'')) (\<lambda>_.
     rbind (guard_err (\<not> configured d) (writeError 409 ''Faro authentication is already configured'')) (\<lambda>_.
     rbind (of_option (writeError 400 ''invalid request'') (rq_credentials rq)) (\<lambda>input.
     rbind (case validateCredentials input of Some e \<Rightarrow> Inl (writeError 400 e) | None \<Rightarrow> Inr ()) (\<lambda>_.
     rbind (of_option (writeError 500 ''could not secure the password'') (cr_generate (en_crypto en) (c_Password input))) (\<lambda>password_hash.
     Inr (trim_space (c_Username input), password_hash))))))))"

definition Setup :: "environment \<Rightarrow> request \<Rightarrow> auth \<Rightarrow> auth \<times> reply" where
  "Setup en rq m = (case setup_account en rq (au_db m) of
     Inl r \<Rightarrow> (m, r)
   | Inr (username, password_hash) \<Rightarrow>
       (case insert_user username password_hash (au_db m) of
          None \<Rightarrow> (m, writeError 409 ''Faro authentication is already configured'')
        | Some (d1, userID) \<Rightarrow>
            (case createSession (en_host en) (en_crypto en) (en_now en) rq userID d1 of
               (d2, None) \<Rightarrow> (m\<lparr>au_db := d2\<rparr>, writeError 500 ''session'')
             | (d2, Some ck) \<Rightarrow> (m\<lparr>au_db := d2\<rparr>, (writeOk 201)\<lparr>rp_username := Some username, rp_cookie := Some ck\<rparr>))))"

definition find_user :: "string \<Rightarrow> auth_db \<Rightarrow> user option" where
  "find_user username d = List.find (\<lambda>u. map lower_char (u_username u) = map lower_char username) (users d)"

definition Login :: "environment \<Rightarrow> request \<Rightarrow> auth \<Rightarrow> auth \<times> reply" where
  "Login en rq m =
     (if rq_Method rq \<noteq> ''POST'' then (m, methodNotAllowed)
      else (case rq_credentials rq of
        None \<Rightarrow> (m, writeError 400 ''invalid request'')
      | Some input \<Rightarrow>
          (let key = failureKey (en_crypto en) (en_trustProxy en) rq (c_Username input);
               (m1, retryAfter) = blocked (en_now en) key m in
           case retryAfter of
             Some seconds \<Rightarrow> (m1, (writeError 429 ''too many login attempts; try again shortly'')\<lparr>rp_retry_after := Some seconds\<rparr>)
           | None \<Rightarrow>
               (let found = find_user (trim_space (c_Username input)) (au_db m1);
                    password_hash = (case found of None \<Rightarrow> cr_dummy (en_crypto en) | Some u \<Rightarrow> u_password_hash u);
                    passwordMatches = cr_compare (en_crypto en) password_hash (c_Password input) in
                case found of
                  None \<Rightarrow> (recordFailure (en_now en) key m1, writeError 401 ''invalid username or password'')
                | Some u \<Rightarrow>
                    if \<not> passwordMatches
                    then (recordFailure (en_now en) key m1, writeError 401 ''invalid username or password'')
                    else (let m2 = clearFailures key m1 in
                          case createSession (en_host en) (en_crypto en) (en_now en) rq (u_id u) (au_db m2) of
                            (d, None) \<Rightarrow> (m2\<lparr>au_db := d\<rparr>, writeError 500 ''session'')
                          | (d, Some ck) \<Rightarrow> (m2\<lparr>au_db := d\<rparr>, (writeOk 200)\<lparr>rp_username := Some (u_username u), rp_cookie := Some ck\<rparr>))))))"

definition Logout :: "environment \<Rightarrow> request \<Rightarrow> auth \<Rightarrow> auth \<times> reply" where
  "Logout en rq m =
     (if rq_Method rq \<noteq> ''POST'' then (m, methodNotAllowed)
      else
        let d = (case rq_cookie rq of
                   None \<Rightarrow> au_db m
                 | Some token \<Rightarrow> if token = [] then au_db m else delete_session (cr_sha256 (en_crypto en) token) (au_db m)) in
        (m\<lparr>au_db := d\<rparr>, (writeOk 200)\<lparr>rp_cookie := Some (expireCookie rq)\<rparr>))"

text \<open>The transaction at the end of \<open>ChangePassword\<close>: the new hash, and only the current session stays.\<close>

definition change_password :: "int \<Rightarrow> string \<Rightarrow> string \<Rightarrow> auth_db \<Rightarrow> auth_db" where
  "change_password userID new_hash token_hash d =
     d\<lparr>users := map (\<lambda>u. if u_id u = userID then u\<lparr>u_password_hash := new_hash\<rparr> else u) (users d),
       auth_sessions := filter (\<lambda>s. \<not> (as_user_id s = userID \<and> as_token_hash s \<noteq> token_hash)) (auth_sessions d)\<rparr>"

text \<open>The checks of \<open>ChangePassword\<close> between the session and the throttling, and those after it.\<close>

definition change_request :: "request \<Rightarrow> reply + passwordChange" where
  "change_request rq =
     rbind (of_option (writeError 400 ''invalid request'') (rq_change rq)) (\<lambda>input.
     rbind (case validatePassword (pc_New input) of Some e \<Rightarrow> Inl (writeError 400 e) | None \<Rightarrow> Inr ()) (\<lambda>_.
     rbind (guard_err (pc_Current input \<noteq> pc_New input) (writeError 400 ''new password must be different from the current password'')) (\<lambda>_.
     Inr input)))"

definition change_token :: "environment \<Rightarrow> request \<Rightarrow> passwordChange \<Rightarrow> reply + string \<times> string" where
  "change_token en rq input =
     rbind (of_option (writeError 500 ''could not secure the new password'') (cr_generate (en_crypto en) (pc_New input))) (\<lambda>new_hash.
     rbind (of_option (writeError 401 ''authentication required'') (rq_cookie rq)) (\<lambda>token.
     rbind (guard_err (token \<noteq> []) (writeError 401 ''authentication required'')) (\<lambda>_. Inr (new_hash, token))))"

definition ChangePassword :: "environment \<Rightarrow> request \<Rightarrow> auth \<Rightarrow> auth \<times> reply" where
  "ChangePassword en rq m0 =
     (if rq_Method rq \<noteq> ''POST'' then (m0, methodNotAllowed)
      else
        let (d0, found) = authenticate (en_host en) (en_crypto en) (en_now en) rq (au_db m0); m = m0\<lparr>au_db := d0\<rparr> in
        case found of
          None \<Rightarrow> (m, writeError 401 ''authentication required'')
        | Some su \<Rightarrow>
            (case change_request rq of
               Inl r \<Rightarrow> (m, r)
             | Inr input \<Rightarrow>
                 (let key = failureKey (en_crypto en) (en_trustProxy en) rq (su_Username su);
                      (m1, retryAfter) = blocked (en_now en) key m in
                  case retryAfter of
                    Some seconds \<Rightarrow> (m1, (writeError 429 ''too many password attempts; try again shortly'')\<lparr>rp_retry_after := Some seconds\<rparr>)
                  | None \<Rightarrow>
                      (case List.find (\<lambda>u. u_id u = su_ID su) (users (au_db m1)) of
                         None \<Rightarrow> (m1, writeError 500 ''could not verify the current password'')
                       | Some u \<Rightarrow>
                           if \<not> cr_compare (en_crypto en) (u_password_hash u) (pc_Current input)
                           then (recordFailure (en_now en) key m1, writeError 403 ''current password is incorrect'')
                           else (case change_token en rq input of
                                   Inl r \<Rightarrow> (m1, r)
                                 | Inr (new_hash, token) \<Rightarrow>
                                     (clearFailures key (m1\<lparr>au_db := change_password (su_ID su) new_hash (cr_sha256 (en_crypto en) token) (au_db m1)\<rparr>),
                                      writeOk 200))))))"

datatype gate = Forward "sessionUser option" | Refuse reply

definition public_paths :: "string list" where
  "public_paths = [''/api/redundancy/public'', ''/api/redundancy/join'', ''/api/redundancy/pair'',
     ''/api/redundancy/replica/snapshot'', ''/api/redundancy/replica/ack'',
     ''/healthz'', ''/metrics'', ''/api/version'', ''/api/version/check'', ''/api/upgrade'']"

definition is_public :: "request \<Rightarrow> bool" where
  "is_public rq \<longleftrightarrow> rq_Method rq = ''OPTIONS'' \<or> rq_Path rq \<in> set public_paths \<or> prefix ''/api/auth/'' (rq_Path rq)"

definition Require :: "environment \<Rightarrow> request \<Rightarrow> auth \<Rightarrow> auth \<times> gate" where
  "Require en rq m =
     (if is_public rq then (m, Forward None)
      else if rq_Method rq = ''DELETE'' \<and> rq_Path rq = ''/api/redundancy'' \<and> \<not> configured (au_db m) then (m, Forward None)
      else (let (d, found) = authenticate (en_host en) (en_crypto en) (en_now en) rq (au_db m) in
            (m\<lparr>au_db := d\<rparr>, case found of None \<Rightarrow> Refuse (writeError 401 ''authentication required'') | Some su \<Rightarrow> Forward (Some su))))"

section \<open>The state that requests can reach\<close>

definition failures_inv :: "auth \<Rightarrow> bool" where
  "failures_inv m \<longleftrightarrow> gm_wf (failures m) \<and> length (failures m) \<le> maxFailureEntries"

definition accounts_inv :: "auth_db \<Rightarrow> bool" where
  "accounts_inv d \<longleftrightarrow> length (users d) \<le> 1 \<and> distinct (map as_token_hash (auth_sessions d)) \<and>
     as_user_id ` set (auth_sessions d) \<subseteq> u_id ` set (users d)"

lemma pruneFailures_keeps [simp]: "au_db (pruneFailures now m) = au_db m"
  by (simp add: pruneFailures_def)

lemma pruneFailures_inv: "failures_inv m \<Longrightarrow> failures_inv (pruneFailures now m)"
  by (auto simp: failures_inv_def pruneFailures_def intro: order_trans [OF length_filter_le])

lemma failures_inv_del: "failures_inv m \<Longrightarrow> failures_inv (m\<lparr>failures := gm_del key (failures m)\<rparr>)"
  using gm_length_del_le [of key "failures m"] by (simp add: failures_inv_def)

lemma failures_inv_cong: "failures m = failures m' \<Longrightarrow> failures_inv m = failures_inv m'"
  by (simp add: failures_inv_def)

lemma drop_expired_inv: "failures_inv m \<Longrightarrow> failures_inv (drop_expired now key m)" "au_db (drop_expired now key m) = au_db m"
  by (auto simp: drop_expired_def failures_inv_del split: option.split)

lemma blocked_state:
  "fst (blocked now key m) \<in> {drop_expired now key (pruneFailures now m), clearFailures key (drop_expired now key (pruneFailures now m))}"
  by (simp add: blocked_def Let_def clearFailures_def)

lemma blocked_inv:
  assumes "failures_inv m"
  shows "failures_inv (fst (blocked now key m))" "au_db (fst (blocked now key m)) = au_db m"
  using blocked_state [of now key m] drop_expired_inv [where m = "pruneFailures now m"] pruneFailures_inv [OF assms, of now]
    failures_inv_del by (auto simp: clearFailures_def)

lemma recordFailure_inv: "failures_inv m \<Longrightarrow> failures_inv (recordFailure now key m)"
  using pruneFailures_inv [of m now] by (auto simp: recordFailure_def failures_inv_def Let_def gm_length_put)

lemma recordFailure_keeps [simp]: "au_db (recordFailure now key m) = au_db m"
  by (simp add: recordFailure_def Let_def)

lemma clearFailures_keeps [simp]: "au_db (clearFailures key m) = au_db m"
  by (simp add: clearFailures_def)

lemma clearFailures_inv: "failures_inv m \<Longrightarrow> failures_inv (clearFailures key m)"
  using failures_inv_del by (simp add: clearFailures_def)

lemma failures_inv_db [simp]: "failures_inv (m\<lparr>au_db := d\<rparr>) = failures_inv m"
  by (simp add: failures_inv_def)

lemma accounts_inv_filter: "accounts_inv d \<Longrightarrow> accounts_inv (d\<lparr>auth_sessions := filter P (auth_sessions d)\<rparr>)"
  by (auto simp: accounts_inv_def distinct_map_filter)

lemma delete_session_inv: "accounts_inv d \<Longrightarrow> accounts_inv (delete_session token_hash d)"
  unfolding delete_session_def by (rule accounts_inv_filter)

lemma touch_session_inv: "accounts_inv d \<Longrightarrow> accounts_inv (touch_session now s d)"
proof -
  assume d: "accounts_inv d"
  define ss where "ss = map (\<lambda>x. if as_token_hash x = as_token_hash s \<and> as_last_seen_at x = as_last_seen_at s
      then x\<lparr>as_last_seen_at := format_datetime now\<rparr> else x) (auth_sessions d)"
  have "map as_token_hash ss = map as_token_hash (auth_sessions d)" "map as_user_id ss = map as_user_id (auth_sessions d)"
    by (simp_all add: ss_def)
  then have "accounts_inv (d\<lparr>auth_sessions := ss\<rparr>)"
    using d set_map [of as_user_id ss] set_map [of as_user_id "auth_sessions d"] by (simp add: accounts_inv_def)
  then show ?thesis
    using d by (simp add: touch_session_def ss_def)
qed

lemma authenticate_inv: "accounts_inv d \<Longrightarrow> accounts_inv (fst (authenticate h cr now rq d))"
  by (auto simp: authenticate_def delete_session_inv touch_session_inv split: option.split)

lemma createSession_inv:
  "accounts_inv d \<Longrightarrow> userID \<in> u_id ` set (users d) \<Longrightarrow> accounts_inv (fst (createSession h cr now rq userID d))"
  using accounts_inv_filter [of d "session_kept h now"]
  by (auto simp: createSession_def Let_def accounts_inv_def split: option.split)

lemma change_password_inv: "accounts_inv d \<Longrightarrow> accounts_inv (change_password userID new_hash token_hash d)"
proof -
  assume d: "accounts_inv d"
  define us where "us = map (\<lambda>u. if u_id u = userID then u\<lparr>u_password_hash := new_hash\<rparr> else u) (users d)"
  have us: "map u_id us = map u_id (users d)" "length us = length (users d)"
    by (simp_all add: us_def)
  have "u_id ` set us = u_id ` set (users d)"
    using us(1) by (metis list.set_map)
  then have "accounts_inv (d\<lparr>users := us\<rparr>)"
    using d us(2) by (simp add: accounts_inv_def)
  then show ?thesis
    using accounts_inv_filter [of "d\<lparr>users := us\<rparr>"] by (simp add: change_password_def us_def)
qed

definition auth_inv :: "auth \<Rightarrow> bool" where
  "auth_inv m \<longleftrightarrow> failures_inv m \<and> accounts_inv (au_db m)"

inductive auth_step :: "auth \<Rightarrow> auth \<Rightarrow> bool" where
  status_step: "Status en rq m = (m', r1) \<Longrightarrow> auth_step m m'"
| setup_step: "Setup en rq m = (m', r) \<Longrightarrow> auth_step m m'"
| login_step: "Login en rq m = (m', r) \<Longrightarrow> auth_step m m'"
| logout_step: "Logout en rq m = (m', r) \<Longrightarrow> auth_step m m'"
| change_step: "ChangePassword en rq m = (m', r) \<Longrightarrow> auth_step m m'"
| require_step: "Require en rq m = (m', g) \<Longrightarrow> auth_step m m'"

lemma Status_inv: "auth_inv m \<Longrightarrow> Status en rq m = (m', r) \<Longrightarrow> auth_inv m'"
  using authenticate_inv [of "au_db m"] by (auto simp: Status_def auth_inv_def split_def Let_def split: if_splits)

lemma insert_user_inv:
  "accounts_inv d \<Longrightarrow> insert_user name password_hash d = Some (d', i) \<Longrightarrow> accounts_inv d' \<and> i \<in> u_id ` set (users d')"
  by (auto simp: insert_user_def accounts_inv_def split: if_splits)

lemma Setup_inv: "auth_inv m \<Longrightarrow> Setup en rq m = (m', r) \<Longrightarrow> auth_inv m'"
  using createSession_inv insert_user_inv [of "au_db m"] unfolding Setup_def auth_inv_def
  by (auto split: sum.splits option.splits prod.splits) (metis fst_conv)+

lemma find_user_in: "find_user name d = Some u \<Longrightarrow> u_id u \<in> u_id ` set (users d)"
  using find_Some_in by (fastforce simp: find_user_def)

lemma Logout_inv: "auth_inv m \<Longrightarrow> Logout en rq m = (m', r) \<Longrightarrow> auth_inv m'"
  by (auto simp: Logout_def auth_inv_def Let_def delete_session_inv split: if_splits option.splits)

lemma Require_inv: "auth_inv m \<Longrightarrow> Require en rq m = (m', g) \<Longrightarrow> auth_inv m'"
  using authenticate_inv [of "au_db m"] by (auto simp: Require_def auth_inv_def split_def Let_def split: if_splits)

lemma Login_inv:
  assumes "auth_inv m" "Login en rq m = (m', r)"
  shows "auth_inv m'"
proof (cases "rq_Method rq = ''POST'' \<and> rq_credentials rq \<noteq> None")
  case False
  then show ?thesis
    using assms by (auto simp: Login_def split: if_splits option.splits)
next
  case True
  then obtain input where input: "rq_Method rq = ''POST''" "rq_credentials rq = Some input"
    by blast
  define key where "key = failureKey (en_crypto en) (en_trustProxy en) rq (c_Username input)"
  obtain m1 retry where b: "blocked (en_now en) key m = (m1, retry)"
    by fastforce
  have m1: "failures_inv m1" "au_db m1 = au_db m" "accounts_inv (au_db m)"
    using blocked_inv [of m "en_now en" key] assms(1) by (simp_all add: b auth_inv_def)
  then have new: "accounts_inv (fst (createSession (en_host en) (en_crypto en) (en_now en) rq (u_id u) (au_db m)))"
    if "find_user (trim_space (c_Username input)) (au_db m) = Some u" for u
    using createSession_inv find_user_in [OF that] by blast
  show ?thesis
    using assms(2) m1 new
    by (auto simp: Login_def input key_def [symmetric] b Let_def auth_inv_def recordFailure_inv clearFailures_inv
        split: option.splits prod.splits if_splits)
qed

lemma ChangePassword_inv:
  assumes "auth_inv m" "ChangePassword en rq m = (m', r)"
  shows "auth_inv m'"
proof -
  obtain d0 found where a: "authenticate (en_host en) (en_crypto en) (en_now en) rq (au_db m) = (d0, found)"
    by fastforce
  have m0: "failures_inv (m\<lparr>au_db := d0\<rparr>)" "accounts_inv d0"
    using assms(1) authenticate_inv [of "au_db m" "en_host en" "en_crypto en" "en_now en" rq] by (simp_all add: auth_inv_def a)
  have step: "failures_inv m1 \<and> accounts_inv (au_db m1)" if "blocked now key (m\<lparr>au_db := d0\<rparr>) = (m1, retry)" for now key m1 retry
    using blocked_inv [OF m0(1), of now key] m0(2) by (simp add: that)
  show ?thesis
    using assms m0 unfolding ChangePassword_def a prod.case Let_def auth_inv_def
    by (auto simp: recordFailure_inv clearFailures_inv change_password_inv dest!: step
        split: if_splits option.splits sum.splits prod.splits)
qed

lemma auth_step_inv: "auth_step m m' \<Longrightarrow> auth_inv m \<Longrightarrow> auth_inv m'"
  by (induction rule: auth_step.induct) (blast intro: Status_inv Setup_inv Login_inv Logout_inv ChangePassword_inv Require_inv)+

definition fresh_auth :: "string \<Rightarrow> auth" where
  "fresh_auth role = \<lparr>au_db = \<lparr>users = [], auth_sessions = [], last_user_id = 0, redundancy_role = Some role, onboarding_completed = None\<rparr>,
     failures = [], nextFailurePrune = zero_time\<rparr>"

text \<open>
  C24. Whatever requests arrive, in whatever order and at whatever times: there is never more than one account,
  every session belongs to it, no two sessions share a token, and the table of login failures never holds more
  than 4096 entries, so a flood of unknown names cannot exhaust the memory.
\<close>

theorem auth_reachable_inv:
  assumes "auth_step\<^sup>*\<^sup>* (fresh_auth role) m"
  shows "length (users (au_db m)) \<le> 1 \<and> as_user_id ` set (auth_sessions (au_db m)) \<subseteq> u_id ` set (users (au_db m)) \<and>
    distinct (map as_token_hash (auth_sessions (au_db m))) \<and> length (failures m) \<le> maxFailureEntries"
proof -
  have "auth_inv m"
    using assms
  proof (induction rule: rtranclp_induct)
    case base
    then show ?case
      by (simp add: auth_inv_def failures_inv_def accounts_inv_def fresh_auth_def)
  qed (rule auth_step_inv)
  then show ?thesis
    by (simp add: auth_inv_def accounts_inv_def failures_inv_def)
qed

section \<open>Throttling\<close>

definition attempt :: "time \<Rightarrow> string \<Rightarrow> auth \<Rightarrow> auth \<times> bool" where
  "attempt now key m = (let (m1, retry) = blocked now key m in if retry = None then (recordFailure now key m1, True) else (m1, False))"

definition wrong_password :: "environment \<Rightarrow> request \<Rightarrow> bool" where
  "wrong_password en rq \<longleftrightarrow> rq_Method rq = ''POST'' \<and>
     (\<exists>input. rq_credentials rq = Some input \<and> (\<forall>password_hash. \<not> cr_compare (en_crypto en) password_hash (c_Password input)))"

definition login_key :: "environment \<Rightarrow> request \<Rightarrow> string" where
  "login_key en rq = failureKey (en_crypto en) (en_trustProxy en) rq (case rq_credentials rq of None \<Rightarrow> [] | Some input \<Rightarrow> c_Username input)"

lemma Login_wrong_password:
  assumes "wrong_password en rq"
  shows "fst (Login en rq m) = fst (attempt (en_now en) (login_key en rq) m)"
    "rp_status (snd (Login en rq m)) = (if snd (attempt (en_now en) (login_key en rq) m) then 401 else 429)"
  using assms
  by (auto simp: Login_def wrong_password_def login_key_def attempt_def Let_def writeError_def split: option.splits prod.splits)

text \<open>
  \<open>tracks m key c x t\<close>: as far as instants from \<open>t\<close> on can tell, the table counts \<open>c\<close> failures for the key, which expire
  at \<open>x\<close>; an entry that has expired may have been removed.
\<close>

definition counted :: "int \<Rightarrow> time \<Rightarrow> failureState" where
  "counted c x = \<lparr>fs_Count = c, fs_LockedUntil = (if c \<ge> maxFailures then x else zero_time), fs_ExpiresAt = x\<rparr>"

definition tracks :: "auth \<Rightarrow> string \<Rightarrow> int \<Rightarrow> time \<Rightarrow> time \<Rightarrow> bool" where
  "tracks m key c x t \<longleftrightarrow> failures_inv m \<and> (gm_get (failures m) key = Some (counted c x) \<or> gm_get (failures m) key = None \<and> x \<le> t)"

lemma tracks_prune: "tracks m key c x t0 \<Longrightarrow> t0 \<le> t \<Longrightarrow> tracks (pruneFailures t m) key c x t"
  using pruneFailures_inv [of m t]
  by (auto simp: tracks_def pruneFailures_def failures_inv_def gm_get_filter counted_def split: option.splits)

lemma tracks_del_other: "tracks m key c x t \<Longrightarrow> k \<noteq> key \<Longrightarrow> tracks (m\<lparr>failures := gm_del k (failures m)\<rparr>) key c x t"
  using failures_inv_del by (auto simp: tracks_def)

lemma tracks_drop_expired: "tracks m key c x t \<Longrightarrow> tracks (drop_expired t k m) key c x t"
proof (cases "k = key")
  case True
  then show "tracks m key c x t \<Longrightarrow> ?thesis"
    using drop_expired_inv(1) [of m t k] by (auto simp: tracks_def drop_expired_def counted_def split: option.splits if_splits)
next
  case False
  then show "tracks m key c x t \<Longrightarrow> ?thesis"
    using tracks_del_other by (simp add: drop_expired_def split: option.split)
qed

lemma recordFailure_get:
  assumes "m1 = pruneFailures t m" "gm_get (failures m1) k \<noteq> None \<or> length (failures m1) < maxFailureEntries"
  shows "gm_get (failures (recordFailure t k m)) k = Some (case gm_get (failures m1) k of
     None \<Rightarrow> \<lparr>fs_Count = 1, fs_LockedUntil = zero_time, fs_ExpiresAt = t + lockoutDuration\<rparr>
   | Some st \<Rightarrow> if t < fs_ExpiresAt st then
       \<lparr>fs_Count = fs_Count st + 1, fs_LockedUntil = (if fs_Count st + 1 \<ge> maxFailures then t + lockoutDuration else fs_LockedUntil st),
        fs_ExpiresAt = t + lockoutDuration\<rparr>
     else \<lparr>fs_Count = 1, fs_LockedUntil = zero_time, fs_ExpiresAt = t + lockoutDuration\<rparr>)"
proof -
  have "\<not> (gm_get (failures m1) k = None \<and> length (failures m1) \<ge> maxFailureEntries)"
    using assms(2) by auto
  then show ?thesis
    unfolding recordFailure_def Let_def assms(1) [symmetric]
    by (auto simp: no_failure_def maxFailures_def split: option.split)
qed

lemma recordFailure_get_other: "k \<noteq> key \<Longrightarrow> gm_get (failures (recordFailure t k m)) key = gm_get (failures (pruneFailures t m)) key"
  by (simp add: recordFailure_def Let_def)

lemma attempt_other:
  assumes "tracks m key c x t0" "t0 \<le> t" "k \<noteq> key"
  shows "tracks (fst (attempt t k m)) key c x t"
proof -
  have "tracks (fst (blocked t k m)) key c x t"
    using blocked_state [of t k m] tracks_drop_expired [OF tracks_prune [OF assms(1,2)]] tracks_del_other assms(3)
    by (auto simp: clearFailures_def)
  moreover have "tracks (recordFailure t k m') key c x t" if "tracks m' key c x t" for m'
    using tracks_prune [OF that order_refl] recordFailure_inv that assms(3) by (simp add: tracks_def recordFailure_get_other)
  ultimately show ?thesis
    by (simp add: attempt_def split_def Let_def)
qed

lemma pruneFailures_length: "length (failures (pruneFailures t m)) \<le> length (failures m)"
  by (simp add: pruneFailures_def)

lemma blocked_own:
  assumes "tracks m key c x t0" "t0 \<le> t" "zero_time \<le> t"
  obtains (locked) m2 s where "blocked t key m = (m2, Some s)" "tracks m2 key c x t"
  | (counting) m2 where "blocked t key m = (m2, None)" "failures_inv m2" "gm_get (failures m2) key = Some (counted c x)" "t < x" "c < maxFailures"
  | (fresh) m2 where "blocked t key m = (m2, None)" "failures_inv m2" "gm_get (failures m2) key = None" "x \<le> t" "length (failures m2) < maxFailureEntries"
proof -
  define m2 where "m2 = drop_expired t key (pruneFailures t m)"
  have tr: "tracks m2 key c x t"
    using tracks_drop_expired [OF tracks_prune [OF assms(1,2)]] by (simp add: m2_def)
  have live: "t < x" if "gm_get (failures m2) key = Some (counted c x)"
    using that by (auto simp: m2_def drop_expired_def counted_def split: option.splits if_splits)
  show ?thesis
  proof (cases "gm_get (failures m2) key")
    case None
    then have "x \<le> t" "failures_inv m2"
      using tr by (simp_all add: tracks_def)
    then show ?thesis
      using None tr locked fresh assms(3)
      by (cases "length (failures m2) < maxFailureEntries") (auto simp: blocked_def m2_def [symmetric] Let_def no_failure_def)
  next
    case (Some st)
    then have st: "st = counted c x" "failures_inv m2" "t < x"
      using tr live by (auto simp: tracks_def)
    show ?thesis
    proof (cases "c < maxFailures")
      case True
      then show ?thesis
        using Some st counting assms(3) by (auto simp: blocked_def m2_def [symmetric] Let_def counted_def)
    next
      case False
      then show ?thesis
        using Some st locked tr by (auto simp: blocked_def m2_def [symmetric] Let_def counted_def)
    qed
  qed
qed

lemma attempt_own:
  assumes "tracks m key c x t0" "t0 \<le> t" "zero_time \<le> t" "attempt t key m = (m', compared)"
  shows "if compared then (t < x \<longrightarrow> c < maxFailures) \<and> tracks m' key (if t < x then c + 1 else 1) (t + lockoutDuration) t
    else tracks m' key c x t"
  using assms(1-3)
proof (cases rule: blocked_own)
  case (locked m2 s)
  then show ?thesis
    using assms(4) by (simp add: attempt_def)
next
  case (counting m2)
  have "tracks m2 key c x t"
    using counting by (simp add: tracks_def)
  then have "gm_get (failures (pruneFailures t m2)) key = Some (counted c x)"
    using tracks_prune [of m2 key c x t t] counting(4) by (auto simp: tracks_def)
  then have "gm_get (failures (recordFailure t key m2)) key = Some (counted (c + 1) (t + lockoutDuration))"
    using recordFailure_get [OF refl, of t m2 key] counting(4,5) by (simp add: counted_def)
  then show ?thesis
    using assms(4) counting recordFailure_inv by (auto simp: attempt_def tracks_def)
next
  case (fresh m2)
  have "tracks m2 key c x t"
    using fresh by (simp add: tracks_def)
  then have "gm_get (failures (pruneFailures t m2)) key = None"
    using tracks_prune [of m2 key c x t t] fresh(3) by (auto simp: tracks_def pruneFailures_def map_of_eq_None_iff)
  then have "gm_get (failures (recordFailure t key m2)) key = Some (counted 1 (t + lockoutDuration))"
    using recordFailure_get [OF refl, of t m2 key] pruneFailures_length [of t m2] fresh(5) by (simp add: counted_def maxFailures_def)
  then show ?thesis
    using assms(4) fresh recordFailure_inv by (auto simp: attempt_def tracks_def)
qed

text \<open>The limiter without a table: \<open>c\<close> failures count until \<open>x\<close>, and a sixth one before that is not accepted.\<close>

fun limited :: "int \<Rightarrow> time \<Rightarrow> time list \<Rightarrow> bool" where
  "limited c x [] = True"
| "limited c x (t # ts) = (if t < x then c < maxFailures \<and> limited (c + 1) (t + lockoutDuration) ts else limited 1 (t + lockoutDuration) ts)"

fun rejected :: "string \<Rightarrow> (environment \<times> request) list \<Rightarrow> auth \<Rightarrow> time list" where
  "rejected key [] m = []"
| "rejected key ((en, rq) # es) m =
     (let (m', r) = Login en rq m; rest = rejected key es m' in
      if rp_status r = 401 \<and> login_key en rq = key then en_now en # rest else rest)"

definition chronological :: "(environment \<times> request) list \<Rightarrow> bool" where
  "chronological es \<longleftrightarrow> sorted (map (\<lambda>(en, rq). en_now en) es) \<and> list_all (\<lambda>(en, rq). zero_time \<le> en_now en) es"

lemma rejected_limited:
  assumes "list_all (\<lambda>(en, rq). wrong_password en rq) es" "chronological es" "tracks m key c x t0"
    "\<forall>(en, rq) \<in> set es. t0 \<le> en_now en"
  shows "limited c x (rejected key es m)"
  using assms
proof (induction key es m arbitrary: c x t0 rule: rejected.induct)
  case (2 key en rq es m)
  define t k where "t = en_now en" and "k = login_key en rq"
  obtain m' compared where a: "attempt t k m = (m', compared)"
    by fastforce
  have login: "fst (Login en rq m) = m'" "rp_status (snd (Login en rq m)) = (if compared then 401 else 429)"
    using Login_wrong_password [of en rq m] 2(2) a by (simp_all add: t_def k_def)
  have es: "list_all (\<lambda>(en, rq). wrong_password en rq) es" "chronological es" "\<forall>(en, rq) \<in> set es. t \<le> en_now en"
      "t0 \<le> t" "zero_time \<le> t"
    using 2(2,3,5) by (auto simp: chronological_def t_def)
  have "(m', snd (Login en rq m)) = Login en rq m"
    using login(1) by (metis prod.collapse)
  then have ih: "limited c' x' (rejected key es m')" if "tracks m' key c' x' t" for c' x'
    using 2(1) [OF refl _ es(1,2) that es(3)] by blast
  show ?case
  proof (cases "k = key")
    case True
    then show ?thesis
      using attempt_own [OF 2(4) es(4,5), of m' compared] a ih login
      by (auto simp: split_def Let_def t_def k_def split: if_splits)
  next
    case False
    then show ?thesis
      using attempt_other [OF 2(4) es(4) False] a ih login by (simp add: split_def Let_def k_def)
  qed
qed simp

lemma limited_gap:
  assumes "limited c x ts" "c + int j \<ge> maxFailures" "j < length ts"
  shows "\<exists>i \<le> j. (if i = 0 then x else ts ! (i - 1) + lockoutDuration) \<le> ts ! i"
  using assms
proof (induction c x ts arbitrary: j rule: limited.induct)
  case (2 c x t ts)
  show ?case
  proof (cases "t < x")
    case False
    then show ?thesis
      by (intro exI [of _ 0]) simp
  next
    case True
    then obtain j' where j: "j = Suc j'"
      using 2(3,4) by (cases j) auto
    have "\<exists>i \<le> j'. (if i = 0 then t + lockoutDuration else ts ! (i - 1) + lockoutDuration) \<le> ts ! i"
      using 2(1) [OF True, of j'] 2(3-5) True by (simp add: j)
    then obtain i where "i \<le> j'" "(if i = 0 then t + lockoutDuration else ts ! (i - 1) + lockoutDuration) \<le> ts ! i"
      by blast
    then show ?thesis
      by (intro exI [of _ "Suc i"]) (auto simp: j nth_Cons' split: if_splits)
  qed
qed simp

lemma limited_drop: "limited c x ts \<Longrightarrow> 0 \<le> c \<Longrightarrow> i < length ts \<Longrightarrow> \<exists>c' \<ge> 1. limited c' (ts ! i + lockoutDuration) (drop (Suc i) ts)"
proof (induction ts arbitrary: c x i)
  case (Cons t ts)
  obtain c' where c': "1 \<le> c'" "limited c' (t + lockoutDuration) ts"
    using Cons.prems(1,2) by (cases "t < x") (auto intro: that [of "c + 1"] that [of 1])
  show ?case
  proof (cases i)
    case 0
    then show ?thesis
      using c' by auto
  next
    case (Suc n)
    then show ?thesis
      using Cons.IH [OF c'(2), of n] c'(1) Cons.prems(3) by simp
  qed
qed simp

lemma limited_spacing:
  assumes "limited c x ts" "0 \<le> c" "sorted ts" "i + 5 < length ts"
  shows "ts ! i + lockoutDuration \<le> ts ! (i + 5)"
proof -
  define us where "us = drop (Suc i) ts"
  obtain c' where c': "1 \<le> c'" "limited c' (ts ! i + lockoutDuration) us"
    using limited_drop [OF assms(1,2), of i] assms(4) by (auto simp: us_def)
  obtain k where k: "k \<le> 4" "(if k = 0 then ts ! i + lockoutDuration else us ! (k - 1) + lockoutDuration) \<le> us ! k"
  proof -
    have "maxFailures \<le> c' + int 4" "4 < length us"
      using c'(1) assms(4) by (auto simp: us_def maxFailures_def)
    then show thesis
      using limited_gap [OF c'(2)] that by blast
  qed
  have "us ! n = ts ! (Suc i + n)" if "n \<le> 4" for n
    using that assms(4) by (simp add: us_def)
  then have "ts ! i + lockoutDuration \<le> ts ! (Suc i + k)"
    using k sorted_nth_mono [OF assms(3), of i "i + k"] assms(4) by (cases k) auto
  also have "\<dots> \<le> ts ! (i + 5)"
    using k(1) assms(3,4) by (intro sorted_nth_mono) auto
  finally show ?thesis .
qed

lemma rejected_sorted:
  "chronological es \<Longrightarrow> sorted (rejected key es m) \<and> set (rejected key es m) \<subseteq> (\<lambda>(en, rq). en_now en) ` set es"
proof (induction key es m rule: rejected.induct)
  case (2 key en rq es m)
  obtain m' r where r: "Login en rq m = (m', r)"
    by fastforce
  have "chronological es"
    using 2(2) by (simp add: chronological_def)
  then have "sorted (rejected key es m')" "set (rejected key es m') \<subseteq> (\<lambda>(en, rq). en_now en) ` set es"
    using 2(1) [OF refl r [symmetric]] by auto
  moreover have "\<forall>t \<in> (\<lambda>(en, rq). en_now en) ` set es. en_now en \<le> t"
    using 2(2) by (auto simp: chronological_def)
  ultimately show ?case
    by (auto simp: r Let_def)
qed simp


subsection \<open>Six guesses\<close>

definition blank_request :: request where
  "blank_request = \<lparr>rq_Method = ''POST'', rq_Path = ''/api/auth/login'', rq_cookie = None, rq_credentials = None, rq_change = None,
     rq_RemoteHost = ''10.0.0.9'', rq_RealIP = [], rq_TLS = False, rq_ForwardedProto = []\<rparr>"

definition guess :: request where
  "guess = blank_request\<lparr>rq_credentials := Some \<lparr>c_Username = ''admin'', c_Password = ''guess''\<rparr>\<rparr>"

definition toy_crypto :: crypto where
  "toy_crypto = \<lparr>cr_compare = \<lambda>hash password. hash = ''bcrypt:'' @ password, cr_generate = \<lambda>password. Some (''bcrypt:'' @ password),
     cr_token = Some ''token'', cr_sha256 = \<lambda>text. ''sha:'' @ text, cr_dummy = []\<rparr>"

definition at_time :: "time \<Rightarrow> environment" where
  "at_time t = \<lparr>en_host = \<lparr>load_location = utc_only, julianday = \<lambda>_. None, sql_datetime = \<lambda>_. None\<rparr>, en_crypto = toy_crypto\<lparr>cr_compare := \<lambda>_ _. False\<rparr>,
     en_trustProxy = False, en_now = t\<rparr>"

definition guesses :: "(environment \<times> request) list" where
  "guesses = map (\<lambda>t. (at_time t, guess)) [0, 1, 2, 3, 4, 5, 4 + lockoutDuration]"

lemma guesses_rejected: "rejected (login_key (at_time 0) guess) guesses (fresh_auth ''standalone'') = [0, 1, 2, 3, 4, 4 + lockoutDuration]"
  by code_simp


lemma fresh_login_step: "auth_step (fresh_auth role) (fst (Login en rq (fresh_auth role)))"
  by (rule login_step [OF prod.collapse [symmetric]])

theorem auth_reachable_inv_witness:
  "length (failures (fst (Login (at_time 0) guess (fresh_auth ''standalone'')))) \<le> maxFailureEntries"
  using auth_reachable_inv [OF r_into_rtranclp [where r = auth_step, OF fresh_login_step]] by blast

section \<open>Sessions\<close>

lemma createSession_Some:
  assumes "createSession h cr now rq userID d0 = (d, Some ck)"
  obtains old where "users d = users d0" "cr_sha256 cr (ck_Value ck) \<notin> as_token_hash ` set old" "old = filter (session_kept h now) (auth_sessions d0)"
    "auth_sessions d = old @ [\<lparr>as_user_id = userID, as_token_hash = cr_sha256 cr (ck_Value ck),
       as_expires_at = format_rfc3339 (now + sessionLifetime), as_last_seen_at = format_datetime now\<rparr>]"
  using assms by (auto simp: createSession_def Let_def split: option.splits if_splits)

lemma session_authenticates:
  assumes "createSession h cr now rq userID d0 = (d, Some ck)" "ck_Value ck \<noteq> []"
    "rq_cookie rq' = Some (ck_Value ck)" "List.find (\<lambda>u. u_id u = userID) (users d0) = Some u"
    "after_datetime h (format_rfc3339 (now + sessionLifetime)) (format_rfc3339 t)"
  shows "snd (authenticate h cr t rq' d) = Some \<lparr>su_ID = u_id u, su_Username = u_username u\<rparr>"
proof -
  define token where "token = ck_Value ck"
  obtain old where d: "users d = users d0" "cr_sha256 cr token \<notin> as_token_hash ` set old"
      "auth_sessions d = old @ [\<lparr>as_user_id = userID, as_token_hash = cr_sha256 cr token,
         as_expires_at = format_rfc3339 (now + sessionLifetime), as_last_seen_at = format_datetime now\<rparr>]"
    using createSession_Some [OF assms(1)] unfolding token_def by blast
  define P where "P = (\<lambda>s :: auth_session. as_token_hash s = cr_sha256 cr token \<and> after_datetime h (as_expires_at s) (format_rfc3339 t))"
  have "List.find P old = None"
    using d(2) unfolding find_None_iff P_def by (metis image_eqI)
  moreover have "P \<lparr>as_user_id = userID, as_token_hash = cr_sha256 cr token, as_expires_at = format_rfc3339 (now + sessionLifetime),
       as_last_seen_at = format_datetime now\<rparr>"
    using assms(5) by (simp add: P_def)
  moreover have find_app: "List.find P (xs @ [y]) = (if List.find P xs = None then (if P y then Some y else None) else List.find P xs)" for xs y
    by (induction xs) auto
  ultimately have "List.find P (auth_sessions d) = Some \<lparr>as_user_id = userID, as_token_hash = cr_sha256 cr token,
       as_expires_at = format_rfc3339 (now + sessionLifetime), as_last_seen_at = format_datetime now\<rparr>"
    by (simp add: d(3))
  then have "session_user h t (cr_sha256 cr token) d \<noteq> None" "snd (the (session_user h t (cr_sha256 cr token) d)) = u"
    using assms(4) d(1) by (simp_all add: session_user_def P_def [symmetric])
  then show ?thesis
    using assms(2,3) by (auto simp: authenticate_def token_def)
qed

lemma one_user: "length (users d) \<le> 1 \<Longrightarrow> u \<in> set (users d) \<Longrightarrow> users d = [u]"
  by (cases "users d") auto

lemma Login_200:
  assumes "Login en rq m = (m', r)" "rp_status r = 200" "auth_inv m"
  obtains u ck where "users (au_db m) = [u]" "rp_username r = Some (u_username u)" "rp_cookie r = Some ck"
    "createSession (en_host en) (en_crypto en) (en_now en) rq (u_id u) (au_db m) = (au_db m', Some ck)"
proof -
  obtain input where input: "rq_Method rq = ''POST''" "rq_credentials rq = Some input"
    using assms(1,2) by (auto simp: Login_def methodNotAllowed_def writeError_def split: if_splits option.splits)
  define key where "key = failureKey (en_crypto en) (en_trustProxy en) rq (c_Username input)"
  obtain m1 retry where b: "blocked (en_now en) key m = (m1, retry)"
    by fastforce
  have m1: "au_db m1 = au_db m"
    using blocked_inv(2) [of m "en_now en" key] assms(3) by (simp add: b auth_inv_def)
  have run: "retry = None" "\<exists>u. find_user (trim_space (c_Username input)) (au_db m) = Some u"
    using assms(1,2) by (auto simp: Login_def input key_def [symmetric] b m1 Let_def writeError_def split: option.splits)
  then obtain u where u: "find_user (trim_space (c_Username input)) (au_db m) = Some u"
    by blast
  then have "users (au_db m) = [u]"
    using assms(3) unfolding find_user_def by (intro one_user) (auto simp: auth_inv_def accounts_inv_def dest!: find_Some_in)
  then show ?thesis
    using that [of u] assms(1,2) run(1) u
    by (auto simp: Login_def input key_def [symmetric] b m1 Let_def writeError_def writeOk_def split: if_splits option.splits prod.splits)
qed

text \<open>
  A successful login opens a session that works: the cookie of the reply identifies the account that logged in, on
  every request that carries it, as long as the stored time, seven days after the login, is later for SQLite than
  the time of the request; the random token must not be empty.
\<close>

theorem login_opens_session:
  assumes "Login en rq m = (m', r)" "rp_status r = 200" "auth_inv m" "cr_token (en_crypto en) \<noteq> Some []"
  shows "\<exists>ck u. rp_cookie r = Some ck \<and> rp_username r = Some (u_username u) \<and> u \<in> set (users (au_db m)) \<and>
    (\<forall>rq' t. rq_cookie rq' = Some (ck_Value ck) \<and> after_datetime (en_host en) (format_rfc3339 (en_now en + sessionLifetime)) (format_rfc3339 t) \<longrightarrow>
       snd (authenticate (en_host en) (en_crypto en) t rq' (au_db m')) = Some \<lparr>su_ID = u_id u, su_Username = u_username u\<rparr>)"
proof -
  obtain u ck where u: "users (au_db m) = [u]" "rp_username r = Some (u_username u)" "rp_cookie r = Some ck"
    "createSession (en_host en) (en_crypto en) (en_now en) rq (u_id u) (au_db m) = (au_db m', Some ck)"
    using Login_200 [OF assms(1-3)] .
  have "ck_Value ck \<noteq> []"
    using u(4) assms(4) by (auto simp: createSession_def Let_def split: option.splits if_splits)
  then show ?thesis
    using session_authenticates [OF u(4)] u(1-3) by (intro exI [of _ ck] exI [of _ u]) simp
qed

text \<open>
  C25. Behind the gate there is always a session: once an account exists, a request to a path that is not public
  is only forwarded with a cookie whose hash belongs to a session that has not expired, and with the account of
  that session.
\<close>

theorem Require_protects:
  assumes "snd (Require en rq m) = Forward who" "\<not> is_public rq" "configured (au_db m)"
  shows "\<exists>token s u. rq_cookie rq = Some token \<and> s \<in> set (auth_sessions (au_db m)) \<and> as_token_hash s = cr_sha256 (en_crypto en) token \<and>
    after_datetime (en_host en) (as_expires_at s) (format_rfc3339 (en_now en)) \<and> u \<in> set (users (au_db m)) \<and> u_id u = as_user_id s \<and>
    who = Some \<lparr>su_ID = u_id u, su_Username = u_username u\<rparr>"
proof -
  obtain d su where a: "authenticate (en_host en) (en_crypto en) (en_now en) rq (au_db m) = (d, Some su)" "who = Some su"
    using assms by (auto simp: Require_def split_def Let_def split: option.splits) (metis prod.collapse)
  then obtain token s u where token: "rq_cookie rq = Some token" "session_user (en_host en) (en_now en) (cr_sha256 (en_crypto en) token) (au_db m) = Some (s, u)"
      "su = \<lparr>su_ID = u_id u, su_Username = u_username u\<rparr>"
    by (auto simp: authenticate_def split: option.splits if_splits)
  then show ?thesis
    using a(2) by (fastforce simp: session_user_def split: option.splits dest!: find_Some_in)
qed

text \<open>
  Logging out ends the session: after \<open>Logout\<close>, a request with the same cookie is not authenticated any more, at
  any time.
\<close>

theorem Logout_ends_session:
  assumes "rq_Method rq = ''POST''" "rq_cookie rq' = rq_cookie rq"
  shows "snd (authenticate h (en_crypto en) t rq' (au_db (fst (Logout en rq m)))) = None"
proof -
  have "session_user h t x (delete_session x d) = None" for x d
    by (auto simp: session_user_def delete_session_def find_None_iff split: option.split dest!: find_Some_in)
  then show ?thesis
    using assms by (auto simp: Logout_def authenticate_def Let_def split: option.splits)
qed

lemma change_errors: "change_request rq = Inl r \<Longrightarrow> rp_status r \<noteq> 200" "change_token en rq input = Inl r \<Longrightarrow> rp_status r \<noteq> 200"
  by (auto simp: change_request_def change_token_def err_iff writeError_def split: option.splits)


subsection \<open>An owner\<close>

definition owner_env :: environment where
  "owner_env = \<lparr>en_host = \<lparr>load_location = utc_only, julianday = \<lambda>_. None, sql_datetime = \<lambda>s. map_option (\<lambda>t. t div second) (parse_rfc3339 s)\<rparr>,
     en_crypto = toy_crypto, en_trustProxy = False, en_now = 0\<rparr>"

definition owner :: user where
  "owner = \<lparr>u_id = 1, u_username = ''admin'', u_password_hash = ''bcrypt:correct horse''\<rparr>"

definition owned :: "auth_session list \<Rightarrow> auth" where
  "owned sessions = (fresh_auth ''standalone'')\<lparr>au_db := \<lparr>users = [owner], auth_sessions = sessions, last_user_id = 1,
     redundancy_role = Some ''standalone'', onboarding_completed = None\<rparr>\<rparr>"

definition week_session :: "string \<Rightarrow> auth_session" where
  "week_session token = \<lparr>as_user_id = 1, as_token_hash = ''sha:'' @ token, as_expires_at = ''1970-01-08T00:00:00Z'', as_last_seen_at = ''1970-01-01 00:00:00''\<rparr>"

definition good_login :: request where
  "good_login = blank_request\<lparr>rq_credentials := Some \<lparr>c_Username = '' Admin '', c_Password = ''correct horse''\<rparr>\<rparr>"

lemma owned_inv: "auth_inv (owned [])" "auth_inv (owned [week_session ''token'', week_session ''other''])"
  by (simp_all add: auth_inv_def failures_inv_def accounts_inv_def owned_def fresh_auth_def week_session_def owner_def)

lemma calendar:
  "pad 4 1970 = ''1970''" "pad 2 (Suc 0) = ''01''" "pad 2 1 = ''01''" "pad 2 8 = ''08''" "pad 2 0 = ''00''" "pad 2 5 = ''05''"
  "civil_from_days 7 = (1970, 1, 8)" "civil_from_days 0 = (1970, 1, 1)"
  by code_simp+

lemma week_later:
  "format_rfc3339 (en_now owner_env + sessionLifetime) = ''1970-01-08T00:00:00Z''" "format_rfc3339 (5 * hour) = ''1970-01-01T05:00:00Z''"
proof -
  have "(en_now owner_env + sessionLifetime) div second = 604800" "(5 * hour) div second = 18000"
    by (simp_all add: owner_env_def sessionLifetime_def duration_defs)
  then show "format_rfc3339 (en_now owner_env + sessionLifetime) = ''1970-01-08T00:00:00Z''" "format_rfc3339 (5 * hour) = ''1970-01-01T05:00:00Z''"
    by (simp_all add: format_rfc3339_def format_with_def calendar)
qed

lemma week_parsed:
  "parse_rfc3339 ''1970-01-08T00:00:00Z'' = Some (604800 * second)" "parse_rfc3339 ''1970-01-01T05:00:00Z'' = Some (18000 * second)"
  by (simp_all add: parse_rfc3339_def year4_def cut_prefix_def field_def getnum_def digits_value_def digit_value_def is_digit_def
      zone_offset_def fraction_def days_from_civil_def days_in_def leap_year_def Let_def)

theorem login_opens_session_witness:
  "\<exists>m' r ck. Login owner_env good_login (owned []) = (m', r) \<and> rp_cookie r = Some ck \<and>
     snd (authenticate (en_host owner_env) toy_crypto (5 * hour) (blank_request\<lparr>rq_cookie := Some (ck_Value ck)\<rparr>) (au_db m')) =
       Some \<lparr>su_ID = 1, su_Username = ''admin''\<rparr>"
proof -
  obtain m' r where run: "Login owner_env good_login (owned []) = (m', r)"
    by fastforce
  have "rp_status (snd (Login owner_env good_login (owned []))) = 200"
    by code_simp
  then have status: "rp_status r = 200"
    by (simp add: run)
  have later: "after_datetime (en_host owner_env) (format_rfc3339 (en_now owner_env + sessionLifetime)) (format_rfc3339 (5 * hour))"
    unfolding week_later by (simp add: after_datetime_def owner_env_def week_parsed second_def)
  have token: "cr_token (en_crypto owner_env) \<noteq> Some []"
    by (simp add: owner_env_def toy_crypto_def)
  obtain ck u where ck: "rp_cookie r = Some ck" "u \<in> set (users (au_db (owned [])))"
      "\<forall>rq' t. rq_cookie rq' = Some (ck_Value ck) \<and> after_datetime (en_host owner_env) (format_rfc3339 (en_now owner_env + sessionLifetime)) (format_rfc3339 t) \<longrightarrow>
         snd (authenticate (en_host owner_env) (en_crypto owner_env) t rq' (au_db m')) = Some \<lparr>su_ID = u_id u, su_Username = u_username u\<rparr>"
    using login_opens_session [OF run status owned_inv(1) token] by blast
  have "rq_cookie (blank_request\<lparr>rq_cookie := Some (ck_Value ck)\<rparr>) = Some (ck_Value ck)" "u = owner" "en_crypto owner_env = toy_crypto"
    using ck(2) by (simp_all add: owned_def owner_env_def)
  then show ?thesis
    using run ck(1) ck(3) [rule_format, OF conjI [OF _ later]] by (auto simp: owner_def)
qed

definition settings_request :: request where
  "settings_request = blank_request\<lparr>rq_Path := ''/api/settings'', rq_cookie := Some ''token''\<rparr>"

theorem Require_protects_witness:
  "snd (Require owner_env settings_request (owned [week_session ''token''])) = Forward (Some \<lparr>su_ID = 1, su_Username = ''admin''\<rparr>) \<and>
   (\<exists>s \<in> set (auth_sessions (au_db (owned [week_session ''token'']))). as_token_hash s = cr_sha256 (en_crypto owner_env) ''token'')"
proof -
  have "snd (Require owner_env settings_request (owned [week_session ''token''])) = Forward (Some \<lparr>su_ID = 1, su_Username = ''admin''\<rparr>)"
      "\<not> is_public settings_request" "configured (au_db (owned [week_session ''token'']))" "rq_cookie settings_request = Some ''token''"
    by code_simp+
  then show ?thesis
    using Require_protects by fastforce
qed

theorem Logout_ends_session_witness:
  "snd (authenticate (en_host owner_env) (en_crypto owner_env) 0 settings_request
     (au_db (fst (Logout owner_env settings_request (owned [week_session ''token'']))))) = None"
  by (rule Logout_ends_session) (simp_all add: settings_request_def blank_request_def)

definition new_password :: request where
  "new_password = blank_request\<lparr>rq_cookie := Some ''token'', rq_change := Some \<lparr>pc_Current = ''correct horse'', pc_New = ''battery staple''\<rparr>\<rparr>"


end
