(* ===== verification/Activity_Storage.thy ===== *)
theory Activity_Storage
  imports Faro_Store
begin

text \<open>
  The best-effort path of the query history (\<^verbatim>\<open>internal/db/activity.go\<close>): a state beside the database that
  remembers a failed write, names its kind and holds back further writes until a retry time. The theory
  also fixes how a statement of the database is executed where failures matter: \<open>sqlite\<close> says for the
  \<open>n\<close>-th statement whether it fails and what the clock shows then, and a statement that fails leaves the
  database as it was, which is what SQLite documents for a single statement.
\<close>

section \<open>The state of the history\<close>

datatype sql_error = Sql_Error (sql_full: bool) (sql_message: string)

record ActivityStorageStatus =
  st_Status :: string
  st_Reason :: string
  st_LastError :: string
  st_LastFailureAt :: string

record activityStorageState =
  as_status :: ActivityStorageStatus
  as_retryAt :: time

definition ActivityStorageHealthy :: string where
  "ActivityStorageHealthy = ''healthy''"

definition ActivityStoragePaused :: string where
  "ActivityStoragePaused = ''paused''"

definition ActivityStorageDegraded :: string where
  "ActivityStorageDegraded = ''degraded''"

definition activityRetryDelay :: int where
  "activityRetryDelay = 30 * second"

lemmas activity_names = ActivityStorageHealthy_def ActivityStoragePaused_def ActivityStorageDegraded_def

definition reported_status :: "activityStorageState \<Rightarrow> ActivityStorageStatus" where
  "reported_status a = (if st_Status (as_status a) = '''' then (as_status a)\<lparr>st_Status := ActivityStorageHealthy\<rparr> else as_status a)"

definition ActivityStorageWriteAllowed :: "time \<Rightarrow> activityStorageState \<Rightarrow> bool" where
  "ActivityStorageWriteAllowed now a \<longleftrightarrow>
     st_Status (as_status a) = '''' \<or> st_Status (as_status a) = ActivityStorageHealthy \<or> as_retryAt a < now"

definition contains_text :: "string \<Rightarrow> string \<Rightarrow> bool" where
  "contains_text part s \<longleftrightarrow> index_of part s \<noteq> None"

definition isDiskFullError :: "sql_error \<Rightarrow> bool" where
  "isDiskFullError e \<longleftrightarrow> sql_full e \<or>
     (let message = to_lower (sql_message e) in
      contains_text ''disk is full'' message \<or>
      contains_text ''no space left on device'' message \<or>
      contains_text ''not enough space'' message)"

definition truncateActivityError :: "string \<Rightarrow> string" where
  "truncateActivityError v = (let v = trim_space v in if length v \<le> 500 then v else take 500 v)"

definition ReportActivityWriteFailure :: "time \<Rightarrow> sql_error \<Rightarrow> activityStorageState" where
  "ReportActivityWriteFailure now e =
     (let full = isDiskFullError e in
      \<lparr>as_status =
         \<lparr>st_Status = (if full then ActivityStoragePaused else ActivityStorageDegraded),
          st_Reason = (if full then ''Insufficient disk space'' else ''Database write failed''),
          st_LastError = truncateActivityError (sql_message e),
          st_LastFailureAt = format_rfc3339 now\<rparr>,
       as_retryAt = now + (if full then activityRetryDelay else 5 * second)\<rparr>)"

definition ReportActivityWriteSuccess :: activityStorageState where
  "ReportActivityWriteSuccess =
     \<lparr>as_status = \<lparr>st_Status = ActivityStorageHealthy, st_Reason = '''', st_LastError = '''', st_LastFailureAt = ''''\<rparr>,
      as_retryAt = zero_time\<rparr>"

section \<open>Statements that can fail\<close>

text \<open>
  \<open>sq_affected\<close> is an error of \<^verbatim>\<open>RowsAffected\<close> after a statement that was executed, \<open>sq_pages\<close> the page
  count, page size and number of free pages, and \<open>sq_order\<close> the order in which \<^verbatim>\<open>range\<close> visits the keys of a
  Go map.
\<close>

record sqlite =
  sq_host :: host
  sq_fails :: "nat \<Rightarrow> sql_error option"
  sq_affected :: "nat \<Rightarrow> sql_error option"
  sq_now :: "nat \<Rightarrow> time"
  sq_pages :: "nat \<Rightarrow> int \<times> int \<times> int"
  sq_order :: "string list \<Rightarrow> string list"

record archive =
  ar_store :: Store
  ar_activity :: activityStorageState
  ar_calls :: nat

type_synonym 'a action = "archive \<Rightarrow> archive \<times> (sql_error + 'a)"

definition clock :: "sqlite \<Rightarrow> archive \<Rightarrow> time" where
  "clock q a = sq_now q (ar_calls a)"

definition exec :: "sqlite \<Rightarrow> (Store \<Rightarrow> Store \<times> 'a) \<Rightarrow> 'a action" where
  "exec q f a = (let a' = a\<lparr>ar_calls := Suc (ar_calls a)\<rparr> in
     case sq_fails q (ar_calls a) of
       Some e \<Rightarrow> (a', Inl e)
     | None \<Rightarrow> (case f (ar_store a) of (s', r) \<Rightarrow> (a'\<lparr>ar_store := s'\<rparr>, Inr r)))"

definition query :: "sqlite \<Rightarrow> (Store \<Rightarrow> 'a) \<Rightarrow> 'a action" where
  "query q f = exec q (\<lambda>s. (s, f s))"

definition and_then :: "'a action \<Rightarrow> ('a \<Rightarrow> 'b action) \<Rightarrow> 'b action" where
  "and_then m k a = (case m a of (a', Inl e) \<Rightarrow> (a', Inl e) | (a', Inr x) \<Rightarrow> k x a')"

definition return :: "'a \<Rightarrow> 'a action" where
  "return x a = (a, Inr x)"

definition report_failure :: "sqlite \<Rightarrow> 'a action \<Rightarrow> 'a action" where
  "report_failure q m a = (case m a of
     (a', Inl e) \<Rightarrow> (a'\<lparr>ar_activity := ReportActivityWriteFailure (clock q a') e\<rparr>, Inl e)
   | r \<Rightarrow> r)"

section \<open>What a statement keeps\<close>

text \<open>
  \<open>keeps R m\<close>: whatever fails, the database after \<open>m\<close> is related by \<open>R\<close> to the one before. The rules
  reduce it, for a reflexive and transitive relation, to the single statements.
\<close>

definition keeps :: "(Store \<Rightarrow> Store \<Rightarrow> bool) \<Rightarrow> 'a action \<Rightarrow> bool" where
  "keeps R m \<longleftrightarrow> (\<forall>a. R (ar_store a) (ar_store (fst (m a))))"

lemma keeps_exec:
  assumes "reflp R" "\<And>s. R s (fst (f s))"
  shows "keeps R (exec q f)"
  using assms by (auto simp: keeps_def exec_def Let_def reflp_def split: option.splits prod.splits) (metis fst_conv)

lemma keeps_query: "reflp R \<Longrightarrow> keeps R (query q f)"
  unfolding query_def by (rule keeps_exec) (auto simp: reflp_def)

lemma keeps_return: "reflp R \<Longrightarrow> keeps R (return x)"
  by (auto simp: keeps_def return_def reflp_def)

lemma keeps_and_then:
  assumes "transp R" "keeps R m" "\<And>x. keeps R (k x)"
  shows "keeps R (and_then m k)"
  unfolding keeps_def
proof
  fix a
  obtain a' r where m: "m a = (a', r)"
    by fastforce
  have first: "R (ar_store a) (ar_store a')"
    using assms(2) m by (metis fst_conv keeps_def)
  show "R (ar_store a) (ar_store (fst (and_then m k a)))"
  proof (cases r)
    case (Inl e)
    with m first show ?thesis
      by (simp add: and_then_def)
  next
    case (Inr x)
    have "R (ar_store a') (ar_store (fst (k x a')))"
      using assms(3) by (simp add: keeps_def)
    with m Inr first assms(1) show ?thesis
      by (simp add: and_then_def) (meson transpD)
  qed
qed

lemma keeps_report: "keeps R m \<Longrightarrow> keeps R (report_failure q m)"
  by (auto simp: keeps_def report_failure_def split: prod.splits sum.splits) (metis fst_conv)+

lemmas keeps_intros = keeps_exec keeps_query keeps_return keeps_and_then keeps_report

lemma keepsD: "keeps R m \<Longrightarrow> m a = (a', r) \<Longrightarrow> R (ar_store a) (ar_store a')"
  by (metis fst_conv keeps_def)

section \<open>Statements that succeed\<close>

lemma and_then_Inr:
  "and_then m k a = (a2, Inr y) \<longleftrightarrow> (\<exists>a1 x. m a = (a1, Inr x) \<and> k x a1 = (a2, Inr y))"
  by (auto simp: and_then_def split: prod.splits sum.splits)

lemma and_then_ok: "m a = (a1, Inr x) \<Longrightarrow> and_then m k a = k x a1"
  by (simp add: and_then_def)

lemma exec_Inr:
  "exec q f a = (a1, Inr x) \<longleftrightarrow> sq_fails q (ar_calls a) = None \<and> snd (f (ar_store a)) = x \<and>
     a1 = a\<lparr>ar_calls := Suc (ar_calls a), ar_store := fst (f (ar_store a))\<rparr>"
  by (auto simp: exec_def Let_def split: option.splits prod.splits)

lemma query_Inr:
  "query q f a = (a1, Inr x) \<longleftrightarrow> sq_fails q (ar_calls a) = None \<and> x = f (ar_store a) \<and> a1 = a\<lparr>ar_calls := Suc (ar_calls a)\<rparr>"
  by (auto simp: query_def exec_Inr)

lemma return_Inr: "return x a = (a1, Inr y) \<longleftrightarrow> a1 = a \<and> y = x"
  by (auto simp: return_def)

lemma report_Inr: "report_failure q m a = (a1, Inr x) \<longleftrightarrow> m a = (a1, Inr x)"
  by (auto simp: report_failure_def split: prod.splits sum.splits)

lemma report_Inl:
  "report_failure q m a = (a1, Inl e) \<longleftrightarrow>
     (\<exists>a0. m a = (a0, Inl e) \<and> a1 = a0\<lparr>ar_activity := ReportActivityWriteFailure (clock q a0) e\<rparr>)"
  by (auto simp: report_failure_def split: prod.splits sum.splits)

lemmas action_Inr = and_then_Inr exec_Inr query_Inr return_Inr report_Inr

lemma healthy_writes: "ActivityStorageWriteAllowed now ReportActivityWriteSuccess"
  by (simp add: ActivityStorageWriteAllowed_def ReportActivityWriteSuccess_def)

lemma failure_retry:
  "ActivityStorageWriteAllowed t (ReportActivityWriteFailure now e) \<longleftrightarrow>
     now + (if isDiskFullError e then 30 else 5) * second < t"
  by (simp add: ActivityStorageWriteAllowed_def ReportActivityWriteFailure_def Let_def activity_names activityRetryDelay_def)

end
