(* ===== verification/Retention.thy ===== *)
theory Retention
  imports Activity_Storage
begin

text \<open>
  The retention of the query history and of the events (\<^verbatim>\<open>internal/retention\<close>, and the handler of
  \<^verbatim>\<open>internal/api/handlers/maintenance.go\<close> that prunes on demand): deleting expired rows in batches,
  recording the result in the settings and reporting the size of the database. Every statement can fail.
  A table is addressed by the name that the source formats into its statement.
\<close>

section \<open>The configured number of days\<close>

definition DefaultDays :: int where
  "DefaultDays = 30"

definition MinDays :: int where
  "MinDays = 1"

definition MaxDays :: int where
  "MaxDays = 3650"

definition pruneBatchSize :: nat where
  "pruneBatchSize = 5000"

lemmas retention_bounds = DefaultDays_def MinDays_def MaxDays_def

definition ConfiguredDays :: "sqlite \<Rightarrow> archive \<Rightarrow> archive \<times> int" where
  "ConfiguredDays q a = (case query q (\<lambda>s. setting s ''retention_days'') a of
     (a', Inr (Some raw)) \<Rightarrow>
       (a', case atoi raw of None \<Rightarrow> DefaultDays | Some days \<Rightarrow> if days < MinDays \<or> days > MaxDays then DefaultDays else days)
   | (a', _) \<Rightarrow> (a', DefaultDays))"

section \<open>The size of the history\<close>

record Stats =
  DatabaseBytes :: int
  DatabaseUsedBytes :: int
  DatabaseReclaimableBytes :: int
  QueryCount :: nat
  EventCount :: nat
  OldestQuery :: string
  OldestEvent :: string
  RetentionDays :: int
  RetentionCutoff :: string
  LastPrunedAt :: string
  LastQueriesDeleted :: int
  LastEventsDeleted :: int
  ActivityStorage :: ActivityStorageStatus

text \<open>\<^verbatim>\<open>time.AddDate(0, 0, -days)\<close> in UTC, where every day has 24 hours.\<close>

definition days_before :: "int \<Rightarrow> time \<Rightarrow> time" where
  "days_before days now = now - days * (24 * hour)"

text \<open>\<^verbatim>\<open>COALESCE(MIN(timestamp), '')\<close>, under SQLite's byte order.\<close>

definition oldest :: "string list \<Rightarrow> string" where
  "oldest ts = (case sort ts of [] \<Rightarrow> '''' | t # _ \<Rightarrow> t)"

text \<open>\<open>setting\<close> and \<open>parseInt\<close> of the source: errors read as the empty text and as 0, except that a number out
  of range reads as the nearest 64-bit value.\<close>

definition setting_text :: "sqlite \<Rightarrow> string \<Rightarrow> archive \<Rightarrow> archive \<times> string" where
  "setting_text q key a = (case query q (\<lambda>s. setting s key) a of
     (a', Inr (Some v)) \<Rightarrow> (a', v) | (a', _) \<Rightarrow> (a', ''''))"

definition parseInt :: "string \<Rightarrow> int" where
  "parseInt v =
     (let neg = prefix ''-'' v; ds = (if prefix ''-'' v \<or> prefix ''+'' v then drop 1 v else v) in
      if ds = [] \<or> \<not> list_all is_digit ds then 0
      else if neg then max (- (2 ^ 63)) (- int (digits_value ds))
      else min (2 ^ 63 - 1) (int (digits_value ds)))"

definition page_pragma :: "sqlite \<Rightarrow> (int \<times> int \<times> int \<Rightarrow> int) \<Rightarrow> int action" where
  "page_pragma q f a = query q (\<lambda>_. f (sq_pages q (ar_calls a))) a"

definition Snapshot_at :: "sqlite \<Rightarrow> int \<Rightarrow> time \<Rightarrow> Stats action" where
  "Snapshot_at q days now =
     and_then (page_pragma q fst) (\<lambda>pageCount.
     and_then (page_pragma q (fst \<circ> snd)) (\<lambda>pageSize.
     and_then (page_pragma q (snd \<circ> snd)) (\<lambda>freePages.
     and_then (query q (\<lambda>s. (length (dns_queries s), oldest (map q_timestamp (dns_queries s))))) (\<lambda>(queries, oldestQuery).
     and_then (query q (\<lambda>s. (length (Faro_Store.events s), oldest (map ev_timestamp (Faro_Store.events s))))) (\<lambda>(evs, oldestEvent) a.
     case setting_text q ''last_retention_pruned_at'' a of (a, pruned) \<Rightarrow>
     case setting_text q ''last_retention_queries_deleted'' a of (a, qd) \<Rightarrow>
     case setting_text q ''last_retention_events_deleted'' a of (a, ed) \<Rightarrow>
     return
       \<lparr>DatabaseBytes = pageCount * pageSize,
        DatabaseUsedBytes = pageCount * pageSize - freePages * pageSize,
        DatabaseReclaimableBytes = freePages * pageSize,
        QueryCount = queries, EventCount = evs, OldestQuery = oldestQuery, OldestEvent = oldestEvent,
        RetentionDays = days, RetentionCutoff = format_rfc3339 (days_before days now),
        LastPrunedAt = pruned, LastQueriesDeleted = parseInt qd, LastEventsDeleted = parseInt ed,
        ActivityStorage = reported_status (ar_activity a)\<rparr> a)))))"

definition Snapshot :: "sqlite \<Rightarrow> Stats action" where
  "Snapshot q a = (case ConfiguredDays q a of (a', days) \<Rightarrow> Snapshot_at q days (clock q a') a')"

section \<open>Deleting expired rows\<close>

text \<open>The identifiers and timestamps of a table of the history, and the deletion by identifier.\<close>

definition history_rows :: "string \<Rightarrow> Store \<Rightarrow> (int \<times> string) list" where
  "history_rows table s =
     (if table = ''dns_queries'' then map (\<lambda>r. (q_id r, q_timestamp r)) (dns_queries s)
      else map (\<lambda>r. (ev_id r, ev_timestamp r)) (Faro_Store.events s))"

definition delete_ids :: "string \<Rightarrow> int list \<Rightarrow> Store \<Rightarrow> Store" where
  "delete_ids table ids s =
     (if table = ''dns_queries'' then s\<lparr>dns_queries := filter (\<lambda>r. q_id r \<notin> set ids) (dns_queries s)\<rparr>
      else s\<lparr>Faro_Store.events := filter (\<lambda>r. ev_id r \<notin> set ids) (Faro_Store.events s)\<rparr>)"

text \<open>\<^verbatim>\<open>datetime(timestamp) < datetime(?)\<close>, which is NULL, and selects nothing, when one of the texts is not a time.\<close>

definition expired :: "host \<Rightarrow> string \<Rightarrow> string \<Rightarrow> bool" where
  "expired h cutoff ts = (case (sql_datetime h ts, sql_datetime h cutoff) of (Some t, Some c) \<Rightarrow> t < c | _ \<Rightarrow> False)"

definition expired_ids :: "host \<Rightarrow> string \<Rightarrow> string \<Rightarrow> Store \<Rightarrow> int list" where
  "expired_ids h table cutoff s = map fst (filter (\<lambda>(i, ts). expired h cutoff ts) (history_rows table s))"

definition delete_batch :: "host \<Rightarrow> string \<Rightarrow> string \<Rightarrow> Store \<Rightarrow> Store \<times> nat" where
  "delete_batch h table cutoff s =
     (let s' = delete_ids table (take pruneBatchSize (sort (expired_ids h table cutoff s))) s
      in (s', length (history_rows table s) - length (history_rows table s')))"

lemma full_batch_shrinks:
  assumes "exec q (delete_batch h table cutoff) a = (a', Inr batch)" "\<not> batch < pruneBatchSize"
  shows "length (history_rows table (ar_store a')) < length (history_rows table (ar_store a))"
  using assms by (auto simp: exec_def delete_batch_def Let_def pruneBatchSize_def split: option.splits)

function delete_loop :: "sqlite \<Rightarrow> string \<Rightarrow> string \<Rightarrow> nat \<Rightarrow> nat action" where
  "delete_loop q table cutoff deleted a =
     (case exec q (delete_batch (sq_host q) table cutoff) a of
        (a', Inl e) \<Rightarrow> (a', Inl e)
      | (a', Inr batch) \<Rightarrow>
          (case sq_affected q (ar_calls a) of
             Some e \<Rightarrow> (a', Inl e)
           | None \<Rightarrow> if batch < pruneBatchSize then (a', Inr (deleted + batch))
               else delete_loop q table cutoff (deleted + batch) a'))"
  by pat_completeness auto
termination
  by (relation "measure (\<lambda>(q, table, cutoff, deleted, a). length (history_rows table (ar_store a)))")
    (auto dest: full_batch_shrinks [OF sym])

declare delete_loop.simps [simp del]

definition deleteExpiredRows :: "sqlite \<Rightarrow> string \<Rightarrow> time \<Rightarrow> nat action" where
  "deleteExpiredRows q table cutoff = delete_loop q table (format_rfc3339 cutoff) 0"

section \<open>Pruning\<close>

record Result =
  QueriesDeleted :: nat
  EventsDeleted :: nat
  BeforeBytes :: int
  AfterBytes :: int
  ReclaimedBytes :: int
  ResultDays :: int
  Cutoff :: string
  Compacted :: bool
  CompletedAt :: string

datatype retention_error = Days_Out_Of_Range | Database sql_error

definition delete_states :: "string \<Rightarrow> Store \<Rightarrow> Store" where
  "delete_states cutoff s = s\<lparr>notification_states :=
     filter (\<lambda>((user, key), updated_at). \<not> (key \<noteq> ''*'' \<and> updated_at < cutoff)) (notification_states s)\<rparr>"

fun put_values :: "sqlite \<Rightarrow> (string \<times> string) list \<Rightarrow> unit action" where
  "put_values q [] = return ()"
| "put_values q ((key, v) # kvs) = and_then (exec q (\<lambda>s. (put_setting key v s, ()))) (\<lambda>_. put_values q kvs)"

definition prune_values :: "string \<Rightarrow> nat \<Rightarrow> nat \<Rightarrow> (string, string) gomap" where
  "prune_values completedAt queries evs =
     [(''last_retention_pruned_at'', completedAt),
      (''last_retention_queries_deleted'', itoa (int queries)),
      (''last_retention_events_deleted'', itoa (int evs))]"

definition storePruneResult :: "sqlite \<Rightarrow> string \<Rightarrow> nat \<Rightarrow> nat \<Rightarrow> unit action" where
  "storePruneResult q completedAt queries evs =
     (let values = prune_values completedAt queries evs in
      put_values q (map (\<lambda>k. (k, the (gm_get values k))) (sq_order q (gm_keys values))))"

definition vacuum :: "sqlite \<Rightarrow> bool \<Rightarrow> unit action" where
  "vacuum q compact = (if compact then exec q (\<lambda>s. (s, ())) else return ())"

definition prune_rows :: "sqlite \<Rightarrow> time \<Rightarrow> bool \<Rightarrow> (nat \<times> nat \<times> string) action" where
  "prune_rows q cutoff compact =
     and_then (report_failure q (deleteExpiredRows q ''dns_queries'' cutoff)) (\<lambda>queriesDeleted.
     and_then (report_failure q (deleteExpiredRows q ''events'' cutoff)) (\<lambda>eventsDeleted.
     and_then (report_failure q (exec q (\<lambda>s. (delete_states (format_rfc3339 cutoff) s, ())))) (\<lambda>_ a.
     let completedAt = format_rfc3339 (clock q a) in
     and_then (report_failure q (storePruneResult q completedAt queriesDeleted eventsDeleted)) (\<lambda>_.
     and_then (report_failure q (vacuum q compact)) (\<lambda>_.
     return (queriesDeleted, eventsDeleted, completedAt))) a)))"

definition prune_database :: "sqlite \<Rightarrow> int \<Rightarrow> bool \<Rightarrow> Result action" where
  "prune_database q days compact =
     and_then (Snapshot q) (\<lambda>before a.
     let cutoff = days_before days (clock q a) in
     and_then (prune_rows q cutoff compact) (\<lambda>(queriesDeleted, eventsDeleted, completedAt).
     and_then (Snapshot q) (\<lambda>after a.
     return
       \<lparr>QueriesDeleted = queriesDeleted, EventsDeleted = eventsDeleted,
        BeforeBytes = DatabaseBytes before, AfterBytes = DatabaseBytes after,
        ReclaimedBytes = max 0 (DatabaseBytes before - DatabaseBytes after),
        ResultDays = days, Cutoff = format_rfc3339 cutoff, Compacted = compact, CompletedAt = completedAt\<rparr>
       (a\<lparr>ar_activity := ReportActivityWriteSuccess\<rparr>))) a)"

definition Prune :: "sqlite \<Rightarrow> int \<Rightarrow> bool \<Rightarrow> archive \<Rightarrow> archive \<times> (retention_error + Result)" where
  "Prune q days compact a =
     (if days < MinDays \<or> days > MaxDays then (a, Inl Days_Out_Of_Range)
      else map_prod id (map_sum Database id) (prune_database q days compact a))"

text \<open>A tick of the manager, and the request to prune on demand with the decoded body.\<close>

definition prune :: "sqlite \<Rightarrow> archive \<Rightarrow> archive" where
  "prune q a = (case ConfiguredDays q a of (a', days) \<Rightarrow> fst (Prune q days False a'))"

record pruneInput =
  in_RetentionDays :: "int option"
  in_Compact :: "bool option"

definition maintenance_post :: "sqlite \<Rightarrow> pruneInput option \<Rightarrow> archive \<Rightarrow> archive \<times> (nat + Result)" where
  "maintenance_post q body a = (case ConfiguredDays q a of (a', days) \<Rightarrow>
     case body of None \<Rightarrow> (a', Inl 400)
     | Some input \<Rightarrow>
         let days = (case in_RetentionDays input of None \<Rightarrow> days | Some d \<Rightarrow> d);
             compact = (case in_Compact input of None \<Rightarrow> True | Some c \<Rightarrow> c) in
         if days < MinDays \<or> days > MaxDays then (a', Inl 400)
         else (case Prune q days compact a' of (a2, Inl _) \<Rightarrow> (a2, Inl 500) | (a2, Inr r) \<Rightarrow> (a2, Inr r)))"

section \<open>One batch\<close>

definition row_ids :: "string \<Rightarrow> Store \<Rightarrow> int list" where
  "row_ids table s = map fst (history_rows table s)"

definition history_wf :: "Store \<Rightarrow> bool" where
  "history_wf s \<longleftrightarrow> distinct (map q_id (dns_queries s)) \<and> distinct (map ev_id (Faro_Store.events s))"

lemma history_wf_ids: "history_wf s \<Longrightarrow> distinct (row_ids table s)"
  by (simp add: history_wf_def row_ids_def history_rows_def comp_def)

lemma history_rows_delete:
  "history_rows table (delete_ids table ids s) = filter (\<lambda>r. fst r \<notin> set ids) (history_rows table s)"
  by (simp add: history_rows_def delete_ids_def filter_map comp_def)

lemma history_wf_delete: "history_wf s \<Longrightarrow> history_wf (delete_ids table ids s)"
  by (auto simp: history_wf_def delete_ids_def intro: distinct_map_filter)

lemma filter_other_length:
  assumes "distinct (map fst rs)" "distinct ids" "set ids \<subseteq> set (map fst rs)"
  shows "length (filter (\<lambda>r. fst r \<notin> set ids) rs) + length ids = length rs"
proof -
  have "length (filter (\<lambda>r. fst r \<in> set ids) rs) = card (set (map fst (filter (\<lambda>r. fst r \<in> set ids) rs)))"
    using distinct_card [OF distinct_map_filter [OF assms(1)], of "\<lambda>r. fst r \<in> set ids"] by simp
  also have "set (map fst (filter (\<lambda>r. fst r \<in> set ids) rs)) = set ids"
    using assms(3) by auto
  finally show ?thesis
    using distinct_card [OF assms(2)] sum_length_filter_compl [of "\<lambda>r. fst r \<in> set ids" rs] by simp
qed

lemma expired_ids_sub: "set (expired_ids h table cutoff s) \<subseteq> set (row_ids table s)"
  by (auto simp: expired_ids_def row_ids_def)

lemma expired_ids_distinct: "history_wf s \<Longrightarrow> distinct (expired_ids h table cutoff s)"
  using history_wf_ids [of s table] by (auto simp: expired_ids_def row_ids_def intro: distinct_map_filter)

lemma expired_ids_delete:
  "expired_ids h table cutoff (delete_ids table ids s) = filter (\<lambda>i. i \<notin> set ids) (expired_ids h table cutoff s)"
  by (simp add: expired_ids_def history_rows_delete filter_map comp_def split_def conj_commute)

text \<open>A batch deletes the smaller of its limit and the number of expired rows, and nothing else.\<close>

lemma delete_batch_count:
  assumes "history_wf s" "delete_batch h table cutoff s = (s', n)"
  shows "n = min pruneBatchSize (length (expired_ids h table cutoff s))"
    "n + length (expired_ids h table cutoff s') = length (expired_ids h table cutoff s)" "history_wf s'"
proof -
  let ?E = "expired_ids h table cutoff s"
  let ?ids = "take pruneBatchSize (sort ?E)"
  have s': "s' = delete_ids table ?ids s" and n: "n = length (history_rows table s) - length (history_rows table s')"
    using assms(2) by (auto simp: delete_batch_def Let_def)
  have E: "distinct ?E" "distinct ?ids" "set ?ids \<subseteq> set ?E"
    using expired_ids_distinct [OF assms(1)] by (auto dest: in_set_takeD)
  have "length (history_rows table s') + length ?ids = length (history_rows table s)"
    using filter_other_length [OF _ E(2)] history_wf_ids [OF assms(1), of table] E(3) expired_ids_sub [of h table cutoff s]
    unfolding s' history_rows_delete row_ids_def by blast
  then have len: "n = length ?ids"
    using n by linarith
  then show "n = min pruneBatchSize (length ?E)"
    by simp
  have "length (filter (\<lambda>i. i \<notin> set ?ids) ?E) + length ?ids = length ?E"
    using filter_other_length [of "map (\<lambda>i. (i, ())) ?E" ?ids] E by (simp add: filter_map comp_def)
  then show "n + length (expired_ids h table cutoff s') = length ?E"
    unfolding s' expired_ids_delete len by linarith
  show "history_wf s'"
    unfolding s' by (rule history_wf_delete [OF assms(1)])
qed

section \<open>The loop over the batches\<close>

definition no_faults :: "sqlite \<Rightarrow> bool" where
  "no_faults q \<longleftrightarrow> (\<forall>n. sq_fails q n = None \<and> sq_affected q n = None)"

lemma delete_loop_Inr:
  assumes "delete_loop q table cutoff deleted a = (a', Inr n)" "history_wf (ar_store a)"
  shows "n = deleted + length (expired_ids (sq_host q) table cutoff (ar_store a)) \<and>
    expired_ids (sq_host q) table cutoff (ar_store a') = [] \<and>
    ar_calls a' = ar_calls a + length (expired_ids (sq_host q) table cutoff (ar_store a)) div pruneBatchSize + 1 \<and>
    ar_activity a' = ar_activity a"
  using assms
proof (induction q table cutoff deleted a rule: delete_loop.induct)
  case (1 q table cutoff deleted a)
  obtain a1 batch where b: "exec q (delete_batch (sq_host q) table cutoff) a = (a1, Inr batch)" "sq_affected q (ar_calls a) = None"
      "if batch < pruneBatchSize then a' = a1 \<and> n = deleted + batch else delete_loop q table cutoff (deleted + batch) a1 = (a', Inr n)"
    using "1.prems"(1) by (subst (asm) delete_loop.simps) (auto split: prod.splits sum.splits option.splits if_splits)
  have a1: "ar_calls a1 = Suc (ar_calls a)" "ar_activity a1 = ar_activity a"
      "delete_batch (sq_host q) table cutoff (ar_store a) = (ar_store a1, batch)"
    using b(1) [unfolded exec_Inr] by (auto simp: prod_eq_iff)
  note c = delete_batch_count [OF "1.prems"(2) a1(3)]
  show ?case
  proof (cases "batch < pruneBatchSize")
    case True
    then have "length (expired_ids (sq_host q) table cutoff (ar_store a)) < pruneBatchSize" "expired_ids (sq_host q) table cutoff (ar_store a1) = []"
      using c(1,2) by auto
    with True b(3) a1 c(1,2) show ?thesis
      by simp
  next
    case False
    have full: "batch = pruneBatchSize" "length (expired_ids (sq_host q) table cutoff (ar_store a)) =
        pruneBatchSize + length (expired_ids (sq_host q) table cutoff (ar_store a1))"
      using False c(1,2) by simp_all
    have "delete_loop q table cutoff (deleted + batch) a1 = (a', Inr n)"
      using b(3) False by simp
    then have "n = deleted + batch + length (expired_ids (sq_host q) table cutoff (ar_store a1)) \<and>
        expired_ids (sq_host q) table cutoff (ar_store a') = [] \<and>
        ar_calls a' = ar_calls a1 + length (expired_ids (sq_host q) table cutoff (ar_store a1)) div pruneBatchSize + 1 \<and>
        ar_activity a' = ar_activity a1"
      using "1.IH" [OF b(1) [symmetric] refl b(2) False _ c(3)] by simp
    then show ?thesis
      using full a1 by (simp add: pruneBatchSize_def)
  qed
qed

lemma delete_loop_total:
  assumes "no_faults q"
  shows "\<exists>a' n. delete_loop q table cutoff deleted a = (a', Inr n)"
  using assms
proof (induction q table cutoff deleted a rule: delete_loop.induct)
  case (1 q table cutoff deleted a)
  obtain a1 batch where b: "exec q (delete_batch (sq_host q) table cutoff) a = (a1, Inr batch)" "sq_affected q (ar_calls a) = None"
    using "1.prems" by (simp add: exec_Inr no_faults_def)
  show ?case
    using "1.IH" [OF b(1) [symmetric] refl b(2)] "1.prems" b
    by (subst delete_loop.simps) (cases "batch < pruneBatchSize"; simp)
qed

lemma delete_loop_keeps:
  assumes "reflp R" "transp R" "\<And>s. R s (fst (delete_batch (sq_host q) table cutoff s))"
  shows "R (ar_store a) (ar_store (fst (delete_loop q table cutoff deleted a)))"
  using assms
proof (induction q table cutoff deleted a rule: delete_loop.induct)
  case (1 q table cutoff deleted a)
  obtain a1 r where e: "exec q (delete_batch (sq_host q) table cutoff) a = (a1, r)"
    by fastforce
  have first: "R (ar_store a) (ar_store a1)"
    using keepsD [OF keeps_exec e] "1.prems"(1,3) by blast
  show ?case
  proof (cases "\<exists>batch. r = Inr batch \<and> sq_affected q (ar_calls a) = None \<and> \<not> batch < pruneBatchSize")
    case True
    then obtain batch where b: "r = Inr batch" "sq_affected q (ar_calls a) = None" "\<not> batch < pruneBatchSize"
      by blast
    have "R (ar_store a1) (ar_store (fst (delete_loop q table cutoff (deleted + batch) a1)))"
      using "1.IH" [OF e [symmetric] b(1) b(2,3) "1.prems"] .
    with first "1.prems"(2) show ?thesis
      using e b by (subst delete_loop.simps) (auto dest: transpD)
  next
    case False
    with first e show ?thesis
      by (subst delete_loop.simps) (auto split: sum.splits option.splits)
  qed
qed

section \<open>What pruning keeps\<close>

text \<open>
  \<open>retained\<close> is the database without the rows that a prune with the given cutoff may remove and without the three
  settings that it writes. A step loses only expired rows if it leaves this view alone.
\<close>

definition prune_keys :: "string list" where
  "prune_keys = [''last_retention_pruned_at'', ''last_retention_queries_deleted'', ''last_retention_events_deleted'']"

definition retained :: "host \<Rightarrow> string \<Rightarrow> Store \<Rightarrow> Store" where
  "retained h cutoff s = (delete_states cutoff s)\<lparr>
     dns_queries := filter (\<lambda>r. \<not> expired h cutoff (q_timestamp r)) (dns_queries s),
     Faro_Store.events := filter (\<lambda>r. \<not> expired h cutoff (ev_timestamp r)) (Faro_Store.events s),
     settings := filter (\<lambda>kv. fst kv \<notin> set prune_keys) (settings s)\<rparr>"

definition loses_only_expired :: "host \<Rightarrow> string \<Rightarrow> Store \<Rightarrow> Store \<Rightarrow> bool" where
  "loses_only_expired h cutoff s s' \<longleftrightarrow> (history_wf s \<longrightarrow> history_wf s' \<and> retained h cutoff s' = retained h cutoff s)"

lemma loses_refl [simp]: "reflp (loses_only_expired h cutoff)"
  by (simp add: reflp_def loses_only_expired_def)

lemma loses_trans [simp]: "transp (loses_only_expired h cutoff)"
  by (auto simp: transp_def loses_only_expired_def)

lemma retained_rows:
  "history_rows table (retained h cutoff s) = filter (\<lambda>(i, ts). \<not> expired h cutoff ts) (history_rows table s)"
  by (simp add: history_rows_def retained_def filter_map comp_def)

lemma filter_expired_other:
  assumes "distinct (map f xs)" "\<forall>i \<in> set ids. \<exists>x \<in> set xs. f x = i \<and> \<not> P x"
  shows "filter (\<lambda>x. P x \<and> f x \<notin> set ids) xs = filter P xs"
proof (rule filter_cong [OF refl])
  fix x
  assume "x \<in> set xs"
  then have "f x \<in> set ids \<Longrightarrow> \<not> P x"
    using assms by (metis distinct_map inj_onD)
  then show "(P x \<and> f x \<notin> set ids) = P x"
    by blast
qed

lemma retained_delete_ids:
  assumes "history_wf s" "set ids \<subseteq> set (expired_ids h table cutoff s)"
  shows "retained h cutoff (delete_ids table ids s) = retained h cutoff s"
proof (cases "table = ''dns_queries''")
  case True
  have "\<forall>i \<in> set ids. \<exists>r \<in> set (dns_queries s). q_id r = i \<and> \<not> \<not> expired h cutoff (q_timestamp r)"
    using assms(2) True by (fastforce simp: expired_ids_def history_rows_def)
  then have "filter (\<lambda>r. \<not> expired h cutoff (q_timestamp r) \<and> q_id r \<notin> set ids) (dns_queries s)
      = filter (\<lambda>r. \<not> expired h cutoff (q_timestamp r)) (dns_queries s)"
    using assms(1) by (intro filter_expired_other) (auto simp: history_wf_def)
  with True show ?thesis
    by (simp add: retained_def delete_ids_def delete_states_def conj_commute)
next
  case False
  have "\<forall>i \<in> set ids. \<exists>r \<in> set (Faro_Store.events s). ev_id r = i \<and> \<not> \<not> expired h cutoff (ev_timestamp r)"
    using assms(2) False by (fastforce simp: expired_ids_def history_rows_def)
  then have "filter (\<lambda>r. \<not> expired h cutoff (ev_timestamp r) \<and> ev_id r \<notin> set ids) (Faro_Store.events s)
      = filter (\<lambda>r. \<not> expired h cutoff (ev_timestamp r)) (Faro_Store.events s)"
    using assms(1) by (intro filter_expired_other) (auto simp: history_wf_def)
  with False show ?thesis
    by (simp add: retained_def delete_ids_def delete_states_def conj_commute)
qed

lemma loses_batch: "loses_only_expired h cutoff s (fst (delete_batch h table cutoff s))"
proof -
  have "set (take pruneBatchSize (sort (expired_ids h table cutoff s))) \<subseteq> set (expired_ids h table cutoff s)"
    by (auto dest: in_set_takeD)
  then show ?thesis
    using retained_delete_ids history_wf_delete
    by (auto simp: loses_only_expired_def delete_batch_def Let_def)
qed

lemma loses_delete:
  assumes "deleteExpiredRows q table cutoff a = (a', r)"
  shows "loses_only_expired (sq_host q) (format_rfc3339 cutoff) (ar_store a) (ar_store a')"
proof -
  have "loses_only_expired (sq_host q) (format_rfc3339 cutoff) (ar_store a)
      (ar_store (fst (delete_loop q table (format_rfc3339 cutoff) 0 a)))"
    by (rule delete_loop_keeps) (simp_all add: loses_batch)
  with assms show ?thesis
    by (simp add: deleteExpiredRows_def)
qed

lemma loses_states: "loses_only_expired h cutoff s (delete_states cutoff s)"
  by (auto simp: loses_only_expired_def history_wf_def retained_def delete_states_def)

lemma filter_put: "\<not> P k \<Longrightarrow> filter (\<lambda>kv. P (fst kv)) (gm_put k v m) = filter (\<lambda>kv. P (fst kv)) m"
  by (induction m) auto

lemma loses_setting: "key \<in> set prune_keys \<Longrightarrow> loses_only_expired h cutoff s (put_setting key v s)"
  by (simp add: loses_only_expired_def history_wf_def retained_def delete_states_def put_setting_def
      filter_put [of "\<lambda>k. k \<notin> set prune_keys"])

text \<open>
  Deleting expired rows ends and is complete: when the database answers, \<open>deleteExpiredRows\<close> returns the number of
  expired rows of the table, none of them is left, every other row is, and it needed one statement per full
  batch of 5000 rows and one more.
\<close>

theorem deleteExpiredRows_complete:
  assumes "no_faults q" "history_wf (ar_store a)" "expiring = expired_ids (sq_host q) table (format_rfc3339 cutoff) (ar_store a)"
  shows "\<exists>a'. deleteExpiredRows q table cutoff a = (a', Inr (length expiring)) \<and>
    history_rows table (ar_store a') = filter (\<lambda>(i, ts). \<not> expired (sq_host q) (format_rfc3339 cutoff) ts) (history_rows table (ar_store a)) \<and>
    ar_calls a' = ar_calls a + length expiring div 5000 + 1"
proof -
  let ?fresh = "filter (\<lambda>(i, ts). \<not> expired (sq_host q) (format_rfc3339 cutoff) ts)"
  obtain a' n where loop: "delete_loop q table (format_rfc3339 cutoff) 0 a = (a', Inr n)"
    using delete_loop_total [OF assms(1)] by blast
  note ended = delete_loop_Inr [OF loop assms(2)]
  have "?fresh (history_rows table (ar_store a')) = ?fresh (history_rows table (ar_store a))"
    using loses_delete [of q table cutoff a a' "Inr n"] loop assms(2)
    by (simp add: deleteExpiredRows_def loses_only_expired_def flip: retained_rows)
  moreover have "?fresh (history_rows table (ar_store a')) = history_rows table (ar_store a')"
    using ended by (auto simp: expired_ids_def filter_empty_conv intro: filter_True)
  ultimately show ?thesis
    using loop ended by (simp add: deleteExpiredRows_def assms(3) pruneBatchSize_def)
qed

lemma ConfiguredDays_keeps:
  "ConfiguredDays q a = (a', days) \<Longrightarrow> a' = a\<lparr>ar_calls := Suc (ar_calls a)\<rparr> \<and> MinDays \<le> days \<and> days \<le> MaxDays"
  by (auto simp: ConfiguredDays_def query_def exec_def Let_def retention_bounds split: option.splits if_splits)

lemma setting_text_keeps: "setting_text q key a = (a', v) \<Longrightarrow> a' = a\<lparr>ar_calls := Suc (ar_calls a)\<rparr>"
  by (auto simp: setting_text_def query_def exec_def Let_def split: option.splits)

text \<open>A statement that only reads: whatever happens only the number of statements changes, and success counts \<open>n\<close>.\<close>

definition reads :: "nat \<Rightarrow> 'a action \<Rightarrow> bool" where
  "reads n m \<longleftrightarrow> (\<forall>a. case m a of (a', r) \<Rightarrow>
     (\<exists>k. a' = a\<lparr>ar_calls := k\<rparr>) \<and> (\<forall>x. r = Inr x \<longrightarrow> ar_calls a' = ar_calls a + n))"

lemma readsD:
  "reads n m \<Longrightarrow> m a = (a', r) \<Longrightarrow> (\<exists>k. a' = a\<lparr>ar_calls := k\<rparr>) \<and> (\<forall>x. r = Inr x \<longrightarrow> ar_calls a' = ar_calls a + n)"
  by (drule reads_def [THEN iffD1, THEN spec, of _ _ a]) simp

lemma reads_query: "reads 1 (query q f)"
  by (auto simp: reads_def query_def exec_def Let_def split: option.splits)

lemma reads_pragma: "reads 1 (page_pragma q f)"
  by (auto simp: reads_def page_pragma_def query_def exec_def Let_def split: option.splits)

lemma reads_and_then:
  assumes "reads i m" "\<And>x. reads j (k x)"
  shows "reads (i + j) (and_then m k)"
  unfolding reads_def
proof
  fix a
  obtain a1 r where m: "m a = (a1, r)"
    by fastforce
  then have 1: "\<exists>c. a1 = a\<lparr>ar_calls := c\<rparr>" "\<And>x. r = Inr x \<Longrightarrow> ar_calls a1 = ar_calls a + i"
    using assms(1) [unfolded reads_def, rule_format, of a] by auto
  show "case and_then m k a of (a', r) \<Rightarrow>
      (\<exists>k. a' = a\<lparr>ar_calls := k\<rparr>) \<and> (\<forall>x. r = Inr x \<longrightarrow> ar_calls a' = ar_calls a + (i + j))"
  proof (cases r)
    case (Inl e)
    with m 1 show ?thesis
      by (simp add: and_then_def)
  next
    case (Inr x)
    with m 1 show ?thesis
      using assms(2) [of x, unfolded reads_def, THEN spec, of a1] by (auto simp: and_then_def split: prod.splits)
  qed
qed

lemma reads_split: "(\<And>x y. reads n (k x y)) \<Longrightarrow> reads n (case p of (x, y) \<Rightarrow> k x y)"
  by (cases p) simp

lemma reads_Snapshot: "reads 9 (Snapshot q)"
proof -
  have at: "reads (1 + (1 + (1 + (1 + (1 + 3))))) (Snapshot_at q days now)" for days now
    unfolding Snapshot_at_def
    by (intro reads_and_then reads_pragma reads_query reads_split)
      (auto simp: reads_def return_def split: prod.splits dest!: setting_text_keeps)
  show ?thesis
    unfolding reads_def
  proof
    fix a
    obtain a1 days where c: "ConfiguredDays q a = (a1, days)"
      by fastforce
    obtain a2 r where s: "Snapshot_at q days (clock q a1) a1 = (a2, r)"
      by fastforce
    have "Snapshot q a = (a2, r)"
      by (simp add: Snapshot_def c s)
    then show "case Snapshot q a of (a', r) \<Rightarrow> (\<exists>k. a' = a\<lparr>ar_calls := k\<rparr>) \<and> (\<forall>x. r = Inr x \<longrightarrow> ar_calls a' = ar_calls a + 9)"
      using ConfiguredDays_keeps [OF c] readsD [OF at s] by auto
  qed
qed

section \<open>Pruning as a whole\<close>

definition iterates :: "sqlite \<Rightarrow> bool" where
  "iterates q \<longleftrightarrow> (\<forall>ks. set (sq_order q ks) = set ks \<and> (distinct ks \<longrightarrow> distinct (sq_order q ks)))"

lemma keeps_put_values:
  "fst ` set kvs \<subseteq> set prune_keys \<Longrightarrow> keeps (loses_only_expired h cutoff) (put_values q kvs)"
proof (induction kvs)
  case Nil
  show ?case
    by (simp add: keeps_return)
next
  case (Cons kv kvs)
  then show ?case
    by (cases kv) (auto intro!: keeps_intros loses_setting)
qed

lemma prune_order: "iterates q \<Longrightarrow> set (sq_order q ks) = set ks"
  by (simp add: iterates_def)

lemma keeps_storePruneResult:
  assumes "iterates q"
  shows "keeps (loses_only_expired h cutoff) (storePruneResult q t i j)"
  unfolding storePruneResult_def Let_def
  by (rule keeps_put_values) (simp add: prune_order [OF assms] prune_values_def prune_keys_def)

lemma keeps_prune_rows:
  assumes "iterates q"
  shows "keeps (loses_only_expired (sq_host q) (format_rfc3339 cutoff)) (prune_rows q cutoff compact)"
proof -
  let ?R = "loses_only_expired (sq_host q) (format_rfc3339 cutoff)"
  have delete: "keeps ?R (deleteExpiredRows q table cutoff)" for table
    unfolding keeps_def by (metis loses_delete prod.collapse)
  have vacuum: "keeps ?R (vacuum q compact)"
    by (auto simp: vacuum_def loses_only_expired_def intro!: keeps_exec keeps_return)
  have store: "keeps ?R (and_then (report_failure q (storePruneResult q t i j))
      (\<lambda>_. and_then (report_failure q (vacuum q compact)) (\<lambda>_. return (i, j, t))))" for t i j
    by (intro keeps_and_then keeps_report keeps_storePruneResult [OF assms] vacuum keeps_return loses_trans loses_refl)
  have states: "keeps ?R (exec q (\<lambda>s. (delete_states (format_rfc3339 cutoff) s, ())))"
    by (rule keeps_exec) (simp_all add: loses_states)
  show ?thesis
    unfolding prune_rows_def
    by (intro keeps_and_then keeps_report delete states loses_trans) (use store in \<open>simp add: keeps_def Let_def\<close>)
qed

lemma Snapshot_store: "Snapshot q a = (a', r) \<Longrightarrow> ar_store a' = ar_store a"
  using readsD [OF reads_Snapshot] by force

lemma Snapshot_calls: "Snapshot q a = (a', Inr s) \<Longrightarrow> ar_calls a' = ar_calls a + 9"
  using readsD [OF reads_Snapshot] by force

lemma prune_database_keeps:
  assumes "prune_database q days compact a = (a', r)" "iterates q"
    "cutoff = format_rfc3339 (days_before days (sq_now q (ar_calls a + 9)))"
  shows "loses_only_expired (sq_host q) cutoff (ar_store a) (ar_store a')"
proof -
  obtain a1 r1 where s1: "Snapshot q a = (a1, r1)"
    by fastforce
  show ?thesis
  proof (cases r1)
    case (Inl e)
    with assms(1) s1 show ?thesis
      using Snapshot_store [OF s1] by (simp add: prune_database_def and_then_def loses_only_expired_def)
  next
    case (Inr b)
    define t where "t = days_before days (clock q a1)"
    have cutoff: "cutoff = format_rfc3339 t"
      using Snapshot_calls s1 Inr by (simp add: t_def clock_def assms(3))
    obtain a2 r2 where p: "prune_rows q t compact a1 = (a2, r2)"
      by fastforce
    have "ar_store a' = ar_store a2"
    proof (cases r2)
      case (Inl e)
      with assms(1) s1 Inr p show ?thesis
        by (simp add: prune_database_def and_then_def Let_def flip: t_def)
    next
      case (Inr x)
      obtain a3 r3 where "Snapshot q a2 = (a3, r3)"
        by fastforce
      with assms(1) s1 \<open>r1 = Inr b\<close> p Inr show ?thesis
        using Snapshot_store [of q a2 a3 r3]
        by (cases x; cases r3) (auto simp: prune_database_def and_then_def Let_def return_def simp flip: t_def)
    qed
    with keepsD [OF keeps_prune_rows [OF assms(2)] p] show ?thesis
      using Snapshot_store [OF s1] by (simp add: cutoff)
  qed
qed

text \<open>
  Pruning loses nothing but expired history: whatever statement fails, \<open>Prune\<close> keeps every query and event
  that is not older than the cutoff, every notification state that is not, all settings but its own three and
  every other table.
\<close>

theorem Prune_keeps:
  assumes "Prune q days compact a = (a', r)" "iterates q" "history_wf (ar_store a)"
    "cutoff = format_rfc3339 (days_before days (sq_now q (ar_calls a + 9)))"
  shows "history_wf (ar_store a') \<and> retained (sq_host q) cutoff (ar_store a') = retained (sq_host q) cutoff (ar_store a)"
proof (cases "days < MinDays \<or> days > MaxDays")
  case True
  with assms(1,3) show ?thesis
    by (auto simp: Prune_def)
next
  case False
  have "loses_only_expired (sq_host q) cutoff (ar_store a) (ar_store a')"
    using assms(1) False prune_database_keeps [OF prod.collapse [symmetric] assms(2,4), of compact]
    by (auto simp: Prune_def map_prod_def split_def)
  with assms(3) show ?thesis
    by (simp add: loses_only_expired_def)
qed

lemma put_values_Inr:
  "put_values q kvs a = (a', Inr u) \<Longrightarrow> distinct (map fst kvs) \<Longrightarrow>
     (\<forall>k. gm_get (settings (ar_store a')) k = (case gm_get kvs k of None \<Rightarrow> gm_get (settings (ar_store a)) k | Some v \<Rightarrow> Some v)) \<and>
     dns_queries (ar_store a') = dns_queries (ar_store a) \<and> Faro_Store.events (ar_store a') = Faro_Store.events (ar_store a)"
proof (induction kvs arbitrary: a)
  case (Cons kv kvs)
  obtain k v where kv: "kv = (k, v)"
    by fastforce
  obtain a1 where a1: "a1 = a\<lparr>ar_calls := Suc (ar_calls a), ar_store := put_setting k v (ar_store a)\<rparr>" "put_values q kvs a1 = (a', Inr u)"
    using Cons.prems(1) by (auto simp: kv and_then_Inr exec_Inr)
  have "gm_get kvs k = None"
    using Cons.prems(2) by (simp add: kv map_of_eq_None_iff)
  then show ?case
    using Cons.IH [OF a1(2)] Cons.prems(2) by (auto simp: kv a1(1) put_setting_def split: option.splits)
qed (simp add: return_def)

text \<open>A successful deletion, table by table.\<close>

lemma delete_queries_Inr:
  assumes "deleteExpiredRows q ''dns_queries'' cutoff a = (a', Inr n)" "history_wf (ar_store a)"
  shows "dns_queries (ar_store a') = filter (\<lambda>r. \<not> expired (sq_host q) (format_rfc3339 cutoff) (q_timestamp r)) (dns_queries (ar_store a))"
    "n = length (filter (\<lambda>r. expired (sq_host q) (format_rfc3339 cutoff) (q_timestamp r)) (dns_queries (ar_store a)))"
    "Faro_Store.events (ar_store a') = Faro_Store.events (ar_store a)" "history_wf (ar_store a')"
proof -
  let ?fresh = "filter (\<lambda>r. \<not> expired (sq_host q) (format_rfc3339 cutoff) (q_timestamp r))"
  note ended = delete_loop_Inr [OF assms(1) [unfolded deleteExpiredRows_def] assms(2)]
  have kept: "history_wf (ar_store a')" "retained (sq_host q) (format_rfc3339 cutoff) (ar_store a') = retained (sq_host q) (format_rfc3339 cutoff) (ar_store a)"
    using loses_delete [OF assms(1)] assms(2) by (simp_all add: loses_only_expired_def)
  have "?fresh (dns_queries (ar_store a')) = ?fresh (dns_queries (ar_store a))"
    using arg_cong [OF kept(2), of dns_queries] by (simp add: retained_def)
  moreover have "?fresh (dns_queries (ar_store a')) = dns_queries (ar_store a')"
    using ended by (auto simp: expired_ids_def history_rows_def filter_map filter_empty_conv comp_def intro: filter_True)
  ultimately show "dns_queries (ar_store a') = ?fresh (dns_queries (ar_store a))"
    by simp
  show "n = length (filter (\<lambda>r. expired (sq_host q) (format_rfc3339 cutoff) (q_timestamp r)) (dns_queries (ar_store a)))"
    using ended by (simp add: expired_ids_def history_rows_def filter_map comp_def)
  have "Faro_Store.events (ar_store (fst (delete_loop q ''dns_queries'' (format_rfc3339 cutoff) 0 a))) = Faro_Store.events (ar_store a)"
    by (rule delete_loop_keeps [where R = "\<lambda>s s'. Faro_Store.events s' = Faro_Store.events s"])
      (auto simp: reflp_def transp_def delete_batch_def delete_ids_def Let_def)
  then show "Faro_Store.events (ar_store a') = Faro_Store.events (ar_store a)"
    using assms(1) by (simp add: deleteExpiredRows_def)
  show "history_wf (ar_store a')"
    by (rule kept(1))
qed

lemma delete_events_Inr:
  assumes "deleteExpiredRows q ''events'' cutoff a = (a', Inr n)" "history_wf (ar_store a)"
  shows "Faro_Store.events (ar_store a') = filter (\<lambda>r. \<not> expired (sq_host q) (format_rfc3339 cutoff) (ev_timestamp r)) (Faro_Store.events (ar_store a))"
    "n = length (filter (\<lambda>r. expired (sq_host q) (format_rfc3339 cutoff) (ev_timestamp r)) (Faro_Store.events (ar_store a)))"
    "dns_queries (ar_store a') = dns_queries (ar_store a)"
proof -
  let ?fresh = "filter (\<lambda>r. \<not> expired (sq_host q) (format_rfc3339 cutoff) (ev_timestamp r))"
  note ended = delete_loop_Inr [OF assms(1) [unfolded deleteExpiredRows_def] assms(2)]
  have kept: "retained (sq_host q) (format_rfc3339 cutoff) (ar_store a') = retained (sq_host q) (format_rfc3339 cutoff) (ar_store a)"
    using loses_delete [OF assms(1)] assms(2) by (simp add: loses_only_expired_def)
  have "?fresh (Faro_Store.events (ar_store a')) = ?fresh (Faro_Store.events (ar_store a))"
    using arg_cong [OF kept, of Faro_Store.events] by (simp add: retained_def)
  moreover have "?fresh (Faro_Store.events (ar_store a')) = Faro_Store.events (ar_store a')"
    using ended by (auto simp: expired_ids_def history_rows_def filter_map filter_empty_conv comp_def intro: filter_True)
  ultimately show "Faro_Store.events (ar_store a') = ?fresh (Faro_Store.events (ar_store a))"
    by simp
  show "n = length (filter (\<lambda>r. expired (sq_host q) (format_rfc3339 cutoff) (ev_timestamp r)) (Faro_Store.events (ar_store a)))"
    using ended by (simp add: expired_ids_def history_rows_def filter_map comp_def)
  have "dns_queries (ar_store (fst (delete_loop q ''events'' (format_rfc3339 cutoff) 0 a))) = dns_queries (ar_store a)"
    by (rule delete_loop_keeps [where R = "\<lambda>s s'. dns_queries s' = dns_queries s"])
      (auto simp: reflp_def transp_def delete_batch_def delete_ids_def Let_def)
  then show "dns_queries (ar_store a') = dns_queries (ar_store a)"
    using assms(1) by (simp add: deleteExpiredRows_def)
qed

lemma storePruneResult_Inr:
  assumes "storePruneResult q t i j a = (a', Inr u)" "iterates q"
  shows "setting (ar_store a') ''last_retention_pruned_at'' = Some t"
    "setting (ar_store a') ''last_retention_queries_deleted'' = Some (itoa (int i))"
    "setting (ar_store a') ''last_retention_events_deleted'' = Some (itoa (int j))"
    "dns_queries (ar_store a') = dns_queries (ar_store a)" "Faro_Store.events (ar_store a') = Faro_Store.events (ar_store a)"
proof -
  define vals where "vals = prune_values t i j"
  define kvs where "kvs = map (\<lambda>k. (k, the (gm_get vals k))) (sq_order q (gm_keys vals))"
  have put: "put_values q kvs a = (a', Inr u)"
    using assms(1) by (simp add: storePruneResult_def kvs_def vals_def Let_def)
  have "distinct (gm_keys vals)"
    by (simp add: vals_def prune_values_def)
  then have "distinct (map fst kvs)"
    using assms(2) by (simp add: kvs_def comp_def iterates_def)
  note r = put_values_Inr [OF put this]
  have "gm_get kvs k = Some (the (gm_get vals k))" if "k \<in> set (gm_keys vals)" for k
    using that assms(2) by (simp add: kvs_def iterates_def map_of_map_restrict)
  note look = this
  show "setting (ar_store a') ''last_retention_pruned_at'' = Some t"
    "setting (ar_store a') ''last_retention_queries_deleted'' = Some (itoa (int i))"
    "setting (ar_store a') ''last_retention_events_deleted'' = Some (itoa (int j))"
    using r look [of "''last_retention_pruned_at''"] look [of "''last_retention_queries_deleted''"] look [of "''last_retention_events_deleted''"]
    by (simp_all add: setting_def vals_def prune_values_def)
  show "dns_queries (ar_store a') = dns_queries (ar_store a)" "Faro_Store.events (ar_store a') = Faro_Store.events (ar_store a)"
    using r by simp_all
qed

text \<open>
  C37. A prune that reports success has removed exactly the expired queries and events, its counts are theirs, the
  settings that the overview shows are the result's, and the history counts as healthy again.
\<close>

theorem Prune_effect:
  assumes "Prune q days compact a = (a', Inr r)" "iterates q" "history_wf (ar_store a)"
    "cutoff = format_rfc3339 (days_before days (sq_now q (ar_calls a + 9)))"
  shows "dns_queries (ar_store a') = filter (\<lambda>x. \<not> expired (sq_host q) cutoff (q_timestamp x)) (dns_queries (ar_store a)) \<and>
    Faro_Store.events (ar_store a') = filter (\<lambda>x. \<not> expired (sq_host q) cutoff (ev_timestamp x)) (Faro_Store.events (ar_store a)) \<and>
    QueriesDeleted r + length (dns_queries (ar_store a')) = length (dns_queries (ar_store a)) \<and>
    EventsDeleted r + length (Faro_Store.events (ar_store a')) = length (Faro_Store.events (ar_store a)) \<and>
    Cutoff r = cutoff \<and> setting (ar_store a') ''last_retention_pruned_at'' = Some (CompletedAt r) \<and>
    setting (ar_store a') ''last_retention_queries_deleted'' = Some (itoa (int (QueriesDeleted r))) \<and>
    setting (ar_store a') ''last_retention_events_deleted'' = Some (itoa (int (EventsDeleted r))) \<and>
    ar_activity a' = ReportActivityWriteSuccess"
proof -
  have "prune_database q days compact a = (a', Inr r)"
    using assms(1) by (cases "prune_database q days compact a"; cases "snd (prune_database q days compact a)") (auto simp: Prune_def split: if_splits)
  then obtain a1 b t a2 i j at a3 s3 where
      s1: "Snapshot q a = (a1, Inr b)" and t: "t = days_before days (clock q a1)" and
      p: "prune_rows q t compact a1 = (a2, Inr (i, j, at))" and s3: "Snapshot q a2 = (a3, Inr s3)" and
      a': "a' = a3\<lparr>ar_activity := ReportActivityWriteSuccess\<rparr>" and
      r: "QueriesDeleted r = i" "EventsDeleted r = j" "CompletedAt r = at" "Cutoff r = format_rfc3339 t"
    by (auto simp: prune_database_def and_then_Inr Let_def return_def)
  have cutoff: "format_rfc3339 t = cutoff"
    using Snapshot_calls [OF s1] by (simp add: t clock_def assms(4))
  obtain b1 b2 b3 b4 u1 u2 u3 where
      d1: "deleteExpiredRows q ''dns_queries'' t a1 = (b1, Inr i)" and d2: "deleteExpiredRows q ''events'' t b1 = (b2, Inr j)" and
      x: "exec q (\<lambda>s. (delete_states (format_rfc3339 t) s, ())) b2 = (b3, Inr u1)" and
      st: "storePruneResult q at i j b3 = (b4, Inr u2)" and v: "vacuum q compact b4 = (a2, Inr u3)"
    using p unfolding prune_rows_def Let_def by (auto simp: and_then_Inr report_Inr return_Inr)
  have b3: "ar_store b3 = delete_states (format_rfc3339 t) (ar_store b2)" and a2: "ar_store a2 = ar_store b4"
    using x v by (auto simp: exec_Inr vacuum_def return_Inr split: if_splits)
  have wf: "history_wf (ar_store a1)"
    using Snapshot_store [OF s1] assms(3) by simp
  note q1 = delete_queries_Inr [OF d1 wf]
  note e1 = delete_events_Inr [OF d2 q1(4)]
  note res = storePruneResult_Inr [OF st assms(2)]
  have same: "ar_store a3 = ar_store b4" "ar_store a1 = ar_store a"
    using a2 Snapshot_store [OF s3] Snapshot_store [OF s1] by simp_all
  show ?thesis
    using q1 e1 res r b3 sum_length_filter_compl [of _ "dns_queries (ar_store a)"] sum_length_filter_compl [of _ "Faro_Store.events (ar_store a)"]
    by (simp add: same cutoff delete_states_def a')
qed

section \<open>A database that answers\<close>

definition returns :: "'a action \<Rightarrow> bool" where
  "returns m \<longleftrightarrow> (\<forall>a. \<exists>a' x. m a = (a', Inr x))"

lemma returns_exec: "no_faults q \<Longrightarrow> returns (exec q f)"
  by (simp add: returns_def exec_Inr no_faults_def)

lemma returns_query: "no_faults q \<Longrightarrow> returns (query q f)"
  by (simp add: returns_exec query_def)

lemma returns_return: "returns (return x)"
  by (simp add: returns_def return_def)

lemma returns_and_then: "returns m \<Longrightarrow> (\<And>x. returns (k x)) \<Longrightarrow> returns (and_then m k)"
  by (simp add: returns_def and_then_Inr) meson

lemma returns_report: "returns m \<Longrightarrow> returns (report_failure q m)"
  by (simp add: returns_def report_Inr)

lemma returns_pragma: "no_faults q \<Longrightarrow> returns (page_pragma q f)"
  using returns_query [of q] by (auto simp: returns_def page_pragma_def)

lemma returns_split: "(\<And>x y. returns (k x y)) \<Longrightarrow> returns (case p of (x, y) \<Rightarrow> k x y)"
  by (cases p) simp

lemma returns_Snapshot:
  assumes "no_faults q"
  shows "returns (Snapshot q)"
proof -
  have "returns (Snapshot_at q days now)" for days now
    unfolding Snapshot_at_def using assms
    by (intro returns_and_then returns_pragma returns_query returns_split) (auto simp: returns_def return_def split: prod.splits)
  then show ?thesis
    by (auto simp: returns_def Snapshot_def split: prod.splits)
qed

lemma returns_put_values: "no_faults q \<Longrightarrow> returns (put_values q kvs)"
  by (induction kvs) (auto intro!: returns_and_then returns_exec returns_return)

lemma returns_prune_rows:
  assumes "no_faults q"
  shows "returns (prune_rows q cutoff compact)"
proof -
  have delete: "returns (deleteExpiredRows q table cutoff)" for table
    using delete_loop_total [OF assms] by (simp add: returns_def deleteExpiredRows_def)
  have vacuum: "returns (vacuum q compact)"
    using assms by (simp add: vacuum_def returns_exec returns_return)
  have store: "returns (and_then (report_failure q (storePruneResult q t i j))
      (\<lambda>_. and_then (report_failure q (vacuum q compact)) (\<lambda>_. return (i, j, t))))" for t i j
    unfolding storePruneResult_def Let_def
    by (intro returns_and_then returns_report returns_put_values [OF assms] vacuum returns_return)
  show ?thesis
    unfolding prune_rows_def
    by (intro returns_and_then returns_report delete returns_exec [OF assms]) (use store in \<open>simp add: returns_def Let_def\<close>)
qed

lemma Prune_returns:
  assumes "no_faults q" "MinDays \<le> days" "days \<le> MaxDays"
  shows "\<exists>a' r. Prune q days compact a = (a', Inr r)"
proof -
  obtain a1 b where s1: "Snapshot q a = (a1, Inr b)"
    using returns_Snapshot [OF assms(1)] unfolding returns_def by blast
  obtain a2 i j t where p: "prune_rows q (days_before days (clock q a1)) compact a1 = (a2, Inr (i, j, t))"
    using returns_prune_rows [OF assms(1)] unfolding returns_def by (metis prod_cases3)
  obtain a3 c where "Snapshot q a2 = (a3, Inr c)"
    using returns_Snapshot [OF assms(1)] unfolding returns_def by blast
  with s1 p have "\<exists>a' r. prune_database q days compact a = (a', Inr r)"
    by (simp add: prune_database_def and_then_ok Let_def return_def)
  then show ?thesis
    using assms(2,3) by (auto simp: Prune_def)
qed

section \<open>An example\<close>

text \<open>Day 40 of 1970 with one expired query and one expired event; SQLite's \<^verbatim>\<open>datetime\<close> on RFC 3339 texts.\<close>

definition calm_sqlite :: sqlite where
  "calm_sqlite = \<lparr>
     sq_host = \<lparr>load_location = (\<lambda>_. None), julianday = (\<lambda>_. None),
       sql_datetime = (\<lambda>s. map_option (\<lambda>t. t div second) (parse_rfc3339 s))\<rparr>,
     sq_fails = (\<lambda>_. None), sq_affected = (\<lambda>_. None), sq_now = (\<lambda>_. 40 * (24 * hour)),
     sq_pages = (\<lambda>_. (10, 4096, 1)), sq_order = (\<lambda>ks. ks)\<rparr>"

definition bare_store :: Store where
  "bare_store = \<lparr>dns_records = [], blocklists = [], blocklist_entries = [], protection_profiles = [], protection_blocklists = [],
     protection_allow_entries = [], protection_block_entries = [], device_protection_assignments = [], devices = [], device_addresses = [],
     device_identifiers = [], device_names = [], unifi_client_snapshots = [], device_classifications = [],
     device_protection_memberships = [], device_dns_pauses = [], troubleshooting_exceptions = [], allowlist_entries = [],
     manual_block_entries = [], dns_queries = [], events = [], notification_states = [], settings = [],
     redundancy_role = ''standalone'', query_log_progress = [], sqlite_sequence = []\<rparr>"

definition stamped :: "int \<Rightarrow> string \<Rightarrow> dns_query" where
  "stamped i ts = \<lparr>q_id = i, q_timestamp = ts, q_client_ip = ''192.168.1.7'', q_device_id = None, q_domain = ''example.com'',
     q_query_type = ''A'', q_action = ''allowed'', q_source = ''cache'', q_upstream = [], q_latency_us = 0, q_rcode = ''NOERROR'', q_decision_reason = [], q_decision_metadata = ''{}''\<rparr>"

definition two_months :: archive where
  "two_months = \<lparr>ar_store = bare_store\<lparr>
       dns_queries := [stamped 1 ''1970-01-02T00:00:00Z'', stamped 2 ''1970-02-01T00:00:00Z''],
       Faro_Store.events := [\<lparr>ev_id = 1, ev_timestamp = ''1970-01-03T00:00:00Z'', ev_type = [], ev_severity = ''info'', ev_title = [], ev_description = [],
         ev_client_ip = None, ev_domain = None, ev_metadata = ''{}'', ev_source = ''faro''\<rparr>],
       notification_states := [((1, ''*''), ''1970-01-01T00:00:00Z''), ((1, ''e''), ''1970-01-01T00:00:00Z'')]\<rparr>,
     ar_activity = ReportActivityWriteSuccess, ar_calls = 0\<rparr>"

lemma calm_facts: "no_faults calm_sqlite" "iterates calm_sqlite" "history_wf (ar_store two_months)"
  by (simp_all add: no_faults_def iterates_def history_wf_def calm_sqlite_def two_months_def bare_store_def stamped_def)

lemma calm_cutoff: "format_rfc3339 (days_before 30 (sq_now calm_sqlite n)) = ''1970-01-11T00:00:00Z''"
proof -
  have "days_before 30 (sq_now calm_sqlite n) div second = 864000"
    by (simp add: days_before_def calm_sqlite_def duration_defs)
  moreover have "civil_from_days 10 = (1970, 1, 11)" "pad 4 1970 = ''1970''" "pad 2 (Suc 0) = ''01''" "pad 2 1 = ''01''" "pad 2 11 = ''11''" "pad 2 0 = ''00''"
    by code_simp+
  ultimately show ?thesis
    by (simp add: format_rfc3339_def format_with_def)
qed

lemma calm_datetime:
  "sql_datetime (sq_host calm_sqlite) ''1970-01-11T00:00:00Z'' = Some 864000"
  "sql_datetime (sq_host calm_sqlite) ''1970-01-02T00:00:00Z'' = Some 86400"
  "sql_datetime (sq_host calm_sqlite) ''1970-01-03T00:00:00Z'' = Some 172800"
  "sql_datetime (sq_host calm_sqlite) ''1970-02-01T00:00:00Z'' = Some 2678400"
  by (simp_all add: calm_sqlite_def parse_rfc3339_def year4_def cut_prefix_def field_def getnum_def digits_value_def digit_value_def is_digit_def
      zone_offset_def fraction_def days_from_civil_def days_in_def leap_year_def Let_def second_def)

theorem deleteExpiredRows_complete_witness:
  "\<exists>a'. deleteExpiredRows calm_sqlite ''dns_queries'' (days_before 30 (sq_now calm_sqlite 0)) two_months = (a', Inr 1) \<and>
     history_rows ''dns_queries'' (ar_store a') = [(2, ''1970-02-01T00:00:00Z'')] \<and> ar_calls a' = 1"
  using deleteExpiredRows_complete [OF calm_facts(1,3) refl, of "''dns_queries''" "days_before 30 (sq_now calm_sqlite 0)"]
  by (simp add: calm_cutoff expired_ids_def history_rows_def two_months_def stamped_def expired_def calm_datetime)

theorem Prune_keeps_witness:
  "\<exists>a' r. Prune calm_sqlite 30 True two_months = (a', r) \<and>
     map q_id (filter (\<lambda>x. \<not> expired (sq_host calm_sqlite) ''1970-01-11T00:00:00Z'' (q_timestamp x)) (dns_queries (ar_store a'))) = [2]"
proof -
  obtain a' r where p: "Prune calm_sqlite 30 True two_months = (a', r)"
    by fastforce
  have "retained (sq_host calm_sqlite) ''1970-01-11T00:00:00Z'' (ar_store a') = retained (sq_host calm_sqlite) ''1970-01-11T00:00:00Z'' (ar_store two_months)"
    using Prune_keeps [OF p calm_facts(2,3) refl] by (simp add: calm_cutoff)
  from arg_cong [OF this, of dns_queries] p show ?thesis
    by (simp add: retained_def two_months_def stamped_def expired_def calm_datetime)
qed

theorem Prune_effect_witness:
  "\<exists>a' r. Prune calm_sqlite 30 True two_months = (a', Inr r) \<and> map q_id (dns_queries (ar_store a')) = [2] \<and>
     QueriesDeleted r = 1 \<and> EventsDeleted r = 1 \<and> setting (ar_store a') ''last_retention_queries_deleted'' = Some ''1''"
proof -
  obtain a' r where p: "Prune calm_sqlite 30 True two_months = (a', Inr r)"
    using Prune_returns [OF calm_facts(1), of 30 True two_months] by (auto simp: retention_bounds)
  have "itoa 1 = ''1''"
    by code_simp
  with p show ?thesis
    using Prune_effect [OF p calm_facts(2,3) refl]
    by (auto simp: calm_cutoff two_months_def stamped_def expired_def calm_datetime)
qed

end
