(* ===== verification/Device_Identity.thy ===== *)
theory Device_Identity
  imports CoreDNS_Explain Activity_Storage
begin

text \<open>
  The identity of devices (\<^verbatim>\<open>internal/devices/identity.go\<close>). A device is known by the addresses seen from it and
  by strong identifiers (an exact local DNS record, a MAC address of the neighbour table, identifiers of an
  integration). Observing an address records it and merges two devices when an identifier shows that they
  are one, unless both were named differently by the user or belong to different profiles.

  The transaction of an observation either commits or leaves the database as it was, so one value
  \<open>oe_fails\<close> of the environment says whether some statement of it fails. The neighbour table is the content of
  \<^verbatim>\<open>/proc/net/arp\<close> if it can be read; \<open>oe_stamp\<close> and \<open>oe_current\<close> are SQLite's texts of the current time.
\<close>

record observation_env =
  oe_arp :: "string option"
  oe_stamp :: string
  oe_current :: string
  oe_fails :: "sql_error option"

datatype identity_error = ErrInvalidAddress | NoRows | Failed sql_error

section \<open>Addresses\<close>

definition normalizeAddress :: "string \<Rightarrow> string" where
  "normalizeAddress v0 =
     (let v1 = trim_space (trim_chars ''[]'' v0);
          v2 = (case split_host_port v1 of Some (host_part, _) \<Rightarrow> host_part | None \<Rightarrow> v1);
          v3 = (case last_index (CHR ''%'') v2 of Some i \<Rightarrow> take i v2 | None \<Rightarrow> v2) in
      case parse_ip v3 of None \<Rightarrow> [] | Some ip \<Rightarrow> ip_string ip)"

text \<open>\<^verbatim>\<open>net.ParseMAC\<close> and \<^verbatim>\<open>HardwareAddr.String\<close>.\<close>

definition hex_byte :: "char \<Rightarrow> char \<Rightarrow> nat option" where
  "hex_byte a b = (if is_hex a \<and> is_hex b then Some (16 * hex_digit_value a + hex_digit_value b) else None)"

fun hex_pairs :: "char \<Rightarrow> string \<Rightarrow> nat list option" where
  "hex_pairs sep [a, b] = map_option (\<lambda>x. [x]) (hex_byte a b)"
| "hex_pairs sep (a # b # c # rest) =
     (case hex_byte a b of None \<Rightarrow> None | Some x \<Rightarrow> if c = sep then map_option ((#) x) (hex_pairs sep rest) else None)"
| "hex_pairs sep _ = None"

fun hex_quads :: "string \<Rightarrow> nat list option" where
  "hex_quads [a, b, c, d] = (case (hex_byte a b, hex_byte c d) of (Some x, Some y) \<Rightarrow> Some [x, y] | _ \<Rightarrow> None)"
| "hex_quads (a # b # c # d # e # rest) =
     (case (hex_byte a b, hex_byte c d) of
        (Some x, Some y) \<Rightarrow> if e = CHR ''.'' then map_option (\<lambda>zs. x # y # zs) (hex_quads rest) else None
      | _ \<Rightarrow> None)"
| "hex_quads _ = None"

definition parse_mac :: "string \<Rightarrow> nat list option" where
  "parse_mac s =
     (let n = length s in
      if n < 14 then None
      else if s ! 2 = CHR '':'' \<or> s ! 2 = CHR ''-''
      then (if (n + 1) mod 3 = 0 \<and> (n + 1) div 3 \<in> {6, 8, 20} then hex_pairs (s ! 2) s else None)
      else if s ! 4 = CHR ''.''
      then (if (n + 1) mod 5 = 0 \<and> 2 * (n + 1) div 5 \<in> {6, 8, 20} then hex_quads s else None)
      else None)"

definition mac_string :: "nat list \<Rightarrow> string" where
  "mac_string bs = join '':'' (map (\<lambda>b. [hex_char (b div 16), hex_char (b mod 16)]) bs)"

fun arp_scan :: "string \<Rightarrow> string list \<Rightarrow> string" where
  "arp_scan address [] = []"
| "arp_scan address (l # ls) =
     (if length l \<ge> 65536 then []
      else
        let fs = go_fields (drop_cr l) in
        if length fs < 4 \<or> fs ! 0 \<noteq> address then arp_scan address ls
        else (case parse_mac (fs ! 3) of
                Some mac \<Rightarrow> if fs ! 3 \<noteq> ''00:00:00:00:00:00'' then to_lower (mac_string mac) else arp_scan address ls
              | None \<Rightarrow> arp_scan address ls))"

definition arpMAC :: "string option \<Rightarrow> string \<Rightarrow> string" where
  "arpMAC arp address =
     (if CHR ''.'' \<notin> set address then []
      else (case arp of None \<Rightarrow> [] | Some content \<Rightarrow> arp_scan address (raw_lines content)))"

section \<open>Identifiers\<close>

record Identifier =
  Kind :: string
  Value :: string
  Source :: string
  Confidence :: string

text \<open>SQLite's \<^verbatim>\<open>TRIM\<close> removes spaces only, its \<^verbatim>\<open>LOWER\<close> folds ASCII only.\<close>

definition sql_trim :: "string \<Rightarrow> string" where
  "sql_trim = trim_chars '' ''"

definition local_hostnames :: "Store \<Rightarrow> string \<Rightarrow> string list" where
  "local_hostnames s address =
     remdups (map (\<lambda>r. map lower_char (sql_trim (dr_hostname r)))
       (filter (\<lambda>r. dr_value r = address \<and> dr_type r \<in> {''A'', ''AAAA''} \<and> sql_trim (dr_hostname r) \<noteq> []) (dns_records s)))"

definition passiveIdentifiers :: "string option \<Rightarrow> Store \<Rightarrow> string \<Rightarrow> Identifier list" where
  "passiveIdentifiers arp s address =
     sort_key Kind
       (map (\<lambda>h. \<lparr>Kind = ''local_dns'', Value = trim_suffix ''.'' h, Source = ''local_dns'', Confidence = ''strong''\<rparr>) (local_hostnames s address) @
        (let mac = arpMAC arp address in
         if mac \<noteq> [] then [\<lparr>Kind = ''mac'', Value = mac, Source = ''neighbor_table'', Confidence = ''strong''\<rparr>] else []))"

definition normal_identifier :: "Identifier \<Rightarrow> Identifier" where
  "normal_identifier i = i\<lparr>Kind := to_lower (trim_space (Kind i)), Value := to_lower (trim_space (Value i))\<rparr>"

definition identifier_key :: "Identifier \<Rightarrow> string" where
  "identifier_key i = Kind i @ [CHR 0x00] @ Value i"

fun collect_identifiers :: "string list \<Rightarrow> Identifier list \<Rightarrow> Identifier list" where
  "collect_identifiers seen [] = []"
| "collect_identifiers seen (i # ids) =
     (let n = normal_identifier i in
      if Kind n = [] \<or> Value n = [] then collect_identifiers seen ids
      else if identifier_key n \<in> set seen then collect_identifiers seen ids
      else n # collect_identifiers (identifier_key n # seen) ids)"

definition normalizedIdentifiers :: "Identifier list \<Rightarrow> Identifier list" where
  "normalizedIdentifiers ids = sort_key Kind (sort_key Value (collect_identifiers [] ids))"

definition identifier_device :: "Store \<Rightarrow> string \<Rightarrow> string \<Rightarrow> int option" where
  "identifier_device s kind v =
     map_option di_device_id (List.find (\<lambda>d. di_kind d = kind \<and> di_value d = v) (device_identifiers s))"

fun deviceForIdentifiers :: "Store \<Rightarrow> int \<Rightarrow> Identifier list \<Rightarrow> int \<times> bool" where
  "deviceForIdentifiers s found [] = (found, False)"
| "deviceForIdentifiers s found (i # ids) =
     (case identifier_device s (Kind i) (Value i) of
        None \<Rightarrow> deviceForIdentifiers s found ids
      | Some candidate \<Rightarrow>
          if found \<noteq> 0 \<and> found \<noteq> candidate then (0, True) else deviceForIdentifiers s candidate ids)"

section \<open>Recording an address\<close>

definition insert_device :: "string \<Rightarrow> Store \<Rightarrow> Store \<times> int" where
  "insert_device stamp s =
     (let i = next_id ''devices'' s in
      ((bump ''devices'' s)\<lparr>devices := devices s @
         [\<lparr>dv_id = i, dv_name = [], dv_location = None, dv_notes = None, dv_confirmed = False,
           dv_first_seen_at = Some stamp, dv_last_seen_at = Some stamp\<rparr>]\<rparr>, i))"

definition insert_address :: "string \<Rightarrow> int \<Rightarrow> string \<Rightarrow> string \<Rightarrow> Store \<Rightarrow> Store" where
  "insert_address stamp device address source s =
     (bump ''device_addresses'' s)\<lparr>device_addresses := device_addresses s @
       [\<lparr>da_id = next_id ''device_addresses'' s, da_device_id = device, da_address = address,
         da_family = (if CHR '':'' \<in> set address then ''ipv6'' else ''ipv4''), da_source = source, da_last_seen_at = stamp\<rparr>]\<rparr>"

definition deviceForAddress :: "string \<Rightarrow> string \<Rightarrow> string \<Rightarrow> int \<Rightarrow> Store \<Rightarrow> Store \<times> int" where
  "deviceForAddress stamp address source matched s =
     (case device_of s address of
        Some d \<Rightarrow> (s, d)
      | None \<Rightarrow> (case (if matched = 0 then insert_device stamp s else (s, matched)) of
                   (s1, d) \<Rightarrow> (insert_address stamp d address source s1, d)))"

definition touchObservation :: "string \<Rightarrow> string \<Rightarrow> int \<Rightarrow> Store \<Rightarrow> Store" where
  "touchObservation stamp address device s = s\<lparr>
     device_addresses := map (\<lambda>a. if da_address a = address then a\<lparr>da_last_seen_at := stamp\<rparr> else a) (device_addresses s),
     devices := map (\<lambda>d. if dv_id d = device then d\<lparr>dv_last_seen_at := Some stamp\<rparr> else d) (devices s)\<rparr>"

section \<open>Merging two devices\<close>

record deviceFields =
  df_name :: string
  df_location :: string
  df_notes :: string
  df_confirmed :: bool
  df_protection :: "int option"

definition coalesce :: "'a \<Rightarrow> 'a option \<Rightarrow> 'a" where
  "coalesce d x = (case x of None \<Rightarrow> d | Some v \<Rightarrow> v)"

definition find_device :: "Store \<Rightarrow> int \<Rightarrow> device option" where
  "find_device s i = List.find (\<lambda>d. dv_id d = i) (devices s)"

definition readDeviceFields :: "Store \<Rightarrow> int \<Rightarrow> deviceFields option" where
  "readDeviceFields s i =
     map_option (\<lambda>d. \<lparr>df_name = dv_name d, df_location = coalesce [] (dv_location d), df_notes = coalesce [] (dv_notes d),
         df_confirmed = dv_confirmed d, df_protection = gm_get (device_protection_memberships s) i\<rparr>) (find_device s i)"

definition canMergeDevices :: "deviceFields \<Rightarrow> deviceFields \<Rightarrow> bool" where
  "canMergeDevices target source \<longleftrightarrow>
     \<not> (df_confirmed target \<and> df_confirmed source \<and> trim_space (df_name target) \<noteq> [] \<and> \<not> equal_fold (df_name target) (df_name source)) \<and>
     \<not> (df_protection target \<noteq> None \<and> df_protection source \<noteq> None \<and> df_protection target \<noteq> df_protection source)"

definition mergeProtection :: "int \<Rightarrow> int option \<Rightarrow> int option \<Rightarrow> Store \<Rightarrow> Store" where
  "mergeProtection targetID target source s =
     (case source of
        Some p \<Rightarrow> if target \<noteq> None then s
          else s\<lparr>device_protection_memberships := gm_put targetID p (device_protection_memberships s)\<rparr>
      | None \<Rightarrow> s)"

definition nullif :: "string \<Rightarrow> string option" where
  "nullif v = (if v = [] then None else Some v)"

definition merged_row :: "string \<Rightarrow> deviceFields \<Rightarrow> device option \<Rightarrow> device \<Rightarrow> device" where
  "merged_row current source row d = d\<lparr>
     dv_name := (if sql_trim (dv_name d) = [] then df_name source else dv_name d),
     dv_location := (if sql_trim (coalesce [] (dv_location d)) = [] then nullif (df_location source) else dv_location d),
     dv_notes := (if sql_trim (coalesce [] (dv_notes d)) = [] then nullif (df_notes source) else dv_notes d),
     dv_confirmed := (dv_confirmed d \<or> df_confirmed source),
     dv_first_seen_at := Some (min (coalesce current (dv_first_seen_at d)) (coalesce current (Option.bind row dv_first_seen_at))),
     dv_last_seen_at := Some (max (coalesce [] (dv_last_seen_at d)) (coalesce [] (Option.bind row dv_last_seen_at)))\<rparr>"

text \<open>\<^verbatim>\<open>DELETE FROM devices WHERE id = ?\<close> with the cascades of the schema.\<close>

definition delete_device :: "int \<Rightarrow> Store \<Rightarrow> Store" where
  "delete_device i s = s\<lparr>
     devices := filter (\<lambda>d. dv_id d \<noteq> i) (devices s),
     device_addresses := filter (\<lambda>a. da_device_id a \<noteq> i) (device_addresses s),
     device_identifiers := filter (\<lambda>d. di_device_id d \<noteq> i) (device_identifiers s),
     device_names := filter (\<lambda>((d, _), _). d \<noteq> i) (device_names s),
     unifi_client_snapshots := filter (\<lambda>(_, d). d \<noteq> i) (unifi_client_snapshots s),
     device_classifications := gm_del i (device_classifications s),
     device_protection_memberships := gm_del i (device_protection_memberships s),
     device_dns_pauses := gm_del i (device_dns_pauses s),
     troubleshooting_exceptions := filter (\<lambda>t. te_device_id t \<noteq> i) (troubleshooting_exceptions s)\<rparr>"

definition move_rows :: "int \<Rightarrow> int \<Rightarrow> Store \<Rightarrow> Store" where
  "move_rows target source s =
     (let own = map fst (filter (\<lambda>((d, _), _). d = target) (device_names s)) in s\<lparr>
     device_addresses := map (\<lambda>a. if da_device_id a = source then a\<lparr>da_device_id := target\<rparr> else a) (device_addresses s),
     dns_queries := map (\<lambda>q. if q_device_id q = Some source then q\<lparr>q_device_id := Some target\<rparr> else q) (dns_queries s),
     device_identifiers := map (\<lambda>d. if di_device_id d = source then d\<lparr>di_device_id := target\<rparr> else d)
       (filter (\<lambda>d. \<not> (di_device_id d = source \<and>
          list_ex (\<lambda>t. di_device_id t = target \<and> di_kind t = di_kind d \<and> di_value t = di_value d) (device_identifiers s))) (device_identifiers s)),
     device_names := map (\<lambda>((d, src), n). (if d = source then (target, src) else (d, src), n))
       (filter (\<lambda>((d, src), _). \<not> (d = source \<and> (target, src) \<in> set own)) (device_names s)),
     unifi_client_snapshots := map (\<lambda>(k, d). (k, if d = source then target else d)) (unifi_client_snapshots s),
     device_protection_memberships := gm_del source (device_protection_memberships s)\<rparr>)"

definition mergeDeviceData :: "string \<Rightarrow> int \<Rightarrow> int \<Rightarrow> deviceFields \<Rightarrow> Store \<Rightarrow> Store" where
  "mergeDeviceData current target source old s =
     delete_device source (move_rows target source
       (s\<lparr>devices := map (\<lambda>d. if dv_id d = target then merged_row current old (find_device s source) d else d) (devices s)\<rparr>))"

definition safeMerge :: "string \<Rightarrow> int \<Rightarrow> int \<Rightarrow> Store \<Rightarrow> (Store \<times> bool) option" where
  "safeMerge current targetID sourceID s =
     (if targetID = sourceID then Some (s, True)
      else (case (readDeviceFields s targetID, readDeviceFields s sourceID) of
              (Some target, Some source) \<Rightarrow>
                if \<not> canMergeDevices target source then Some (s, False)
                else Some (mergeDeviceData current targetID sourceID source
                       (mergeProtection targetID (df_protection target) (df_protection source) s), True)
            | _ \<Rightarrow> None))"

section \<open>Observing an address\<close>

definition insert_identifier :: "int \<Rightarrow> Identifier \<Rightarrow> Store \<Rightarrow> Store" where
  "insert_identifier device i s =
     (if identifier_device s (Kind i) (Value i) \<noteq> None then s
      else s\<lparr>device_identifiers := device_identifiers s @
        [\<lparr>di_device_id = device, di_kind = Kind i, di_value = Value i, di_source = Source i,
          di_confidence = (if Confidence i = [] then ''observed'' else Confidence i)\<rparr>]\<rparr>)"

definition observeIdentifier :: "string \<Rightarrow> int \<Rightarrow> Identifier \<Rightarrow> Store \<Rightarrow> (Store \<times> int) option" where
  "observeIdentifier current device i0 s =
     (let i = normal_identifier i0 in
      if Kind i = [] \<or> Value i = [] then Some (s, device)
      else (case identifier_device s (Kind i) (Value i) of
              None \<Rightarrow> Some (insert_identifier device i s, device)
            | Some existing \<Rightarrow>
                if existing = device then Some (insert_identifier device i s, device)
                else (case safeMerge current existing device s of
                        None \<Rightarrow> None
                      | Some (s1, merged) \<Rightarrow>
                          if merged then Some (insert_identifier existing i s1, existing) else Some (s1, device))))"

fun observeIdentifiers :: "string \<Rightarrow> int \<Rightarrow> Identifier list \<Rightarrow> Store \<Rightarrow> (Store \<times> int) option" where
  "observeIdentifiers current device [] s = Some (s, device)"
| "observeIdentifiers current device (i # ids) s =
     (case observeIdentifier current device i s of
        None \<Rightarrow> None
      | Some (s1, resolved) \<Rightarrow> observeIdentifiers current resolved ids s1)"

definition observe_tx :: "observation_env \<Rightarrow> string \<Rightarrow> string \<Rightarrow> Identifier list \<Rightarrow> Store \<Rightarrow> (Store \<times> int) option" where
  "observe_tx env address source identifiers s =
     (let (matched, conflicting) = deviceForIdentifiers s 0 identifiers;
          (s1, device) = deviceForAddress (oe_stamp env) address source matched s in
      case (if conflicting then Some (s1, device) else observeIdentifiers (oe_current env) device identifiers s1) of
        None \<Rightarrow> None
      | Some (s2, resolved) \<Rightarrow> Some (touchObservation (oe_stamp env) address resolved s2, resolved))"

definition ObserveAddress :: "observation_env \<Rightarrow> string \<Rightarrow> string \<Rightarrow> Identifier list \<Rightarrow> Store \<Rightarrow> Store \<times> (identity_error + int)" where
  "ObserveAddress env address0 source0 explicit s =
     (let address = normalizeAddress address0;
          source = (if trim_space source0 = [] then ''dns'' else source0) in
      if address = [] then (s, Inl ErrInvalidAddress)
      else (case oe_fails env of
              Some e \<Rightarrow> (s, Inl (Failed e))
            | None \<Rightarrow>
                (case observe_tx env address source (normalizedIdentifiers (passiveIdentifiers (oe_arp env) s address @ explicit)) s of
                   None \<Rightarrow> (s, Inl NoRows)
                 | Some (s', device) \<Rightarrow> (s', Inr device))))"

definition ResolveAddress :: "observation_env \<Rightarrow> string \<Rightarrow> string \<Rightarrow> Store \<Rightarrow> Store \<times> (identity_error + int)" where
  "ResolveAddress env address source s = ObserveAddress env address source [] s"

definition DeviceIDForAddress :: "string \<Rightarrow> Store \<Rightarrow> identity_error + int option" where
  "DeviceIDForAddress address0 s =
     (let address = normalizeAddress address0 in if address = [] then Inl ErrInvalidAddress else Inr (device_of s address))"

text \<open>\<^verbatim>\<open>ORDER BY last_seen_at DESC, id DESC\<close>.\<close>

definition Addresses :: "int \<Rightarrow> Store \<Rightarrow> string list" where
  "Addresses device s =
     map da_address (rev (sort_key da_last_seen_at (sort_key da_id (filter (\<lambda>a. da_device_id a = device) (device_addresses s)))))"

section \<open>The constraints on devices\<close>

definition device_ids :: "Store \<Rightarrow> int set" where
  "device_ids s = dv_id ` set (devices s)"

definition devices_wf :: "Store \<Rightarrow> bool" where
  "devices_wf s \<longleftrightarrow>
     distinct (map dv_id (devices s)) \<and> 0 < next_id ''devices'' s \<and> (\<forall>i \<in> device_ids s. 0 < i \<and> i < next_id ''devices'' s) \<and>
     da_device_id ` set (device_addresses s) \<subseteq> device_ids s \<and>
     distinct (map (\<lambda>d. (di_kind d, di_value d)) (device_identifiers s)) \<and>
     di_device_id ` set (device_identifiers s) \<subseteq> device_ids s \<and>
     gm_wf (device_names s) \<and> fst ` set (gm_keys (device_names s)) \<subseteq> device_ids s \<and>
     snd ` set (unifi_client_snapshots s) \<subseteq> device_ids s \<and>
     set (gm_keys (device_classifications s)) \<subseteq> device_ids s \<and>
     set (gm_keys (device_protection_memberships s)) \<subseteq> device_ids s \<and>
     set (gm_keys (device_dns_pauses s)) \<subseteq> device_ids s \<and>
     te_device_id ` set (troubleshooting_exceptions s) \<subseteq> device_ids s"

definition schema_wf :: "Store \<Rightarrow> bool" where
  "schema_wf s \<longleftrightarrow> store_wf s \<and> devices_wf s"

lemma find_map_same: "(\<And>x. P (f x) = P x) \<Longrightarrow> List.find P (map f xs) = map_option f (List.find P xs)"
  by (induction xs) auto

lemma device_of_id: "devices_wf s \<Longrightarrow> device_of s a = Some d \<Longrightarrow> d \<in> device_ids s"
  by (auto simp: device_of_def devices_wf_def dest!: find_Some_in)

lemma identifier_device_id: "devices_wf s \<Longrightarrow> identifier_device s k v = Some d \<Longrightarrow> d \<in> device_ids s"
  by (auto simp: identifier_device_def devices_wf_def dest!: find_Some_in)

lemma next_id_bump [simp]: "next_id t (bump t s) = next_id t s + 1" "t \<noteq> u \<Longrightarrow> next_id t (bump u s) = next_id t s"
  by (simp_all add: next_id_def bump_def)

lemma insert_device_wf:
  assumes "schema_wf s" "insert_device stamp s = (s', d)"
  shows "schema_wf s'" "d \<in> device_ids s'" "\<And>a. device_of s' a = device_of s a"
    "device_protection_memberships s' = device_protection_memberships s"
proof -
  have s': "s' = (bump ''devices'' s)\<lparr>devices := devices s @
         [\<lparr>dv_id = d, dv_name = [], dv_location = None, dv_notes = None, dv_confirmed = False,
           dv_first_seen_at = Some stamp, dv_last_seen_at = Some stamp\<rparr>]\<rparr>" and d: "d = next_id ''devices'' s"
    using assms(2) by (auto simp: insert_device_def Let_def)
  have ids: "device_ids s' = insert d (device_ids s)"
    by (auto simp: s' device_ids_def)
  then show "d \<in> device_ids s'"
    by simp
  have next_: "next_id ''devices'' s' = d + 1"
    by (simp add: s' d next_id_def bump_def)
  have "d \<notin> device_ids s" "0 < d"
    using assms(1) by (auto simp: schema_wf_def devices_wf_def d)
  then have "distinct (map dv_id (devices s'))"
    using assms(1) by (auto simp: s' schema_wf_def devices_wf_def device_ids_def bump_def)
  moreover have "\<forall>i \<in> device_ids s'. 0 < i \<and> i < next_id ''devices'' s'"
    using assms(1) \<open>0 < d\<close> unfolding ids next_ by (auto simp: schema_wf_def devices_wf_def d)
  ultimately have "devices_wf s'"
    using assms(1) \<open>0 < d\<close> unfolding devices_wf_def ids next_ schema_wf_def by (simp add: s' bump_def subset_insertI2)
  moreover have "store_wf s'"
    using assms(1) by (simp add: schema_wf_def store_wf_def s' bump_def)
  ultimately show "schema_wf s'"
    by (simp add: schema_wf_def)
  show "device_of s' a = device_of s a" "device_protection_memberships s' = device_protection_memberships s" for a
    by (simp_all add: s' device_of_def bump_def)
qed

lemma insert_address_wf:
  assumes "schema_wf s" "device_of s address = None" "d \<in> device_ids s"
  shows "schema_wf (insert_address stamp d address source s)"
    "device_of (insert_address stamp d address source s) a = (if a = address then Some d else device_of s a)"
    "device_protection_memberships (insert_address stamp d address source s) = device_protection_memberships s"
    "device_ids (insert_address stamp d address source s) = device_ids s"
proof -
  let ?s' = "insert_address stamp d address source s"
  show ids: "device_ids ?s' = device_ids s" and "device_protection_memberships ?s' = device_protection_memberships s"
    by (simp_all add: insert_address_def device_ids_def bump_def)
  have new: "address \<notin> da_address ` set (device_addresses s)"
    using assms(2) by (auto simp: device_of_def find_None_iff)
  have "devices_wf ?s'"
    using assms(1,3) unfolding devices_wf_def ids schema_wf_def by (auto simp: insert_address_def next_id_def bump_def)
  moreover have "store_wf ?s'"
    using assms(1) new by (auto simp: schema_wf_def store_wf_def insert_address_def bump_def)
  ultimately show "schema_wf ?s'"
    by (simp add: schema_wf_def)
  show "device_of ?s' a = (if a = address then Some d else device_of s a)"
    using assms(2) by (auto simp: device_of_def insert_address_def bump_def find_append split: option.splits)
qed

lemma insert_identifier_wf:
  assumes "schema_wf s" "d \<in> device_ids s"
  shows "schema_wf (insert_identifier d i s)" "device_of (insert_identifier d i s) a = device_of s a"
    "device_protection_memberships (insert_identifier d i s) = device_protection_memberships s"
    "device_ids (insert_identifier d i s) = device_ids s"
proof -
  let ?s' = "insert_identifier d i s"
  show ids: "device_ids ?s' = device_ids s" and "device_protection_memberships ?s' = device_protection_memberships s"
      "device_of ?s' a = device_of s a"
    by (simp_all add: insert_identifier_def device_ids_def device_of_def)
  have "devices_wf ?s'"
    using assms(1,2) unfolding devices_wf_def ids schema_wf_def
    by (auto simp: insert_identifier_def identifier_device_def find_None_iff next_id_def)
  moreover have "store_wf ?s'"
    using assms(1) by (simp add: schema_wf_def store_wf_def insert_identifier_def)
  ultimately show "schema_wf ?s'"
    by (simp add: schema_wf_def)
qed

lemma touchObservation_wf:
  assumes "schema_wf s"
  shows "schema_wf (touchObservation stamp address d s)" "device_of (touchObservation stamp address d s) a = device_of s a"
    "device_protection_memberships (touchObservation stamp address d s) = device_protection_memberships s"
    "device_ids (touchObservation stamp address d s) = device_ids s"
proof -
  let ?s' = "touchObservation stamp address d s"
  have maps: "map dv_id (devices ?s') = map dv_id (devices s)" "map da_address (device_addresses ?s') = map da_address (device_addresses s)"
      "map da_device_id (device_addresses ?s') = map da_device_id (device_addresses s)"
    by (simp_all add: touchObservation_def comp_def if_distrib cong: if_cong)
  have ids: "device_ids ?s' = device_ids s" and owners: "da_device_id ` set (device_addresses ?s') = da_device_id ` set (device_addresses s)"
    using arg_cong [OF maps(1), of set] arg_cong [OF maps(3), of set] by (simp_all add: device_ids_def)
  show "device_ids ?s' = device_ids s"
    by (rule ids)
  show "device_protection_memberships ?s' = device_protection_memberships s"
    by (simp add: touchObservation_def)
  have "devices_wf ?s'"
    using assms unfolding devices_wf_def ids maps owners schema_wf_def
    by (simp add: touchObservation_def next_id_def)
  moreover have "store_wf ?s'"
    using assms unfolding schema_wf_def store_wf_def maps by (simp add: touchObservation_def)
  ultimately show "schema_wf ?s'"
    by (simp add: schema_wf_def)
  show "device_of ?s' a = device_of s a"
    unfolding device_of_def touchObservation_def by (simp add: find_map_same) (cases "List.find (\<lambda>x. da_address x = a) (device_addresses s)"; simp)
qed

section \<open>What a merge does\<close>

abbreviation moved :: "int \<Rightarrow> int \<Rightarrow> int \<Rightarrow> int" where
  "moved target source d \<equiv> (if d = source then target else d)"

lemma merge_addresses:
  assumes "target \<noteq> source"
  shows "device_addresses (mergeDeviceData current target source old s) =
    map (\<lambda>a. if da_device_id a = source then a\<lparr>da_device_id := target\<rparr> else a) (device_addresses s)"
  using assms by (auto simp: mergeDeviceData_def delete_device_def move_rows_def Let_def intro!: filter_True)

lemma merge_device_of:
  assumes "target \<noteq> source"
  shows "device_of (mergeDeviceData current target source old s) a = map_option (moved target source) (device_of s a)"
  unfolding device_of_def merge_addresses [OF assms]
  by (simp add: find_map_same) (cases "List.find (\<lambda>x. da_address x = a) (device_addresses s)"; simp)

lemma merge_identifiers:
  assumes "target \<noteq> source" "distinct (map (\<lambda>d. (di_kind d, di_value d)) (device_identifiers s))"
  shows "device_identifiers (mergeDeviceData current target source old s) =
    map (\<lambda>d. if di_device_id d = source then d\<lparr>di_device_id := target\<rparr> else d) (device_identifiers s)"
proof -
  have same: "t = d" if "t \<in> set (device_identifiers s)" "d \<in> set (device_identifiers s)" "di_kind t = di_kind d" "di_value t = di_value d" for t d
    using assms(2) that by (simp add: distinct_map inj_on_def)
  have "\<forall>d \<in> set (device_identifiers s). \<not> (di_device_id d = source \<and>
      list_ex (\<lambda>t. di_device_id t = target \<and> di_kind t = di_kind d \<and> di_value t = di_value d) (device_identifiers s))"
  proof (intro ballI notI)
    fix d
    assume d: "d \<in> set (device_identifiers s)" and e: "di_device_id d = source \<and>
      list_ex (\<lambda>t. di_device_id t = target \<and> di_kind t = di_kind d \<and> di_value t = di_value d) (device_identifiers s)"
    then obtain t where t: "t \<in> set (device_identifiers s)" "di_device_id t = target" "di_kind t = di_kind d" "di_value t = di_value d"
      by (auto simp: list_ex_iff)
    show False
      using same [OF t(1) d t(3,4)] t(2) e assms(1) by simp
  qed
  then have "filter (\<lambda>d. \<not> (di_device_id d = source \<and>
      list_ex (\<lambda>t. di_device_id t = target \<and> di_kind t = di_kind d \<and> di_value t = di_value d) (device_identifiers s))) (device_identifiers s) =
    device_identifiers s"
    by (intro filter_True) blast
  then show ?thesis
    using assms(1) by (auto simp: mergeDeviceData_def delete_device_def move_rows_def Let_def intro!: filter_True)
qed

lemma merge_memberships:
  "device_protection_memberships (mergeDeviceData current target source old s) = gm_del source (device_protection_memberships s)"
  by (simp add: mergeDeviceData_def delete_device_def move_rows_def Let_def AList.delete_idem)

lemma merge_rows:
  "map dv_id (devices (mergeDeviceData current target source old s)) = filter (\<lambda>i. i \<noteq> source) (map dv_id (devices s))"
proof -
  let ?f = "\<lambda>d. if dv_id d = target then merged_row current old (find_device s source) d else d"
  have id: "dv_id (?f d) = dv_id d" for d
    by (simp add: merged_row_def)
  have "map dv_id (devices (mergeDeviceData current target source old s)) = map dv_id (filter (\<lambda>d. dv_id d \<noteq> source) (map ?f (devices s)))"
    by (simp add: mergeDeviceData_def delete_device_def move_rows_def Let_def)
  also have "\<dots> = filter (\<lambda>i. i \<noteq> source) (map dv_id (map ?f (devices s)))"
    by (simp add: filter_map comp_def)
  also have "map dv_id (map ?f (devices s)) = map dv_id (devices s)"
    using id by simp
  finally show ?thesis .
qed

lemma merge_device_ids: "device_ids (mergeDeviceData current target source old s) = device_ids s - {source}"
  using arg_cong [OF merge_rows, of set current target source old s] by (auto simp: device_ids_def)

lemma merge_other:
  "unifi_client_snapshots (mergeDeviceData current target source old s) =
     filter (\<lambda>(_, d). d \<noteq> source) (map (\<lambda>(k, d). (k, moved target source d)) (unifi_client_snapshots s))"
  "device_classifications (mergeDeviceData current target source old s) = gm_del source (device_classifications s)"
  "device_dns_pauses (mergeDeviceData current target source old s) = gm_del source (device_dns_pauses s)"
  "troubleshooting_exceptions (mergeDeviceData current target source old s) =
     filter (\<lambda>t. te_device_id t \<noteq> source) (troubleshooting_exceptions s)"
  "next_id t (mergeDeviceData current target source old s) = next_id t s"
  by (simp_all add: mergeDeviceData_def delete_device_def move_rows_def Let_def next_id_def)

lemma merge_names:
  assumes "target \<noteq> source" "gm_wf (device_names s)"
  shows "gm_wf (device_names (mergeDeviceData current target source old s))"
    "fst ` set (gm_keys (device_names (mergeDeviceData current target source old s))) \<subseteq>
       moved target source ` fst ` set (gm_keys (device_names s))"
proof -
  let ?own = "map fst (filter (\<lambda>((d, _), _). d = target) (device_names s))"
  let ?kept = "filter (\<lambda>((d, src), _). \<not> (d = source \<and> (target, src) \<in> set ?own)) (device_names s)"
  let ?g = "\<lambda>((d, src), n). (if d = source then (target, src) else (d, src), n)"
  have names: "device_names (mergeDeviceData current target source old s) = filter (\<lambda>((d, _), _). d \<noteq> source) (map ?g ?kept)"
    by (simp add: mergeDeviceData_def delete_device_def move_rows_def Let_def)
  have "distinct (map fst ?kept)"
    using assms(2) by (auto simp: gm_wf_def intro: distinct_map_filter)
  moreover have "inj_on (\<lambda>(d, src). if d = source then (target, src) else (d, src)) (set (map fst ?kept))"
    by (auto simp: inj_on_def split: if_splits) (force simp: image_iff)+
  ultimately have "distinct (map (\<lambda>(d, src). if d = source then (target, src) else (d, src)) (map fst ?kept))"
    by (simp only: distinct_map)
  then have "distinct (map fst (map ?g ?kept))"
    by (simp add: comp_def split_def)
  then show "gm_wf (device_names (mergeDeviceData current target source old s))"
    unfolding names gm_wf_def by (rule distinct_map_filter)
  show "fst ` set (gm_keys (device_names (mergeDeviceData current target source old s))) \<subseteq>
       moved target source ` fst ` set (gm_keys (device_names s))"
    unfolding names by (auto simp: image_iff split: if_splits) force+
qed

lemma keys_del_sub: "set (gm_keys m) \<subseteq> A \<Longrightarrow> set (gm_keys (gm_del k m)) \<subseteq> A - {k}"
  by (auto simp: AList.delete_eq)

lemma merge_wf:
  assumes "schema_wf s" "target \<noteq> source" "target \<in> device_ids s"
  shows "schema_wf (mergeDeviceData current target source old s)"
proof -
  let ?s' = "mergeDeviceData current target source old s"
  have wf: "store_wf s" "devices_wf s"
    using assms(1) by (simp_all add: schema_wf_def)
  have old: "fst ` set (gm_keys (device_names s)) \<subseteq> device_ids s" "da_device_id ` set (device_addresses s) \<subseteq> device_ids s"
      "di_device_id ` set (device_identifiers s) \<subseteq> device_ids s" "snd ` set (unifi_client_snapshots s) \<subseteq> device_ids s"
      "te_device_id ` set (troubleshooting_exceptions s) \<subseteq> device_ids s" "\<forall>i \<in> device_ids s. 0 < i \<and> i < next_id ''devices'' s"
      "gm_wf (device_names s)" "distinct (map (\<lambda>d. (di_kind d, di_value d)) (device_identifiers s))" "distinct (map dv_id (devices s))"
      "0 < next_id ''devices'' s"
    using wf(2) by (simp_all add: devices_wf_def)
  have keys: "set (gm_keys (device_classifications s)) \<subseteq> device_ids s" "set (gm_keys (device_protection_memberships s)) \<subseteq> device_ids s"
      "set (gm_keys (device_dns_pauses s)) \<subseteq> device_ids s"
    using wf(2) by (simp_all add: devices_wf_def)
  have target: "target \<in> device_ids s - {source}"
    using assms(2,3) by simp
  have moved_sub: "moved target source ` A \<subseteq> device_ids s - {source}" if "A \<subseteq> device_ids s" for A
    using that target by auto
  have 1: "fst ` set (gm_keys (device_names ?s')) \<subseteq> device_ids s - {source}"
    using merge_names(2) [OF assms(2) old(7)] moved_sub [OF old(1)] by (rule order_trans)
  have 2: "da_device_id ` set (device_addresses ?s') \<subseteq> device_ids s - {source}"
    unfolding merge_addresses [OF assms(2)] using old(2) target by auto
  have 3: "di_device_id ` set (device_identifiers ?s') \<subseteq> device_ids s - {source}"
    unfolding merge_identifiers [OF assms(2) old(8)] using old(3) target by auto
  have 4: "map (\<lambda>d. (di_kind d, di_value d)) (device_identifiers ?s') = map (\<lambda>d. (di_kind d, di_value d)) (device_identifiers s)"
    unfolding merge_identifiers [OF assms(2) old(8)] by auto
  have 5: "snd ` set (filter (\<lambda>(_, d). d \<noteq> source) (map (\<lambda>(k, d). (k, moved target source d)) (unifi_client_snapshots s))) \<subseteq> device_ids s - {source}"
    using old(4) target by (auto split: if_splits)
  have 6: "te_device_id ` set (filter (\<lambda>t. te_device_id t \<noteq> source) (troubleshooting_exceptions s)) \<subseteq> device_ids s - {source}"
    using old(5) by auto
  have 7: "\<forall>i \<in> device_ids s - {source}. 0 < i \<and> i < next_id ''devices'' s"
    using old(6) by blast
  have "devices_wf ?s'"
    unfolding devices_wf_def merge_device_ids merge_rows merge_memberships merge_other 4
    by (intro conjI keys_del_sub keys 1 2 3 5 6 7 merge_names(1) [OF assms(2) old(7)] old(8,10) distinct_filter old(9))
  moreover have "store_wf ?s'"
  proof -
    have "map da_address (device_addresses ?s') = map da_address (device_addresses s)"
      unfolding merge_addresses [OF assms(2)] by simp
    then show ?thesis
      using wf(1) unfolding store_wf_def merge_memberships merge_other
      by (simp add: mergeDeviceData_def delete_device_def move_rows_def Let_def AList.delete_eq) blast
  qed
  ultimately show ?thesis
    by (simp add: schema_wf_def)
qed

section \<open>Observations only join devices\<close>

text \<open>
  \<open>joins s s'\<close>: there is a way to rename devices such that every known address belongs to the renamed device and
  every device that had a profile has it still under its new name.
\<close>

definition joins :: "Store \<Rightarrow> Store \<Rightarrow> bool" where
  "joins s s' \<longleftrightarrow> (\<exists>f. \<forall>a d. device_of s a = Some d \<longrightarrow> device_of s' a = Some (f d) \<and>
     (\<forall>p. gm_get (device_protection_memberships s) d = Some p \<longrightarrow> gm_get (device_protection_memberships s') (f d) = Some p))"

lemma joins_refl: "joins s s"
  unfolding joins_def by (rule exI [of _ id]) simp

lemma joins_trans:
  assumes "joins s s1" "joins s1 s2"
  shows "joins s s2"
proof -
  obtain f where f: "\<forall>a d. device_of s a = Some d \<longrightarrow> device_of s1 a = Some (f d) \<and>
      (\<forall>p. gm_get (device_protection_memberships s) d = Some p \<longrightarrow> gm_get (device_protection_memberships s1) (f d) = Some p)"
    using assms(1) unfolding joins_def by (rule exE)
  obtain g where g: "\<forall>a d. device_of s1 a = Some d \<longrightarrow> device_of s2 a = Some (g d) \<and>
      (\<forall>p. gm_get (device_protection_memberships s1) d = Some p \<longrightarrow> gm_get (device_protection_memberships s2) (g d) = Some p)"
    using assms(2) unfolding joins_def by (rule exE)
  show ?thesis
    unfolding joins_def
  proof (intro exI [of _ "g \<circ> f"] allI impI)
    fix a d
    assume a: "device_of s a = Some d"
    then have "device_of s1 a = Some (f d)"
      using f by blast
    from f [THEN spec, THEN spec, THEN mp, OF a] g [THEN spec, THEN spec, THEN mp, OF this] show "device_of s2 a = Some ((g \<circ> f) d) \<and>
        (\<forall>p. gm_get (device_protection_memberships s) d = Some p \<longrightarrow> gm_get (device_protection_memberships s2) ((g \<circ> f) d) = Some p)"
      by simp
  qed
qed

lemma joins_same:
  assumes "\<And>a d. device_of s a = Some d \<Longrightarrow> device_of s' a = Some d" "device_protection_memberships s' = device_protection_memberships s"
  shows "joins s s'"
  unfolding joins_def by (rule exI [of _ id]) (use assms in simp)

lemma find_device_Some: "d \<in> device_ids s \<Longrightarrow> \<exists>r. find_device s d = Some r"
  by (cases "find_device s d") (auto simp: find_device_def device_ids_def find_None_iff)

lemma readDeviceFields_Some:
  assumes "d \<in> device_ids s"
  shows "\<exists>f. readDeviceFields s d = Some f \<and> df_protection f = gm_get (device_protection_memberships s) d"
  using find_device_Some [OF assms] by (auto simp: readDeviceFields_def)

lemma values_put_sub: "snd ` set (gm_put k v m) \<subseteq> insert v (snd ` set m)"
  by (induction m) auto

lemma mergeProtection_wf:
  assumes "schema_wf s" "target \<in> device_ids s" "gm_get (device_protection_memberships s) source = sp"
  shows "schema_wf (mergeProtection target tp sp s)" "device_ids (mergeProtection target tp sp s) = device_ids s"
    "device_of (mergeProtection target tp sp s) a = device_of s a"
proof -
  let ?s' = "mergeProtection target tp sp s"
  show ids: "device_ids ?s' = device_ids s" and "device_of ?s' a = device_of s a"
    by (simp_all add: mergeProtection_def device_ids_def device_of_def split: option.splits)
  have mine: "sp = Some p \<Longrightarrow> p \<in> set (map snd (device_protection_memberships s))" for p
    using assms(3) by (metis image_set map_of_SomeD image_eqI snd_conv)
  have "set (gm_keys (device_protection_memberships ?s')) \<subseteq> device_ids s"
    using assms(1,2) by (auto simp: mergeProtection_def schema_wf_def devices_wf_def dom_update dest: set_mp split: option.splits)
  then have "devices_wf ?s'"
    using assms(1) unfolding devices_wf_def ids schema_wf_def
    by (simp add: mergeProtection_def next_id_def split: option.splits)
  moreover have "store_wf ?s'"
  proof -
    have "snd ` set (device_protection_memberships ?s') \<subseteq> snd ` set (device_protection_memberships s)"
      using mine values_put_sub [of target "the sp" "device_protection_memberships s"] by (cases sp) (auto simp: mergeProtection_def)
    also have "\<dots> \<subseteq> pp_id ` set (protection_profiles s)"
      using assms(1) by (simp add: schema_wf_def store_wf_def)
    finally show ?thesis
      using assms(1) unfolding store_wf_def schema_wf_def by (simp add: mergeProtection_def split: option.splits if_splits)
  qed
  ultimately show "schema_wf ?s'"
    by (simp add: schema_wf_def)
qed

lemma merged_joins:
  assumes "target \<noteq> source" "gm_get (device_protection_memberships s) target = tp" "gm_get (device_protection_memberships s) source = sp"
    "\<not> (tp \<noteq> None \<and> sp \<noteq> None \<and> tp \<noteq> sp)"
  shows "joins s (mergeDeviceData current target source old (mergeProtection target tp sp s))"
  unfolding joins_def
proof (intro exI [of _ "moved target source"] allI impI)
  fix a d
  let ?s' = "mergeDeviceData current target source old (mergeProtection target tp sp s)"
  assume a: "device_of s a = Some d"
  have "device_of (mergeProtection target tp sp s) a = Some d"
    using a by (simp add: mergeProtection_def device_of_def split: option.splits)
  moreover have "gm_get (device_protection_memberships s) d = Some p \<longrightarrow> gm_get (device_protection_memberships ?s') (moved target source d) = Some p" for p
    using assms by (auto simp: merge_memberships mergeProtection_def split: option.splits)
  ultimately show "device_of ?s' a = Some (moved target source d) \<and>
      (\<forall>p. gm_get (device_protection_memberships s) d = Some p \<longrightarrow> gm_get (device_protection_memberships ?s') (moved target source d) = Some p)"
    by (simp add: merge_device_of [OF assms(1)])
qed

text \<open>\<open>safeMerge\<close> on existing devices: it answers, keeps the constraints, and after a merge only the target is left.\<close>

lemma safeMerge_ok:
  assumes "schema_wf s" "target \<in> device_ids s" "source \<in> device_ids s"
  obtains s' merged where "safeMerge current target source s = Some (s', merged)" "schema_wf s'" "joins s s'"
    "if merged then target \<in> device_ids s' \<and> (\<forall>a. device_of s' a = map_option (moved target source) (device_of s a)) else s' = s"
proof (cases "target = source")
  case True
  then have "safeMerge current target source s = Some (s, True)"
    by (simp add: safeMerge_def)
  then show thesis
    using assms True by (intro that [of s True]) (auto simp: joins_refl map_option_case split: option.splits)
next
  case False
  obtain t f where t: "readDeviceFields s target = Some t" "df_protection t = gm_get (device_protection_memberships s) target"
      and f: "readDeviceFields s source = Some f" "df_protection f = gm_get (device_protection_memberships s) source"
    using readDeviceFields_Some assms(2,3) by meson
  show thesis
  proof (cases "canMergeDevices t f")
    case no: False
    then have "safeMerge current target source s = Some (s, False)"
      using False t f by (simp add: safeMerge_def)
    then show thesis
      using assms(1) by (intro that [of s False]) (auto simp: joins_refl)
  next
    case yes: True
    let ?p = "mergeProtection target (df_protection t) (df_protection f) s"
    let ?s' = "mergeDeviceData current target source f ?p"
    have p: "schema_wf ?p" "device_ids ?p = device_ids s" "\<And>a. device_of ?p a = device_of s a"
      using mergeProtection_wf [OF assms(1,2) f(2) [symmetric]] by simp_all
    have "safeMerge current target source s = Some (?s', True)"
      using False t f yes by (simp add: safeMerge_def)
    moreover have "joins s ?s'"
      using merged_joins [OF False t(2) [symmetric] f(2) [symmetric]] yes by (simp add: canMergeDevices_def)
    moreover have "schema_wf ?s'"
      using merge_wf [OF p(1) False] assms(2) p(2) by simp
    ultimately show thesis
      using False assms(2) by (intro that [of ?s' True]) (simp_all add: p merge_device_ids merge_device_of)
  qed
qed

lemma observeIdentifier_ok:
  assumes "schema_wf s" "device_of s address = Some d"
  obtains s' d' where "observeIdentifier current d i s = Some (s', d')" "schema_wf s'" "joins s s'" "device_of s' address = Some d'"
proof -
  define n where "n = normal_identifier i"
  have d: "d \<in> device_ids s"
    using assms device_of_id by (auto simp: schema_wf_def)
  have ins: "schema_wf (insert_identifier x n t)" "joins t (insert_identifier x n t)" "device_of (insert_identifier x n t) a = device_of t a"
    if "schema_wf t" "x \<in> device_ids t" for x t a
    using insert_identifier_wf [OF that] by (auto intro: joins_same)
  consider (skip) "Kind n = [] \<or> Value n = []" | (own) "\<not> (Kind n = [] \<or> Value n = [])" "identifier_device s (Kind n) (Value n) \<in> {None, Some d}"
    | (other) e where "\<not> (Kind n = [] \<or> Value n = [])" "identifier_device s (Kind n) (Value n) = Some e" "e \<noteq> d"
    by (cases "identifier_device s (Kind n) (Value n)") auto
  then show thesis
  proof cases
    case skip
    then show thesis
      using assms by (intro that [of s d]) (simp_all add: observeIdentifier_def n_def joins_refl)
  next
    case own
    then show thesis
      using ins [OF assms(1) d] assms
      by (intro that [of "insert_identifier d n s" d]) (auto simp: observeIdentifier_def n_def Let_def)
  next
    case other
    have e: "e \<in> device_ids s"
      using other identifier_device_id assms(1) by (auto simp: schema_wf_def)
    obtain s1 merged where m: "safeMerge current e d s = Some (s1, merged)" "schema_wf s1" "joins s s1"
        "if merged then e \<in> device_ids s1 \<and> (\<forall>a. device_of s1 a = map_option (moved e d) (device_of s a)) else s1 = s"
      using safeMerge_ok [OF assms(1) e d] .
    show thesis
    proof (cases merged)
      case True
      then have e1: "e \<in> device_ids s1" and of: "device_of s1 address = Some e"
        using m(4) assms(2) by simp_all
      show thesis
        using ins [OF m(2) e1] of True m(1,3) other joins_trans
        by (intro that [of "insert_identifier e n s1" e]) (auto simp: observeIdentifier_def n_def Let_def)
    next
      case False
      then show thesis
        using m other assms by (intro that [of s1 d]) (auto simp: observeIdentifier_def n_def Let_def)
    qed
  qed
qed

lemma observeIdentifiers_ok:
  "schema_wf s \<Longrightarrow> device_of s address = Some d \<Longrightarrow>
   \<exists>s' d'. observeIdentifiers current d ids s = Some (s', d') \<and> schema_wf s' \<and> joins s s' \<and> device_of s' address = Some d'"
proof (induction ids arbitrary: s d)
  case Nil
  then show ?case
    by (simp add: joins_refl)
next
  case (Cons i ids)
  obtain s1 d1 where o: "observeIdentifier current d i s = Some (s1, d1)" "schema_wf s1" "joins s s1" "device_of s1 address = Some d1"
    using observeIdentifier_ok [OF Cons.prems] .
  then show ?case
    using Cons.IH [OF o(2,4)] joins_trans by fastforce
qed

lemma deviceForIdentifiers_id:
  "devices_wf s \<Longrightarrow> found = 0 \<or> found \<in> device_ids s \<Longrightarrow> deviceForIdentifiers s found ids = (m, c) \<Longrightarrow> m = 0 \<or> m \<in> device_ids s"
  by (induction s found ids rule: deviceForIdentifiers.induct) (auto split: option.splits if_splits dest: identifier_device_id)

lemma deviceForAddress_ok:
  assumes "schema_wf s" "matched = 0 \<or> matched \<in> device_ids s" "deviceForAddress stamp address source matched s = (s', d)"
  shows "schema_wf s'" "joins s s'" "device_of s' address = Some d"
proof -
  have "schema_wf s' \<and> joins s s' \<and> device_of s' address = Some d"
  proof (cases "device_of s address")
    case None
    obtain s1 where s1: "(if matched = 0 then insert_device stamp s else (s, matched)) = (s1, d)" "s' = insert_address stamp d address source s1"
      using assms(3) None by (auto simp: deviceForAddress_def split: prod.splits)
    have 1: "schema_wf s1" "d \<in> device_ids s1" "\<And>a. device_of s1 a = device_of s a" "device_protection_memberships s1 = device_protection_memberships s"
      using s1(1) insert_device_wf [OF assms(1), of stamp s1 d] assms(1,2) by (auto split: if_splits)
    note 2 = insert_address_wf [OF 1(1) _ 1(2), of address stamp source]
    have "joins s s'"
      using None 1 2 unfolding s1(2) by (intro joins_same) auto
    then show ?thesis
      using None 1(3) 2 by (simp add: s1(2))
  next
    case (Some x)
    then show ?thesis
      using assms by (auto simp: deviceForAddress_def joins_refl)
  qed
  then show "schema_wf s'" "joins s s'" "device_of s' address = Some d"
    by auto
qed

lemma observe_tx_ok:
  assumes "schema_wf s"
  shows "\<exists>s' d. observe_tx env address source ids s = Some (s', d) \<and> schema_wf s' \<and> joins s s' \<and> device_of s' address = Some d"
proof -
  obtain m c where m: "deviceForIdentifiers s 0 ids = (m, c)"
    by fastforce
  obtain s1 d1 where d1: "deviceForAddress (oe_stamp env) address source m s = (s1, d1)"
    by fastforce
  have "devices_wf s"
    using assms by (simp add: schema_wf_def)
  then have "m = 0 \<or> m \<in> device_ids s"
    using deviceForIdentifiers_id m by blast
  note 1 = deviceForAddress_ok [OF assms this d1]
  obtain s2 d2 where 2: "(if c then Some (s1, d1) else observeIdentifiers (oe_current env) d1 ids s1) = Some (s2, d2)"
      "schema_wf s2" "joins s1 s2" "device_of s2 address = Some d2"
    using observeIdentifiers_ok [OF 1(1,3), of "oe_current env" ids] 1 joins_refl by (cases c) auto
  have "joins s2 (touchObservation (oe_stamp env) address d2 s2)"
    using touchObservation_wf [OF 2(2)] by (intro joins_same) auto
  then have "joins s (touchObservation (oe_stamp env) address d2 s2)"
    using joins_trans 1(2) 2(3) by blast
  then show ?thesis
    using 2 touchObservation_wf [OF 2(2), of "oe_stamp env" address d2] by (simp add: observe_tx_def m d1)
qed

lemma observe_resolves:
  assumes "schema_wf s" "normalizeAddress address \<noteq> []" "oe_fails env = None"
  shows "\<exists>s' d. ObserveAddress env address source explicit s = (s', Inr d) \<and>
    device_of s' (normalizeAddress address) = Some d \<and> d \<in> device_ids s'"
proof -
  define source' where "source' = (if trim_space source = [] then ''dns'' else source)"
  define ids where "ids = normalizedIdentifiers (passiveIdentifiers (oe_arp env) s (normalizeAddress address) @ explicit)"
  obtain s' d where o: "observe_tx env (normalizeAddress address) source' ids s = Some (s', d)" "schema_wf s'"
      "device_of s' (normalizeAddress address) = Some d"
    using observe_tx_ok [OF assms(1), of env "normalizeAddress address" source' ids] by blast
  moreover have "d \<in> device_ids s'"
    using device_of_id o(2,3) by (simp add: schema_wf_def)
  ultimately show ?thesis
    using assms(2,3) by (simp add: ObserveAddress_def Let_def flip: source'_def ids_def)
qed

lemma observe_joins:
  assumes "schema_wf s" "ObserveAddress env address source explicit s = (s', r)"
  shows "schema_wf s' \<and> joins s s'"
  using assms(2) observe_tx_ok [OF assms(1)] assms(1) joins_refl
  by (auto simp: ObserveAddress_def Let_def split: if_splits option.splits prod.splits) (metis option.inject prod.inject)+

text \<open>
  Observing an address resolves it: on a consistent database, for every address that is one and whatever identifiers
  come with it, \<open>ObserveAddress\<close> returns an existing device, and a lookup of the address finds that device from then on.
\<close>

theorem ObserveAddress_resolves:
  assumes "schema_wf s" "normalizeAddress address \<noteq> []" "oe_fails env = None"
  shows "\<exists>s' d. ObserveAddress env address source explicit s = (s', Inr d) \<and>
    DeviceIDForAddress address s' = Inr (Some d) \<and> d \<in> device_ids s'"
  using observe_resolves [OF assms] assms(2) by (simp add: DeviceIDForAddress_def Let_def)

text \<open>
  C33. Observations only join devices: whatever is observed, and also when it fails, the constraints of the schema
  hold afterwards, two addresses of one device stay together, and an address whose device the user put into a profile is
  served by that profile still.
\<close>

theorem ObserveAddress_keeps_profiles:
  assumes "schema_wf s" "ObserveAddress env address source explicit s = (s', r)"
  shows "schema_wf s' \<and> (is_member s ip p \<longrightarrow> is_member s' ip p) \<and>
    (device_of s a = Some d \<and> device_of s b = Some d \<longrightarrow> device_of s' a = device_of s' b \<and> device_of s' a \<noteq> None)"
proof -
  have 1: "schema_wf s'" "joins s s'"
    using observe_joins [OF assms] by simp_all
  obtain f where f: "\<forall>a d. device_of s a = Some d \<longrightarrow> device_of s' a = Some (f d) \<and>
      (\<forall>p. gm_get (device_protection_memberships s) d = Some p \<longrightarrow> gm_get (device_protection_memberships s') (f d) = Some p)"
    using 1(2) unfolding joins_def by (rule exE)
  show ?thesis
    using 1(1) f by (auto simp: is_member_def split: option.splits)
qed

section \<open>Canonical addresses\<close>

lemma trim_chars_id:
  assumes "set s \<inter> set cs = {}"
  shows "trim_chars cs s = s"
proof -
  have "dropWhile (\<lambda>c. c \<in> set cs) xs = xs" if "set xs \<inter> set cs = {}" for xs
    using that by (cases xs) auto
  then show ?thesis
    using assms by (simp add: trim_chars_def)
qed

lemma normalizeAddress_canonical:
  assumes "ip_canonical address"
  shows "normalizeAddress address = address"
proof -
  obtain ip where ip: "parse_ip address = Some ip" "address = ip_string ip"
    using assms by (auto simp: ip_canonical_def split: option.splits)
  have chars: "list_all addr_char address"
    using parse_ip_chars ip(1) by blast
  have "trim_chars ''[]'' address = address"
    using chars by (intro trim_chars_id) (auto simp: list_all_iff addr_char_def is_hex_def is_digit_def)
  moreover have "trim_space address = address"
    using chars addr_char_plain by (intro trim_space_bytes) (auto simp: list_all_iff)
  moreover have "last_index (CHR ''%'') address = None"
    using chars by (intro last_index_None) (auto simp: list_all_iff addr_char_def is_hex_def is_digit_def)
  moreover have "split_host_port address = None"
    using ip_string_no_port [OF parse_ip_wf [OF ip(1)]] ip(2) by simp
  ultimately show ?thesis
    using ip by (simp add: normalizeAddress_def)
qed

lemma address_not_empty: "ip_canonical address \<Longrightarrow> address \<noteq> []"
  by (auto simp: ip_canonical_def parse_ip_def addr_kind_def)

section \<open>What an observation leaves alone\<close>

text \<open>The tables of the profiles are not touched, and the assignments by address stay.\<close>

definition same_profiles :: "Store \<Rightarrow> Store \<Rightarrow> bool" where
  "same_profiles s s' \<longleftrightarrow> protection_profiles s' = protection_profiles s \<and> protection_blocklists s' = protection_blocklists s \<and>
     protection_allow_entries s' = protection_allow_entries s \<and> protection_block_entries s' = protection_block_entries s \<and>
     blocklists s' = blocklists s \<and> device_protection_assignments s' = device_protection_assignments s \<and>
     next_id ''protection_profiles'' s' = next_id ''protection_profiles'' s"

lemma same_profiles_refl: "same_profiles s s"
  by (simp add: same_profiles_def)

lemma same_profiles_trans: "same_profiles s s1 \<Longrightarrow> same_profiles s1 s2 \<Longrightarrow> same_profiles s s2"
  by (simp add: same_profiles_def)

lemma merge_same_profiles: "same_profiles s (mergeDeviceData current target source old (mergeProtection target tp sp s))"
  by (auto simp: same_profiles_def mergeDeviceData_def delete_device_def move_rows_def mergeProtection_def Let_def next_id_def split: option.splits)

lemma insert_identifier_same_profiles: "same_profiles s (insert_identifier d i s)"
  by (simp add: same_profiles_def insert_identifier_def next_id_def)

lemma safeMerge_same_profiles: "safeMerge current target source s = Some (s', merged) \<Longrightarrow> same_profiles s s'"
  by (auto simp: safeMerge_def same_profiles_refl split: option.splits if_splits intro: merge_same_profiles)

lemma observeIdentifier_same_profiles: "observeIdentifier current d i s = Some (s', d') \<Longrightarrow> same_profiles s s'"
  by (auto simp: observeIdentifier_def Let_def same_profiles_refl insert_identifier_same_profiles split: option.splits if_splits)
    (blast intro: insert_identifier_same_profiles same_profiles_trans safeMerge_same_profiles)+

lemma observeIdentifiers_same_profiles: "observeIdentifiers current d ids s = Some (s', d') \<Longrightarrow> same_profiles s s'"
  by (induction current d ids s rule: observeIdentifiers.induct)
    (auto simp: same_profiles_refl split: option.splits intro: same_profiles_trans dest: observeIdentifier_same_profiles)

lemma insert_device_same_profiles: "same_profiles s (fst (insert_device stamp s))"
  by (simp add: insert_device_def Let_def same_profiles_def next_id_def bump_def)

lemma insert_address_same_profiles: "same_profiles s (insert_address stamp d address source s)"
  by (simp add: same_profiles_def insert_address_def next_id_def bump_def)

lemma deviceForAddress_same_profiles: "deviceForAddress stamp address source matched s = (s', d) \<Longrightarrow> same_profiles s s'"
  unfolding deviceForAddress_def
  by (auto simp: same_profiles_refl insert_address_same_profiles split: option.splits if_splits prod.splits)
    (metis same_profiles_trans insert_address_same_profiles insert_device_same_profiles fst_conv)

lemma touchObservation_same_profiles: "same_profiles s (touchObservation stamp address device s)"
  by (simp add: same_profiles_def touchObservation_def next_id_def)

lemma observe_tx_same_profiles:
  assumes "observe_tx env address source ids s = Some (s', d)"
  shows "same_profiles s s'"
proof -
  obtain m c where m: "deviceForIdentifiers s 0 ids = (m, c)"
    by fastforce
  obtain s1 d1 where d1: "deviceForAddress (oe_stamp env) address source m s = (s1, d1)"
    by fastforce
  obtain s2 d2 where "(if c then Some (s1, d1) else observeIdentifiers (oe_current env) d1 ids s1) = Some (s2, d2)"
      and s': "s' = touchObservation (oe_stamp env) address d2 s2"
    using assms by (auto simp: observe_tx_def m d1 split: option.splits)
  then have "same_profiles s1 s2"
    using observeIdentifiers_same_profiles [of "oe_current env" d1 ids s1 s2 d2] same_profiles_refl by (auto split: if_splits)
  then show ?thesis
    unfolding s' using deviceForAddress_same_profiles [OF d1] touchObservation_same_profiles [of s2] same_profiles_trans by blast
qed

lemma observe_same_profiles: "ObserveAddress env address source explicit s = (s', r) \<Longrightarrow> same_profiles s s'"
  by (auto simp: ObserveAddress_def Let_def same_profiles_refl split: if_splits option.splits dest: observe_tx_same_profiles)

section \<open>An example\<close>

definition paired_store :: Store where
  "paired_store = demo_store\<lparr>
     devices := devices demo_store @
       [\<lparr>dv_id = 8, dv_name = [], dv_location = None, dv_notes = None, dv_confirmed = False, dv_first_seen_at = None, dv_last_seen_at = None\<rparr>],
     device_addresses := device_addresses demo_store @
       [\<lparr>da_id = 2, da_device_id = 8, da_address = ''10.0.0.8'', da_family = ''ipv4'', da_source = ''dns'', da_last_seen_at = []\<rparr>],
     device_identifiers := [\<lparr>di_device_id = 7, di_kind = ''mac'', di_value = ''02:00:00:00:00:07'', di_source = ''unifi'', di_confidence = ''strong''\<rparr>],
     device_dns_pauses := [(8, ''2030-01-01T00:00:00Z'')],
     sqlite_sequence := [(''devices'', 8), (''device_addresses'', 2)]\<rparr>"

definition quiet_env :: observation_env where
  "quiet_env = \<lparr>oe_arp = None, oe_stamp = ''2026-01-01T00:00:00.000Z'', oe_current = ''2026-01-01 00:00:00'', oe_fails = None\<rparr>"

lemma paired_wf: "schema_wf paired_store"
proof -
  have "store_wf paired_store"
    by code_simp
  moreover have "devices_wf paired_store"
    by (simp add: devices_wf_def device_ids_def paired_store_def demo_store_def next_id_def gm_wf_def)
  ultimately show ?thesis
    by (simp add: schema_wf_def)
qed

lemma normalize_example: "normalizeAddress ''10.0.0.8'' = ''10.0.0.8''"
proof -
  have "trim_space ''10.0.0.8'' = ''10.0.0.8''" "trim_chars ''[]'' ''10.0.0.8'' = ''10.0.0.8''" "split_host_port ''10.0.0.8'' = None"
      "last_index (CHR ''%'') ''10.0.0.8'' = None"
    by code_simp+
  moreover have "parse_ip ''10.0.0.8'' = Some [0, 0, 0, 0, 0, 65535, 2560, 8]"
    by (simp add: net_eval)
  ultimately show ?thesis
    by (simp add: normalizeAddress_def net_print_eval)
qed

definition tablet_mac :: Identifier where
  "tablet_mac = \<lparr>Kind = ''mac'', Value = ''02:00:00:00:00:07'', Source = ''unifi'', Confidence = ''strong''\<rparr>"

theorem ObserveAddress_resolves_witness:
  "\<exists>s' d. ObserveAddress quiet_env ''10.0.0.8'' ''unifi'' [tablet_mac] paired_store = (s', Inr d) \<and>
     DeviceIDForAddress ''10.0.0.8'' s' = Inr (Some d) \<and> d \<in> device_ids s'"
  using ObserveAddress_resolves [OF paired_wf, of "''10.0.0.8''" quiet_env "''unifi''" "[tablet_mac]"]
  by (simp add: normalize_example) (simp add: quiet_env_def)

theorem ObserveAddress_keeps_profiles_witness:
  "\<exists>s' r. ObserveAddress quiet_env ''10.0.0.8'' ''unifi'' [tablet_mac] paired_store = (s', r) \<and> schema_wf s' \<and>
     is_member s' ''10.0.0.7'' \<lparr>pp_id = 2, pp_name = ''Kids'', pp_is_default = False, pp_paused_until = [], pp_schedule = always_on, pp_icon = ''house'', pp_created_at = [], pp_updated_at = []\<rparr>"
proof -
  obtain s' r where o: "ObserveAddress quiet_env ''10.0.0.8'' ''unifi'' [tablet_mac] paired_store = (s', r)"
    by fastforce
  have "is_member paired_store ''10.0.0.7'' \<lparr>pp_id = 2, pp_name = ''Kids'', pp_is_default = False, pp_paused_until = [], pp_schedule = always_on, pp_icon = ''house'', pp_created_at = [], pp_updated_at = []\<rparr>"
    by (simp add: is_member_def device_of_def paired_store_def demo_store_def)
  then show ?thesis
    using ObserveAddress_keeps_profiles [OF paired_wf o] o by blast
qed

text \<open>
  A merge forgets the pause of the device it merges: the rows of the source device are moved to the target, but its
  pause is not among them and the cascade deletes it, so filtering resumes on the paused addresses at once.
\<close>

theorem merge_loses_pause:
  assumes "safeMerge current target source s = Some (s', True)" "target \<noteq> source"
    "device_of s ip = Some source" "gm_get (device_dns_pauses s) target = None"
  shows "device_pause s ip = gm_get (device_dns_pauses s) source \<and> device_pause s' ip = None"
proof -
  have "\<exists>f tp sp. s' = mergeDeviceData current target source f (mergeProtection target tp sp s)"
    using assms(1,2) by (auto simp: safeMerge_def split: option.splits if_splits)
  then obtain f tp sp where s': "s' = mergeDeviceData current target source f (mergeProtection target tp sp s)"
    by blast
  have "device_of (mergeProtection target tp sp s) ip = Some source" "device_dns_pauses (mergeProtection target tp sp s) = device_dns_pauses s" for tp sp
    using assms(3) by (simp_all add: mergeProtection_def device_of_def split: option.splits)
  then show ?thesis
    using assms(2,3,4) by (simp add: device_pause_def s' merge_device_of merge_other)
qed

theorem merge_loses_pause_witness:
  "\<exists>s'. safeMerge ''2026-01-01 00:00:00'' 7 8 paired_store = Some (s', True) \<and>
     device_pause paired_store ''10.0.0.8'' = Some ''2030-01-01T00:00:00Z'' \<and> device_pause s' ''10.0.0.8'' = None"
proof -
  obtain s' where m: "safeMerge ''2026-01-01 00:00:00'' 7 8 paired_store = Some (s', True)"
    by (simp add: safeMerge_def readDeviceFields_def find_device_def paired_store_def demo_store_def canMergeDevices_def)
  moreover have "device_of paired_store ''10.0.0.8'' = Some 8" "gm_get (device_dns_pauses paired_store) 7 = None"
      "gm_get (device_dns_pauses paired_store) 8 = Some ''2030-01-01T00:00:00Z''"
    by (simp_all add: device_of_def paired_store_def demo_store_def)
  ultimately show ?thesis
    using merge_loses_pause [OF m] by simp
qed

end
