(* ===== verification/Query_Log.thy ===== *)
theory Query_Log
  imports Device_Identity
begin

text \<open>
  The tailer of the CoreDNS query log (\<^verbatim>\<open>internal/querylog/querylog.go\<close>). Every poll reads the complete lines after a
  saved position, follows a rotated file, resolves the client of every line to a device, explains the
  decision, and stores batches of rows together with the new position in one transaction.

  A file of the log is its content; \<open>fileIdentity\<close> is computed by the hash of the environment. The text of a duration
  (\<^verbatim>\<open>time.ParseDuration\<close>, floating point) and the pattern of the older log format are parameters of \<open>parseLine\<close>.
  \<open>ig_obs\<close>, \<open>ig_commit\<close>, \<open>ig_now\<close>, \<open>ig_captured\<close>, \<open>ig_at\<close> and \<open>ig_done\<close> give, after \<open>n\<close> steps on the database, the
  environment of an observation, the outcome of a transaction, the readings of the clock, the instants of an
  explanation and whether the context is done. The sidecar file of the position is older than the table and loses
  against it; it is not modelled, and neither is a failing read of the saved position.
\<close>

section \<open>Lines of the log\<close>

record logEntry =
  le_clientIP :: string
  le_queryType :: string
  le_domain :: string
  le_rcode :: string
  le_latency_us :: int
  le_upstream :: string
  le_observed :: bool

record recorded_decision = DomainDecision +
  dd_Confidence :: string
  dd_CapturedAt :: string
  dd_Upstream :: string
  dd_ResponseCode :: string

record ingest_env =
  ig_host :: host
  ig_hash :: "string \<Rightarrow> string"
  ig_duration :: "string \<Rightarrow> int option"
  ig_legacy :: "string \<Rightarrow> logEntry option"
  ig_encode :: "recorded_decision \<Rightarrow> string option"
  ig_obs :: "nat \<Rightarrow> observation_env"
  ig_commit :: "nat \<Rightarrow> sql_error option"
  ig_now :: "nat \<Rightarrow> time"
  ig_captured :: "nat \<Rightarrow> time"
  ig_at :: "nat \<Rightarrow> instants"
  ig_done :: "nat \<Rightarrow> bool"

datatype ingest_error = Storage_Paused | Context_Done | Write_Failed sql_error | Open_Failed

definition normalizeUpstream :: "string \<Rightarrow> string" where
  "normalizeUpstream v0 =
     (let v = trim_space v0 in
      if v = [] \<or> v = ''-'' then []
      else
        let v = foldl (\<lambda>v p. trim_prefix p v) v [''udp://'', ''tcp://'', ''tls://''] in
        case split_host_port v of
          Some (host_part, port) \<Rightarrow>
            let host_part = trim_chars ''[]'' host_part in
            if port = ''5053'' \<and> (case parse_ip host_part of None \<Rightarrow> False | Some ip \<Rightarrow> is_loopback ip) then ''doh'' else host_part
        | None \<Rightarrow> trim_chars ''[]'' v)"

definition parseLine :: "ingest_env \<Rightarrow> string \<Rightarrow> logEntry option" where
  "parseLine env line = (case index_of ''FARO|'' line of
     Some marker \<Rightarrow>
       (let parts = split_on (CHR ''|'') (trim_space (drop marker line)) in
        if length parts < 7 then None
        else (case ig_duration env (parts ! 5) of
                None \<Rightarrow> None
              | Some latency \<Rightarrow> Some
                  \<lparr>le_clientIP = trim_chars ''[]'' (parts ! 1),
                   le_queryType = to_upper (trim_space (parts ! 2)),
                   le_domain = trim_suffix ''.'' (to_lower (trim_space (parts ! 3))),
                   le_rcode = to_upper (trim_space (parts ! 4)),
                   le_latency_us = latency,
                   le_upstream = normalizeUpstream (parts ! 6),
                   le_observed = True\<rparr>))
   | None \<Rightarrow> ig_legacy env line)"

section \<open>Rows of the history\<close>

definition sourceForEntry :: "logEntry \<Rightarrow> DomainDecision \<Rightarrow> string" where
  "sourceForEntry entry decision =
     (if Action decision = ''blocked'' then (if ManualBlock decision \<noteq> None then ''manual'' else ''blocklist'')
      else if (case LocalRecord decision of None \<Rightarrow> False | Some r \<Rightarrow> lr_Type r = ''A'' \<or> lr_Type r = ''AAAA'') then ''local''
      else if \<not> le_observed entry \<or> le_upstream entry \<noteq> [] then ''upstream''
      else ''cache'')"

definition decisionConfidence :: "string \<Rightarrow> string \<Rightarrow> string" where
  "decisionConfidence source upstream =
     (if source = ''upstream'' \<and> upstream \<noteq> [] then ''observed''
      else if source = ''cache'' then ''inferred'' else ''configuration_snapshot'')"

definition decisionReason :: "DomainDecision \<Rightarrow> string \<Rightarrow> string \<Rightarrow> string" where
  "decisionReason decision source upstream =
     (if Action decision = ''blocked'' then Reason decision
      else (case LocalRecord decision of
        Some r \<Rightarrow> ''Matched a Faro Local DNS '' @ lr_Type r @ '' record pointing to '' @ lr_Value r @ ''.''
      | None \<Rightarrow>
          let resolution =
            (if source = ''cache'' then ''Answered from Faro's DNS cache without contacting an upstream.''
             else if upstream = ''doh'' then ''Forwarded through Faro's encrypted DNS-over-HTTPS connection.''
             else if upstream \<noteq> [] then ''Forwarded to upstream resolver '' @ upstream @ ''.''
             else ''Forwarded to a configured upstream resolver.'') in
          if Allowlist decision \<noteq> None then Reason decision @ '' '' @ resolution else resolution))"

text \<open>A \<open>pendingQuery\<close> is a row that has no identifier yet; \<^verbatim>\<open>NULLIF(?, 0)\<close> is applied to the device.\<close>

definition prepareEntry :: "ingest_env \<Rightarrow> logEntry \<Rightarrow> int \<Rightarrow> archive \<Rightarrow> dns_query" where
  "prepareEntry env entry device a =
     (let n = ar_calls a; stamp = format_rfc3339 (ig_now env n);
          decision = ExplainDomainForClient (ig_host env) (ig_at env n) (ar_store a) (le_domain entry) (le_clientIP entry);
          source = sourceForEntry entry decision;
          reason = decisionReason decision source (le_upstream entry);
          recorded = DomainDecision.extend (decision\<lparr>Reason := reason\<rparr>)
            (recorded_decision.fields (decisionConfidence source (le_upstream entry)) (format_rfc3339 (ig_captured env n))
              (le_upstream entry) (le_rcode entry)) in
      \<lparr>q_id = 0, q_timestamp = stamp, q_client_ip = le_clientIP entry, q_device_id = (if device = 0 then None else Some device),
       q_domain = le_domain entry, q_query_type = le_queryType entry, q_action = Action decision, q_source = source,
       q_upstream = le_upstream entry, q_latency_us = le_latency_us entry, q_rcode = le_rcode entry,
       q_decision_reason = reason, q_decision_metadata = (case ig_encode env recorded of None \<Rightarrow> ''{}'' | Some m \<Rightarrow> m)\<rparr>)"

definition identity_failure :: "identity_error \<Rightarrow> sql_error" where
  "identity_failure e = (case e of
     ErrInvalidAddress \<Rightarrow> Sql_Error False ''resolve DNS client identity: invalid device address''
   | NoRows \<Rightarrow> Sql_Error False ''resolve DNS client identity: sql: no rows in result set''
   | Failed err \<Rightarrow> Sql_Error (sql_full err) (''resolve DNS client identity: '' @ sql_message err))"

definition resolve_client :: "ingest_env \<Rightarrow> string \<Rightarrow> archive \<Rightarrow> archive \<times> (identity_error + int)" where
  "resolve_client env client a =
     (case ResolveAddress (ig_obs env (ar_calls a)) client ''dns'' (ar_store a) of
        (s, r) \<Rightarrow> (a\<lparr>ar_store := s, ar_calls := Suc (ar_calls a)\<rparr>, r))"

fun prepare_entries :: "ingest_env \<Rightarrow> (string, int) gomap \<Rightarrow> logEntry list \<Rightarrow> archive \<Rightarrow> archive \<times> (identity_error + dns_query list)" where
  "prepare_entries env identities [] a = (a, Inr [])"
| "prepare_entries env identities (e # es) a =
     (case (case gm_get identities (le_clientIP e) of Some d \<Rightarrow> (a, Inr d) | None \<Rightarrow> resolve_client env (le_clientIP e) a) of
        (a1, Inl err) \<Rightarrow> (a1, Inl err)
      | (a1, Inr d) \<Rightarrow>
          (case prepare_entries env (gm_put (le_clientIP e) d identities) es a1 of
             (a2, Inl err) \<Rightarrow> (a2, Inl err)
           | (a2, Inr qs) \<Rightarrow> (a2, Inr (prepareEntry env e d a1 # qs))))"

definition insert_query :: "Store \<Rightarrow> dns_query \<Rightarrow> Store" where
  "insert_query s q = (bump ''dns_queries'' s)\<lparr>dns_queries := dns_queries s @ [q\<lparr>q_id := next_id ''dns_queries'' s\<rparr>]\<rparr>"

section \<open>Batches\<close>

definition queryIngestBatchSize :: nat where
  "queryIngestBatchSize = 256"

definition put_progress :: "string \<Rightarrow> string \<Rightarrow> nat \<Rightarrow> Store \<Rightarrow> Store" where
  "put_progress path identity position s =
     s\<lparr>query_log_progress := gm_put path (identity, int position) (query_log_progress s)\<rparr>"

definition report_ingest :: "ingest_env \<Rightarrow> sql_error \<Rightarrow> archive \<Rightarrow> archive" where
  "report_ingest env e a =
     (if ig_done env (ar_calls a) then a
      else a\<lparr>ar_activity := ReportActivityWriteFailure (ig_now env (ar_calls a)) e\<rparr>)"

definition insertBatch :: "ingest_env \<Rightarrow> string \<Rightarrow> logEntry list \<Rightarrow> (string \<times> nat) option \<Rightarrow> archive \<Rightarrow> archive \<times> ingest_error option" where
  "insertBatch env path entries checkpoint a =
     (if entries = [] \<and> checkpoint = None then (a, None)
      else if \<not> ActivityStorageWriteAllowed (ig_now env (ar_calls a)) (ar_activity a) then (a, Some Storage_Paused)
      else (case prepare_entries env [] entries a of
        (a1, Inl err) \<Rightarrow> (report_ingest env (identity_failure err) a1, Some (Write_Failed (identity_failure err)))
      | (a1, Inr queries) \<Rightarrow>
          let a2 = a1\<lparr>ar_calls := Suc (ar_calls a1)\<rparr> in
          (case ig_commit env (ar_calls a1) of
             Some e \<Rightarrow> (report_ingest env e a2, Some (Write_Failed e))
           | None \<Rightarrow>
               let s1 = foldl insert_query (ar_store a1) queries;
                   s2 = (case checkpoint of None \<Rightarrow> s1 | Some (identity, position) \<Rightarrow> put_progress path identity position s1) in
               (a2\<lparr>ar_store := s2, ar_activity := ReportActivityWriteSuccess\<rparr>, None))))"

section \<open>Reading a file\<close>

text \<open>The lines of a text with their line break; a rest without one is left for the next poll.\<close>

fun complete_lines :: "string \<Rightarrow> string \<Rightarrow> string list" where
  "complete_lines acc [] = []"
| "complete_lines acc (c # cs) = (if c = newline then (acc @ [c]) # complete_lines [] cs else complete_lines (acc @ [c]) cs)"

definition maxSliceBytes :: nat where
  "maxSliceBytes = 65536"

definition line_entries :: "ingest_env \<Rightarrow> string \<Rightarrow> logEntry list" where
  "line_entries env line =
     (if length line > maxSliceBytes then []
      else (case parseLine env line of
              Some entry \<Rightarrow> if parse_ip (le_clientIP entry) \<noteq> None then [entry] else []
            | None \<Rightarrow> []))"

definition flush :: "ingest_env \<Rightarrow> string \<Rightarrow> string \<Rightarrow> nat \<Rightarrow> logEntry list \<Rightarrow> nat \<Rightarrow> archive \<Rightarrow> archive \<times> ingest_error option" where
  "flush env path identity committed entries complete a =
     (if complete = committed then (a, None) else insertBatch env path entries (Some (identity, complete)) a)"

fun read_lines :: "ingest_env \<Rightarrow> string \<Rightarrow> string \<Rightarrow> nat \<Rightarrow> logEntry list \<Rightarrow> nat \<Rightarrow> nat \<Rightarrow> string list \<Rightarrow> archive \<Rightarrow>
    archive \<times> nat \<times> ingest_error option" where
  "read_lines env path identity committed entries complete n [] a =
     (if ig_done env (ar_calls a) then (a, committed, Some Context_Done)
      else (case flush env path identity committed entries complete a of
              (a1, Some e) \<Rightarrow> (a1, committed, Some e)
            | (a1, None) \<Rightarrow> (a1, complete, None)))"
| "read_lines env path identity committed entries complete n (l # ls) a =
     (if ig_done env (ar_calls a) then (a, committed, Some Context_Done)
      else
        let entries' = entries @ line_entries env l; complete' = complete + length l in
        if n + 1 = queryIngestBatchSize
        then (case flush env path identity committed entries' complete' a of
                (a1, Some e) \<Rightarrow> (a1, committed, Some e)
              | (a1, None) \<Rightarrow> read_lines env path identity complete' [] complete' 0 ls a1)
        else read_lines env path identity committed entries' complete' (n + 1) ls a)"

definition fileIdentity :: "ingest_env \<Rightarrow> string \<Rightarrow> string" where
  "fileIdentity env content =
     (let first = (case complete_lines [] (take 4096 content) of [] \<Rightarrow> take 4096 content | l # _ \<Rightarrow> l) in
      if first = [] then ''empty'' else ig_hash env first)"

definition readOpenFile :: "ingest_env \<Rightarrow> string \<Rightarrow> string \<Rightarrow> nat \<Rightarrow> archive \<Rightarrow> archive \<times> nat \<times> ingest_error option" where
  "readOpenFile env path content offset a =
     read_lines env path (fileIdentity env content) offset [] offset 0 (complete_lines [] (drop offset content)) a"

section \<open>Following the log\<close>

record logCursor =
  lc_Identity :: string
  lc_Offset :: nat

type_synonym log_files = "(string, string option) gomap"

definition open_log :: "log_files \<Rightarrow> string \<Rightarrow> string option" where
  "open_log fs path = (case gm_get fs path of Some (Some content) \<Rightarrow> Some content | _ \<Rightarrow> None)"

definition cursorAtEnd :: "ingest_env \<Rightarrow> log_files \<Rightarrow> string \<Rightarrow> logCursor" where
  "cursorAtEnd env fs path = (case open_log fs path of
     None \<Rightarrow> \<lparr>lc_Identity = [], lc_Offset = 0\<rparr>
   | Some content \<Rightarrow> \<lparr>lc_Identity = fileIdentity env content, lc_Offset = length content\<rparr>)"

definition rotatedPath :: "string \<Rightarrow> nat \<Rightarrow> string" where
  "rotatedPath path index = path @ ''.'' @ nat_to_string index"

definition rotated_match :: "ingest_env \<Rightarrow> log_files \<Rightarrow> string \<Rightarrow> string \<Rightarrow> string \<Rightarrow> nat option" where
  "rotated_match env fs path identity match =
     (case atoi (trim_prefix (path @ ''.'') match) of
        None \<Rightarrow> None
      | Some index \<Rightarrow> if index < 1 then None
          else (case open_log fs match of
                  Some content \<Rightarrow> if fileIdentity env content = identity then Some (nat index) else None
                | None \<Rightarrow> None))"

definition findRotatedIndex :: "ingest_env \<Rightarrow> log_files \<Rightarrow> string \<Rightarrow> string \<Rightarrow> nat" where
  "findRotatedIndex env fs path identity =
     (let matches = sort (filter (\<lambda>p. prefix (path @ ''.'') p \<and> CHR ''/'' \<notin> set (drop (length path) p)) (gm_keys fs)) in
      case List.map_filter (rotated_match env fs path identity) matches of [] \<Rightarrow> 0 | i # _ \<Rightarrow> i)"

definition readPath :: "ingest_env \<Rightarrow> log_files \<Rightarrow> string \<Rightarrow> string \<Rightarrow> nat \<Rightarrow> archive \<Rightarrow> archive \<times> nat \<times> ingest_error option" where
  "readPath env fs path file_path offset a =
     (case open_log fs file_path of
        None \<Rightarrow> (a, offset, Some Open_Failed)
      | Some content \<Rightarrow> readOpenFile env path content offset a)"

fun read_rotated :: "ingest_env \<Rightarrow> log_files \<Rightarrow> string \<Rightarrow> nat \<Rightarrow> archive \<Rightarrow> archive \<times> ingest_error option" where
  "read_rotated env fs path 0 a = (a, None)"
| "read_rotated env fs path (Suc i) a =
     (case readPath env fs path (rotatedPath path (Suc i)) 0 a of
        (a1, _, Some e) \<Rightarrow> (a1, Some e)
      | (a1, _, None) \<Rightarrow> read_rotated env fs path i a1)"

definition saved_cursor :: "string \<Rightarrow> logCursor \<Rightarrow> Store \<Rightarrow> logCursor" where
  "saved_cursor path cursor s = (case gm_get (query_log_progress s) path of
     Some (identity, position) \<Rightarrow> \<lparr>lc_Identity = identity, lc_Offset = nat position\<rparr>
   | None \<Rightarrow> cursor)"

definition read_current :: "ingest_env \<Rightarrow> string \<Rightarrow> string \<Rightarrow> nat \<Rightarrow> archive \<Rightarrow> archive \<times> logCursor \<times> ingest_error option" where
  "read_current env path content offset a =
     (case readOpenFile env path content offset a of
        (a1, position, err) \<Rightarrow> (a1, \<lparr>lc_Identity = fileIdentity env content, lc_Offset = position\<rparr>, err))"

definition readAvailable :: "ingest_env \<Rightarrow> log_files \<Rightarrow> string \<Rightarrow> logCursor \<Rightarrow> archive \<Rightarrow> archive \<times> logCursor \<times> ingest_error option" where
  "readAvailable env fs path cursor0 a =
     (let cursor = saved_cursor path cursor0 (ar_store a) in
      case open_log fs path of
        None \<Rightarrow> (a, cursor, Some Open_Failed)
      | Some content \<Rightarrow>
          if lc_Identity cursor = [] \<or> lc_Identity cursor = fileIdentity env content
          then read_current env path content (if length content < lc_Offset cursor then 0 else lc_Offset cursor) a
          else
            let rotated = findRotatedIndex env fs path (lc_Identity cursor) in
            if rotated > 0
            then (case readPath env fs path (rotatedPath path rotated) (lc_Offset cursor) a of
                    (a1, position, err) \<Rightarrow>
                      let next_cursor = \<lparr>lc_Identity = lc_Identity cursor, lc_Offset = position\<rparr> in
                      case err of
                        Some e \<Rightarrow> (a1, next_cursor, Some e)
                      | None \<Rightarrow>
                          (case read_rotated env fs path (rotated - 1) a1 of
                             (a2, Some e) \<Rightarrow> (a2, next_cursor, Some e)
                           | (a2, None) \<Rightarrow> read_current env path content 0 a2))
            else read_current env path content 0 a)"

section \<open>What a row says of its line\<close>

definition row_view :: "dns_query \<Rightarrow> string \<times> string \<times> string \<times> string \<times> int \<times> string" where
  "row_view q = (q_client_ip q, q_domain q, q_query_type q, q_upstream q, q_latency_us q, q_rcode q)"

definition entry_view :: "logEntry \<Rightarrow> string \<times> string \<times> string \<times> string \<times> int \<times> string" where
  "entry_view e = (le_clientIP e, le_domain e, le_queryType e, le_upstream e, le_latency_us e, le_rcode e)"

definition history_view :: "Store \<Rightarrow> (string \<times> string \<times> string \<times> string \<times> int \<times> string) list" where
  "history_view s = map row_view (dns_queries s)"

definition same_log :: "Store \<Rightarrow> Store \<Rightarrow> bool" where
  "same_log s s' \<longleftrightarrow> history_view s' = history_view s \<and> query_log_progress s' = query_log_progress s"

lemma same_log_refl [simp]: "same_log s s"
  by (simp add: same_log_def)

lemma same_log_trans: "same_log s s1 \<Longrightarrow> same_log s1 s2 \<Longrightarrow> same_log s s2"
  by (simp add: same_log_def)

lemma same_log_deviceForAddress: "deviceForAddress stamp address source matched s = (s', d) \<Longrightarrow> same_log s s'"
  by (auto simp: deviceForAddress_def insert_device_def insert_address_def bump_def same_log_def history_view_def Let_def
      split: option.splits if_splits prod.splits)

lemma same_log_merge: "safeMerge current target source s = Some (s', m) \<Longrightarrow> same_log s s'"
  by (auto simp: safeMerge_def mergeDeviceData_def mergeProtection_def delete_device_def move_rows_def same_log_def history_view_def
      row_view_def Let_def split: option.splits if_splits)

lemma same_log_observeIdentifiers: "observeIdentifiers current d ids s = Some (s', d') \<Longrightarrow> same_log s s'"
proof (induction ids arbitrary: s d)
  case (Cons i ids)
  obtain s1 d1 where o: "observeIdentifier current d i s = Some (s1, d1)" "observeIdentifiers current d1 ids s1 = Some (s', d')"
    using Cons.prems by (auto split: option.splits prod.splits)
  have ins: "same_log s (insert_identifier d i s)" for s d i
    by (simp add: insert_identifier_def same_log_def history_view_def)
  have "same_log s s1"
    using o(1) ins by (auto simp: observeIdentifier_def Let_def split: option.splits if_splits prod.splits
        intro: same_log_merge same_log_trans)
  then show ?case
    using Cons.IH [OF o(2)] same_log_trans by blast
qed simp

lemma same_log_ObserveAddress:
  assumes "ObserveAddress env address source explicit s = (s', r)"
  shows "same_log s s'"
proof (cases "s' = s")
  case False
  obtain source' ids d where o: "observe_tx env (normalizeAddress address) source' ids s = Some (s', d)"
    using assms False by (auto simp: ObserveAddress_def Let_def split: if_splits option.splits prod.splits)
  obtain m c s1 d1 s2 where *: "deviceForIdentifiers s 0 ids = (m, c)" "deviceForAddress (oe_stamp env) (normalizeAddress address) source' m s = (s1, d1)"
      "(if c then Some (s1, d1) else observeIdentifiers (oe_current env) d1 ids s1) = Some (s2, d)" "s' = touchObservation (oe_stamp env) (normalizeAddress address) d s2"
    using o by (auto simp: observe_tx_def split: prod.splits option.splits)
  have "same_log s s1"
    using same_log_deviceForAddress * by blast
  moreover have "same_log s1 s2"
    using *(3) same_log_observeIdentifiers by (auto split: if_splits)
  moreover have "same_log s2 s'"
    by (simp add: *(4) same_log_def touchObservation_def history_view_def)
  ultimately show ?thesis
    using same_log_trans by blast
qed simp

section \<open>A batch is stored once or not at all\<close>

lemma resolve_client_log: "resolve_client env client a = (a', r) \<Longrightarrow> same_log (ar_store a) (ar_store a')"
  using same_log_ObserveAddress by (auto simp: resolve_client_def ResolveAddress_def split: prod.splits)

lemma prepare_entries_log:
  "prepare_entries env identities es a = (a', r) \<Longrightarrow> same_log (ar_store a) (ar_store a') \<and> (\<forall>qs. r = Inr qs \<longrightarrow> map row_view qs = map entry_view es)"
proof (induction es arbitrary: identities a a' r)
  case (Cons e es)
  obtain a1 r1 where c: "(case gm_get identities (le_clientIP e) of Some d \<Rightarrow> (a, Inr d) | None \<Rightarrow> resolve_client env (le_clientIP e) a) = (a1, r1)"
    by fastforce
  have first: "same_log (ar_store a) (ar_store a1)"
    using c resolve_client_log by (auto split: option.splits)
  show ?case
  proof (cases r1)
    case (Inl err)
    with Cons.prems c first show ?thesis
      by auto
  next
    case (Inr d)
    obtain a2 r2 where p: "prepare_entries env (gm_put (le_clientIP e) d identities) es a1 = (a2, r2)"
      by fastforce
    have "row_view (prepareEntry env e d a1) = entry_view e"
      by (simp add: prepareEntry_def row_view_def entry_view_def Let_def)
    then show ?thesis
      using Cons.prems c Inr p Cons.IH [OF p] first by (cases r2) (auto intro: same_log_trans)
  qed
qed simp

lemma insert_queries_log:
  "history_view (foldl insert_query s qs) = history_view s @ map row_view qs"
  "query_log_progress (foldl insert_query s qs) = query_log_progress s"
  by (induction qs arbitrary: s) (simp_all add: insert_query_def history_view_def row_view_def bump_def)

lemma history_view_progress [simp]: "history_view (s\<lparr>query_log_progress := p\<rparr>) = history_view s"
  by (simp add: history_view_def)

lemma insertBatch_log:
  assumes "insertBatch env path entries (Some (identity, position)) a = (a', err)"
  shows "case err of
      Some e \<Rightarrow> same_log (ar_store a) (ar_store a')
    | None \<Rightarrow> history_view (ar_store a') = history_view (ar_store a) @ map entry_view entries \<and>
        query_log_progress (ar_store a') = gm_put path (identity, int position) (query_log_progress (ar_store a))"
proof (cases "ActivityStorageWriteAllowed (ig_now env (ar_calls a)) (ar_activity a)")
  case False
  with assms show ?thesis
    by (auto simp: insertBatch_def)
next
  case True
  obtain a1 r1 where p: "prepare_entries env [] entries a = (a1, r1)"
    by fastforce
  show ?thesis
    using assms True p prepare_entries_log [OF p]
    by (cases r1; cases "ig_commit env (ar_calls a1)")
      (auto simp: insertBatch_def Let_def report_ingest_def put_progress_def insert_queries_log same_log_def)
qed

section \<open>Lines and positions\<close>

lemma complete_lines_acc:
  assumes "newline \<notin> set acc"
  shows "complete_lines acc s = (case complete_lines [] s of [] \<Rightarrow> [] | l # ls \<Rightarrow> (acc @ l) # ls)"
  using assms
proof (induction s arbitrary: acc)
  case (Cons c s)
  show ?case
    using Cons.prems Cons.IH [of "acc @ [c]"] Cons.IH [of "[c]"] by (auto split: list.splits)
qed simp

lemma complete_lines_Cons:
  "complete_lines [] (c # s) =
     (if c = newline then [c] # complete_lines [] s else (case complete_lines [] s of [] \<Rightarrow> [] | l # ls \<Rightarrow> (c # l) # ls))"
  using complete_lines_acc [of "[c]" s] by (auto split: list.splits)

declare complete_lines.simps(2) [simp del]

lemma complete_lines_nonempty: "[] \<notin> set (complete_lines [] s)"
proof (induction s)
  case (Cons c s)
  then show ?case
    by (cases "complete_lines [] s") (auto simp: complete_lines_Cons)
qed simp

lemma complete_lines_concat: "prefix (concat (complete_lines [] s)) s"
  by (induction s) (auto simp: complete_lines_Cons split: list.splits)

text \<open>Cutting a text after some of its lines splits the lines.\<close>

lemma complete_lines_cut:
  "complete_lines [] (concat (take k (complete_lines [] s))) = take k (complete_lines [] s) \<and>
   complete_lines [] (drop (length (concat (take k (complete_lines [] s)))) s) = drop k (complete_lines [] s)"
proof (induction s arbitrary: k)
  case (Cons c s)
  show ?case
  proof (cases "c = newline")
    case True
    then show ?thesis
      using Cons.IH [of "k - 1"] by (cases k) (simp_all add: complete_lines_Cons)
  next
    case False
    show ?thesis
    proof (cases "complete_lines [] s")
      case Nil
      with False show ?thesis
        by (simp add: complete_lines_Cons)
    next
      case (Cons l ls)
      with False Cons.IH [of k] Cons show ?thesis
        by (cases k) (auto simp: complete_lines_Cons)
    qed
  qed
qed simp

section \<open>Reading a file is exact\<close>

definition all_entries :: "ingest_env \<Rightarrow> string list \<Rightarrow> logEntry list" where
  "all_entries env ls = concat (map (line_entries env) ls)"

lemma flush_log:
  assumes "flush env path identity committed entries complete a = (a', err)" "complete = committed \<longrightarrow> entries = []"
  shows "(case err of
      Some e \<Rightarrow> same_log (ar_store a) (ar_store a')
    | None \<Rightarrow> history_view (ar_store a') = history_view (ar_store a) @ map entry_view entries \<and>
        query_log_progress (ar_store a') = (if complete = committed then query_log_progress (ar_store a)
          else gm_put path (identity, int complete) (query_log_progress (ar_store a))))"
  using assms insertBatch_log by (fastforce simp: flush_def split: if_splits option.splits)

text \<open>
  Some number of the lines has been stored, together with the position behind them; without an error it is all of them.
  The position is the saved one unless nothing was stored.
\<close>

lemma read_lines_log:
  assumes "read_lines env path identity committed entries complete n ls a = (a', position, err)"
    "committed \<le> complete" "complete = committed \<longrightarrow> entries = []" "[] \<notin> set ls"
  shows "\<exists>k \<le> length ls. (err = None \<longrightarrow> k = length ls) \<and>
    ((position = committed \<and> same_log (ar_store a) (ar_store a') \<and> (err = None \<longrightarrow> ls = [] \<and> complete = committed)) \<or>
     (committed < position \<and> position = complete + length (concat (take k ls)) \<and>
      history_view (ar_store a') = history_view (ar_store a) @ map entry_view (entries @ all_entries env (take k ls)) \<and>
      query_log_progress (ar_store a') = gm_put path (identity, int position) (query_log_progress (ar_store a))))"
  using assms
proof (induction ls arbitrary: committed entries complete n a)
  case Nil
  show ?case
  proof (cases "ig_done env (ar_calls a)")
    case True
    with Nil.prems show ?thesis
      by auto
  next
    case False
    obtain a1 e1 where f: "flush env path identity committed entries complete a = (a1, e1)"
      by fastforce
    show ?thesis
      using Nil.prems False f flush_log [OF f] by (cases e1; cases "complete = committed") (auto simp: same_log_def all_entries_def)
  qed
next
  case (Cons l ls)
  let ?entries = "entries @ line_entries env l" and ?complete = "complete + length l"
  have l: "0 < length l" "[] \<notin> set ls"
    using Cons.prems(4) by auto
  show ?case
  proof (cases "ig_done env (ar_calls a)")
    case True
    with Cons.prems show ?thesis
      by auto
  next
    case False
    show ?thesis
    proof (cases "n + 1 = queryIngestBatchSize")
      case full: True
      obtain a1 e1 where f: "flush env path identity committed ?entries ?complete a = (a1, e1)"
        by fastforce
      have less: "committed < ?complete"
        using Cons.prems(2) l(1) by linarith
      then have ne: "?complete \<noteq> committed"
        by simp
      show ?thesis
      proof (cases e1)
        case (Some e)
        have "same_log (ar_store a) (ar_store a1)"
          using flush_log [OF f] ne Some by simp
        with Cons.prems(1) False full f Some show ?thesis
          by (intro exI [of _ 0]) (auto simp: Let_def)
      next
        case None
        have rest: "read_lines env path identity ?complete [] ?complete 0 ls a1 = (a', position, err)"
          using Cons.prems(1) False full f None by (simp add: Let_def)
        have a1: "history_view (ar_store a1) = history_view (ar_store a) @ map entry_view ?entries"
            "query_log_progress (ar_store a1) = gm_put path (identity, int ?complete) (query_log_progress (ar_store a))"
          using flush_log [OF f] ne None by simp_all
        obtain k where k: "k \<le> length ls" "err = None \<longrightarrow> k = length ls" and
          "(position = ?complete \<and> same_log (ar_store a1) (ar_store a') \<and> (err = None \<longrightarrow> ls = [])) \<or>
           (?complete < position \<and> position = ?complete + length (concat (take k ls)) \<and>
            history_view (ar_store a') = history_view (ar_store a1) @ map entry_view (all_entries env (take k ls)) \<and>
            query_log_progress (ar_store a') = gm_put path (identity, int position) (query_log_progress (ar_store a1)))"
          using Cons.IH [OF rest] l by auto
        then consider (stop) "position = ?complete" "same_log (ar_store a1) (ar_store a')" "err = None \<longrightarrow> ls = []"
          | (more) "?complete < position" "position = ?complete + length (concat (take k ls))"
            "history_view (ar_store a') = history_view (ar_store a1) @ map entry_view (all_entries env (take k ls))"
            "query_log_progress (ar_store a') = gm_put path (identity, int position) (query_log_progress (ar_store a1))"
          by blast
        then show ?thesis
        proof cases
          case stop
          then show ?thesis
            using a1 less by (intro exI [of _ "Suc 0"]) (auto simp: same_log_def all_entries_def)
        next
          case more
          then show ?thesis
            using a1 k less by (intro exI [of _ "Suc k"]) (auto simp: all_entries_def)
        qed
      qed
    next
      case part: False
      have "read_lines env path identity committed ?entries ?complete (n + 1) ls a = (a', position, err)"
        using Cons.prems(1) False part by (simp add: Let_def)
      then obtain k where "k \<le> length ls" "err = None \<longrightarrow> k = length ls"
        "(position = committed \<and> same_log (ar_store a) (ar_store a') \<and> (err = None \<longrightarrow> ls = [] \<and> ?complete = committed)) \<or>
         (committed < position \<and> position = ?complete + length (concat (take k ls)) \<and>
          history_view (ar_store a') = history_view (ar_store a) @ map entry_view (?entries @ all_entries env (take k ls)) \<and>
          query_log_progress (ar_store a') = gm_put path (identity, int position) (query_log_progress (ar_store a)))"
        using Cons.IH [of committed ?entries ?complete "n + 1" a] Cons.prems(2) l by auto
      then show ?thesis
        using Cons.prems(2) l by (intro exI [of _ "Suc k"]) (auto simp: all_entries_def)
    qed
  qed
qed

section \<open>Exactly once\<close>

definition whole_lines :: "string \<Rightarrow> bool" where
  "whole_lines x \<longleftrightarrow> concat (complete_lines [] x) = x"

lemma complete_lines_last: "l \<in> set (complete_lines [] s) \<Longrightarrow> last l = newline"
proof (induction s arbitrary: l)
  case (Cons c s)
  show ?case
  proof (cases "complete_lines [] s")
    case Nil
    with Cons.prems show ?thesis
      by (auto simp: complete_lines_Cons split: if_splits)
  next
    case (Cons m ms)
    have "m \<noteq> []"
      using complete_lines_nonempty [of s] Cons by auto
    with Cons.prems Cons.IH Cons show ?thesis
      by (auto simp: complete_lines_Cons split: if_splits)
  qed
qed simp

lemma last_concat_lines: "ls \<noteq> [] \<Longrightarrow> last ls \<noteq> [] \<Longrightarrow> last (concat ls) = last (last ls)"
proof (induction ls)
  case (Cons l ls)
  show ?case
  proof (cases "ls = []")
    case False
    with Cons.prems have "concat ls \<noteq> []"
      using last_in_set [OF False] by auto
    with Cons False show ?thesis
      by simp
  qed simp
qed simp

lemma whole_lines_last: "whole_lines x \<Longrightarrow> x = [] \<or> last x = newline"
proof -
  assume w: "whole_lines x"
  show ?thesis
  proof (cases "complete_lines [] x")
    case Nil
    with w show ?thesis
      by (simp add: whole_lines_def)
  next
    case (Cons l ls)
    have "last (complete_lines [] x) \<in> set (complete_lines [] x)"
      using Cons by (intro last_in_set) simp
    then have "last (last (complete_lines [] x)) = newline" "last (complete_lines [] x) \<noteq> []"
      using complete_lines_last complete_lines_nonempty by metis+
    then have "last (concat (complete_lines [] x)) = newline"
      using last_concat_lines [of "complete_lines [] x"] Cons by force
    with w show ?thesis
      by (simp add: whole_lines_def)
  qed
qed

lemma complete_lines_append:
  "x = [] \<or> last x = newline \<Longrightarrow> complete_lines [] (x @ y) = complete_lines [] x @ complete_lines [] y \<and> whole_lines x"
proof (induction x)
  case (Cons c x)
  show ?case
  proof (cases "x = []")
    case True
    with Cons.prems show ?thesis
      by (simp add: complete_lines_Cons whole_lines_def)
  next
    case False
    then have IH: "complete_lines [] (x @ y) = complete_lines [] x @ complete_lines [] y" "concat (complete_lines [] x) = x"
      using Cons by (simp_all add: whole_lines_def)
    then obtain l ls where "complete_lines [] x = l # ls"
      using False by (cases "complete_lines [] x") auto
    with IH show ?thesis
      by (simp add: complete_lines_Cons whole_lines_def)
  qed
qed (simp add: whole_lines_def)

lemma whole_lines_append:
  assumes "whole_lines x" "whole_lines y"
  shows "complete_lines [] (x @ y) = complete_lines [] x @ complete_lines [] y" "whole_lines (x @ y)"
proof -
  show 1: "complete_lines [] (x @ y) = complete_lines [] x @ complete_lines [] y"
    using complete_lines_append whole_lines_last [OF assms(1)] by blast
  show "whole_lines (x @ y)"
    using assms by (simp add: whole_lines_def 1)
qed

definition same_parser :: "ingest_env \<Rightarrow> ingest_env \<Rightarrow> bool" where
  "same_parser env e0 \<longleftrightarrow> ig_hash env = ig_hash e0 \<and> ig_duration env = ig_duration e0 \<and> ig_legacy env = ig_legacy e0"

lemma same_parser_simps:
  assumes "same_parser env e0"
  shows "fileIdentity env c = fileIdentity e0 c" "all_entries env ls = all_entries e0 ls"
proof -
  have eqs: "ig_duration env = ig_duration e0" "ig_legacy env = ig_legacy e0" "ig_hash env = ig_hash e0"
    using assms by (simp_all add: same_parser_def)
  have "line_entries env = line_entries e0"
    unfolding line_entries_def parseLine_def eqs ..
  then show "all_entries env ls = all_entries e0 ls"
    by (simp add: all_entries_def)
  show "fileIdentity env c = fileIdentity e0 c"
    unfolding fileIdentity_def eqs ..
qed

lemma first_line_prefix:
  "newline \<in> set p \<Longrightarrow> \<exists>l ls ms. complete_lines [] p = l # ls \<and> complete_lines [] (p @ q) = l # ms"
  by (induction p) (auto simp: complete_lines_Cons)

text \<open>
  The log grows, polls run in any environment with the same parser and from any cursor in memory (a restart loses it),
  and other code writes to the database without touching the history and the saved position.
\<close>

inductive log_step :: "ingest_env \<Rightarrow> string \<Rightarrow> string \<times> archive \<Rightarrow> string \<times> archive \<Rightarrow> bool" for e0 path where
  grow: "log_step e0 path (content, a) (content @ x, a)"
| poll: "same_parser env e0 \<Longrightarrow> open_log fs path = Some content \<Longrightarrow> readAvailable env fs path cursor a = (a', next_cursor, err) \<Longrightarrow>
    log_step e0 path (content, a) (content, a')"
| other: "same_log (ar_store a) (ar_store a') \<Longrightarrow> log_step e0 path (content, a) (content, a')"

inductive_cases log_stepE: "log_step e0 path st st'"

abbreviation log_reachable :: "ingest_env \<Rightarrow> string \<Rightarrow> string \<times> archive \<Rightarrow> string \<times> archive \<Rightarrow> bool" where
  "log_reachable e0 path \<equiv> (log_step e0 path)\<^sup>*\<^sup>*"

definition log_inv :: "ingest_env \<Rightarrow> string \<Rightarrow> string \<times> archive \<Rightarrow> bool" where
  "log_inv e0 path = (\<lambda>(content, a). newline \<in> set (take 4096 content) \<and>
     (\<exists>offset \<le> length content. gm_get (query_log_progress (ar_store a)) path = Some (fileIdentity e0 content, int offset) \<and>
       whole_lines (take offset content) \<and>
       history_view (ar_store a) = map entry_view (all_entries e0 (complete_lines [] (take offset content)))))"

lemma fileIdentity_grow:
  assumes "newline \<in> set (take 4096 c)"
  shows "fileIdentity e0 (c @ x) = fileIdentity e0 c"
proof -
  have "take 4096 (c @ x) = take 4096 c @ take (4096 - length c) x"
    by simp
  then show ?thesis
    using first_line_prefix [OF assms, of "take (4096 - length c) x"] unfolding fileIdentity_def Let_def by auto
qed

lemma all_entries_append: "all_entries e (ls @ ms) = all_entries e ls @ all_entries e ms"
  by (simp add: all_entries_def)

text \<open>A poll from a saved position of the current file moves the position over lines that it stores.\<close>

lemma readOpenFile_log:
  assumes "readOpenFile env path content offset a = (a', position, err)" "same_parser env e0"
  shows "\<exists>k \<le> length (complete_lines [] (drop offset content)).
    let ls = take k (complete_lines [] (drop offset content)) in
      query_log_progress (ar_store a') = (if ls = [] then query_log_progress (ar_store a)
        else gm_put path (fileIdentity e0 content, int (offset + length (concat ls))) (query_log_progress (ar_store a))) \<and>
      history_view (ar_store a') = history_view (ar_store a) @ map entry_view (all_entries e0 ls) \<and>
      (err = None \<longrightarrow> k = length (complete_lines [] (drop offset content)))"
proof -
  let ?L = "complete_lines [] (drop offset content)"
  have r: "read_lines env path (fileIdentity e0 content) offset [] offset 0 ?L a = (a', position, err)"
    using assms by (simp add: readOpenFile_def same_parser_simps [OF assms(2)])
  obtain k where k: "k \<le> length ?L" "err = None \<longrightarrow> k = length ?L" and
      "(position = offset \<and> same_log (ar_store a) (ar_store a') \<and> (err = None \<longrightarrow> ?L = [])) \<or>
       (offset < position \<and> position = offset + length (concat (take k ?L)) \<and>
        history_view (ar_store a') = history_view (ar_store a) @ map entry_view (all_entries e0 (take k ?L)) \<and>
        query_log_progress (ar_store a') = gm_put path (fileIdentity e0 content, int position) (query_log_progress (ar_store a)))"
    using read_lines_log [OF r] complete_lines_nonempty [of "drop offset content"] same_parser_simps(2) [OF assms(2)] by auto
  then show ?thesis
  proof (elim disjE conjE)
    assume "position = offset" "same_log (ar_store a) (ar_store a')" "err = None \<longrightarrow> ?L = []"
    then show ?thesis
      by (intro exI [of _ 0]) (auto simp: same_log_def all_entries_def)
  next
    assume "offset < position" "position = offset + length (concat (take k ?L))"
      "history_view (ar_store a') = history_view (ar_store a) @ map entry_view (all_entries e0 (take k ?L))"
      "query_log_progress (ar_store a') = gm_put path (fileIdentity e0 content, int position) (query_log_progress (ar_store a))"
    moreover from this have "take k ?L \<noteq> []"
      by (metis add.right_neutral concat.simps(1) less_irrefl list.size(3))
    ultimately show ?thesis
      using k by (intro exI [of _ k]) (simp add: Let_def)
  qed
qed

lemma poll_current:
  assumes "readAvailable env fs path cursor a = (a', next_cursor, err)" "same_parser env e0" "open_log fs path = Some content"
    "gm_get (query_log_progress (ar_store a)) path = Some (fileIdentity e0 content, int offset)" "offset \<le> length content"
  shows "\<exists>k \<le> length (complete_lines [] (drop offset content)).
    let ls = take k (complete_lines [] (drop offset content)) in
      gm_get (query_log_progress (ar_store a')) path = Some (fileIdentity e0 content, int (offset + length (concat ls))) \<and>
      history_view (ar_store a') = history_view (ar_store a) @ map entry_view (all_entries e0 ls) \<and>
      (err = None \<longrightarrow> k = length (complete_lines [] (drop offset content)))"
proof -
  obtain position where "readOpenFile env path content offset a = (a', position, err)"
    using assms by (auto simp: readAvailable_def saved_cursor_def read_current_def Let_def
        same_parser_simps [OF assms(2)] split: prod.splits)
  from readOpenFile_log [OF this assms(2)] obtain k where k: "k \<le> length (complete_lines [] (drop offset content))"
      "query_log_progress (ar_store a') = (if take k (complete_lines [] (drop offset content)) = [] then query_log_progress (ar_store a)
        else gm_put path (fileIdentity e0 content, int (offset + length (concat (take k (complete_lines [] (drop offset content))))))
          (query_log_progress (ar_store a)))"
      "history_view (ar_store a') = history_view (ar_store a) @ map entry_view (all_entries e0 (take k (complete_lines [] (drop offset content))))"
      "err = None \<longrightarrow> k = length (complete_lines [] (drop offset content))"
    unfolding Let_def by blast
  then show ?thesis
    using assms(4) unfolding Let_def by (intro exI [of _ k]) (auto simp del: take_eq_Nil take_eq_Nil2)
qed

lemma take_prefix_drop:
  assumes "prefix y (drop n c)" "n \<le> length c"
  shows "take (n + length y) c = take n c @ y" "n + length y \<le> length c"
proof -
  obtain zs where z: "drop n c = y @ zs"
    using assms(1) by (auto simp: prefix_def)
  have "take (length y) (drop n c) = y" "length y \<le> length (drop n c)"
    unfolding z by simp_all
  then show "take (n + length y) c = take n c @ y" "n + length y \<le> length c"
    using assms(2) by (simp_all add: take_add)
qed

lemma log_step_inv:
  assumes "log_inv e0 path st" "log_step e0 path st st'"
  shows "log_inv e0 path st'"
  using assms(2,1)
proof cases
  case (grow content a x)
  with assms(1) obtain offset where "newline \<in> set (take 4096 content)" "offset \<le> length content"
      "gm_get (query_log_progress (ar_store a)) path = Some (fileIdentity e0 content, int offset)" "whole_lines (take offset content)"
      "history_view (ar_store a) = map entry_view (all_entries e0 (complete_lines [] (take offset content)))"
    by (auto simp: log_inv_def)
  then show ?thesis
    by (auto simp: grow log_inv_def fileIdentity_grow intro!: exI [of _ offset])
next
  case (poll env fs content cursor a a' next_cursor err)
  with assms(1) obtain offset where o: "newline \<in> set (take 4096 content)" "offset \<le> length content"
      "gm_get (query_log_progress (ar_store a)) path = Some (fileIdentity e0 content, int offset)" "whole_lines (take offset content)"
      "history_view (ar_store a) = map entry_view (all_entries e0 (complete_lines [] (take offset content)))"
    by (auto simp: log_inv_def)
  let ?L = "complete_lines [] (drop offset content)"
  obtain k where k: "gm_get (query_log_progress (ar_store a')) path = Some (fileIdentity e0 content, int (offset + length (concat (take k ?L))))"
      "history_view (ar_store a') = history_view (ar_store a) @ map entry_view (all_entries e0 (take k ?L))"
    using poll_current [OF poll(5,3,4) o(3,2)] by (auto simp: Let_def)
  have "prefix (concat (take k ?L)) (drop offset content)"
    using complete_lines_concat [of "drop offset content"] by (metis append_take_drop_id concat_append prefix_def append.assoc)
  then have cut: "take (offset + length (concat (take k ?L))) content = take offset content @ concat (take k ?L)"
      "offset + length (concat (take k ?L)) \<le> length content"
    using take_prefix_drop o(2) by blast+
  have "whole_lines (concat (take k ?L))"
    using complete_lines_cut [of k "drop offset content"] by (simp add: whole_lines_def)
  note joined = whole_lines_append [OF o(4) this]
  have "complete_lines [] (concat (take k ?L)) = take k ?L"
    using complete_lines_cut by blast
  then have "history_view (ar_store a') = map entry_view (all_entries e0 (complete_lines [] (take offset content @ concat (take k ?L))))"
    by (simp add: k(2) o(5) joined(1) all_entries_append)
  then show ?thesis
    using o(1) k(1) cut joined(2) by (auto simp: poll log_inv_def intro!: exI [of _ "offset + length (concat (take k ?L))"])
next
  case (other a a' content)
  with assms(1) show ?thesis
    by (auto simp: log_inv_def same_log_def)
qed

lemma log_reachable_inv: "log_reachable e0 path st st' \<Longrightarrow> log_inv e0 path st \<Longrightarrow> log_inv e0 path st'"
  by (induction rule: rtranclp_induct) (auto intro: log_step_inv)

text \<open>
  The query log is ingested exactly once: after any sequence of growing, polls (from any cursor in memory, with any
  failures of resolving, writing and cancelling) and other writes, the history holds, in order and without
  repetition, exactly the queries of the lines before the saved position, which is the end of a line.
\<close>

theorem log_exactly_once:
  assumes "log_reachable e0 path (content0, a0) (content, a)"
    "newline \<in> set (take 4096 content0)" "gm_get (query_log_progress (ar_store a0)) path = Some (fileIdentity e0 content0, 0)"
    "dns_queries (ar_store a0) = []"
  shows "\<exists>offset \<le> length content. gm_get (query_log_progress (ar_store a)) path = Some (fileIdentity e0 content, int offset) \<and>
    whole_lines (take offset content) \<and>
    history_view (ar_store a) = map entry_view (all_entries e0 (complete_lines [] (take offset content)))"
proof -
  have "log_inv e0 path (content0, a0)"
    using assms(2,3,4) by (auto simp: log_inv_def whole_lines_def history_view_def all_entries_def intro!: exI [of _ 0])
  then have "log_inv e0 path (content, a)"
    using log_reachable_inv [OF assms(1)] by blast
  then show ?thesis
    by (simp add: log_inv_def)
qed

section \<open>A healthy poll catches up\<close>

definition healthy_ingest :: "ingest_env \<Rightarrow> bool" where
  "healthy_ingest env \<longleftrightarrow> (\<forall>n. \<not> ig_done env n \<and> ig_commit env n = None \<and> oe_fails (ig_obs env n) = None)"

definition resolvable :: "logEntry list \<Rightarrow> bool" where
  "resolvable es \<longleftrightarrow> (\<forall>e \<in> set es. normalizeAddress (le_clientIP e) \<noteq> [])"

lemma resolve_client_ok:
  assumes "healthy_ingest env" "schema_wf (ar_store a)" "normalizeAddress client \<noteq> []"
  shows "\<exists>a' d. resolve_client env client a = (a', Inr d) \<and> schema_wf (ar_store a')"
proof -
  have "oe_fails (ig_obs env (ar_calls a)) = None"
    using assms(1) by (simp add: healthy_ingest_def)
  then obtain s' d where o: "ObserveAddress (ig_obs env (ar_calls a)) client ''dns'' [] (ar_store a) = (s', Inr d)"
    using observe_resolves [OF assms(2,3)] by blast
  moreover have "schema_wf s'"
    using observe_joins [OF assms(2) o] by simp
  ultimately show ?thesis
    by (simp add: resolve_client_def ResolveAddress_def)
qed

lemma prepare_entries_ok:
  "healthy_ingest env \<Longrightarrow> schema_wf (ar_store a) \<Longrightarrow> resolvable es \<Longrightarrow>
   \<exists>a' qs. prepare_entries env identities es a = (a', Inr qs) \<and> schema_wf (ar_store a')"
proof (induction es arbitrary: identities a)
  case (Cons e es)
  have "\<exists>a1 d. (case gm_get identities (le_clientIP e) of Some d \<Rightarrow> (a, Inr d) | None \<Rightarrow> resolve_client env (le_clientIP e) a) = (a1, Inr d) \<and>
      schema_wf (ar_store a1)"
    using resolve_client_ok [OF Cons.prems(1,2)] Cons.prems(2,3) by (auto simp: resolvable_def split: option.splits)
  then obtain a1 d where 1: "(case gm_get identities (le_clientIP e) of Some d \<Rightarrow> (a, Inr d) | None \<Rightarrow> resolve_client env (le_clientIP e) a) = (a1, Inr d)"
      "schema_wf (ar_store a1)"
    by blast
  have "resolvable es"
    using Cons.prems(3) by (simp add: resolvable_def)
  then obtain a2 qs where "prepare_entries env (gm_put (le_clientIP e) d identities) es a1 = (a2, Inr qs)" "schema_wf (ar_store a2)"
    using Cons.IH [OF Cons.prems(1) 1(2)] by blast
  then show ?case
    by (simp add: 1(1))
qed simp

lemma insert_queries_schema: "schema_wf s \<Longrightarrow> schema_wf (foldl insert_query s qs)"
proof (induction qs arbitrary: s)
  case (Cons q qs)
  have "schema_wf (insert_query s q)"
    using Cons.prems by (simp add: schema_wf_def store_wf_def devices_wf_def device_ids_def insert_query_def next_id_def bump_def)
  then show ?case
    using Cons.IH by simp
qed simp

lemma put_progress_schema: "schema_wf s \<Longrightarrow> schema_wf (put_progress path identity position s)"
  by (simp add: schema_wf_def store_wf_def devices_wf_def device_ids_def put_progress_def next_id_def)

lemma insertBatch_ok:
  assumes "healthy_ingest env" "schema_wf (ar_store a)" "resolvable entries" "ActivityStorageWriteAllowed (ig_now env (ar_calls a)) (ar_activity a)"
  shows "\<exists>a'. insertBatch env path entries (Some (identity, position)) a = (a', None) \<and> schema_wf (ar_store a') \<and>
    ar_activity a' = ReportActivityWriteSuccess"
proof -
  obtain a1 qs where "prepare_entries env [] entries a = (a1, Inr qs)" "schema_wf (ar_store a1)"
    using prepare_entries_ok [OF assms(1,2,3)] by blast
  moreover have "ig_commit env (ar_calls a1) = None"
    using assms(1) by (simp add: healthy_ingest_def)
  ultimately show ?thesis
    using assms(4) by (auto simp: insertBatch_def Let_def intro!: put_progress_schema insert_queries_schema)
qed

lemma read_lines_ok:
  "healthy_ingest env \<Longrightarrow> schema_wf (ar_store a) \<Longrightarrow> resolvable (entries @ all_entries env ls) \<Longrightarrow>
   ActivityStorageWriteAllowed (ig_now env (ar_calls a)) (ar_activity a) \<Longrightarrow>
   \<exists>a' position. read_lines env path identity committed entries complete n ls a = (a', position, None) \<and> schema_wf (ar_store a') \<and>
     ActivityStorageWriteAllowed (ig_now env (ar_calls a')) (ar_activity a')"
proof (induction ls arbitrary: committed entries complete n a)
  case Nil
  then show ?case
    using insertBatch_ok [OF Nil.prems(1,2) _ Nil.prems(4), of entries path identity complete]
    by (auto simp: healthy_ingest_def flush_def all_entries_def healthy_writes)
next
  case (Cons l ls)
  let ?entries = "entries @ line_entries env l" and ?complete = "complete + length l"
  have entries: "resolvable ?entries" "resolvable (all_entries env ls)"
    using Cons.prems(3) by (auto simp: resolvable_def all_entries_def)
  show ?case
  proof (cases "n + 1 = queryIngestBatchSize")
    case True
    have "\<exists>a1. flush env path identity committed ?entries ?complete a = (a1, None) \<and> schema_wf (ar_store a1) \<and>
        (\<forall>t. ar_activity a1 = ar_activity a \<and> ar_calls a1 = ar_calls a \<or> ActivityStorageWriteAllowed t (ar_activity a1))"
      using insertBatch_ok [OF Cons.prems(1,2) entries(1) Cons.prems(4), of path identity ?complete] Cons.prems(2)
      by (auto simp: flush_def healthy_writes)
    then obtain a1 where a1: "flush env path identity committed ?entries ?complete a = (a1, None)" "schema_wf (ar_store a1)"
        "ActivityStorageWriteAllowed (ig_now env (ar_calls a1)) (ar_activity a1)"
      using Cons.prems(4) by metis
    show ?thesis
      using Cons.IH [OF Cons.prems(1) a1(2) _ a1(3), of "[]"] entries(2) Cons.prems(1) a1(1) True
      by (auto simp: healthy_ingest_def Let_def)
  next
    case False
    show ?thesis
      using Cons.IH [OF Cons.prems(1,2) _ Cons.prems(4), of ?entries] Cons.prems(1,3) False
      by (auto simp: healthy_ingest_def Let_def all_entries_def)
  qed
qed

text \<open>
  A healthy poll catches up: when the database answers, the context lives and the clients of the log are addresses, a
  poll after any such history returns without an error, and then the history holds exactly the queries of
  all complete lines of the log.
\<close>

theorem poll_catches_up:
  assumes "log_inv e0 path (content, a)" "same_parser env e0" "healthy_ingest env" "open_log fs path = Some content"
    "schema_wf (ar_store a)" "ActivityStorageWriteAllowed (ig_now env (ar_calls a)) (ar_activity a)"
    "resolvable (all_entries e0 (complete_lines [] content))"
  shows "\<exists>a' next_cursor. readAvailable env fs path cursor a = (a', next_cursor, None) \<and>
    history_view (ar_store a') = map entry_view (all_entries e0 (complete_lines [] content))"
proof -
  obtain offset where o: "offset \<le> length content"
      "gm_get (query_log_progress (ar_store a)) path = Some (fileIdentity e0 content, int offset)" "whole_lines (take offset content)"
      "history_view (ar_store a) = map entry_view (all_entries e0 (complete_lines [] (take offset content)))"
    using assms(1) by (auto simp: log_inv_def)
  let ?L = "complete_lines [] (drop offset content)"
  have lines: "complete_lines [] content = complete_lines [] (take offset content) @ ?L"
    using complete_lines_append [of "take offset content" "drop offset content"] whole_lines_last [OF o(3)] by simp
  have "resolvable ([] @ all_entries env ?L)"
    using assms(7) by (auto simp: lines resolvable_def all_entries_append same_parser_simps [OF assms(2)])
  from read_lines_ok [OF assms(3,5) this assms(6)]
  obtain a' position where r: "read_lines env path (fileIdentity e0 content) offset [] offset 0 ?L a = (a', position, None)"
    by blast
  have done_: "readAvailable env fs path cursor a = (a', \<lparr>lc_Identity = fileIdentity e0 content, lc_Offset = position\<rparr>, None)"
    using assms(4) o(1,2) r by (simp add: readAvailable_def saved_cursor_def read_current_def readOpenFile_def same_parser_simps [OF assms(2)])
  have "history_view (ar_store a') = history_view (ar_store a) @ map entry_view (all_entries e0 ?L)"
    using poll_current [OF done_ assms(2,4) o(2,1)] by (auto simp: Let_def)
  then show ?thesis
    using done_ by (simp add: o(4) lines all_entries_append)
qed

section \<open>An example\<close>

definition calm_ingest :: ingest_env where
  "calm_ingest = \<lparr>
     ig_host = \<lparr>load_location = (\<lambda>_. None), julianday = (\<lambda>_. None), sql_datetime = (\<lambda>_. None)\<rparr>,
     ig_hash = (\<lambda>l. l), ig_duration = (\<lambda>_. Some 1500), ig_legacy = (\<lambda>_. None), ig_encode = (\<lambda>_. None),
     ig_obs = (\<lambda>_. quiet_env), ig_commit = (\<lambda>_. None), ig_now = (\<lambda>_. 0), ig_captured = (\<lambda>_. 0),
     ig_at = (\<lambda>_. undefined), ig_done = (\<lambda>_. False)\<rparr>"

definition faro_line :: string where
  "faro_line = ''[INFO] FARO|10.0.0.8|A|Example.com.|NOERROR|1.5ms|-'' @ [newline]"

definition log_start :: archive where
  "log_start = \<lparr>ar_store = paired_store\<lparr>query_log_progress := [(''query.log'', (faro_line, 0))]\<rparr>,
     ar_activity = ReportActivityWriteSuccess, ar_calls = 0\<rparr>"

lemma faro_line_parts:
  "index_of ''FARO|'' faro_line = Some 7"
  "split_on (CHR ''|'') (trim_space (drop 7 faro_line)) = [''FARO'', ''10.0.0.8'', ''A'', ''Example.com.'', ''NOERROR'', ''1.5ms'', ''-'']"
  "trim_chars ''[]'' ''10.0.0.8'' = ''10.0.0.8''" "to_upper (trim_space ''A'') = ''A''"
  "trim_suffix ''.'' (to_lower (trim_space ''Example.com.'')) = ''example.com''" "to_upper (trim_space ''NOERROR'') = ''NOERROR''"
  "normalizeUpstream ''-'' = []" "complete_lines [] faro_line = [faro_line]" "length faro_line \<le> 100"
  by code_simp+

lemma faro_line_entry:
  "line_entries calm_ingest faro_line = [\<lparr>le_clientIP = ''10.0.0.8'', le_queryType = ''A'', le_domain = ''example.com'', le_rcode = ''NOERROR'',
     le_latency_us = 1500, le_upstream = [], le_observed = True\<rparr>]"
proof -
  have "parse_ip ''10.0.0.8'' = Some [0, 0, 0, 0, 0, 65535, 2560, 8]"
    by (simp add: net_eval)
  moreover have small: "\<not> maxSliceBytes < length faro_line"
    using faro_line_parts(9) by (simp add: maxSliceBytes_def)
  ultimately show ?thesis
    using small by (simp add: line_entries_def parseLine_def faro_line_parts) (simp add: calm_ingest_def faro_line_parts)
qed

lemma log_start_facts:
  "newline \<in> set (take 4096 faro_line)" "fileIdentity calm_ingest faro_line = faro_line"
  "healthy_ingest calm_ingest" "same_parser calm_ingest calm_ingest" "schema_wf (ar_store log_start)"
  "ActivityStorageWriteAllowed (ig_now calm_ingest (ar_calls log_start)) (ar_activity log_start)"
  "gm_get (query_log_progress (ar_store log_start)) ''query.log'' = Some (faro_line, 0)" "dns_queries (ar_store log_start) = []"
proof -
  have short: "take 4096 faro_line = faro_line"
    using faro_line_parts(9) by simp
  show "newline \<in> set (take 4096 faro_line)"
    unfolding short by (simp add: faro_line_def)
  show "fileIdentity calm_ingest faro_line = faro_line"
    unfolding fileIdentity_def short faro_line_parts by (simp add: faro_line_def calm_ingest_def)
  show "healthy_ingest calm_ingest" "same_parser calm_ingest calm_ingest"
    by (simp_all add: healthy_ingest_def same_parser_def calm_ingest_def quiet_env_def)
  show "schema_wf (ar_store log_start)"
    using put_progress_schema [OF paired_wf] paired_wf
    by (simp add: log_start_def schema_wf_def store_wf_def devices_wf_def device_ids_def next_id_def)
  show "ActivityStorageWriteAllowed (ig_now calm_ingest (ar_calls log_start)) (ar_activity log_start)"
    by (simp add: log_start_def healthy_writes)
  show "gm_get (query_log_progress (ar_store log_start)) ''query.log'' = Some (faro_line, 0)" "dns_queries (ar_store log_start) = []"
    by (simp_all add: log_start_def paired_store_def demo_store_def)
qed

lemma log_start_inv: "log_inv calm_ingest ''query.log'' (faro_line, log_start)"
  using log_start_facts by (auto simp: log_inv_def whole_lines_def history_view_def all_entries_def intro!: exI [of _ 0])

theorem poll_catches_up_witness:
  "\<exists>a' next_cursor. readAvailable calm_ingest [(''query.log'', Some faro_line)] ''query.log'' \<lparr>lc_Identity = [], lc_Offset = 0\<rparr> log_start =
       (a', next_cursor, None) \<and>
     history_view (ar_store a') = [(''10.0.0.8'', ''example.com'', ''A'', [], 1500, ''NOERROR'')]"
proof -
  have "resolvable (all_entries calm_ingest (complete_lines [] faro_line))"
    by (simp add: faro_line_parts all_entries_def faro_line_entry resolvable_def normalize_example)
  from poll_catches_up [OF log_start_inv log_start_facts(4,3) _ log_start_facts(5,6) this,
      of "[(''query.log'', Some faro_line)]" "\<lparr>lc_Identity = [], lc_Offset = 0\<rparr>"]
  show ?thesis
    by (simp add: open_log_def faro_line_parts all_entries_def faro_line_entry entry_view_def)
qed

theorem log_exactly_once_witness:
  "\<exists>a' offset. log_reachable calm_ingest ''query.log'' (faro_line, log_start) (faro_line @ ''FARO|'', a') \<and>
     gm_get (query_log_progress (ar_store a')) ''query.log'' = Some (fileIdentity calm_ingest (faro_line @ ''FARO|''), int offset) \<and>
     history_view (ar_store a') = map entry_view (all_entries calm_ingest (complete_lines [] (take offset (faro_line @ ''FARO|''))))"
proof -
  obtain a' next_cursor err where r: "readAvailable calm_ingest [(''query.log'', Some (faro_line @ ''FARO|''))] ''query.log''
      \<lparr>lc_Identity = [], lc_Offset = 0\<rparr> log_start = (a', next_cursor, err)"
    by (metis prod_cases3)
  have "log_step calm_ingest ''query.log'' (faro_line @ ''FARO|'', log_start) (faro_line @ ''FARO|'', a')"
    by (rule log_step.poll [OF log_start_facts(4) _ r]) (simp add: open_log_def)
  then have reach: "log_reachable calm_ingest ''query.log'' (faro_line, log_start) (faro_line @ ''FARO|'', a')"
    using log_step.grow [of calm_ingest "''query.log''" faro_line log_start "''FARO|''"] by (meson converse_rtranclp_into_rtranclp r_into_rtranclp)
  show ?thesis
    using log_exactly_once [OF reach log_start_facts(1)] log_start_facts(2,7,8) reach by auto
qed

end
