(* ===== verification/Log_Tee.thy ===== *)
theory Log_Tee
  imports Faro_Prelude Go_Strings Go_Time
begin

text \<open>
  The writer of the query log (\<^verbatim>\<open>cmd/faro-logtee/main.go\<close>). It copies the output of CoreDNS, line by line, to its own
  output and to a file that it rotates, and gives up old buffers, then new lines, rather than stop when the volume
  is full.

  The volume is a map from paths to contents. Every system call takes the next number; \<open>tv_fail\<close> says whether
  it fails, \<open>tv_short\<close> how many bytes a failing write has stored, \<open>tv_now\<close> what the clock reads and \<open>tv_out\<close> whether the
  copy to the output fails. An error is the list of its joined causes, and \<open>[]\<close> is \<^verbatim>\<open>nil\<close>. An open file is the file at
  the path of the writer: the source closes it before every rename.
\<close>

section \<open>The volume\<close>

datatype fault = No_Space | Broken string

datatype os_error = Fault fault | ENOENT | Short_Write | Bad_Config string

type_synonym os_errors = "os_error list"

record tee_env =
  tv_fail :: "nat \<Rightarrow> fault option"
  tv_short :: "nat \<Rightarrow> nat"
  tv_now :: "nat \<Rightarrow> time"
  tv_out :: "nat \<Rightarrow> os_errors"

record rotatingWriter =
  rw_path :: string
  rw_maxBytes :: nat
  rw_backups :: nat
  rw_file :: bool
  rw_size :: nat
  rw_retryAt :: time
  rw_volume :: "(string, string) gomap"
  rw_calls :: nat

definition is_full :: "os_errors \<Rightarrow> bool" where
  "is_full e \<longleftrightarrow> Fault No_Space \<in> set e"

definition fatal :: "os_errors \<Rightarrow> bool" where
  "fatal e \<longleftrightarrow> e \<noteq> [] \<and> e \<noteq> [ENOENT]"

definition sys :: "tee_env \<Rightarrow> rotatingWriter \<Rightarrow> rotatingWriter \<times> os_errors" where
  "sys env w = (w\<lparr>rw_calls := Suc (rw_calls w)\<rparr>, case tv_fail env (rw_calls w) of None \<Rightarrow> [] | Some f \<Rightarrow> [Fault f])"

definition on_file :: "tee_env \<Rightarrow> string \<Rightarrow> (string \<Rightarrow> (string, string) gomap \<Rightarrow> (string, string) gomap) \<Rightarrow> rotatingWriter \<Rightarrow> rotatingWriter \<times> os_errors" where
  "on_file env p change w = (case sys env w of
     (w1, e) \<Rightarrow>
       if e \<noteq> [] then (w1, e)
       else (case gm_get (rw_volume w) p of
               None \<Rightarrow> (w1, [ENOENT])
             | Some content \<Rightarrow> (w1\<lparr>rw_volume := change content (rw_volume w)\<rparr>, [])))"

definition os_remove :: "tee_env \<Rightarrow> string \<Rightarrow> rotatingWriter \<Rightarrow> rotatingWriter \<times> os_errors" where
  "os_remove env p = on_file env p (\<lambda>_ v. gm_del p v)"

definition os_rename :: "tee_env \<Rightarrow> string \<Rightarrow> string \<Rightarrow> rotatingWriter \<Rightarrow> rotatingWriter \<times> os_errors" where
  "os_rename env p q = on_file env p (\<lambda>content v. gm_put q content (gm_del p v))"

definition os_truncate :: "tee_env \<Rightarrow> string \<Rightarrow> rotatingWriter \<Rightarrow> rotatingWriter \<times> os_errors" where
  "os_truncate env p = on_file env p (\<lambda>_ v. gm_put p [] v)"

definition file_length :: "rotatingWriter \<Rightarrow> string \<Rightarrow> nat" where
  "file_length w p = (case gm_get (rw_volume w) p of None \<Rightarrow> 0 | Some content \<Rightarrow> length content)"

definition os_stat :: "tee_env \<Rightarrow> string \<Rightarrow> rotatingWriter \<Rightarrow> rotatingWriter \<times> os_errors" where
  "os_stat env p = on_file env p (\<lambda>_ v. v)"

section \<open>Opening, closing and rotating\<close>

definition close_log :: "tee_env \<Rightarrow> rotatingWriter \<Rightarrow> rotatingWriter \<times> os_errors" where
  "close_log env w = (if \<not> rw_file w then (w, []) else (case sys env w of (w1, e) \<Rightarrow> (w1\<lparr>rw_file := False\<rparr>, e)))"

definition create_file :: "tee_env \<Rightarrow> string \<Rightarrow> rotatingWriter \<Rightarrow> rotatingWriter \<times> os_errors" where
  "create_file env p w = (case sys env w of
     (w1, e) \<Rightarrow>
       if e \<noteq> [] then (w1, e)
       else (w1\<lparr>rw_volume := (case gm_get (rw_volume w) p of None \<Rightarrow> gm_put p [] (rw_volume w) | Some _ \<Rightarrow> rw_volume w)\<rparr>, []))"

definition open_active :: "tee_env \<Rightarrow> rotatingWriter \<Rightarrow> rotatingWriter \<times> os_errors" where
  "open_active env w = (case create_file env (rw_path w) w of
     (w1, e) \<Rightarrow>
       if e \<noteq> [] then (w1, e)
       else (case sys env w1 of
         (w2, e) \<Rightarrow>
           if e \<noteq> [] then (fst (sys env w2), e)
           else (w2\<lparr>rw_file := True, rw_size := file_length w2 (rw_path w2)\<rparr>, [])))"

definition backupPath :: "rotatingWriter \<Rightarrow> nat \<Rightarrow> string" where
  "backupPath w index = rw_path w @ ''.'' @ nat_to_string index"

fun shift_backups :: "tee_env \<Rightarrow> nat \<Rightarrow> rotatingWriter \<Rightarrow> rotatingWriter \<times> os_errors" where
  "shift_backups env 0 w = (w, [])"
| "shift_backups env (Suc i) w =
     (case os_rename env (backupPath w (Suc i)) (backupPath w (Suc (Suc i))) w of
        (w1, e) \<Rightarrow> if fatal e then (w1, e) else shift_backups env i w1)"

definition rotate_open :: "tee_env \<Rightarrow> rotatingWriter \<Rightarrow> rotatingWriter \<times> os_errors" where
  "rotate_open env w = (case open_active env w of
     (w1, e) \<Rightarrow>
       if e = [] then (w1, [])
       else if \<not> is_full e then (w1, e)
       else (case os_remove env (backupPath w1 1) w1 of
         (w2, r) \<Rightarrow> if fatal r then (w2, e @ r) else open_active env w2))"

definition rotate_log :: "tee_env \<Rightarrow> rotatingWriter \<Rightarrow> rotatingWriter \<times> os_errors" where
  "rotate_log env w = (case close_log env w of
     (w1, e) \<Rightarrow>
       if e \<noteq> [] then (w1, e)
       else
         let w2 = fst (os_remove env (backupPath w1 (rw_backups w1)) w1) in
         (case shift_backups env (rw_backups w2 - 1) w2 of
            (w3, e) \<Rightarrow>
              if e \<noteq> [] then (w3, e)
              else (case os_rename env (rw_path w3) (backupPath w3 1) w3 of
                (w4, e) \<Rightarrow> if fatal e then (w4, e) else rotate_open env w4)))"

fun remove_backups :: "tee_env \<Rightarrow> nat list \<Rightarrow> rotatingWriter \<Rightarrow> rotatingWriter \<times> os_errors" where
  "remove_backups env [] w = (w, [])"
| "remove_backups env (i # is) w =
     (case os_remove env (backupPath w i) w of (w1, e) \<Rightarrow> if fatal e then (w1, e) else remove_backups env is w1)"

definition emergencyReset :: "tee_env \<Rightarrow> rotatingWriter \<Rightarrow> rotatingWriter \<times> os_errors" where
  "emergencyReset env w = (case close_log env w of
     (w1, e) \<Rightarrow>
       if e \<noteq> [] then (w1, e)
       else (case remove_backups env [1..<Suc (rw_backups w1)] w1 of
         (w2, e) \<Rightarrow>
           if e \<noteq> [] then (w2, e)
           else (case os_truncate env (rw_path w2) w2 of
             (w3, e) \<Rightarrow> if fatal e then (w3, e) else open_active env w3)))"

section \<open>Writing\<close>

definition storageRetryInterval :: int where
  "storageRetryInterval = 30 * second"

definition pauseForFullStorage :: "tee_env \<Rightarrow> rotatingWriter \<Rightarrow> rotatingWriter" where
  "pauseForFullStorage env w =
     (let w1 = fst (close_log env w) in w1\<lparr>rw_retryAt := tv_now env (rw_calls w1) + storageRetryInterval\<rparr>)"

definition handleStorageError :: "tee_env \<Rightarrow> os_errors \<Rightarrow> rotatingWriter \<Rightarrow> rotatingWriter \<times> bool \<times> os_errors" where
  "handleStorageError env e w = (if \<not> is_full e then (w, False, e) else (pauseForFullStorage env w, True, []))"

definition prepare_rotation :: "tee_env \<Rightarrow> nat \<Rightarrow> rotatingWriter \<Rightarrow> rotatingWriter \<times> bool \<times> os_errors" where
  "prepare_rotation env dataLength w =
     (if rw_size w > 0 \<and> rw_size w + dataLength > rw_maxBytes w
      then (case rotate_log env w of
              (w1, e) \<Rightarrow> if e \<noteq> [] then handleStorageError env e w1 else (w1, False, []))
      else (w, False, []))"

definition prepareForWrite :: "tee_env \<Rightarrow> nat \<Rightarrow> rotatingWriter \<Rightarrow> rotatingWriter \<times> bool \<times> os_errors" where
  "prepareForWrite env dataLength w =
     (if \<not> rw_file w then
        if tv_now env (rw_calls w) < rw_retryAt w then (w, True, [])
        else (case emergencyReset env w of
                (w1, e) \<Rightarrow> if e \<noteq> [] then handleStorageError env e w1 else prepare_rotation env dataLength w1)
      else prepare_rotation env dataLength w)"

text \<open>\<^verbatim>\<open>file.Write\<close>: the bytes that it stored and its error.\<close>

definition append_file :: "tee_env \<Rightarrow> string \<Rightarrow> rotatingWriter \<Rightarrow> rotatingWriter \<times> nat \<times> os_errors" where
  "append_file env data w = (case sys env w of
     (w1, e) \<Rightarrow>
       let stored = (if e = [] then data else take (tv_short env (rw_calls w)) data);
           content = (case gm_get (rw_volume w) (rw_path w) of None \<Rightarrow> [] | Some c \<Rightarrow> c) in
       (w1\<lparr>rw_volume := gm_put (rw_path w) (content @ stored) (rw_volume w)\<rparr>, length stored, e))"

definition retryAfterStorageFull :: "tee_env \<Rightarrow> string \<Rightarrow> nat \<Rightarrow> os_errors \<Rightarrow> rotatingWriter \<Rightarrow> rotatingWriter \<times> nat \<times> os_errors" where
  "retryAfterStorageFull env data initialWritten initialErr w = (case emergencyReset env w of
     (w1, e) \<Rightarrow>
       if e \<noteq> [] then (case handleStorageError env e w1 of
         (w2, handled, storageErr) \<Rightarrow> if handled then (w2, length data, []) else (w2, initialWritten, initialErr @ storageErr))
       else (case append_file env data w1 of
         (w2, retry, retryErr) \<Rightarrow>
           let w3 = w2\<lparr>rw_size := retry\<rparr> in
           if retryErr = [] then (w3, retry, [])
           else (case handleStorageError env retryErr w3 of
             (w4, handled, storageErr) \<Rightarrow> if handled then (w4, length data, []) else (w4, retry, storageErr))))"

definition writeData :: "tee_env \<Rightarrow> string \<Rightarrow> rotatingWriter \<Rightarrow> rotatingWriter \<times> nat \<times> os_errors" where
  "writeData env data w = (case append_file env data w of
     (w1, n, e) \<Rightarrow>
       let w2 = w1\<lparr>rw_size := rw_size w1 + n\<rparr> in
       if \<not> is_full e then (w2, n, e) else retryAfterStorageFull env data n e w2)"

definition Write :: "tee_env \<Rightarrow> string \<Rightarrow> rotatingWriter \<Rightarrow> rotatingWriter \<times> nat \<times> os_errors" where
  "Write env data w = (case prepareForWrite env (length data) w of
     (w1, handled, e) \<Rightarrow>
       if handled then (w1, length data, [])
       else if e \<noteq> [] then (w1, 0, e)
       else writeData env data w1)"

section \<open>Starting\<close>

definition reclaimLegacyBackup :: "tee_env \<Rightarrow> string \<Rightarrow> rotatingWriter \<Rightarrow> rotatingWriter \<times> os_errors" where
  "reclaimLegacyBackup env p w = (case atoi (trim_prefix (rw_path w @ ''.'') p) of
     None \<Rightarrow> (w, [])
   | Some index \<Rightarrow>
       if index < 1 then (w, [])
       else (case os_stat env p w of
         (w1, e) \<Rightarrow>
           if e \<noteq> [] then (w1, if e = [ENOENT] then [] else e)
           else if index \<le> int (rw_backups w1) \<and> file_length w1 p \<le> rw_maxBytes w1 then (w1, [])
           else (case os_remove env p w1 of (w2, e) \<Rightarrow> (w2, if fatal e then e else []))))"

fun reclaim_all :: "tee_env \<Rightarrow> string list \<Rightarrow> rotatingWriter \<Rightarrow> rotatingWriter \<times> os_errors" where
  "reclaim_all env [] w = (w, [])"
| "reclaim_all env (p # ps) w =
     (case reclaimLegacyBackup env p w of (w1, e) \<Rightarrow> if e \<noteq> [] then (w1, e) else reclaim_all env ps w1)"

definition backup_matches :: "rotatingWriter \<Rightarrow> string list" where
  "backup_matches w =
     sort (filter (\<lambda>p. prefix (rw_path w @ ''.'') p \<and> CHR ''/'' \<notin> set (drop (length (rw_path w)) p)) (gm_keys (rw_volume w)))"

definition truncateOversizedLegacyLog :: "tee_env \<Rightarrow> rotatingWriter \<Rightarrow> rotatingWriter \<times> os_errors" where
  "truncateOversizedLegacyLog env w = (case os_stat env (rw_path w) w of
     (w1, e) \<Rightarrow>
       if e \<noteq> [] then (w1, if e = [ENOENT] then [] else e)
       else if file_length w1 (rw_path w1) \<le> rw_maxBytes w1 then (w1, [])
       else os_truncate env (rw_path w1) w1)"

definition reclaimLegacyLogs :: "tee_env \<Rightarrow> rotatingWriter \<Rightarrow> rotatingWriter \<times> os_errors" where
  "reclaimLegacyLogs env w = (case reclaim_all env (backup_matches w) w of
     (w1, e) \<Rightarrow> if e \<noteq> [] then (w1, e) else truncateOversizedLegacyLog env w1)"

definition newRotatingWriter :: "tee_env \<Rightarrow> string \<Rightarrow> int \<Rightarrow> int \<Rightarrow> (string, string) gomap \<Rightarrow> rotatingWriter \<times> os_errors" where
  "newRotatingWriter env path maxBytes backups volume =
     (let w = \<lparr>rw_path = path, rw_maxBytes = nat maxBytes, rw_backups = nat backups, rw_file = False, rw_size = 0,
        rw_retryAt = zero_time, rw_volume = volume, rw_calls = 0\<rparr> in
      if path = [] then (w, [Bad_Config ''log path is required''])
      else if maxBytes < 1 then (w, [Bad_Config ''max-bytes must be positive''])
      else if backups < 1 then (w, [Bad_Config ''backups must be at least 1''])
      else (case reclaimLegacyLogs env w of
              (w1, e) \<Rightarrow> if e \<noteq> [] then (w1, e) else open_active env w1))"

section \<open>Copying\<close>

text \<open>The chunks that \<^verbatim>\<open>ReadBytes\<close> delivers: the lines with their break, and a rest without one.\<close>

fun chunks :: "string \<Rightarrow> string \<Rightarrow> string list" where
  "chunks acc [] = (if acc = [] then [] else [acc])"
| "chunks acc (c # cs) = (if c = newline then (acc @ [c]) # chunks [] cs else chunks (acc @ [c]) cs)"

fun copy_chunks :: "tee_env \<Rightarrow> string list \<Rightarrow> string \<Rightarrow> rotatingWriter \<Rightarrow> rotatingWriter \<times> string \<times> os_errors" where
  "copy_chunks env [] out w = (w, out, [])"
| "copy_chunks env (line # lines) out w =
     (if tv_out env (rw_calls w) \<noteq> [] then (w, out, tv_out env (rw_calls w))
      else (case Write env line w of
        (w1, n, e) \<Rightarrow>
          if e \<noteq> [] then (w1, out @ line, e)
          else if n \<noteq> length line then (w1, out @ line, [Short_Write])
          else copy_chunks env lines (out @ line) w1))"

definition run :: "tee_env \<Rightarrow> string \<Rightarrow> os_errors \<Rightarrow> string \<Rightarrow> int \<Rightarrow> int \<Rightarrow> (string, string) gomap \<Rightarrow> rotatingWriter \<times> string \<times> os_errors" where
  "run env input readErr path maxBytes backups volume =
     (case newRotatingWriter env path maxBytes backups volume of
        (w, e) \<Rightarrow>
          if e \<noteq> [] then (w, [], e)
          else (case copy_chunks env (chunks [] input) [] w of
            (w1, out, e) \<Rightarrow>
              let runErr = (if e \<noteq> [] then e else readErr) in
              (case close_log env w1 of (w2, closeErr) \<Rightarrow> (w2, out, runErr @ closeErr))))"

section \<open>The volume stays bounded\<close>

definition kept :: "rotatingWriter \<Rightarrow> string \<Rightarrow> bool" where
  "kept w p \<longleftrightarrow> p = rw_path w \<or> (\<exists>i. 1 \<le> i \<and> i \<le> rw_backups w \<and> p = backupPath w i)"

definition numbered :: "rotatingWriter \<Rightarrow> string \<Rightarrow> bool" where
  "numbered w p \<longleftrightarrow> kept w p \<or> (\<exists>i. 1 \<le> i \<and> i < 2 ^ 63 \<and> p = backupPath w i)"

definition bounded :: "nat \<Rightarrow> rotatingWriter \<Rightarrow> bool" where
  "bounded B w \<longleftrightarrow> (\<forall>p c. numbered w p \<and> gm_get (rw_volume w) p = Some c \<longrightarrow> kept w p \<and> length c \<le> B)"

text \<open>The settings of the writer do not change, and a bound on its files is kept.\<close>

definition frame :: "nat \<Rightarrow> rotatingWriter \<Rightarrow> rotatingWriter \<Rightarrow> bool" where
  "frame B w w' \<longleftrightarrow> rw_path w' = rw_path w \<and> rw_maxBytes w' = rw_maxBytes w \<and> rw_backups w' = rw_backups w \<and> (bounded B w \<longrightarrow> bounded B w')"

lemma frame_refl [simp, intro]: "frame B w w"
  by (simp add: frame_def)

lemma frame_trans: "frame B w w1 \<Longrightarrow> frame B w1 w2 \<Longrightarrow> frame B w w2"
  by (simp add: frame_def)

lemma frame_settings: "frame B w w' \<Longrightarrow> rw_path w' = rw_path w" "frame B w w' \<Longrightarrow> rw_maxBytes w' = rw_maxBytes w"
  "frame B w w' \<Longrightarrow> rw_backups w' = rw_backups w" "frame B w w' \<Longrightarrow> backupPath w' = backupPath w"
  "frame B w w' \<Longrightarrow> kept w' = kept w" "frame B w w' \<Longrightarrow> bounded B w \<Longrightarrow> bounded B w'"
  by (auto simp: frame_def backupPath_def kept_def fun_eq_iff)

definition active_length :: "rotatingWriter \<Rightarrow> nat" where
  "active_length w = file_length w (rw_path w)"

lemma frame_volume:
  assumes "\<And>p c. gm_get v p = Some c \<Longrightarrow> gm_get (rw_volume w) p = Some c \<or> (kept w p \<and> length c \<le> B)"
  shows "frame B w (w\<lparr>rw_calls := n, rw_volume := v\<rparr>)"
proof -
  let ?w = "w\<lparr>rw_calls := n, rw_volume := v\<rparr>"
  have names: "numbered ?w = numbered w" "kept ?w = kept w"
    by (simp_all add: kept_def numbered_def backupPath_def fun_eq_iff)
  have new: "kept w p \<and> length c \<le> B" if "bounded B w" "numbered w p" "gm_get v p = Some c" for p c
    using assms [OF that(3)] that(1,2) by (auto simp: bounded_def)
  have "bounded B ?w" if b: "bounded B w"
    using new [OF b] unfolding bounded_def [of B ?w] names by auto
  then show ?thesis
    by (simp add: frame_def)
qed

lemma bounded_state:
  assumes "rw_path w' = rw_path w" "rw_backups w' = rw_backups w" "rw_volume w' = rw_volume w"
  shows "bounded B w' = bounded B w"
proof -
  have "numbered w' = numbered w" "kept w' = kept w"
    by (simp_all add: kept_def numbered_def backupPath_def fun_eq_iff assms)
  then show ?thesis
    by (simp add: bounded_def assms)
qed

lemma frame_state:
  "frame B w (w'\<lparr>rw_file := f\<rparr>) = frame B w w'" "frame B w (w'\<lparr>rw_size := s\<rparr>) = frame B w w'"
  "frame B w (w'\<lparr>rw_retryAt := t\<rparr>) = frame B w w'" "frame B w (w'\<lparr>rw_calls := n\<rparr>) = frame B w w'"
  by (simp_all add: frame_def bounded_state [of "w'\<lparr>rw_file := f\<rparr>" w'] bounded_state [of "w'\<lparr>rw_size := s\<rparr>" w']
      bounded_state [of "w'\<lparr>rw_retryAt := t\<rparr>" w'] bounded_state [of "w'\<lparr>rw_calls := n\<rparr>" w'])

lemma sys_frame: "sys env w = (w', e) \<Longrightarrow> frame B w w' \<and> rw_file w' = rw_file w \<and> active_length w' = active_length w \<and> rw_size w' = rw_size w"
  by (auto simp: sys_def frame_state active_length_def file_length_def)

lemma os_remove_frame: "os_remove env p w = (w', e) \<Longrightarrow> frame B w w' \<and> rw_file w' = rw_file w"
  by (auto simp: os_remove_def on_file_def sys_def frame_state intro!: frame_volume split: option.splits if_splits)

lemma path_not_backup [simp]: "rw_path w \<noteq> backupPath w i" "backupPath w i \<noteq> rw_path w"
  by (simp_all add: backupPath_def)

lemma os_remove_active: "os_remove env (backupPath w i) w = (w', e) \<Longrightarrow> active_length w' = active_length w"
  by (auto simp: os_remove_def on_file_def sys_def active_length_def file_length_def split: option.splits if_splits)

lemma os_rename_frame:
  assumes "os_rename env p q w = (w', e)" "bounded B w \<Longrightarrow> numbered w p" "kept w q"
  shows "frame B w w' \<and> rw_file w' = rw_file w"
proof (cases "bounded B w")
  case True
  then have "length c \<le> B" if "gm_get (rw_volume w) p = Some c" for c
    using assms(2) that by (auto simp: bounded_def)
  then show ?thesis
    using assms(1,3) by (auto simp: os_rename_def on_file_def sys_def frame_state intro!: frame_volume split: option.splits if_splits)
next
  case False
  then show ?thesis
    using assms(1) by (auto simp: os_rename_def on_file_def sys_def frame_def split: option.splits if_splits)
qed

lemma os_truncate_frame: "os_truncate env (rw_path w) w = (w', e) \<Longrightarrow> frame B w w' \<and> rw_file w' = rw_file w \<and> (\<not> fatal e \<longrightarrow> active_length w' = 0)"
  by (auto simp: os_truncate_def on_file_def sys_def frame_state fatal_def active_length_def file_length_def kept_def
      intro!: frame_volume split: option.splits if_splits)

lemma close_log_frame: "close_log env w = (w', e) \<Longrightarrow> frame B w w' \<and> \<not> rw_file w' \<and> active_length w' = active_length w"
  by (auto simp: close_log_def sys_def frame_state active_length_def file_length_def split: if_splits)

lemma create_file_frame:
  "create_file env (rw_path w) w = (w', e) \<Longrightarrow> frame B w w' \<and> rw_file w' = rw_file w \<and> active_length w' = active_length w"
  by (auto simp: create_file_def sys_def frame_state active_length_def file_length_def kept_def
      intro!: frame_volume split: option.splits if_splits)

lemma open_active_frame:
  assumes "open_active env w = (w', e)" "\<not> rw_file w"
  shows "frame B w w' \<and> active_length w' = active_length w \<and> (if e = [] then rw_file w' \<and> rw_size w' = active_length w else \<not> rw_file w')"
proof -
  obtain w1 e1 where 1: "create_file env (rw_path w) w = (w1, e1)"
    by fastforce
  obtain w2 e2 where 2: "sys env w1 = (w2, e2)"
    by fastforce
  obtain w3 e3 where 3: "sys env w2 = (w3, e3)"
    by fastforce
  have "frame B w w1" "frame B w w2" "frame B w w3" "\<not> rw_file w1" "\<not> rw_file w3" "active_length w1 = active_length w"
      "active_length w2 = active_length w" "active_length w3 = active_length w"
    using create_file_frame [OF 1, of B] sys_frame [OF 2, of B] sys_frame [OF 3, of B] assms(2) frame_trans by (metis | simp)+
  then show ?thesis
    using assms(1) 1 2 3 by (auto simp: open_active_def frame_state active_length_def file_length_def split: if_splits)
qed

lemma kept_backup: "1 \<le> i \<Longrightarrow> i \<le> rw_backups w \<Longrightarrow> kept w (backupPath w i)"
  by (auto simp: kept_def)

lemma kept_numbered: "kept w p \<Longrightarrow> numbered w p"
  by (simp add: numbered_def)

lemma os_rename_backup: "os_rename env (backupPath w i) (backupPath w j) w = (w', e) \<Longrightarrow> active_length w' = active_length w"
  by (auto simp: os_rename_def on_file_def sys_def active_length_def file_length_def split: option.splits if_splits)

lemma os_rename_active: "os_rename env (rw_path w) (backupPath w j) w = (w', e) \<Longrightarrow> \<not> fatal e \<Longrightarrow> active_length w' = 0"
  by (auto simp: os_rename_def on_file_def sys_def active_length_def file_length_def fatal_def split: option.splits if_splits)

lemma shift_backups_frame:
  "shift_backups env i w = (w', e) \<Longrightarrow> i < rw_backups w \<Longrightarrow> frame B w w' \<and> rw_file w' = rw_file w \<and> active_length w' = active_length w"
proof (induction i arbitrary: w)
  case (Suc i)
  obtain w1 e1 where 1: "os_rename env (backupPath w (Suc i)) (backupPath w (Suc (Suc i))) w = (w1, e1)"
    by fastforce
  have f: "frame B w w1" "rw_file w1 = rw_file w" "active_length w1 = active_length w"
    using os_rename_frame [OF 1 kept_numbered] os_rename_backup [OF 1] Suc.prems(2) kept_backup by simp_all
  show ?case
    using Suc.prems Suc.IH [of w1] 1 f frame_trans [OF f(1), of w'] frame_settings(3) [OF f(1)] by (cases "fatal e1") auto
qed simp

text \<open>
  A step of the writer that ends with the log open, empty and of size 0, or with an error and the log closed; the
  bound on the files is kept in both cases.
\<close>

definition renews :: "nat \<Rightarrow> rotatingWriter \<Rightarrow> rotatingWriter \<times> os_errors \<Rightarrow> bool" where
  "renews B w = (\<lambda>(w', e). frame B w w' \<and> (if e = [] then rw_file w' \<and> rw_size w' = 0 \<and> active_length w' = 0 else \<not> rw_file w'))"

lemma open_renews: "\<not> rw_file w \<Longrightarrow> active_length w = 0 \<Longrightarrow> renews B w (open_active env w)"
  by (cases "open_active env w") (auto simp: renews_def dest: open_active_frame)

lemma renews_trans: "frame B w w1 \<Longrightarrow> renews B w1 r \<Longrightarrow> renews B w r"
  by (cases r) (auto simp: renews_def intro: frame_trans)

lemma renews_fails: "frame B w w1 \<Longrightarrow> \<not> rw_file w1 \<Longrightarrow> e \<noteq> [] \<Longrightarrow> renews B w (w1, e)"
  by (simp add: renews_def)

lemma rotate_open_renews:
  assumes "\<not> rw_file w" "active_length w = 0"
  shows "renews B w (rotate_open env w)"
proof -
  obtain w1 e1 where 1: "open_active env w = (w1, e1)"
    by fastforce
  note f1 = open_active_frame [OF 1 assms(1), of B]
  obtain w2 e2 where 2: "os_remove env (backupPath w1 1) w1 = (w2, e2)"
    by fastforce
  have f2: "frame B w1 w2" "rw_file w2 = rw_file w1" "active_length w2 = active_length w1"
    using os_remove_frame [OF 2] os_remove_active [OF 2] by auto
  show ?thesis
  proof (cases "e1 = []")
    case True
    with 1 f1 assms(2) show ?thesis
      by (simp add: rotate_open_def renews_def)
  next
    case False
    have "renews B w (open_active env w2)"
      using f1 f2 assms False by (intro renews_trans [OF frame_trans [of B w w1 w2]] open_renews) auto
    with 1 2 f1 f2 False frame_trans [of B w w1 w2] show ?thesis
      by (auto simp: rotate_open_def intro!: renews_fails)
  qed
qed

lemma rotate_log_renews:
  assumes "1 \<le> rw_backups w"
  shows "renews B w (rotate_log env w)"
proof -
  obtain w1 e1 where 1: "close_log env w = (w1, e1)"
    by fastforce
  obtain w2 e2 where 2: "os_remove env (backupPath w1 (rw_backups w1)) w1 = (w2, e2)"
    by fastforce
  obtain w3 e3 where 3: "shift_backups env (rw_backups w2 - 1) w2 = (w3, e3)"
    by fastforce
  obtain w4 e4 where 4: "os_rename env (rw_path w3) (backupPath w3 1) w3 = (w4, e4)"
    by fastforce
  have f1: "frame B w w1" "\<not> rw_file w1"
    using close_log_frame [OF 1] by auto
  have f2: "frame B w w2" "\<not> rw_file w2"
    using os_remove_frame [OF 2] f1 frame_trans by auto
  have f3: "frame B w w3" "\<not> rw_file w3"
    using shift_backups_frame [OF 3, of B] f2 assms frame_settings(3) [OF f2(1)] frame_trans by auto
  have "kept w3 (backupPath w3 1)"
    using assms frame_settings(3) [OF f3(1)] by (intro kept_backup) auto
  then have f4: "frame B w w4" "\<not> rw_file w4"
    using os_rename_frame [OF 4, of B] f3 frame_trans by (auto simp: numbered_def kept_def)
  have "renews B w (rotate_open env w4)" if "\<not> fatal e4"
    using that os_rename_active [OF 4] f4 by (intro renews_trans [OF f4(1)] rotate_open_renews) auto
  with 1 2 3 4 f1 f3 f4 show ?thesis
    by (auto simp: rotate_log_def Let_def fatal_def intro!: renews_fails)
qed

lemma remove_backups_frame:
  "remove_backups env is w = (w', e) \<Longrightarrow> frame B w w' \<and> rw_file w' = rw_file w"
proof (induction "is" arbitrary: w)
  case (Cons i "is")
  obtain w1 e1 where 1: "os_remove env (backupPath w i) w = (w1, e1)"
    by fastforce
  show ?case
    using Cons 1 os_remove_frame [OF 1, of B] by (cases "fatal e1") (auto dest: frame_trans)
qed simp

lemma emergencyReset_renews: "renews B w (emergencyReset env w)"
proof -
  obtain w1 e1 where 1: "close_log env w = (w1, e1)"
    by fastforce
  obtain w2 e2 where 2: "remove_backups env [1..<Suc (rw_backups w1)] w1 = (w2, e2)"
    by fastforce
  obtain w3 e3 where 3: "os_truncate env (rw_path w2) w2 = (w3, e3)"
    by fastforce
  have f1: "frame B w w1" "\<not> rw_file w1"
    using close_log_frame [OF 1] by auto
  have f2: "frame B w w2" "\<not> rw_file w2"
    using remove_backups_frame [OF 2] f1 frame_trans by auto
  have f3: "frame B w w3" "\<not> rw_file w3" "\<not> fatal e3 \<longrightarrow> active_length w3 = 0"
    using os_truncate_frame [OF 3] f2 frame_trans by auto
  have "renews B w (open_active env w3)" if "\<not> fatal e3"
    using that f3 by (intro renews_trans [OF f3(1)] open_renews) auto
  with 1 2 3 f1 f2 f3 show ?thesis
    by (auto simp: emergencyReset_def fatal_def simp del: upt_Suc intro!: renews_fails)
qed

definition consistent :: "rotatingWriter \<Rightarrow> bool" where
  "consistent w \<longleftrightarrow> (rw_file w \<longrightarrow> rw_size w = active_length w)"

lemma renews_consistent: "renews B w (w', e) \<Longrightarrow> frame B w w' \<and> consistent w'"
  by (auto simp: renews_def consistent_def split: if_splits)

lemma handleStorageError_frame:
  assumes "handleStorageError env e w = (w', handled, e')"
  shows "frame B w w'" "consistent w \<Longrightarrow> consistent w'"
proof -
  obtain w1 e1 where 1: "close_log env w = (w1, e1)"
    by fastforce
  show "frame B w w'" "consistent w \<Longrightarrow> consistent w'"
    using assms close_log_frame [OF 1, of B] 1
    by (auto simp: handleStorageError_def pauseForFullStorage_def Let_def frame_state consistent_def split: if_splits)
qed

lemma handleStorageError_result:
  "handleStorageError env e w = (w', handled, e') \<Longrightarrow> e \<noteq> [] \<Longrightarrow> handled \<or> e' \<noteq> []"
  by (auto simp: handleStorageError_def split: if_splits)

lemma prepare_rotation_frame:
  assumes "prepare_rotation env n w = (w', handled, e)" "1 \<le> rw_backups w" "rw_file w" "consistent w"
  shows "frame B w w' \<and> consistent w' \<and> (handled \<or> e \<noteq> [] \<or> rw_file w' \<and> (active_length w' = 0 \<or> active_length w' + n \<le> rw_maxBytes w'))"
proof (cases "rw_size w > 0 \<and> rw_size w + n > rw_maxBytes w")
  case True
  obtain w1 e1 where 1: "rotate_log env w = (w1, e1)"
    by fastforce
  have r: "renews B w (w1, e1)"
    using rotate_log_renews [OF assms(2), of B env] 1 by simp
  show ?thesis
  proof (cases "e1 = []")
    case True
    with \<open>rw_size w > 0 \<and> _\<close> assms(1) 1 r show ?thesis
      by (auto simp: prepare_rotation_def renews_def consistent_def)
  next
    case False
    have h: "handleStorageError env e1 w1 = (w', handled, e)"
      using assms(1) True 1 False by (simp add: prepare_rotation_def)
    have c: "frame B w w1" "consistent w1"
      using renews_consistent [OF r] by simp_all
    show ?thesis
      using handleStorageError_frame [OF h] handleStorageError_result [OF h False] frame_trans [OF c(1)] c(2) by auto
  qed
next
  case False
  with assms show ?thesis
    by (auto simp: prepare_rotation_def consistent_def)
qed

lemma prepareForWrite_frame:
  assumes "prepareForWrite env n w = (w', handled, e)" "1 \<le> rw_backups w" "consistent w"
  shows "frame B w w' \<and> consistent w' \<and> (handled \<or> e \<noteq> [] \<or> rw_file w' \<and> (active_length w' = 0 \<or> active_length w' + n \<le> rw_maxBytes w'))"
proof (cases "rw_file w")
  case True
  with assms show ?thesis
    by (intro prepare_rotation_frame) (simp_all add: prepareForWrite_def)
next
  case closed: False
  obtain w1 e1 where 1: "emergencyReset env w = (w1, e1)"
    by fastforce
  have r: "renews B w (w1, e1)"
    using emergencyReset_renews [of B w env] 1 by simp
  then have w1: "frame B w w1" "consistent w1"
    using renews_consistent by auto
  consider (paused) "tv_now env (rw_calls w) < rw_retryAt w" | (failed) "\<not> tv_now env (rw_calls w) < rw_retryAt w" "e1 \<noteq> []"
    | (ready) "\<not> tv_now env (rw_calls w) < rw_retryAt w" "e1 = []"
    by blast
  then show ?thesis
  proof cases
    case paused
    with assms closed show ?thesis
      by (auto simp: prepareForWrite_def)
  next
    case failed
    have h: "handleStorageError env e1 w1 = (w', handled, e)"
      using assms(1) closed 1 failed by (simp add: prepareForWrite_def)
    show ?thesis
      using handleStorageError_frame [OF h] handleStorageError_result [OF h failed(2)] frame_trans [OF w1(1)] w1(2) by auto
  next
    case ready
    have "prepare_rotation env n w1 = (w', handled, e)" "rw_file w1"
      using assms(1) closed 1 ready r by (simp_all add: prepareForWrite_def renews_def)
    then show ?thesis
      using prepare_rotation_frame [of env n w1 w' handled e B] w1 assms(2) frame_settings(3) [OF w1(1)] frame_trans [OF w1(1)] by auto
  qed
qed

lemma append_file_frame:
  assumes "append_file env data w = (w', n, e)" "active_length w + length data \<le> B"
  shows "frame B w w' \<and> rw_file w' = rw_file w \<and> rw_size w' = rw_size w \<and> active_length w' = active_length w + n \<and> n \<le> length data"
proof -
  have "frame B w w'"
    using assms by (auto simp: append_file_def sys_def Let_def kept_def active_length_def file_length_def
        intro!: frame_volume split: if_splits option.splits)
  then show ?thesis
    using assms(1) by (auto simp: append_file_def sys_def Let_def active_length_def file_length_def split: option.splits)
qed

lemma retryAfterStorageFull_frame:
  assumes "retryAfterStorageFull env data n0 e0 w = (w', n, e)" "length data \<le> B"
  shows "frame B w w' \<and> consistent w'"
proof -
  obtain w1 e1 where 1: "emergencyReset env w = (w1, e1)"
    by fastforce
  have r: "renews B w (w1, e1)"
    using emergencyReset_renews [of B w env] 1 by simp
  show ?thesis
  proof (cases "e1 = []")
    case False
    obtain handled e2 where h: "handleStorageError env e1 w1 = (w', handled, e2)"
      using assms(1) 1 False by (auto simp: retryAfterStorageFull_def split: prod.splits if_splits)
    show ?thesis
      using handleStorageError_frame [OF h] r False by (auto simp: renews_def consistent_def intro: frame_trans)
  next
    case True
    obtain w2 retry e2 where 2: "append_file env data w1 = (w2, retry, e2)"
      by (metis prod_cases3)
    have a: "frame B w w2" "active_length w2 = retry" "rw_file w2"
      using append_file_frame [OF 2, of B] r True assms(2) by (auto simp: renews_def intro: frame_trans)
    obtain w4 handled e4 where 4: "handleStorageError env e2 (w2\<lparr>rw_size := retry\<rparr>) = (w4, handled, e4)"
      by (metis prod_cases3)
    have "frame B w (w2\<lparr>rw_size := retry\<rparr>)" "consistent (w2\<lparr>rw_size := retry\<rparr>)"
      using a by (simp_all add: frame_state consistent_def active_length_def file_length_def)
    moreover have "frame B w w4 \<and> consistent w4"
      using handleStorageError_frame [OF 4] calculation frame_trans by blast
    ultimately show ?thesis
      using assms(1) 1 2 4 True by (auto simp: retryAfterStorageFull_def Let_def split: if_splits)
  qed
qed

lemma Write_frame:
  assumes "Write env data w = (w', n, e)" "1 \<le> rw_backups w" "consistent w" "rw_maxBytes w \<le> B" "length data \<le> B"
  shows "frame B w w' \<and> consistent w'"
proof -
  obtain w1 handled e1 where 1: "prepareForWrite env (length data) w = (w1, handled, e1)"
    by (metis prod_cases3)
  note p = prepareForWrite_frame [OF 1 assms(2,3), of B]
  show ?thesis
  proof (cases "handled \<or> e1 \<noteq> []")
    case True
    with assms(1) 1 p show ?thesis
      by (auto simp: Write_def split: if_splits)
  next
    case False
    then have w1: "frame B w w1" "consistent w1" "rw_file w1" "active_length w1 + length data \<le> B"
      using p assms(4,5) frame_settings(2) [of B w w1] by auto
    obtain w2 m e2 where 2: "append_file env data w1 = (w2, m, e2)"
      by (metis prod_cases3)
    let ?w2 = "w2\<lparr>rw_size := rw_size w2 + m\<rparr>"
    have w2: "frame B w ?w2" "consistent ?w2"
      using append_file_frame [OF 2 w1(4)] w1 frame_trans [OF w1(1)]
      by (auto simp: frame_state consistent_def active_length_def file_length_def)
    have step: "writeData env data w1 = (w', n, e)"
      using assms(1) 1 False by (auto simp: Write_def)
    show ?thesis
    proof (cases "is_full e2")
      case True
      with step 2 have "retryAfterStorageFull env data m e2 ?w2 = (w', n, e)"
        by (simp add: writeData_def Let_def)
      then show ?thesis
        using retryAfterStorageFull_frame [OF _ assms(5)] w2(1) frame_trans by blast
    next
      case False
      with step 2 w2 show ?thesis
        by (auto simp: writeData_def Let_def)
    qed
  qed
qed

section \<open>Starting bounds the volume\<close>

definition reclaimed :: "rotatingWriter \<Rightarrow> string \<Rightarrow> bool" where
  "reclaimed w p \<longleftrightarrow> (\<forall>c index. gm_get (rw_volume w) p = Some c \<and> atoi (trim_prefix (rw_path w @ ''.'') p) = Some index \<and> 1 \<le> index \<longrightarrow>
     index \<le> int (rw_backups w) \<and> length c \<le> rw_maxBytes w)"

definition shrinks :: "rotatingWriter \<Rightarrow> rotatingWriter \<Rightarrow> bool" where
  "shrinks w w' \<longleftrightarrow> rw_path w' = rw_path w \<and> rw_maxBytes w' = rw_maxBytes w \<and> rw_backups w' = rw_backups w \<and> rw_file w' = rw_file w \<and>
     gm_get (rw_volume w') \<subseteq>\<^sub>m gm_get (rw_volume w)"

lemma shrinks_trans: "shrinks w w1 \<Longrightarrow> shrinks w1 w2 \<Longrightarrow> shrinks w w2"
  by (auto simp: shrinks_def intro: map_le_trans)

lemma shrinks_reclaimed: "shrinks w w' \<Longrightarrow> reclaimed w p \<Longrightarrow> reclaimed w' p"
  by (auto simp: shrinks_def reclaimed_def map_le_def dom_def)

lemma reclaimLegacyBackup_step:
  assumes "reclaimLegacyBackup env p w = (w', e)"
  shows "shrinks w w'" "e = [] \<Longrightarrow> reclaimed w' p"
proof -
  have del: "gm_get (gm_del p v) \<subseteq>\<^sub>m gm_get v" for p :: string and v :: "(string, string) gomap"
    by (auto simp: map_le_def split: if_splits)
  show "shrinks w w'"
    using assms del by (auto simp: reclaimLegacyBackup_def os_stat_def os_remove_def on_file_def sys_def shrinks_def
        split: option.splits if_splits)
  show "e = [] \<Longrightarrow> reclaimed w' p"
    using assms by (auto simp: reclaimLegacyBackup_def os_stat_def os_remove_def on_file_def sys_def reclaimed_def fatal_def file_length_def
        split: option.splits if_splits)
qed

lemma reclaim_all_step:
  "reclaim_all env ps w = (w', []) \<Longrightarrow> shrinks w w' \<and> (\<forall>p \<in> set ps. reclaimed w' p)"
proof (induction ps arbitrary: w)
  case (Cons p ps)
  obtain w1 e1 where 1: "reclaimLegacyBackup env p w = (w1, e1)"
    by fastforce
  with Cons.prems have rest: "e1 = []" "reclaim_all env ps w1 = (w', [])"
    by (auto split: if_splits)
  have 2: "shrinks w1 w'" "\<forall>p \<in> set ps. reclaimed w' p"
    using Cons.IH [OF rest(2)] by simp_all
  have "reclaimed w' p"
    using shrinks_reclaimed [OF 2(1)] reclaimLegacyBackup_step(2) [OF 1 rest(1)] .
  then show ?case
    using shrinks_trans [OF reclaimLegacyBackup_step(1) [OF 1] 2(1)] 2(2) by simp
qed (simp add: shrinks_def)

lemma backup_index:
  assumes "i < 2 ^ 63"
  shows "atoi (trim_prefix (rw_path w @ ''.'') (backupPath w i)) = Some (int i)"
proof -
  have "trim_prefix (rw_path w @ ''.'') (backupPath w i) = itoa (int i)"
    by (simp add: backupPath_def trim_prefix_def itoa_def)
  then show ?thesis
    using assms atoi_itoa [of "int i"] by simp
qed

lemma backupPath_inj [simp]: "backupPath w i = backupPath w j \<longleftrightarrow> i = j"
  by (metis backupPath_def digits_value_nat_to_string same_append_eq)

lemma backup_listed: "gm_get (rw_volume w) (backupPath w i) \<noteq> None \<Longrightarrow> backupPath w i \<in> set (backup_matches w)"
  using nat_to_string_digits [of i] gm_keys_get [of "backupPath w i" "rw_volume w"]
  by (auto simp: backup_matches_def backupPath_def list_all_iff is_digit_def)

lemma newRotatingWriter_bounded:
  assumes "newRotatingWriter env path maxBytes backups volume = (w, [])" "backups < 2 ^ 63"
  shows "bounded (nat maxBytes) w" "consistent w" "rw_path w = path" "rw_maxBytes w = nat maxBytes" "rw_backups w = nat backups" "1 \<le> backups"
proof -
  define w0 where "w0 = \<lparr>rw_path = path, rw_maxBytes = nat maxBytes, rw_backups = nat backups, rw_file = False, rw_size = 0,
    rw_retryAt = zero_time, rw_volume = volume, rw_calls = 0\<rparr>"
  obtain w1 where 1: "reclaim_all env (backup_matches w0) w0 = (w1, [])" and b: "1 \<le> backups" "1 \<le> maxBytes" and
      "\<exists>w2. truncateOversizedLegacyLog env w1 = (w2, []) \<and> open_active env w2 = (w, [])"
    using assms(1) unfolding newRotatingWriter_def w0_def [symmetric] reclaimLegacyLogs_def
    by (auto simp: Let_def split: if_splits prod.splits)
  then obtain w2 where 2: "truncateOversizedLegacyLog env w1 = (w2, [])" and 3: "open_active env w2 = (w, [])"
    by blast
  have w1: "shrinks w0 w1" "\<And>p. p \<in> set (backup_matches w0) \<Longrightarrow> reclaimed w1 p"
    using reclaim_all_step [OF 1] by auto
  have settings: "rw_path w1 = path" "rw_maxBytes w1 = nat maxBytes" "rw_backups w1 = nat backups" "\<not> rw_file w1"
    using w1(1) by (simp_all add: shrinks_def w0_def)
  have same: "rw_path w2 = path" "rw_maxBytes w2 = nat maxBytes" "rw_backups w2 = nat backups" "\<not> rw_file w2"
    using 2 settings by (auto simp: truncateOversizedLegacyLog_def os_stat_def os_truncate_def on_file_def sys_def split: option.splits if_splits)
  have kept_files: "int i \<le> backups \<and> length c \<le> nat maxBytes" if "1 \<le> i" "i < 2 ^ 63" "gm_get (rw_volume w2) (backupPath w2 i) = Some c" for i c
  proof -
    have old: "gm_get (rw_volume w1) (backupPath w1 i) = Some c"
      using 2 that(3) settings same by (auto simp: truncateOversizedLegacyLog_def os_stat_def os_truncate_def on_file_def sys_def
          backupPath_def split: option.splits if_splits)
    have "gm_get (rw_volume w0) (backupPath w0 i) \<noteq> None"
      using old w1(1) settings(1) by (force simp: shrinks_def map_le_def backupPath_def w0_def)
    then have "reclaimed w1 (backupPath w0 i)"
      using backup_listed w1(2) by blast
    then show ?thesis
      using old backup_index [OF that(2), of w1] that(1) settings b by (auto simp: reclaimed_def backupPath_def w0_def)
  qed
  have active: "length c \<le> nat maxBytes" if "gm_get (rw_volume w2) (rw_path w2) = Some c" for c
    using 2 that settings same by (auto simp: truncateOversizedLegacyLog_def os_stat_def os_truncate_def on_file_def sys_def file_length_def
        split: option.splits if_splits)
  have "kept w2 p \<and> length c \<le> nat maxBytes" if n: "numbered w2 p" and g: "gm_get (rw_volume w2) p = Some c" for p c
  proof (cases "p = rw_path w2")
    case True
    with active g show ?thesis
      by (simp add: kept_def)
  next
    case False
    then obtain i where i: "1 \<le> i" "i < 2 ^ 63" "p = backupPath w2 i"
      using n same(3) assms(2) b(1) by (fastforce simp: numbered_def kept_def le_nat_iff)
    with kept_files [OF i(1,2)] g kept_backup [OF i(1), of w2] same(3) show ?thesis
      by (simp add: le_nat_iff)
  qed
  then have "bounded (nat maxBytes) w2"
    unfolding bounded_def by blast
  then show "bounded (nat maxBytes) w" "consistent w" "rw_path w = path" "rw_maxBytes w = nat maxBytes" "rw_backups w = nat backups" "1 \<le> backups"
    using open_active_frame [OF 3 same(4), of "nat maxBytes"] same b by (auto simp: frame_def consistent_def)
qed

lemma copy_chunks_bounded:
  "copy_chunks env lines out w = (w', out', e) \<Longrightarrow> 1 \<le> rw_backups w \<Longrightarrow> consistent w \<Longrightarrow> bounded B w \<Longrightarrow> rw_maxBytes w \<le> B \<Longrightarrow>
   \<forall>line \<in> set lines. length line \<le> B \<Longrightarrow> frame B w w'"
proof (induction lines arbitrary: out w)
  case (Cons line lines)
  obtain w1 n e1 where 1: "Write env line w = (w1, n, e1)"
    by (metis prod_cases3)
  have w1: "frame B w w1" "consistent w1"
    using Write_frame [OF 1 Cons.prems(2,3,5)] Cons.prems(6) by auto
  have "frame B w w'" if "copy_chunks env lines (out @ line) w1 = (w', out', e)"
    using Cons.IH [OF that _ w1(2)] Cons.prems w1(1) frame_settings [OF w1(1)] frame_trans by auto
  then show ?case
    using Cons.prems(1) 1 w1(1) by (auto split: if_splits)
qed simp

text \<open>
  C29. The tee never fills a volume. Whatever fails, if the writer could be opened, its files after the run are
  the log and backups numbered up to the configured count, none of them longer than the configured size or the longest
  line, even when the directory held larger or more files before.
\<close>

theorem tee_bounded:
  assumes "newRotatingWriter env path maxBytes backups volume = (w0, [])" "backups < 2 ^ 63"
    "run env input readErr path maxBytes backups volume = (w, out, e)"
    "nat maxBytes \<le> B" "\<forall>line \<in> set (chunks [] input). length line \<le> B"
  shows "(gm_get (rw_volume w) path = Some c \<longrightarrow> length c \<le> B) \<and>
    (1 \<le> i \<and> i < 2 ^ 63 \<and> gm_get (rw_volume w) (path @ ''.'' @ nat_to_string i) = Some c \<longrightarrow> int i \<le> backups \<and> length c \<le> B)"
proof -
  note start = newRotatingWriter_bounded [OF assms(1,2)]
  obtain w1 out1 e1 where 1: "copy_chunks env (chunks [] input) [] w0 = (w1, out1, e1)"
    by (metis prod_cases3)
  obtain w2 e2 where 2: "close_log env w1 = (w2, e2)"
    by fastforce
  have "bounded B w0"
    using start(1) assms(4) by (fastforce simp: bounded_def)
  then have f: "frame B w0 w1"
    using copy_chunks_bounded [OF 1 _ start(2)] start assms(4,5) by auto
  have w: "w = w2"
    using assms(1,3) 1 2 by (simp add: run_def Let_def)
  have b: "frame B w0 w" "bounded B w"
    using f close_log_frame [OF 2] \<open>bounded B w0\<close> by (auto simp: w intro: frame_trans dest: frame_settings(6))
  have names: "rw_path w = path" "rw_backups w = nat backups"
    using frame_settings [OF b(1)] start by auto
  have backup: "path @ ''.'' @ nat_to_string i = backupPath w i" for i
    by (simp add: backupPath_def names)
  have "length c \<le> B" if "gm_get (rw_volume w) path = Some c"
    using b(2) that names(1) unfolding bounded_def numbered_def kept_def by blast
  moreover have "kept w (backupPath w i) \<and> length c \<le> B" if "1 \<le> i" "i < 2 ^ 63" "gm_get (rw_volume w) (backupPath w i) = Some c"
    using b(2) that unfolding bounded_def numbered_def by blast
  ultimately show ?thesis
    unfolding backup using path_not_backup(2) [of w i] start(6) by (auto simp: kept_def names)
qed

section \<open>A full volume does not stop the copy\<close>

definition only_full :: "tee_env \<Rightarrow> bool" where
  "only_full env \<longleftrightarrow> (\<forall>n f. tv_fail env n = Some f \<longrightarrow> f = No_Space)"

definition mild :: "os_errors \<Rightarrow> bool" where
  "mild e \<longleftrightarrow> e = [] \<or> is_full e"

lemma mild_simps [simp]: "mild []" "is_full e \<Longrightarrow> mild e" "is_full e \<Longrightarrow> mild (e @ r)"
  by (auto simp: mild_def is_full_def)

lemma mild_full: "mild e \<Longrightarrow> e \<noteq> [] \<Longrightarrow> is_full e"
  by (simp add: mild_def)

lemma sys_mild:
  assumes "only_full env" "sys env w = (w', e)"
  shows "mild e"
proof -
  have "tv_fail env (rw_calls w) \<in> {None, Some No_Space}"
    using assms(1) by (cases "tv_fail env (rw_calls w)") (simp_all add: only_full_def)
  then show ?thesis
    using assms(2) by (auto simp: sys_def mild_def is_full_def)
qed

lemma on_file_mild: "only_full env \<Longrightarrow> on_file env p f w = (w', e) \<Longrightarrow> fatal e \<Longrightarrow> mild e"
  by (auto simp: on_file_def fatal_def split: prod.splits option.splits if_splits dest: sys_mild)

lemma volume_mild:
  "only_full env \<Longrightarrow> os_remove env p w = (w', e) \<Longrightarrow> fatal e \<Longrightarrow> mild e"
  "only_full env \<Longrightarrow> os_rename env p q w = (w', e) \<Longrightarrow> fatal e \<Longrightarrow> mild e"
  "only_full env \<Longrightarrow> os_truncate env p w = (w', e) \<Longrightarrow> fatal e \<Longrightarrow> mild e"
  by (auto simp: os_remove_def os_rename_def os_truncate_def dest: on_file_mild)

lemma close_log_mild: "only_full env \<Longrightarrow> close_log env w = (w', e) \<Longrightarrow> mild e"
  by (auto simp: close_log_def split: prod.splits if_splits dest: sys_mild)

lemma open_active_mild: "only_full env \<Longrightarrow> open_active env w = (w', e) \<Longrightarrow> mild e"
  by (auto simp: open_active_def create_file_def split: prod.splits if_splits dest: sys_mild)

lemma shift_backups_mild: "only_full env \<Longrightarrow> shift_backups env i w = (w', e) \<Longrightarrow> mild e"
  by (induction i arbitrary: w) (auto dest: volume_mild split: prod.splits if_splits)

lemma remove_backups_mild: "only_full env \<Longrightarrow> remove_backups env is w = (w', e) \<Longrightarrow> mild e"
  by (induction "is" arbitrary: w) (auto dest: volume_mild split: prod.splits if_splits)

lemma rotate_log_mild: "only_full env \<Longrightarrow> rotate_log env w = (w', e) \<Longrightarrow> mild e"
  by (auto simp: rotate_log_def rotate_open_def Let_def split: prod.splits if_splits
      dest: close_log_mild shift_backups_mild volume_mild open_active_mild)

lemma emergencyReset_mild: "only_full env \<Longrightarrow> emergencyReset env w = (w', e) \<Longrightarrow> mild e"
  by (auto simp: emergencyReset_def split: prod.splits if_splits simp del: upt_Suc
      dest: close_log_mild remove_backups_mild volume_mild open_active_mild)

lemma handleStorageError_full:
  "mild e \<Longrightarrow> e \<noteq> [] \<Longrightarrow> handleStorageError env e w = (pauseForFullStorage env w, True, [])"
  by (simp add: handleStorageError_def mild_full)

lemma prepareForWrite_full:
  assumes "only_full env" "prepareForWrite env n w = (w', handled, e)"
  shows "handled \<or> e = []"
proof -
  have "handled \<or> e = []" if "prepare_rotation env n w1 = (w', handled, e)" for w1
    using that assms(1) by (auto simp: prepare_rotation_def handleStorageError_full dest: rotate_log_mild split: prod.splits if_splits)
  then show ?thesis
    using assms by (auto simp: prepareForWrite_def handleStorageError_full dest: emergencyReset_mild split: prod.splits if_splits)
qed

lemma append_file_full: "only_full env \<Longrightarrow> append_file env data w = (w', n, e) \<Longrightarrow> mild e \<and> (e = [] \<longrightarrow> n = length data)"
  by (auto simp: append_file_def Let_def dest: sys_mild split: prod.splits)

lemma retryAfterStorageFull_full:
  "only_full env \<Longrightarrow> retryAfterStorageFull env data n0 e0 w = (w', n, e) \<Longrightarrow> n = length data \<and> e = []"
  by (auto simp: retryAfterStorageFull_def Let_def handleStorageError_full split: prod.splits if_splits
      dest: emergencyReset_mild append_file_full)

lemma Write_full:
  assumes "only_full env" "Write env data w = (w', n, e)"
  shows "n = length data \<and> e = []"
proof -
  obtain w1 handled e1 where 1: "prepareForWrite env (length data) w = (w1, handled, e1)"
    by (metis prod_cases3)
  obtain w2 m e2 where 2: "append_file env data w1 = (w2, m, e2)"
    by (metis prod_cases3)
  show ?thesis
    using assms 1 2 prepareForWrite_full [OF assms(1) 1] append_file_full [OF assms(1) 2] retryAfterStorageFull_full [OF assms(1)]
    by (auto simp: Write_def writeData_def Let_def mild_def split: if_splits)
qed

lemma copy_chunks_full:
  "only_full env \<Longrightarrow> (\<forall>n. tv_out env n = []) \<Longrightarrow> \<exists>w'. copy_chunks env lines out w = (w', out @ concat lines, [])"
proof (induction lines arbitrary: out w)
  case (Cons line lines)
  obtain w1 n e where 1: "Write env line w = (w1, n, e)"
    by (metis prod_cases3)
  obtain w' where "copy_chunks env lines (out @ line) w1 = (w', (out @ line) @ concat lines, [])"
    using Cons by blast
  then show ?case
    using Cons.prems(2) 1 Write_full [OF Cons.prems(1) 1] by simp
qed simp

lemma chunks_concat: "concat (chunks acc s) = acc @ s"
  by (induction acc s rule: chunks.induct) auto


section \<open>The rotation on a sound volume\<close>

text \<open>The abstract log: its files, oldest first. A line goes to the last file, or to a new one when it would exceed the size.\<close>

definition write_segs :: "nat \<Rightarrow> nat \<Rightarrow> string \<Rightarrow> string list \<Rightarrow> string list" where
  "write_segs maxBytes backups data segs =
     (if last segs \<noteq> [] \<and> length (last segs) + length data > maxBytes
      then (if length segs = Suc backups then tl segs else segs) @ [data]
      else butlast segs @ [last segs @ data])"

text \<open>The files of the log on a volume, oldest first.\<close>

definition log_dir :: "string \<Rightarrow> (string \<Rightarrow> string option) \<Rightarrow> string list \<Rightarrow> bool" where
  "log_dir path g segs \<longleftrightarrow> segs \<noteq> [] \<and> g path = Some (last segs) \<and>
     (\<forall>i \<ge> 1. g (path @ ''.'' @ nat_to_string i) = (if i < length segs then Some (segs ! (length segs - 1 - i)) else None))"

definition tee_dir :: "rotatingWriter \<Rightarrow> string list \<Rightarrow> bool" where
  "tee_dir w segs \<longleftrightarrow> 1 \<le> rw_backups w \<and> length segs \<le> Suc (rw_backups w) \<and> rw_file w \<and> rw_size w = length (last segs) \<and>
     log_dir (rw_path w) (gm_get (rw_volume w)) segs"

lemma tee_dir_iff:
  "tee_dir w segs \<longleftrightarrow> 1 \<le> rw_backups w \<and> segs \<noteq> [] \<and> length segs \<le> Suc (rw_backups w) \<and> rw_file w \<and> rw_size w = length (last segs) \<and>
     gm_get (rw_volume w) (rw_path w) = Some (last segs) \<and>
     (\<forall>i \<ge> 1. gm_get (rw_volume w) (backupPath w i) = (if i < length segs then Some (segs ! (length segs - 1 - i)) else None))"
  by (auto simp: tee_dir_def log_dir_def backupPath_def)

definition sound :: "tee_env \<Rightarrow> bool" where
  "sound env \<longleftrightarrow> (\<forall>n. tv_fail env n = None)"

text \<open>Everything but the named files, the open file and the count of the calls stays.\<close>

definition same_rest :: "rotatingWriter \<Rightarrow> rotatingWriter \<Rightarrow> bool" where
  "same_rest w w' \<longleftrightarrow> rw_path w' = rw_path w \<and> rw_maxBytes w' = rw_maxBytes w \<and> rw_backups w' = rw_backups w \<and>
     (\<forall>p. p \<noteq> rw_path w \<and> (\<forall>i. p \<noteq> backupPath w i) \<longrightarrow> gm_get (rw_volume w') p = gm_get (rw_volume w) p)"

lemma same_rest_refl [simp]: "same_rest w w"
  by (simp add: same_rest_def)

lemma same_rest_names: "same_rest w w' \<Longrightarrow> rw_path w' = rw_path w" "same_rest w w' \<Longrightarrow> rw_maxBytes w' = rw_maxBytes w"
  "same_rest w w' \<Longrightarrow> rw_backups w' = rw_backups w" "same_rest w w' \<Longrightarrow> backupPath w' = backupPath w"
  by (simp_all add: same_rest_def backupPath_def fun_eq_iff)

lemma same_rest_trans: "same_rest w w1 \<Longrightarrow> same_rest w1 w2 \<Longrightarrow> same_rest w w2"
  using same_rest_names(4) [of w w1] by (simp add: same_rest_def)

lemma sys_sound: "sound env \<Longrightarrow> sys env w = (w\<lparr>rw_calls := Suc (rw_calls w)\<rparr>, [])"
  by (simp add: sys_def sound_def)

lemma rename_sound:
  assumes "sound env" "gm_get (rw_volume w) q = None" "p \<noteq> q" "p = rw_path w \<or> p = backupPath w i" "q = backupPath w j"
  shows "\<exists>w' e. os_rename env p q w = (w', e) \<and> \<not> fatal e \<and> rw_file w' = rw_file w \<and> same_rest w w' \<and>
    gm_get (rw_volume w') = (gm_get (rw_volume w))(p := None, q := gm_get (rw_volume w) p)"
  using assms by (auto simp: os_rename_def on_file_def sys_sound fatal_def same_rest_def fun_eq_iff split: option.splits)

lemma shift_sound:
  "sound env \<Longrightarrow> gm_get (rw_volume w) (backupPath w (Suc i)) = None \<Longrightarrow>
   \<exists>w'. shift_backups env i w = (w', []) \<and> rw_file w' = rw_file w \<and> same_rest w w' \<and>
     gm_get (rw_volume w') (rw_path w) = gm_get (rw_volume w) (rw_path w) \<and>
     (\<forall>j \<ge> 1. gm_get (rw_volume w') (backupPath w j) =
       (if j \<le> Suc i then if j = 1 then None else gm_get (rw_volume w) (backupPath w (j - 1)) else gm_get (rw_volume w) (backupPath w j)))"
proof (induction i arbitrary: w)
  case (Suc i)
  obtain w1 e1 where 1: "os_rename env (backupPath w (Suc i)) (backupPath w (Suc (Suc i))) w = (w1, e1)" "\<not> fatal e1"
      "rw_file w1 = rw_file w" "same_rest w w1"
      "gm_get (rw_volume w1) = (gm_get (rw_volume w))(backupPath w (Suc i) := None,
         backupPath w (Suc (Suc i)) := gm_get (rw_volume w) (backupPath w (Suc i)))"
    using rename_sound [OF Suc.prems, of "backupPath w (Suc i)" "Suc i" "Suc (Suc i)"] by auto
  have path: "backupPath w1 = backupPath w" "rw_path w1 = rw_path w"
    using 1(4) same_rest_names(4) by (auto simp: same_rest_def)
  have "gm_get (rw_volume w1) (backupPath w1 (Suc i)) = None"
    by (simp add: 1(5) path)
  from Suc.IH [OF Suc.prems(1) this] obtain w' where 2: "shift_backups env i w1 = (w', [])" "rw_file w' = rw_file w1" "same_rest w1 w'"
      "gm_get (rw_volume w') (rw_path w) = gm_get (rw_volume w1) (rw_path w)"
      "\<forall>j \<ge> 1. gm_get (rw_volume w') (backupPath w j) =
       (if j \<le> Suc i then if j = 1 then None else gm_get (rw_volume w1) (backupPath w (j - 1)) else gm_get (rw_volume w1) (backupPath w j))"
    unfolding path by blast
  have "gm_get (rw_volume w') (backupPath w j) =
      (if j \<le> Suc (Suc i) then if j = 1 then None else gm_get (rw_volume w) (backupPath w (j - 1)) else gm_get (rw_volume w) (backupPath w j))" if "1 \<le> j" for j
    using 2(5) [rule_format, OF that] that by (auto simp: 1(5) le_Suc_eq)
  moreover have "gm_get (rw_volume w') (rw_path w) = gm_get (rw_volume w) (rw_path w)"
    by (simp add: 2(4) 1(5))
  ultimately show ?case
    using 1 2 same_rest_trans by auto
qed auto

lemma open_sound:
  assumes "sound env"
  shows "\<exists>w'. open_active env w = (w', []) \<and> rw_file w' \<and> rw_size w' = active_length w \<and> same_rest w w' \<and>
    gm_get (rw_volume w') = (gm_get (rw_volume w))(rw_path w \<mapsto> (case gm_get (rw_volume w) (rw_path w) of None \<Rightarrow> [] | Some c \<Rightarrow> c))"
  by (auto simp: open_active_def create_file_def sys_sound [OF assms] same_rest_def file_length_def active_length_def fun_eq_iff
      split: option.splits)

lemma remove_sound:
  assumes "sound env"
  shows "\<exists>w' e. os_remove env (backupPath w i) w = (w', e) \<and> \<not> fatal e \<and> rw_file w' = rw_file w \<and> same_rest w w' \<and>
    gm_get (rw_volume w') = (gm_get (rw_volume w))(backupPath w i := None)"
  by (auto simp: os_remove_def on_file_def sys_sound [OF assms] fatal_def same_rest_def fun_eq_iff split: option.splits)

lemma rotate_volume:
  assumes "sound env" "1 \<le> rw_backups w" "rw_file w" "gm_get (rw_volume w) (rw_path w) = Some c"
    "gm_get (rw_volume w) (backupPath w (Suc (rw_backups w))) = None"
  shows "\<exists>w'. rotate_log env w = (w', []) \<and> same_rest w w' \<and> rw_file w' \<and> rw_size w' = 0 \<and> gm_get (rw_volume w') (rw_path w) = Some [] \<and>
    (\<forall>i \<ge> 1. gm_get (rw_volume w') (backupPath w i) =
      (if i = 1 then Some c else if i \<le> rw_backups w then gm_get (rw_volume w) (backupPath w (i - 1)) else gm_get (rw_volume w) (backupPath w i)))"
proof -
  let ?b = "rw_backups w" and ?g = "gm_get (rw_volume w)"
  define w1 where "w1 = w\<lparr>rw_calls := Suc (rw_calls w), rw_file := False\<rparr>"
  have 1: "close_log env w = (w1, [])"
    using assms by (simp add: close_log_def sys_sound w1_def)
  have s1: "same_rest w w1" "rw_volume w1 = rw_volume w" "\<not> rw_file w1" "rw_path w1 = rw_path w" "rw_backups w1 = ?b" "backupPath w1 = backupPath w"
    by (simp_all add: w1_def same_rest_def backupPath_def fun_eq_iff)
  obtain w2 e2 where 2: "os_remove env (backupPath w1 ?b) w1 = (w2, e2)" "\<not> rw_file w2" "same_rest w1 w2"
      "gm_get (rw_volume w2) = ?g(backupPath w ?b := None)"
    using remove_sound [OF assms(1), of w1 ?b] s1 by auto
  note s2 = same_rest_trans [OF s1(1) 2(3)]
  have "gm_get (rw_volume w2) (backupPath w2 (Suc (?b - 1))) = None"
    using assms(2) by (simp add: 2(4) same_rest_names [OF s2])
  from shift_sound [OF assms(1) this] obtain w3 where 3: "shift_backups env (?b - 1) w2 = (w3, [])" "\<not> rw_file w3" "same_rest w2 w3"
      "gm_get (rw_volume w3) (rw_path w) = Some c"
      "\<And>j. 1 \<le> j \<Longrightarrow> gm_get (rw_volume w3) (backupPath w j) =
       (if j \<le> ?b then if j = 1 then None else gm_get (rw_volume w2) (backupPath w (j - 1)) else gm_get (rw_volume w2) (backupPath w j))"
    using assms(2,4) by (auto simp: 2(2,4) same_rest_names [OF s2])
  note s3 = same_rest_trans [OF s2 3(3)]
  have "gm_get (rw_volume w3) (backupPath w3 1) = None"
    using 3(5) [of 1] assms(2) by (simp add: same_rest_names [OF s3])
  from rename_sound [OF assms(1) this, of "rw_path w3" 1 1] obtain w4 e4 where 4: "os_rename env (rw_path w3) (backupPath w3 1) w3 = (w4, e4)" "\<not> fatal e4"
      "\<not> rw_file w4" "same_rest w3 w4" "gm_get (rw_volume w4) = (gm_get (rw_volume w3))(rw_path w := None, backupPath w 1 \<mapsto> c)"
    by (auto simp: 3(2,4) same_rest_names [OF s3])
  note s4 = same_rest_trans [OF s3 4(4)]
  obtain w5 where 5: "open_active env w4 = (w5, [])" "rw_file w5" "rw_size w5 = 0" "same_rest w4 w5"
      "gm_get (rw_volume w5) = (gm_get (rw_volume w4))(rw_path w \<mapsto> [])"
    using open_sound [OF assms(1), of w4] by (auto simp: 4(5) same_rest_names [OF s4] active_length_def file_length_def)
  have "rotate_log env w = (w5, [])"
    using 1 2(1) 3(1) 4(1,2) 5(1) s1 by (simp add: rotate_log_def rotate_open_def Let_def same_rest_names [OF s2])
  moreover have "gm_get (rw_volume w5) (backupPath w i) = (if i = 1 then Some c else if i \<le> ?b then ?g (backupPath w (i - 1)) else ?g (backupPath w i))"
    if "1 \<le> i" for i
    using 3(5) [OF that] that by (auto simp: 5(5) 4(5) 2(4))
  ultimately show ?thesis
    using 5 same_rest_trans [OF s4 5(4)] by auto
qed

lemma rotate_sound:
  assumes "sound env" "tee_dir w segs"
  shows "\<exists>w'. rotate_log env w = (w', []) \<and> same_rest w w' \<and>
    tee_dir w' ((if length segs = Suc (rw_backups w) then tl segs else segs) @ [[]])"
proof -
  let ?b = "rw_backups w" and ?g = "gm_get (rw_volume w)"
  let ?segs = "(if length segs = Suc ?b then tl segs else segs) @ [[]]"
  have d: "1 \<le> ?b" "segs \<noteq> []" "length segs \<le> Suc ?b" "?g (rw_path w) = Some (last segs)" "rw_file w"
      "\<And>i. 1 \<le> i \<Longrightarrow> ?g (backupPath w i) = (if i < length segs then Some (segs ! (length segs - 1 - i)) else None)"
    using assms(2) by (simp_all add: tee_dir_iff)
  have "?g (backupPath w (Suc ?b)) = None"
    using d(3) by (simp add: d(6))
  from rotate_volume [OF assms(1) d(1,5,4) this] obtain w' where r: "rotate_log env w = (w', [])" "same_rest w w'" "rw_file w'" "rw_size w' = 0"
      "gm_get (rw_volume w') (rw_path w) = Some []"
      "\<And>i. 1 \<le> i \<Longrightarrow> gm_get (rw_volume w') (backupPath w i) =
        (if i = 1 then Some (last segs) else if i \<le> ?b then ?g (backupPath w (i - 1)) else ?g (backupPath w i))"
    by blast
  have more: "tl segs \<noteq> []" if "length segs = Suc ?b"
    using d(1) that by (cases segs) auto
  have "gm_get (rw_volume w') (backupPath w i) = (if i < length ?segs then Some (?segs ! (length ?segs - 1 - i)) else None)" if i: "1 \<le> i" for i
  proof (cases "i = 1")
    case True
    with r(6) [of 1] d(1-3) more show ?thesis
      by (auto simp: nth_append nth_tl last_conv_nth)
  next
    case False
    with i d(1-3) d(6) [of i] d(6) [of "i - 1"] r(6) [OF i] show ?thesis
      by (auto simp: nth_append nth_tl Suc_diff_le)
  qed
  then have "tee_dir w' ?segs"
    using d(1-3) r by (auto simp: tee_dir_iff same_rest_names [OF r(2)])
  with r(1,2) show ?thesis
    by blast
qed

lemma append_sound:
  assumes "sound env" "tee_dir w segs"
  shows "\<exists>w'. writeData env data w = (w', length data, []) \<and> same_rest w w' \<and> tee_dir w' (butlast segs @ [last segs @ data])"
proof -
  define w' where "w' = w\<lparr>rw_calls := Suc (rw_calls w), rw_volume := gm_put (rw_path w) (last segs @ data) (rw_volume w), rw_size := rw_size w + length data\<rparr>"
  have "writeData env data w = (w', length data, [])"
    using assms by (simp add: writeData_def append_file_def sys_sound Let_def is_full_def tee_dir_iff w'_def)
  moreover have "same_rest w w'"
    by (simp add: same_rest_def w'_def)
  moreover have "tee_dir w' (butlast segs @ [last segs @ data])"
    using assms(2) by (auto simp: tee_dir_iff w'_def backupPath_def nth_append nth_butlast)
  ultimately show ?thesis
    by blast
qed

lemma Write_sound:
  assumes "sound env" "tee_dir w segs"
  shows "\<exists>w'. Write env data w = (w', length data, []) \<and> same_rest w w' \<and> tee_dir w' (write_segs (rw_maxBytes w) (rw_backups w) data segs)"
proof (cases "last segs \<noteq> [] \<and> length (last segs) + length data > rw_maxBytes w")
  case True
  let ?segs = "(if length segs = Suc (rw_backups w) then tl segs else segs) @ [[]]"
  obtain w1 where 1: "rotate_log env w = (w1, [])" "same_rest w w1" "tee_dir w1 ?segs"
    using rotate_sound [OF assms] by blast
  obtain w2 where 2: "writeData env data w1 = (w2, length data, [])" "same_rest w1 w2" "tee_dir w2 (butlast ?segs @ [last ?segs @ data])"
    using append_sound [OF assms(1) 1(3)] by blast
  have "Write env data w = (w2, length data, [])"
    using assms(2) True 1(1) 2(1) by (simp add: Write_def prepareForWrite_def prepare_rotation_def tee_dir_iff)
  then show ?thesis
    using True 2 same_rest_trans [OF 1(2)] by (auto simp: write_segs_def)
next
  case False
  have "Write env data w = writeData env data w"
    using assms(2) False by (auto simp: Write_def prepareForWrite_def prepare_rotation_def tee_dir_iff)
  then show ?thesis
    using append_sound [OF assms] False by (auto simp: write_segs_def)
qed

lemma copy_sound:
  assumes "sound env" "\<forall>n. tv_out env n = []"
  shows "tee_dir w segs \<Longrightarrow> \<exists>w'. copy_chunks env lines out w = (w', out @ concat lines, []) \<and> same_rest w w' \<and>
    tee_dir w' (foldl (\<lambda>s l. write_segs (rw_maxBytes w) (rw_backups w) l s) segs lines)"
proof (induction lines arbitrary: out w segs)
  case (Cons line lines)
  obtain w1 where 1: "Write env line w = (w1, length line, [])" "same_rest w w1"
      "tee_dir w1 (write_segs (rw_maxBytes w) (rw_backups w) line segs)"
    using Write_sound [OF assms(1) Cons.prems] by blast
  from Cons.IH [OF 1(3), of "out @ line"] obtain w' where "copy_chunks env lines (out @ line) w1 = (w', (out @ line) @ concat lines, [])"
      "same_rest w1 w'" "tee_dir w' (foldl (\<lambda>s l. write_segs (rw_maxBytes w) (rw_backups w) l s) (write_segs (rw_maxBytes w) (rw_backups w) line segs) lines)"
    unfolding same_rest_names [OF 1(2)] by blast
  then show ?case
    using 1 assms(2) same_rest_trans [OF 1(2)] by auto
qed auto

text \<open>The files hold whole lines: the last ones of the input, and more than the configured size once some are given up.\<close>

definition recent :: "nat \<Rightarrow> string list \<Rightarrow> string list \<Rightarrow> bool" where
  "recent maxBytes lines segs \<longleftrightarrow> (\<exists>groups dropped. segs = map concat groups \<and> lines = dropped @ concat groups \<and> groups \<noteq> [] \<and>
     (dropped \<noteq> [] \<longrightarrow> 2 \<le> length segs) \<and> (2 \<le> length segs \<longrightarrow> length (last (butlast segs)) + length (last segs) > maxBytes))"

lemma write_recent:
  assumes "recent maxBytes lines segs" "1 \<le> backups"
  shows "recent maxBytes (lines @ [line]) (write_segs maxBytes backups line segs)"
proof -
  obtain groups dropped where g: "segs = map concat groups" "lines = dropped @ concat groups" "groups \<noteq> []" "dropped \<noteq> [] \<longrightarrow> 2 \<le> length segs"
      "2 \<le> length segs \<longrightarrow> length (last (butlast segs)) + length (last segs) > maxBytes"
    using assms(1) unfolding recent_def by (elim exE conjE)
  show ?thesis
  proof (cases "last segs \<noteq> [] \<and> length (last segs) + length line > maxBytes")
    case rotated: True
    define gs where "gs = (if length segs = Suc backups then tl groups else groups)"
    have "write_segs maxBytes backups line segs = map concat (gs @ [[line]])"
      using rotated by (simp add: write_segs_def gs_def g(1) map_tl)
    moreover have "tl groups \<noteq> []" if "length segs = Suc backups"
      using that g(1) assms(2) by (cases groups) auto
    then have "gs \<noteq> []" "last gs = last groups"
      using g(3) by (auto simp: gs_def last_tl)
    moreover have "\<exists>dropped'. lines @ [line] = dropped' @ concat (gs @ [[line]])"
      using g(2,3) by (cases groups) (auto simp: gs_def)
    ultimately show ?thesis
      using rotated g(1,3) unfolding recent_def by (auto simp: last_map Suc_le_eq intro!: exI [of _ "gs @ [[line]]"])
  next
    case False
    let ?gs = "butlast groups @ [last groups @ [line]]"
    have w: "write_segs maxBytes backups line segs = map concat ?gs"
      using False g(3) by (auto simp: write_segs_def g(1) map_butlast last_map)
    have "lines @ [line] = dropped @ concat ?gs"
      using g(2,3) concat_append [of "butlast groups" "[last groups]"] by simp
    moreover have "butlast (map concat ?gs) = butlast segs" "length (last segs) \<le> length (last (map concat ?gs))"
      using g(1,3) by (simp_all add: map_butlast last_map butlast_append)
    ultimately show ?thesis
      unfolding recent_def w using g(1,3,4,5) by (intro exI [of _ ?gs] exI [of _ dropped]) auto
  qed
qed

lemma write_segs_length: "segs \<noteq> [] \<Longrightarrow> length segs \<le> Suc backups \<Longrightarrow> length (write_segs maxBytes backups line segs) \<le> Suc backups \<and> write_segs maxBytes backups line segs \<noteq> []"
  by (auto simp: write_segs_def)

lemma fold_recent:
  "recent maxBytes lines segs \<Longrightarrow> 1 \<le> backups \<Longrightarrow> recent maxBytes (lines @ ls) (foldl (\<lambda>s l. write_segs maxBytes backups l s) segs ls)"
proof (induction ls arbitrary: lines segs)
  case (Cons l ls)
  then show ?case
    using Cons.IH [OF write_recent [OF Cons.prems], of l] by simp
qed simp

lemma last_two_length:
  assumes "2 \<le> length segs"
  shows "length (last (butlast segs)) + length (last segs) \<le> length (concat segs)"
proof -
  obtain xs y z where "segs = xs @ [y, z]"
    using assms by (cases segs rule: rev_cases; cases "butlast segs" rule: rev_cases) auto
  then show ?thesis
    by (simp add: butlast_append)
qed

lemma concat_groups: "concat (map concat groups) = concat (concat groups)"
  by (induction groups) simp_all

lemma start_fresh:
  assumes "sound env" "path \<noteq> []" "1 \<le> maxBytes" "1 \<le> backups" "\<forall>p \<in> set (gm_keys volume). \<not> prefix path p"
  shows "\<exists>w. newRotatingWriter env path maxBytes backups volume = (w, []) \<and> tee_dir w [[]] \<and> rw_path w = path \<and>
    rw_maxBytes w = nat maxBytes \<and> rw_backups w = nat backups"
proof -
  define w0 where "w0 = \<lparr>rw_path = path, rw_maxBytes = nat maxBytes, rw_backups = nat backups, rw_file = False, rw_size = 0,
    rw_retryAt = zero_time, rw_volume = volume, rw_calls = 0\<rparr>"
  have missing: "gm_get volume (path @ x) = None" for x
  proof -
    have "path @ x \<notin> set (gm_keys volume)"
      using assms(5) by (metis prefixI)
    then show ?thesis
      using gm_keys_get [of "path @ x" volume] by blast
  qed
  have "filter (\<lambda>p. prefix (path @ ''.'') p \<and> CHR ''/'' \<notin> set (drop (length path) p)) (gm_keys volume) = []"
    using assms(5) by (auto simp: filter_empty_conv prefix_def)
  then have "backup_matches w0 = []"
    by (simp add: backup_matches_def w0_def)
  then have "reclaimLegacyLogs env w0 = (w0\<lparr>rw_calls := 1\<rparr>, [])"
    using missing [of "[]"] by (simp add: reclaimLegacyLogs_def truncateOversizedLegacyLog_def os_stat_def on_file_def sys_sound [OF assms(1)] w0_def)
  moreover obtain w where "open_active env (w0\<lparr>rw_calls := 1\<rparr>) = (w, [])" "rw_file w" "rw_size w = 0" "same_rest (w0\<lparr>rw_calls := 1\<rparr>) w"
      "gm_get (rw_volume w) = (gm_get volume)(path \<mapsto> [])"
    using open_sound [OF assms(1), of "w0\<lparr>rw_calls := 1\<rparr>"] missing [of "[]"] by (auto simp: w0_def active_length_def file_length_def)
  ultimately show ?thesis
    using assms missing same_rest_names [of "w0\<lparr>rw_calls := 1\<rparr>" w] unfolding newRotatingWriter_def w0_def [symmetric]
    by (simp add: Let_def tee_dir_def log_dir_def) (simp add: w0_def)
qed

text \<open>
  C31. The tee keeps the recent lines. On a sound volume without older files everything is copied and the log and
  its backups, oldest first, hold whole lines: all lines of the input, or its last ones, more than the configured
  size, after the oldest backup had to go.
\<close>

theorem tee_keeps_recent:
  assumes "sound env" "\<forall>n. tv_out env n = []" "path \<noteq> []" "1 \<le> maxBytes" "1 \<le> backups" "\<forall>p \<in> set (gm_keys volume). \<not> prefix path p"
  shows "\<exists>w groups dropped. run env input readErr path maxBytes backups volume = (w, input, readErr) \<and>
    chunks [] input = dropped @ concat groups \<and> log_dir path (gm_get (rw_volume w)) (map concat groups) \<and>
    (dropped = [] \<or> length (concat (concat groups)) > nat maxBytes)"
proof -
  let ?segs = "foldl (\<lambda>s l. write_segs (nat maxBytes) (nat backups) l s) [[]] (chunks [] input)"
  obtain w0 where 0: "newRotatingWriter env path maxBytes backups volume = (w0, [])" "tee_dir w0 [[]]" "rw_path w0 = path"
      "rw_maxBytes w0 = nat maxBytes" "rw_backups w0 = nat backups"
    using start_fresh [OF assms(1,3,4,5,6)] by blast
  obtain w1 where 1: "copy_chunks env (chunks [] input) [] w0 = (w1, input, [])" "same_rest w0 w1" "tee_dir w1 ?segs"
    using copy_sound [OF assms(1,2) 0(2), of "chunks [] input" "[]"] by (auto simp: 0 chunks_concat)
  have "recent (nat maxBytes) [] [[]]"
    unfolding recent_def by (intro exI [of _ "[[]]"] exI [of _ "[]"]) simp
  then have "recent (nat maxBytes) (chunks [] input) ?segs"
    using fold_recent [of _ "[]" "[[]]"] assms(5) by simp
  then obtain groups dropped where g: "?segs = map concat groups" "chunks [] input = dropped @ concat groups" "groups \<noteq> []"
      "dropped \<noteq> [] \<longrightarrow> 2 \<le> length ?segs" "2 \<le> length ?segs \<longrightarrow> length (last (butlast ?segs)) + length (last ?segs) > nat maxBytes"
    unfolding recent_def by (elim exE conjE)
  have "length (last (butlast ?segs)) + length (last ?segs) \<le> length (concat ?segs)" if "2 \<le> length ?segs"
    by (rule last_two_length [OF that])
  then have "dropped = [] \<or> length (concat (concat groups)) > nat maxBytes"
    using g by (auto simp: concat_groups)
  moreover have "run env input readErr path maxBytes backups volume = (w1\<lparr>rw_calls := Suc (rw_calls w1), rw_file := False\<rparr>, input, readErr)"
    using 0(1) 1 by (simp add: run_def close_log_def sys_sound [OF assms(1)] tee_dir_def)
  moreover have "log_dir path (gm_get (rw_volume (w1\<lparr>rw_calls := Suc (rw_calls w1), rw_file := False\<rparr>))) (map concat groups)"
    using 1(3) same_rest_names [OF 1(2)] by (simp add: tee_dir_def g(1) 0)
  ultimately show ?thesis
    using g(2) by blast
qed

section \<open>Examples\<close>

definition fine_volume :: tee_env where
  "fine_volume = \<lparr>tv_fail = (\<lambda>_. None), tv_short = (\<lambda>_. 0), tv_now = (\<lambda>_. 0), tv_out = (\<lambda>_. [])\<rparr>"

text \<open>The volume is full from the eighth system call on; a failing write stores three bytes.\<close>

definition full_volume :: tee_env where
  "full_volume = \<lparr>tv_fail = (\<lambda>n. if n < 8 then None else Some No_Space), tv_short = (\<lambda>_. 3), tv_now = (\<lambda>_. 0), tv_out = (\<lambda>_. [])\<rparr>"

definition four_lines :: string where
  "four_lines = ''1234567'' @ [newline] @ ''abcd'' @ [newline] @ ''uvwxy'' @ [newline] @ ''ABCDEF'' @ [newline]"

lemma four_chunks: "chunks [] four_lines = [''1234567'' @ [newline], ''abcd'' @ [newline], ''uvwxy'' @ [newline], ''ABCDEF'' @ [newline]]"
  by (simp add: four_lines_def)

definition legacy_volume :: "(string, string) gomap" where
  "legacy_volume = [(''q.1'', replicate 20 (CHR ''x'')), (''q.9'', ''old'')]"

lemma legacy_start: "\<exists>w0. newRotatingWriter full_volume ''q'' 10 2 legacy_volume = (w0, [])"
proof -
  have "snd (newRotatingWriter full_volume ''q'' 10 2 legacy_volume) = []"
    by code_simp
  then show ?thesis
    by (cases "newRotatingWriter full_volume ''q'' 10 2 legacy_volume") simp
qed


theorem tee_bounded_witness:
  "\<exists>w out e. run full_volume four_lines [] ''q'' 10 2 legacy_volume = (w, out, e) \<and>
     gm_get (rw_volume w) (''q'' @ ''.'' @ nat_to_string 9) = None"
proof -
  obtain w0 where start: "newRotatingWriter full_volume ''q'' 10 2 legacy_volume = (w0, [])"
    using legacy_start by blast
  obtain w out e where r: "run full_volume four_lines [] ''q'' 10 2 legacy_volume = (w, out, e)"
    by (metis prod_cases3)
  have "gm_get (rw_volume w) (''q'' @ ''.'' @ nat_to_string 9) \<noteq> Some c" for c
    using tee_bounded [OF start _ r, of 10 c 9] by (simp add: four_chunks)
  with r show ?thesis
    by (metis option.exhaust)
qed

theorem tee_keeps_recent_witness:
  "\<exists>w groups dropped. run fine_volume four_lines [] ''q'' 10 2 [(''other'', [])] = (w, four_lines, []) \<and>
     chunks [] four_lines = dropped @ concat groups \<and> log_dir ''q'' (gm_get (rw_volume w)) (map concat groups) \<and>
     (dropped = [] \<or> length (concat (concat groups)) > 10)"
  using tee_keeps_recent [of fine_volume "''q''" 10 2 "[(''other'', [])]" four_lines "[]"]
  by (simp add: sound_def fine_volume_def)

end
