(* ===== verification/Log_Pipeline.thy ===== *)
theory Log_Pipeline
  imports Query_Log Log_Tee
begin

text \<open>
  The query log between its two programs: \<^verbatim>\<open>cmd/faro-logtee\<close> writes and rotates the files (\<open>Log_Tee\<close>), \<^verbatim>\<open>internal/querylog\<close>
  follows them (\<open>Query_Log\<close>). The theory shows that a rotation between two polls loses and repeats nothing, as long as the
  follower is not left behind by all backups and the files of the log can be told apart by their first line.
\<close>

section \<open>The volume as the follower sees it\<close>

definition as_files :: "(string, string) gomap \<Rightarrow> log_files" where
  "as_files v = map (\<lambda>(p, c). (p, Some c)) v"

lemma open_as_files [simp]: "open_log (as_files v) p = gm_get v p"
proof -
  have "gm_get (as_files v) p = map_option Some (gm_get v p)"
    by (induction v) (auto simp: as_files_def)
  then show ?thesis
    by (cases "gm_get v p") (simp_all add: open_log_def)
qed

lemma keys_as_files [simp]: "gm_keys (as_files v) = gm_keys v"
  by (auto simp: as_files_def)

text \<open>No other name in the directory reads as the number of a backup.\<close>

definition plain_names :: "string \<Rightarrow> (string \<Rightarrow> string option) \<Rightarrow> bool" where
  "plain_names path g \<longleftrightarrow> (\<forall>p i. g p \<noteq> None \<and> prefix (path @ ''.'') p \<and> atoi (trim_prefix (path @ ''.'') p) = Some i \<and> 1 \<le> i \<longrightarrow> p = rotatedPath path (nat i))"

lemma atoi_nat_to_string: "atoi (nat_to_string n) = Some i \<Longrightarrow> i = int n"
  using digits_no_sign [OF nat_to_string_digits [of n]]
  by (auto simp: atoi_def Let_def nat_to_string_digits digits_value_nat_to_string split: if_splits)

lemma trim_rotatedPath [simp]: "trim_prefix (path @ ''.'') (rotatedPath path i) = nat_to_string i"
  by (simp add: trim_prefix_def rotatedPath_def)

lemma rotatedPath_inj [simp]: "rotatedPath path i = rotatedPath path j \<longleftrightarrow> i = j" "rotatedPath path i \<noteq> path"
  by (auto simp: rotatedPath_def) (metis digits_value_nat_to_string)

lemma log_dir_backup:
  "log_dir path g segs \<Longrightarrow> 1 \<le> i \<Longrightarrow> g (rotatedPath path i) = (if i < length segs then Some (segs ! (length segs - 1 - i)) else None)"
  by (simp add: log_dir_def rotatedPath_def)

text \<open>A file that has been rotated is found by its identity.\<close>

lemma findRotatedIndex_file:
  assumes "log_dir path (gm_get v) segs" "plain_names path (gm_get v)" "distinct (map (fileIdentity env) segs)"
    "j < length segs" "i = length segs - 1 - j" "1 \<le> i" "i < 2 ^ 63"
  shows "findRotatedIndex env (as_files v) path (fileIdentity env (segs ! j)) = i"
proof -
  let ?m = "rotated_match env (as_files v) path (fileIdentity env (segs ! j))"
  define ps where "ps = sort (filter (\<lambda>p. prefix (path @ ''.'') p \<and> CHR ''/'' \<notin> set (drop (length path) p)) (gm_keys v))"
  have ps: "p \<in> set ps \<longleftrightarrow> gm_get v p \<noteq> None \<and> prefix (path @ ''.'') p \<and> CHR ''/'' \<notin> set (drop (length path) p)" for p
    using gm_keys_get [of p v] by (auto simp: ps_def)
  have this_file: "gm_get v (rotatedPath path i) = Some (segs ! j)"
    using log_dir_backup [OF assms(1,6)] assms(4-6) by auto
  have only: "r = i" if listed: "p \<in> set ps" and match: "?m p = Some r" for p r
  proof -
    obtain k c where k: "atoi (trim_prefix (path @ ''.'') p) = Some k" "1 \<le> k" "gm_get v p = Some c" "fileIdentity env c = fileIdentity env (segs ! j)" "r = nat k"
      using match by (auto simp: rotated_match_def split: option.splits if_splits)
    have p: "p = rotatedPath path r"
      using assms(2) listed k unfolding plain_names_def ps by force
    have "1 \<le> r"
      using k by simp
    then have r: "r < length segs" "c = segs ! (length segs - 1 - r)"
      using log_dir_backup [OF assms(1), of r] k(3) p by (auto split: if_splits)
    then have "length segs - 1 - r = j"
      using nth_eq_iff_index_eq [OF assms(3), of "length segs - 1 - r" j] assms(4) k(4) by simp
    then show ?thesis
      using r assms(4,5) by simp
  qed
  have here: "rotatedPath path i \<in> set ps"
    using this_file nat_to_string_digits [of i] by (auto simp: ps rotatedPath_def list_all_iff is_digit_def)
  have match_i: "?m (rotatedPath path i) = Some i"
    using atoi_itoa [of "int i"] assms(6,7) this_file by (simp add: rotated_match_def itoa_def)
  define found where "found = List.map_filter ?m ps"
  have some: "i \<in> set found"
    using here match_i by (force simp: found_def List.map_filter_def)
  have eq: "r = i" if "r \<in> set found" for r
    using that only by (auto simp: found_def List.map_filter_def)
  have "findRotatedIndex env (as_files v) path (fileIdentity env (segs ! j)) = (case found of [] \<Rightarrow> 0 | i # _ \<Rightarrow> i)"
    by (simp add: findRotatedIndex_def ps_def found_def)
  then show ?thesis
    using some eq [of "hd found"] by (cases found) simp_all
qed

section \<open>What has been stored\<close>

text \<open>The text of the log before a position: what is no longer retained, whole files, and a part of one.\<close>

definition upto :: "string \<Rightarrow> string list \<Rightarrow> nat \<Rightarrow> nat \<Rightarrow> string" where
  "upto before segs j n = before @ concat (take j segs) @ take n (segs ! j)"

definition stored :: "ingest_env \<Rightarrow> string \<Rightarrow> archive \<Rightarrow> bool" where
  "stored e0 text a \<longleftrightarrow> history_view (ar_store a) = map entry_view (all_entries e0 (complete_lines [] text))"

definition saved_at :: "ingest_env \<Rightarrow> string \<Rightarrow> string list \<Rightarrow> archive \<Rightarrow> nat \<Rightarrow> nat \<Rightarrow> bool" where
  "saved_at e0 path segs a j n \<longleftrightarrow> j < length segs \<and> n \<le> length (segs ! j) \<and> whole_lines (take n (segs ! j)) \<and>
     gm_get (query_log_progress (ar_store a)) path = Some (fileIdentity e0 (segs ! j), int n)"

definition followed :: "ingest_env \<Rightarrow> string \<Rightarrow> string \<Rightarrow> string list \<Rightarrow> archive \<Rightarrow> bool" where
  "followed e0 path before segs a \<longleftrightarrow> (\<exists>j n. saved_at e0 path segs a j n \<and> stored e0 (upto before segs j n) a)"

definition line_files :: "string \<Rightarrow> string list \<Rightarrow> bool" where
  "line_files before segs \<longleftrightarrow> whole_lines before \<and> (\<forall>c \<in> set segs. whole_lines c \<and> c \<noteq> [])"

lemma whole_lines_Nil [simp]: "whole_lines []"
  by (simp add: whole_lines_def)

lemma whole_lines_concat: "\<forall>c \<in> set segs. whole_lines c \<Longrightarrow> whole_lines (concat segs)"
  by (induction segs) (simp_all add: whole_lines_append(2))

lemma whole_files:
  assumes "line_files before segs"
  shows "whole_lines (before @ concat (take j segs))"
  using assms whole_lines_concat [of "take j segs"] by (auto simp: line_files_def intro!: whole_lines_append(2) dest: in_set_takeD)

lemma upto_next: "j < length segs \<Longrightarrow> upto before segs j (length (segs ! j)) = before @ concat (take (Suc j) segs)"
  by (simp add: upto_def take_Suc_conv_app_nth)

lemma whole_lines_drop:
  assumes "whole_lines c" "whole_lines (take n c)"
  shows "whole_lines (drop n c)"
proof -
  have "complete_lines [] c = complete_lines [] (take n c) @ complete_lines [] (drop n c)"
    using complete_lines_append [of "take n c" "drop n c"] whole_lines_last [OF assms(2)] by simp
  then have "concat (complete_lines [] (take n c)) @ concat (complete_lines [] (drop n c)) = take n c @ drop n c"
    using assms(1) by (metis whole_lines_def append_take_drop_id concat_append)
  then show ?thesis
    using assms(2) by (metis whole_lines_def same_append_eq)
qed

text \<open>
  Reading one file from the position up to which its lines are stored, whatever fails: the store is ahead by some of its
  lines and says so, or nothing has changed; without an error the whole file is stored.
\<close>

lemma read_file:
  assumes "readOpenFile env path (segs ! j) n a = (a', position, err)" "same_parser env e0" "line_files before segs"
    "j < length segs" "n \<le> length (segs ! j)" "whole_lines (take n (segs ! j))" "stored e0 (upto before segs j n) a"
    "followed e0 path before segs a"
  shows "followed e0 path before segs a'"
    "err = None \<Longrightarrow> n < length (segs ! j) \<or> saved_at e0 path segs a j n \<Longrightarrow>
      saved_at e0 path segs a' j (length (segs ! j)) \<and> stored e0 (upto before segs j (length (segs ! j))) a'"
proof -
  let ?c = "segs ! j" and ?L = "complete_lines [] (drop n (segs ! j))"
  obtain k where k: "k \<le> length ?L"
      "query_log_progress (ar_store a') = (if take k ?L = [] then query_log_progress (ar_store a)
        else gm_put path (fileIdentity e0 ?c, int (n + length (concat (take k ?L)))) (query_log_progress (ar_store a)))"
      "history_view (ar_store a') = history_view (ar_store a) @ map entry_view (all_entries e0 (take k ?L))"
      "err = None \<longrightarrow> k = length ?L"
    using readOpenFile_log [OF assms(1,2)] unfolding Let_def by blast
  define m where "m = n + length (concat (take k ?L))"
  have "prefix (concat (take k ?L)) (drop n ?c)"
    using complete_lines_concat [of "drop n ?c"] by (metis append_take_drop_id concat_append prefix_def append.assoc)
  then have cut: "take m ?c = take n ?c @ concat (take k ?L)" "m \<le> length ?c"
    using take_prefix_drop assms(5) unfolding m_def by blast+
  have part: "whole_lines (concat (take k ?L))" "complete_lines [] (concat (take k ?L)) = take k ?L"
    using complete_lines_cut [of k "drop n ?c"] by (simp_all add: whole_lines_def)
  have whole: "whole_lines (take m ?c)"
    unfolding cut(1) by (rule whole_lines_append(2) [OF assms(6) part(1)])
  have "complete_lines [] (upto before segs j m) = complete_lines [] (upto before segs j n) @ take k ?L"
    using whole_lines_append(1) [of "upto before segs j n" "concat (take k ?L)"] part whole_files [OF assms(3), of j] assms(6)
      whole_lines_append(2) [of "before @ concat (take j segs)" "take n ?c"]
    by (simp add: upto_def cut(1))
  then have st: "stored e0 (upto before segs j m) a'"
    using assms(7) k(3) by (simp add: stored_def all_entries_append)
  have moved: "saved_at e0 path segs a' j m" if "take k ?L \<noteq> []"
    using that k(2) assms(4) cut(2) whole by (simp add: saved_at_def m_def)
  show "followed e0 path before segs a'"
  proof (cases "take k ?L = []")
    case True
    then have "query_log_progress (ar_store a') = query_log_progress (ar_store a)" "history_view (ar_store a') = history_view (ar_store a)"
      using k(2,3) by (simp_all add: all_entries_def del: take_eq_Nil take_eq_Nil2)
    with assms(8) show ?thesis
      by (simp add: followed_def saved_at_def stored_def)
  next
    case False
    with moved st show ?thesis
      unfolding followed_def by blast
  qed
  assume all: "err = None" "n < length ?c \<or> saved_at e0 path segs a j n"
  have "whole_lines ?c"
    using assms(3,4) by (simp add: line_files_def)
  then have "concat (take k ?L) = drop n ?c"
    using k(4) all(1) whole_lines_drop [OF _ assms(6)] by (simp add: whole_lines_def)
  then have m: "m = length ?c" and none: "take k ?L = [] \<Longrightarrow> n = length ?c"
    using assms(5) by (auto simp: m_def simp del: take_eq_Nil take_eq_Nil2)
  have "saved_at e0 path segs a' j (length ?c)"
  proof (cases "take k ?L = []")
    case True
    then have "query_log_progress (ar_store a') = query_log_progress (ar_store a)"
      using k(2) by (simp del: take_eq_Nil take_eq_Nil2)
    with all(2) none [OF True] show ?thesis
      by (simp add: saved_at_def)
  next
    case False
    with moved m show ?thesis
      by simp
  qed
  with st m show "saved_at e0 path segs a' j (length ?c) \<and> stored e0 (upto before segs j (length ?c)) a'"
    by simp
qed

definition done_with :: "ingest_env \<Rightarrow> string \<Rightarrow> string \<Rightarrow> string list \<Rightarrow> archive \<Rightarrow> nat \<Rightarrow> bool" where
  "done_with e0 path before segs a j \<longleftrightarrow>
     saved_at e0 path segs a j (length (segs ! j)) \<and> stored e0 (upto before segs j (length (segs ! j))) a"

lemma done_followed: "done_with e0 path before segs a j \<Longrightarrow> followed e0 path before segs a"
  by (auto simp: done_with_def followed_def)

text \<open>After a file is stored, the next one is read from its start.\<close>

lemma read_next_file:
  assumes "readOpenFile env path (segs ! Suc j) 0 a = (a', position, err)" "same_parser env e0" "line_files before segs"
    "Suc j < length segs" "done_with e0 path before segs a j"
  shows "followed e0 path before segs a' \<and> (err = None \<longrightarrow> done_with e0 path before segs a' (Suc j))"
proof -
  have "stored e0 (upto before segs (Suc j) 0) a"
    using assms(4,5) upto_next [of j segs before] by (simp add: done_with_def upto_def)
  moreover have "0 < length (segs ! Suc j)"
    using assms(3,4) by (auto simp: line_files_def)
  ultimately show ?thesis
    using read_file [OF assms(1-4) _ _ _ done_followed [OF assms(5)]] by (auto simp: done_with_def)
qed

lemma read_rotated_follows:
  assumes "log_dir path (gm_get v) segs" "same_parser env e0" "line_files before segs"
  shows "read_rotated env (as_files v) path i a = (a', err) \<Longrightarrow> Suc i < length segs \<Longrightarrow> done_with e0 path before segs a (length segs - 2 - i) \<Longrightarrow>
    followed e0 path before segs a' \<and> (err = None \<longrightarrow> done_with e0 path before segs a' (length segs - 2))"
proof (induction i arbitrary: a)
  case 0
  then show ?case
    using done_followed by auto
next
  case (Suc i)
  let ?j = "length segs - 2 - Suc i"
  have j: "Suc ?j = length segs - 2 - i" "length segs - 1 - Suc i = Suc ?j" "Suc ?j < length segs"
    using Suc.prems(2) by auto
  have found: "gm_get v (rotatedPath path (Suc i)) = Some (segs ! Suc ?j)"
    using log_dir_backup [OF assms(1), of "Suc i"] Suc.prems(2) j(2) by simp
  obtain a1 position e1 where 1: "readOpenFile env path (segs ! Suc ?j) 0 a = (a1, position, e1)"
    by (metis prod_cases3)
  note r = read_next_file [OF 1 assms(2,3) j(3) Suc.prems(3)]
  show ?case
  proof (cases e1)
    case None
    then have "read_rotated env (as_files v) path i a1 = (a', err)"
      using Suc.prems(1) found 1 by (simp add: readPath_def)
    then show ?thesis
      using Suc.IH [of a1] Suc.prems(2) r None j(1) by simp
  next
    case (Some e)
    then show ?thesis
      using Suc.prems(1) found 1 r by (auto simp: readPath_def)
  qed
qed

text \<open>The rest of a rotated file, the files after it and the current one.\<close>

lemma chain_follows:
  assumes "same_parser env e0" "line_files before segs" "log_dir path (gm_get v) segs"
    "saved_at e0 path segs a j n" "stored e0 (upto before segs j n) a"
    "readOpenFile env path (segs ! j) n a = (a1, p1, e1)"
    "read_rotated env (as_files v) path (length segs - 2 - j) a1 = (a2, e2)"
    "readOpenFile env path (segs ! (length segs - 1)) 0 a2 = (a3, p3, e3)"
    "Suc j < length segs" "(a', err) = (if e1 \<noteq> None then (a1, e1) else if e2 \<noteq> None then (a2, e2) else (a3, e3))"
  shows "followed e0 path before segs a' \<and> (err = None \<longrightarrow> done_with e0 path before segs a' (length segs - 1))"
proof -
  have jn: "j < length segs" "n \<le> length (segs ! j)" "whole_lines (take n (segs ! j))" "followed e0 path before segs a"
    using assms(4,5) by (auto simp: saved_at_def followed_def)
  have 1: "followed e0 path before segs a1" "e1 = None \<Longrightarrow> done_with e0 path before segs a1 j"
    using read_file [OF assms(6,1,2) jn(1-3) assms(5) jn(4)] assms(4) by (auto simp: done_with_def)
  have less: "Suc (length segs - 2 - j) < length segs" and reach: "length segs - 2 - (length segs - 2 - j) = j"
    using assms(9) by auto
  have 2: "followed e0 path before segs a2" "e2 = None \<Longrightarrow> done_with e0 path before segs a2 (length segs - 2)" if "e1 = None"
    using read_rotated_follows [OF assms(3,1,2,7) less] 1(2) [OF that] unfolding reach by simp_all
  have 3: "followed e0 path before segs a3 \<and> (e3 = None \<longrightarrow> done_with e0 path before segs a3 (length segs - 1))" if "e1 = None" "e2 = None"
    using read_next_file [of env path segs "length segs - 2" a2 a3 p3 e3 e0 before] assms(8,1,2,9) 2(2) [OF that]
    by (simp add: numeral_2_eq_2 Suc_diff_Suc)
  show ?thesis
    using assms(10) 1(1) 2(1) 3 by (auto split: if_splits)
qed

definition told_apart :: "ingest_env \<Rightarrow> string list \<Rightarrow> bool" where
  "told_apart e0 segs \<longleftrightarrow> distinct (map (fileIdentity e0) segs) \<and> [] \<notin> set (map (fileIdentity e0) segs)"

text \<open>A poll from a position in one of the files, in terms of the files.\<close>

definition poll_parts :: "ingest_env \<Rightarrow> (string, string) gomap \<Rightarrow> string \<Rightarrow> string list \<Rightarrow> nat \<Rightarrow> nat \<Rightarrow> archive \<Rightarrow> archive \<times> ingest_error option" where
  "poll_parts env v path segs j n a = (case readOpenFile env path (segs ! j) n a of
     (a1, _, e1) \<Rightarrow>
       if j = length segs - 1 \<or> e1 \<noteq> None then (a1, e1)
       else (case read_rotated env (as_files v) path (length segs - 2 - j) a1 of
         (a2, e2) \<Rightarrow>
           if e2 \<noteq> None then (a2, e2)
           else (case readOpenFile env path (segs ! (length segs - 1)) 0 a2 of (a3, _, e3) \<Rightarrow> (a3, e3))))"

lemma readAvailable_parts:
  assumes "readAvailable env (as_files v) path cursor a = (a', next_cursor, err)" "same_parser env e0"
    "log_dir path (gm_get v) segs" "plain_names path (gm_get v)" "told_apart e0 segs" "length segs \<le> 2 ^ 63" "saved_at e0 path segs a j n"
  shows "poll_parts env v path segs j n a = (a', err)"
proof -
  have jn: "j < length segs" "n \<le> length (segs ! j)" "saved_cursor path cursor (ar_store a) = \<lparr>lc_Identity = fileIdentity e0 (segs ! j), lc_Offset = n\<rparr>"
    using assms(7) by (simp_all add: saved_at_def saved_cursor_def)
  have id_env: "fileIdentity env = fileIdentity e0"
    using same_parser_simps(1) [OF assms(2)] by blast
  have told: "distinct (map (fileIdentity e0) segs)" "fileIdentity e0 (segs ! j) \<noteq> []"
    using assms(5) jn(1) by (simp_all add: told_apart_def) (metis image_eqI nth_mem)
  have current: "gm_get v path = Some (segs ! (length segs - 1))" "segs \<noteq> []"
    using assms(3) by (simp_all add: log_dir_def last_conv_nth)
  have same_id: "fileIdentity e0 (segs ! j) = fileIdentity e0 (segs ! (length segs - 1)) \<longleftrightarrow> j = length segs - 1"
    using nth_eq_iff_index_eq [OF told(1), of j "length segs - 1"] jn(1) current(2) by simp
  show ?thesis
  proof (cases "j = length segs - 1")
    case True
    then show ?thesis
      using assms(1) jn current(1) by (auto simp: poll_parts_def readAvailable_def read_current_def id_env split: prod.splits)
  next
    case False
    define i where "i = length segs - 1 - j"
    have i: "1 \<le> i" "i < 2 ^ 63" "i < length segs" "length segs - 1 - i = j" "i - 1 = length segs - 2 - j"
      using False jn(1) assms(6) by (auto simp: i_def)
    have index: "findRotatedIndex env (as_files v) path (fileIdentity e0 (segs ! j)) = i"
      using findRotatedIndex_file [OF assms(3,4) _ jn(1) i_def i(1,2), of env] told(1) by (simp add: id_env)
    have rotated: "gm_get v (rotatedPath path i) = Some (segs ! j)"
      using log_dir_backup [OF assms(3) i(1)] i(3,4) by simp
    show ?thesis
      using assms(1) jn(3) current(1) index rotated i(1) same_id False told(2) unfolding poll_parts_def i(5) [symmetric]
      by (auto simp: readAvailable_def read_current_def readPath_def id_env split: prod.splits option.splits if_splits)
  qed
qed

text \<open>A poll on rotated files, with whatever fails, keeps the history a prefix of the log; without an error it is all of it.\<close>

lemma poll_follows:
  assumes "readAvailable env (as_files v) path cursor a = (a', next_cursor, err)" "same_parser env e0" "line_files before segs"
    "log_dir path (gm_get v) segs" "plain_names path (gm_get v)" "told_apart e0 segs" "length segs \<le> 2 ^ 63"
    "followed e0 path before segs a"
  shows "followed e0 path before segs a' \<and> (err = None \<longrightarrow> done_with e0 path before segs a' (length segs - 1))"
proof -
  obtain j n where at: "saved_at e0 path segs a j n" and st: "stored e0 (upto before segs j n) a"
    using assms(8) by (auto simp: followed_def)
  then have jn: "j < length segs" "n \<le> length (segs ! j)" "whole_lines (take n (segs ! j))"
    by (simp_all add: saved_at_def)
  have parts: "poll_parts env v path segs j n a = (a', err)"
    by (rule readAvailable_parts [OF assms(1,2,4-7) at])
  obtain a1 p1 e1 where 1: "readOpenFile env path (segs ! j) n a = (a1, p1, e1)"
    by (metis prod_cases3)
  obtain a2 e2 where 2: "read_rotated env (as_files v) path (length segs - 2 - j) a1 = (a2, e2)"
    by fastforce
  obtain a3 p3 e3 where 3: "readOpenFile env path (segs ! (length segs - 1)) 0 a2 = (a3, p3, e3)"
    by (metis prod_cases3)
  show ?thesis
  proof (cases "j = length segs - 1")
    case True
    with parts 1 have "a1 = a'" "e1 = err"
      by (simp_all add: poll_parts_def)
    then show ?thesis
      using read_file [OF 1 assms(2,3) jn st assms(8)] at True by (auto simp: done_with_def)
  next
    case False
    then have "(a', err) = (if e1 \<noteq> None then (a1, e1) else if e2 \<noteq> None then (a2, e2) else (a3, e3))" "Suc j < length segs"
      using parts 1 2 3 jn(1) by (auto simp: poll_parts_def)
    then show ?thesis
      using chain_follows [OF assms(2,3,4) at st 1 2 3] by blast
  qed
qed

section \<open>A line is written\<close>

definition pipe_inv :: "ingest_env \<Rightarrow> string \<Rightarrow> string \<Rightarrow> string list \<Rightarrow> archive \<Rightarrow> bool" where
  "pipe_inv e0 path before segs a \<longleftrightarrow> line_files before segs \<and> (\<forall>c \<in> set segs. newline \<in> set (take 4096 c)) \<and> told_apart e0 segs \<and>
     followed e0 path before segs a"

definition log_line_ok :: "string \<Rightarrow> bool" where
  "log_line_ok line \<longleftrightarrow> complete_lines [] line = [line] \<and> length line \<le> 4096"

lemma log_line_facts:
  assumes "log_line_ok line"
  shows "whole_lines line" "line \<noteq> []" "newline \<in> set (take 4096 line)"
proof -
  show "whole_lines line" "line \<noteq> []"
    using assms by (auto simp: log_line_ok_def whole_lines_def)
  then have "last line = newline" "line \<noteq> []"
    using whole_lines_last by blast+
  then show "newline \<in> set (take 4096 line)"
    using assms last_in_set [of line] by (simp add: log_line_ok_def)
qed

lemma followed_grow_last:
  assumes "followed e0 path before (segs @ [c]) a" "newline \<in> set (take 4096 c)"
  shows "followed e0 path before (segs @ [c @ line]) a"
proof -
  obtain j n where "saved_at e0 path (segs @ [c]) a j n" "stored e0 (upto before (segs @ [c]) j n) a"
    using assms(1) by (auto simp: followed_def)
  then have "saved_at e0 path (segs @ [c @ line]) a j n" "stored e0 (upto before (segs @ [c @ line]) j n) a"
    using fileIdentity_grow [OF assms(2)] by (auto simp: saved_at_def upto_def nth_append less_Suc_eq split: if_splits)
  then show ?thesis
    by (auto simp: followed_def)
qed

lemma pipe_inv_grow:
  assumes "pipe_inv e0 path before (segs @ [c]) a" "log_line_ok line"
  shows "pipe_inv e0 path before (segs @ [c @ line]) a"
proof -
  have c: "newline \<in> set (take 4096 c)" "whole_lines c"
    using assms(1) by (simp_all add: pipe_inv_def line_files_def)
  then show ?thesis
    using assms followed_grow_last [OF _ c(1)] log_line_facts [OF assms(2)] fileIdentity_grow [OF c(1)]
    by (auto simp: pipe_inv_def line_files_def told_apart_def whole_lines_append(2))
qed

lemma pipe_inv_new_file:
  assumes "pipe_inv e0 path before segs a" "log_line_ok line" "fileIdentity e0 line \<noteq> []" "fileIdentity e0 line \<notin> fileIdentity e0 ` set segs"
  shows "pipe_inv e0 path before (segs @ [line]) a"
proof -
  obtain j n where "saved_at e0 path segs a j n" "stored e0 (upto before segs j n) a"
    using assms(1) by (auto simp: pipe_inv_def followed_def)
  then have "saved_at e0 path (segs @ [line]) a j n" "stored e0 (upto before (segs @ [line]) j n) a"
    by (auto simp: saved_at_def upto_def nth_append)
  then have "followed e0 path before (segs @ [line]) a"
    by (auto simp: followed_def)
  with assms log_line_facts [OF assms(2)] show ?thesis
    by (auto simp: pipe_inv_def line_files_def told_apart_def)
qed

lemma pipe_inv_drop:
  assumes "pipe_inv e0 path before (c # segs) a" "\<forall>n. gm_get (query_log_progress (ar_store a)) path \<noteq> Some (fileIdentity e0 c, n)"
  shows "pipe_inv e0 path (before @ c) segs a"
proof -
  obtain j n where j: "saved_at e0 path (c # segs) a j n" "stored e0 (upto before (c # segs) j n) a"
    using assms(1) by (auto simp: pipe_inv_def followed_def)
  then obtain i where "j = Suc i"
    using assms(2) by (cases j) (auto simp: saved_at_def)
  with j have "saved_at e0 path segs a i n" "stored e0 (upto (before @ c) segs i n) a"
    by (auto simp: saved_at_def upto_def)
  then have "followed e0 path (before @ c) segs a"
    by (auto simp: followed_def)
  with assms(1) show ?thesis
    by (auto simp: pipe_inv_def line_files_def told_apart_def whole_lines_append(2))
qed

text \<open>A line that starts a file must tell it apart, and the file that the rotation gives up must not hold the saved position.\<close>

definition rotation_safe :: "ingest_env \<Rightarrow> string \<Rightarrow> nat \<Rightarrow> nat \<Rightarrow> string \<Rightarrow> string list \<Rightarrow> archive \<Rightarrow> bool" where
  "rotation_safe e0 path maxBytes backups line segs a \<longleftrightarrow> (length (last segs) + length line > maxBytes \<longrightarrow>
     fileIdentity e0 line \<noteq> [] \<and> fileIdentity e0 line \<notin> fileIdentity e0 ` set segs \<and>
     (length segs = Suc backups \<longrightarrow> (\<forall>n. gm_get (query_log_progress (ar_store a)) path \<noteq> Some (fileIdentity e0 (hd segs), n))))"

lemma write_segs_inv:
  assumes "pipe_inv e0 path before segs a" "log_line_ok line" "rotation_safe e0 path maxBytes backups line segs a" "segs \<noteq> []"
  shows "\<exists>before'. pipe_inv e0 path before' (write_segs maxBytes backups line segs) a \<and>
    before' @ concat (write_segs maxBytes backups line segs) = before @ concat segs @ line"
proof (cases "last segs \<noteq> [] \<and> length (last segs) + length line > maxBytes")
  case rotates: True
  obtain c rest where segs: "segs = c # rest"
    using assms(4) by (cases segs) auto
  show ?thesis
  proof (cases "length segs = Suc backups")
    case True
    have "pipe_inv e0 path (before @ c) rest a"
      using assms(1,3) rotates True by (intro pipe_inv_drop) (simp_all add: segs rotation_safe_def)
    then have "pipe_inv e0 path (before @ c) (rest @ [line]) a"
      using assms(2,3) rotates by (intro pipe_inv_new_file) (auto simp: segs rotation_safe_def)
    then show ?thesis
      using rotates True by (auto simp: write_segs_def segs)
  next
    case False
    have "pipe_inv e0 path before (segs @ [line]) a"
      using assms(1-3) rotates by (intro pipe_inv_new_file) (auto simp: rotation_safe_def)
    then show ?thesis
      using rotates False by (auto simp: write_segs_def)
  qed
next
  case False
  have "pipe_inv e0 path before (butlast segs @ [last segs @ line]) a"
    using pipe_inv_grow [of e0 path before "butlast segs" "last segs"] assms(1,2,4) by simp
  moreover have "concat segs = concat (butlast segs) @ last segs"
    using append_butlast_last_id [OF assms(4)] concat_append [of "butlast segs" "[last segs]"] by simp
  moreover have "write_segs maxBytes backups line segs = butlast segs @ [last segs @ line]"
    unfolding write_segs_def if_not_P [OF False] ..
  ultimately show ?thesis
    by auto
qed

section \<open>The interface between writer and follower\<close>

text \<open>
  What the follower relies on: the files of the writer are those of an abstract log, and a write is a write to that log.
\<close>

locale log_source =
  fixes volume :: "'w \<Rightarrow> (string, string) gomap"
    and holds :: "'w \<Rightarrow> string list \<Rightarrow> bool"
    and writes :: "'w \<Rightarrow> string \<Rightarrow> 'w \<Rightarrow> bool"
    and path :: string
    and maxBytes backups :: nat
  assumes holds_dir: "holds w segs \<Longrightarrow> log_dir path (gm_get (volume w)) segs"
    and holds_plain: "holds w segs \<Longrightarrow> plain_names path (gm_get (volume w))"
    and holds_length: "holds w segs \<Longrightarrow> length segs \<le> 2 ^ 63"
    and writes_holds: "holds w segs \<Longrightarrow> writes w line w' \<Longrightarrow> holds w' (write_segs maxBytes backups line segs)"
begin

definition in_step :: "ingest_env \<Rightarrow> string \<times> 'w \<times> archive \<Rightarrow> bool" where
  "in_step e0 = (\<lambda>(text, w, a). \<exists>before segs. holds w segs \<and> text = before @ concat segs \<and> pipe_inv e0 path before segs a)"

lemma write_in_step:
  assumes "in_step e0 (text, w, a)" "writes w line w'" "log_line_ok line"
    "\<And>segs. holds w segs \<Longrightarrow> rotation_safe e0 path maxBytes backups line segs a"
  shows "in_step e0 (text @ line, w', a)"
proof -
  obtain before segs where s: "holds w segs" "text = before @ concat segs" "pipe_inv e0 path before segs a"
    using assms(1) by (auto simp: in_step_def)
  have "segs \<noteq> []"
    using holds_dir [OF s(1)] by (simp add: log_dir_def)
  then obtain before' where "pipe_inv e0 path before' (write_segs maxBytes backups line segs) a"
      "text @ line = before' @ concat (write_segs maxBytes backups line segs)"
    using write_segs_inv [OF s(3) assms(3) assms(4) [OF s(1)]] s(2) by auto
  with writes_holds [OF s(1) assms(2)] show ?thesis
    unfolding in_step_def prod.case by blast
qed

lemma poll_in_step:
  assumes "in_step e0 (text, w, a)" "same_parser env e0" "readAvailable env (as_files (volume w)) path cursor a = (a', next_cursor, err)"
  shows "in_step e0 (text, w, a')" "err = None \<Longrightarrow> stored e0 text a'"
proof -
  obtain before segs where s: "holds w segs" "text = before @ concat segs" "pipe_inv e0 path before segs a"
    using assms(1) by (auto simp: in_step_def)
  have p: "followed e0 path before segs a' \<and> (err = None \<longrightarrow> done_with e0 path before segs a' (length segs - 1))"
    using poll_follows [OF assms(3,2) _ holds_dir [OF s(1)] holds_plain [OF s(1)]] s(3) holds_length [OF s(1)]
    by (simp add: pipe_inv_def)
  then show "in_step e0 (text, w, a')"
    using s by (auto simp: in_step_def pipe_inv_def)
  assume "err = None"
  moreover have "segs \<noteq> []"
    using holds_dir [OF s(1)] by (simp add: log_dir_def)
  ultimately show "stored e0 text a'"
    using p upto_next [of "length segs - 1" segs before] by (simp add: done_with_def s(2))
qed

lemma other_in_step: "in_step e0 (text, w, a) \<Longrightarrow> same_log (ar_store a) (ar_store a') \<Longrightarrow> in_step e0 (text, w, a')"
  by (fastforce simp: in_step_def pipe_inv_def followed_def saved_at_def stored_def same_log_def)

lemma in_step_prefix:
  assumes "in_step e0 (text, w, a)"
  shows "\<exists>consumed rest. text = consumed @ rest \<and> whole_lines consumed \<and> stored e0 consumed a"
proof -
  obtain before segs j n where s: "text = before @ concat segs" "line_files before segs" "saved_at e0 path segs a j n" "stored e0 (upto before segs j n) a"
    using assms by (auto simp: in_step_def pipe_inv_def followed_def)
  have "segs = take j segs @ (segs ! j) # drop (Suc j) segs"
    using s(3) by (simp add: saved_at_def id_take_nth_drop)
  then have "concat segs = concat (take j segs) @ segs ! j @ concat (drop (Suc j) segs)"
    by (metis concat.simps(2) concat_append)
  then have "text = upto before segs j n @ drop n (segs ! j) @ concat (drop (Suc j) segs)"
    unfolding s(1) upto_def by (metis append.assoc append_take_drop_id)
  moreover have "whole_lines (upto before segs j n)"
    using whole_lines_append(2) [OF whole_files [OF s(2), of j]] s(3) by (simp add: upto_def saved_at_def)
  ultimately show ?thesis
    using s(4) by blast
qed

end

section \<open>The tee is such a source\<close>

definition tee_holds :: "string \<Rightarrow> nat \<Rightarrow> nat \<Rightarrow> rotatingWriter \<Rightarrow> string list \<Rightarrow> bool" where
  "tee_holds path maxBytes backups w segs \<longleftrightarrow> backups < 2 ^ 63 \<and> rw_path w = path \<and> rw_maxBytes w = maxBytes \<and> rw_backups w = backups \<and>
     tee_dir w segs \<and> plain_names path (gm_get (rw_volume w))"

definition tee_writes :: "rotatingWriter \<Rightarrow> string \<Rightarrow> rotatingWriter \<Rightarrow> bool" where
  "tee_writes w line w' \<longleftrightarrow> (\<exists>env n e. sound env \<and> Write env line w = (w', n, e))"

lemma plain_names_rest:
  assumes "same_rest w w'" "plain_names (rw_path w) (gm_get (rw_volume w))"
  shows "plain_names (rw_path w) (gm_get (rw_volume w'))"
  unfolding plain_names_def
proof (intro allI impI)
  fix p i
  assume p: "gm_get (rw_volume w') p \<noteq> None \<and> prefix (rw_path w @ ''.'') p \<and> atoi (trim_prefix (rw_path w @ ''.'') p) = Some i \<and> 1 \<le> i"
  show "p = rotatedPath (rw_path w) (nat i)"
  proof (cases "\<exists>j. p = backupPath w j")
    case True
    then obtain j where j: "p = rotatedPath (rw_path w) j"
      by (auto simp: backupPath_def rotatedPath_def)
    with p atoi_nat_to_string [of j i] show ?thesis
      by simp
  next
    case False
    moreover have "p \<noteq> rw_path w"
      using p by (auto simp: prefix_def)
    ultimately have "gm_get (rw_volume w) p \<noteq> None"
      using assms(1) p unfolding same_rest_def by metis
    then show ?thesis
      using assms(2) p unfolding plain_names_def by blast
  qed
qed

lemma tee_writes_holds:
  assumes "tee_holds path maxBytes backups w segs" "tee_writes w line w'"
  shows "tee_holds path maxBytes backups w' (write_segs maxBytes backups line segs)"
proof -
  obtain env n e where w: "sound env" "Write env line w = (w', n, e)"
    using assms(2) by (auto simp: tee_writes_def)
  have "same_rest w w' \<and> tee_dir w' (write_segs maxBytes backups line segs)"
    using Write_sound [OF w(1), of w segs line] assms(1) w(2) by (auto simp: tee_holds_def)
  then show ?thesis
    using assms(1) same_rest_names [of w w'] plain_names_rest [of w w'] by (auto simp: tee_holds_def)
qed

lemma tee_holds_facts:
  assumes "tee_holds path maxBytes backups w segs"
  shows "log_dir path (gm_get (rw_volume w)) segs" "plain_names path (gm_get (rw_volume w))" "length segs \<le> 2 ^ 63"
  using assms by (auto simp: tee_holds_def tee_dir_def)

interpretation tee: log_source rw_volume "tee_holds path maxBytes backups" tee_writes path maxBytes backups for path maxBytes backups
  by unfold_locales (blast intro: tee_holds_facts tee_writes_holds)+

section \<open>Writing, polling and restarting\<close>

text \<open>
  Tee and follower run side by side on a sound volume: complete lines of at most 4096 bytes are written, polls run with any
  failures of the database and from any cursor in memory, and other code writes to the database. A write that rotates
  starts a file whose first line identifies it, and it does not give up the file of the saved position.
\<close>

inductive pipe_step :: "ingest_env \<Rightarrow> string \<times> rotatingWriter \<times> archive \<Rightarrow> string \<times> rotatingWriter \<times> archive \<Rightarrow> bool" for e0 where
  append: "sound env \<Longrightarrow> log_line_ok line \<Longrightarrow> log_dir (rw_path w) (gm_get (rw_volume w)) segs \<Longrightarrow>
    rotation_safe e0 (rw_path w) (rw_maxBytes w) (rw_backups w) line segs a \<Longrightarrow> Write env line w = (w', n, e) \<Longrightarrow>
    pipe_step e0 (text, w, a) (text @ line, w', a)"
| poll: "same_parser env e0 \<Longrightarrow> readAvailable env (as_files (rw_volume w)) (rw_path w) cursor a = (a', next_cursor, err) \<Longrightarrow>
    pipe_step e0 (text, w, a) (text, w, a')"
| other: "same_log (ar_store a) (ar_store a') \<Longrightarrow> pipe_step e0 (text, w, a) (text, w, a')"

text \<open>The files of a volume are determined.\<close>

lemma log_dir_unique:
  assumes "log_dir path g segs" "log_dir path g segs'"
  shows "segs' = segs"
proof -
  have len: "length s = (LEAST n. 1 \<le> n \<and> g (rotatedPath path n) = None)" if "log_dir path g s" for s
  proof (rule Least_equality [symmetric])
    show "1 \<le> length s \<and> g (rotatedPath path (length s)) = None"
      using that log_dir_backup [OF that, of "length s"] by (cases s) (auto simp: log_dir_def)
    show "length s \<le> n" if "1 \<le> n \<and> g (rotatedPath path n) = None" for n
      using that log_dir_backup [OF \<open>log_dir path g s\<close>, of n] by (auto split: if_splits)
  qed
  have l: "length segs' = length segs"
    using len [OF assms(1)] len [OF assms(2)] by simp
  have last: "last segs' = last segs" "segs \<noteq> []" "segs' \<noteq> []"
    using assms by (simp_all add: log_dir_def)
  show ?thesis
  proof (rule nth_equalityI [OF l])
    fix i
    assume "i < length segs'"
    then show "segs' ! i = segs ! i"
      using log_dir_backup [OF assms(1), of "length segs - 1 - i"] log_dir_backup [OF assms(2), of "length segs - 1 - i"] l last
      by (cases "i = length segs - 1") (auto simp: last_conv_nth)
  qed
qed

lemma pipe_step_in_step:
  assumes "pipe_step e0 st st'" "tee.in_step path maxBytes backups e0 st"
  shows "tee.in_step path maxBytes backups e0 st'"
  using assms(1)
proof (cases rule: pipe_step.cases)
  case (append env line w segs a w' n e t)
  obtain s where s: "tee_holds path maxBytes backups w s"
    using assms(2) by (auto simp: append tee.in_step_def)
  then have conf: "rw_path w = path" "rw_maxBytes w = maxBytes" "rw_backups w = backups"
    by (simp_all add: tee_holds_def)
  have "rotation_safe e0 path maxBytes backups line segs' a" if "tee_holds path maxBytes backups w segs'" for segs'
    using that log_dir_unique [OF tee_holds_facts(1) [OF that], of segs] append(5,6) by (simp add: conf)
  then show ?thesis
    using tee.write_in_step [of path maxBytes backups e0 t w a line w'] assms(2) append by (auto simp: tee_writes_def)
next
  case (poll env w cursor a a' next_cursor err t)
  then have "rw_path w = path"
    using assms(2) by (auto simp: tee.in_step_def tee_holds_def)
  then show ?thesis
    using tee.poll_in_step(1) assms(2) poll by blast
next
  case (other a a' t w)
  then show ?thesis
    using tee.other_in_step assms(2) by blast
qed

lemma pipe_reachable_in_step:
  "(pipe_step e0)\<^sup>*\<^sup>* st st' \<Longrightarrow> tee.in_step path maxBytes backups e0 st \<Longrightarrow> tee.in_step path maxBytes backups e0 st'"
  by (induction rule: rtranclp_induct) (auto intro: pipe_step_in_step)

text \<open>A log with one file, none of whose lines is stored.\<close>

definition pipe_start :: "ingest_env \<Rightarrow> string \<Rightarrow> rotatingWriter \<Rightarrow> archive \<Rightarrow> bool" where
  "pipe_start e0 content w a \<longleftrightarrow> tee_holds (rw_path w) (rw_maxBytes w) (rw_backups w) w [content] \<and> content \<noteq> [] \<and> whole_lines content \<and>
     newline \<in> set (take 4096 content) \<and> fileIdentity e0 content \<noteq> [] \<and> dns_queries (ar_store a) = [] \<and>
     gm_get (query_log_progress (ar_store a)) (rw_path w) = Some (fileIdentity e0 content, 0)"

lemma pipe_start_in_step:
  assumes "pipe_start e0 content w a"
  shows "tee.in_step (rw_path w) (rw_maxBytes w) (rw_backups w) e0 (content, w, a)"
proof -
  have "followed e0 (rw_path w) [] [content] a"
    unfolding followed_def using assms
    by (intro exI [of _ 0]) (simp add: pipe_start_def saved_at_def stored_def upto_def history_view_def all_entries_def)
  then have "pipe_inv e0 (rw_path w) [] [content] a"
    using assms by (auto simp: pipe_start_def pipe_inv_def line_files_def told_apart_def)
  then show ?thesis
    using assms unfolding tee.in_step_def pipe_start_def prod.case by (intro exI [of _ "[]"] exI [of _ "[content]"]) simp
qed


section \<open>A healthy poll over rotated files\<close>

definition ready :: "ingest_env \<Rightarrow> archive \<Rightarrow> bool" where
  "ready env a \<longleftrightarrow> schema_wf (ar_store a) \<and> ActivityStorageWriteAllowed (ig_now env (ar_calls a)) (ar_activity a)"

lemma read_ready:
  assumes "healthy_ingest env" "ready env a" "resolvable (all_entries env (complete_lines [] (drop n content)))"
  shows "\<exists>a' position. readOpenFile env path content n a = (a', position, None) \<and> ready env a'"
  using read_lines_ok [OF assms(1), of a "[]" "complete_lines [] (drop n content)"] assms(2,3) by (simp add: ready_def readOpenFile_def)

lemma read_rotated_ready:
  assumes "healthy_ingest env" "log_dir path (gm_get v) segs" "\<forall>c \<in> set segs. resolvable (all_entries env (complete_lines [] c))"
  shows "i < length segs \<Longrightarrow> ready env a \<Longrightarrow> \<exists>a'. read_rotated env (as_files v) path i a = (a', None) \<and> ready env a'"
proof (induction i arbitrary: a)
  case (Suc i)
  let ?c = "segs ! (length segs - 1 - Suc i)"
  have found: "gm_get v (rotatedPath path (Suc i)) = Some ?c" "?c \<in> set segs"
    using log_dir_backup [OF assms(2), of "Suc i"] Suc.prems(1) by simp_all
  obtain a1 position where "readOpenFile env path ?c 0 a = (a1, position, None)" "ready env a1"
    using read_ready [OF assms(1) Suc.prems(2), of 0 ?c path] assms(3) found(2) by auto
  then show ?case
    using Suc.IH [of a1] Suc.prems(1) found(1) by (simp add: readPath_def)
qed simp

lemma resolvable_rest:
  assumes "resolvable (all_entries env (complete_lines [] c))" "whole_lines (take n c)"
  shows "resolvable (all_entries env (complete_lines [] (drop n c)))"
proof -
  have "complete_lines [] c = complete_lines [] (take n c) @ complete_lines [] (drop n c)"
    using complete_lines_append [of "take n c" "drop n c"] whole_lines_last [OF assms(2)] by simp
  then show ?thesis
    using assms(1) by (simp add: all_entries_append resolvable_def)
qed

lemma poll_parts_ready:
  assumes "healthy_ingest env" "log_dir path (gm_get v) segs" "\<forall>c \<in> set segs. resolvable (all_entries env (complete_lines [] c))"
    "saved_at e0 path segs a j n" "ready env a" "poll_parts env v path segs j n a = (a', err)"
  shows "err = None"
proof -
  have j: "j < length segs" "whole_lines (take n (segs ! j))" "segs ! j \<in> set segs" "segs ! (length segs - 1) \<in> set segs" "length segs - 2 - j < length segs"
    using assms(4) by (auto simp: saved_at_def)
  obtain a1 p1 where 1: "readOpenFile env path (segs ! j) n a = (a1, p1, None)" "ready env a1"
    using read_ready [OF assms(1,5) resolvable_rest] assms(3) j(2,3) by blast
  obtain a2 where 2: "read_rotated env (as_files v) path (length segs - 2 - j) a1 = (a2, None)" "ready env a2"
    using read_rotated_ready [OF assms(1-3) j(5) 1(2)] by blast
  obtain a3 p3 where "readOpenFile env path (segs ! (length segs - 1)) 0 a2 = (a3, p3, None)"
    using read_ready [OF assms(1) 2(2), of 0 "segs ! (length segs - 1)" path] assms(3) j(4) by auto
  then show ?thesis
    using assms(6) 1(1) 2(1) by (auto simp: poll_parts_def split: if_splits)
qed

lemma whole_files_lines:
  "whole_lines before \<Longrightarrow> \<forall>c \<in> set segs. whole_lines c \<Longrightarrow>
   complete_lines [] (before @ concat segs) = complete_lines [] before @ concat (map (complete_lines []) segs)"
proof (induction segs arbitrary: before)
  case (Cons c segs)
  then show ?case
    using Cons.IH [of "before @ c"] whole_lines_append [of before c] by simp
qed simp


section \<open>Files with the same first line\<close>


section \<open>An example of a rotation\<close>

definition second_line :: string where
  "second_line = ''[INFO] FARO|10.0.0.8|AAAA|Example.org.|NOERROR|1.5ms|-'' @ [newline]"

definition tee_start :: rotatingWriter where
  "tee_start = \<lparr>rw_path = ''query.log'', rw_maxBytes = 64, rw_backups = 2, rw_file = True, rw_size = length faro_line, rw_retryAt = zero_time,
     rw_volume = [(''query.log'', faro_line)], rw_calls = 0\<rparr>"

lemma second_line_parts:
  "index_of ''FARO|'' second_line = Some 7"
  "split_on (CHR ''|'') (trim_space (drop 7 second_line)) = [''FARO'', ''10.0.0.8'', ''AAAA'', ''Example.org.'', ''NOERROR'', ''1.5ms'', ''-'']"
  "to_upper (trim_space ''AAAA'') = ''AAAA''"
  "trim_suffix ''.'' (to_lower (trim_space ''Example.org.'')) = ''example.org''"
  "complete_lines [] second_line = [second_line]" "length second_line \<le> 100" "length faro_line + length second_line > 64"
  "second_line \<noteq> faro_line"
  by code_simp+

lemma second_line_entry:
  "line_entries calm_ingest second_line = [\<lparr>le_clientIP = ''10.0.0.8'', le_queryType = ''AAAA'', le_domain = ''example.org'', le_rcode = ''NOERROR'',
     le_latency_us = 1500, le_upstream = [], le_observed = True\<rparr>]"
proof -
  have "parse_ip ''10.0.0.8'' = Some [0, 0, 0, 0, 0, 65535, 2560, 8]"
    by (simp add: net_eval)
  moreover have small: "\<not> maxSliceBytes < length second_line"
    using second_line_parts(6) by (simp add: maxSliceBytes_def)
  ultimately show ?thesis
    using small by (simp add: line_entries_def parseLine_def second_line_parts faro_line_parts) (simp add: calm_ingest_def faro_line_parts second_line_parts)
qed

lemma example_identities: "fileIdentity calm_ingest faro_line = faro_line" "fileIdentity calm_ingest second_line = second_line" "faro_line \<noteq> []" "second_line \<noteq> []"
proof -
  have "take 4096 second_line = second_line"
    using second_line_parts(6) by simp
  then show "fileIdentity calm_ingest second_line = second_line"
    unfolding fileIdentity_def by (simp add: second_line_parts) (simp add: second_line_def calm_ingest_def)
  show "fileIdentity calm_ingest faro_line = faro_line"
    by (rule log_start_facts)
qed (simp_all add: faro_line_def second_line_def)

lemma example_lines: "log_line_ok faro_line" "log_line_ok second_line"
  using faro_line_parts(8,9) second_line_parts(5,6) by (simp_all add: log_line_ok_def)

lemma example_start: "pipe_start calm_ingest faro_line tee_start log_start"
proof -
  have "log_dir ''query.log'' (gm_get [(''query.log'', faro_line)]) [faro_line]"
    by (simp add: log_dir_def)
  moreover have "plain_names ''query.log'' (gm_get [(''query.log'', faro_line)])"
    by (auto simp: plain_names_def prefix_def split: if_splits)
  ultimately have "tee_holds ''query.log'' 64 2 tee_start [faro_line]"
    by (simp add: tee_holds_def tee_dir_def tee_start_def)
  then show ?thesis
    using log_line_facts [OF example_lines(1)] log_start_facts(7,8) example_identities by (simp add: pipe_start_def tee_start_def)
qed

lemma example_rotation:
  "\<exists>w'. pipe_step calm_ingest (faro_line, tee_start, log_start) (faro_line @ second_line, w', log_start) \<and>
     log_dir ''query.log'' (gm_get (rw_volume w')) [faro_line, second_line]"
proof -
  have dir: "tee_dir tee_start [faro_line]" "rw_path tee_start = ''query.log''" "rw_maxBytes tee_start = 64" "rw_backups tee_start = 2"
    using example_start by (simp_all add: pipe_start_def tee_holds_def tee_start_def)
  have fine: "sound fine_volume"
    by (simp add: sound_def fine_volume_def)
  obtain w' where w: "Write fine_volume second_line tee_start = (w', length second_line, [])" "same_rest tee_start w'"
      "tee_dir w' (write_segs 64 2 second_line [faro_line])"
    using Write_sound [OF fine dir(1), of second_line] dir by auto
  have "rotation_safe calm_ingest ''query.log'' 64 2 second_line [faro_line] log_start"
    using example_identities second_line_parts(8) by (simp add: rotation_safe_def)
  then have "pipe_step calm_ingest (faro_line, tee_start, log_start) (faro_line @ second_line, w', log_start)"
    using pipe_step.append [OF fine example_lines(2) _ _ w(1), of "[faro_line]" calm_ingest log_start faro_line] dir by (simp add: tee_dir_def)
  moreover have "write_segs 64 2 second_line [faro_line] = [faro_line, second_line]"
    using second_line_parts(7) example_identities(3) by (simp add: write_segs_def)
  ultimately show ?thesis
    using w same_rest_names(1) [OF w(2)] dir(2) by (auto simp: tee_dir_def)
qed




end
