(* ===== verification/Config_Edit.thy ===== *)
theory Config_Edit
  imports Device_Identity
begin

text \<open>
  How the handlers of the API change the configuration (\<^verbatim>\<open>internal/api/handlers\<close>), and the handlers of the local DNS
  records (\<^verbatim>\<open>records.go\<close>). A handler checks its input, writes to the database, applies the database to CoreDNS
  and, when that fails, undoes what it wrote and applies again.

  Statements can fail as in \<^verbatim>\<open>Activity_Storage\<close>; a statement or transaction that a constraint of the schema refuses
  changes nothing (\<open>exec_checked\<close>). The configuration mutex makes a request one step. Applying is a function of the
  database and the world \<open>'w\<close>. A request body is its decoded value, or \<^const>\<open>None\<close> when it does not decode, and a reply
  keeps its status but not its text. \<open>ed_obs\<close> is the environment of an observed address, \<open>ed_reason\<close> the text of an error of
  applying, \<open>ed_json\<close> the JSON text of a string, \<open>ed_token\<close> a random token and \<open>ed_rowid\<close> what SQLite reports as the last
  inserted row when a statement inserted none. Tables are in the order of their rowid.
\<close>

section \<open>Statements under constraints\<close>

definition exec_checked :: "sqlite \<Rightarrow> (Store \<Rightarrow> (Store \<times> 'a) option) \<Rightarrow> 'a action" where
  "exec_checked q f a = (let a' = a\<lparr>ar_calls := Suc (ar_calls a)\<rparr> in
     case sq_fails q (ar_calls a) of
       Some e \<Rightarrow> (a', Inl e)
     | None \<Rightarrow> (case f (ar_store a) of
         None \<Rightarrow> (a', Inl (Sql_Error False ''constraint failed''))
       | Some (s', r) \<Rightarrow> (a'\<lparr>ar_store := s'\<rparr>, Inr r)))"

record edit_env =
  ed_sql :: sqlite
  ed_obs :: "nat \<Rightarrow> observation_env"
  ed_reason :: "nat \<Rightarrow> string"
  ed_json :: "string \<Rightarrow> string"
  ed_token :: "nat \<Rightarrow> string"
  ed_rowid :: "nat \<Rightarrow> int"

text \<open>\<^verbatim>\<open>CURRENT_TIMESTAMP\<close>.\<close>

definition now_stamp :: "edit_env \<Rightarrow> archive \<Rightarrow> string" where
  "now_stamp env a = format_datetime (clock (ed_sql env) a)"

text \<open>\<^verbatim>\<open>settingValue\<close>: a failing query reads as the empty text.\<close>

definition settingValue :: "sqlite \<Rightarrow> string \<Rightarrow> archive \<Rightarrow> archive \<times> string" where
  "settingValue q key a = (case query q (\<lambda>s. setting_value (settings s) key) a of
     (a', Inl e) \<Rightarrow> (a', [])
   | (a', Inr v) \<Rightarrow> (a', v))"

datatype reply = Created int | Test_Started string string | Accepted | Bad_Request | Not_Found | Conflict | Server_Error

definition is_success :: "reply \<Rightarrow> bool" where
  "is_success r \<longleftrightarrow> (case r of Created _ \<Rightarrow> True | Test_Started _ _ \<Rightarrow> True | Accepted \<Rightarrow> True | _ \<Rightarrow> False)"

type_synonym 'w applier = "Store \<Rightarrow> 'w \<Rightarrow> 'w \<times> bool"

section \<open>Apply or undo\<close>

definition apply_or_undo :: "'w applier \<Rightarrow> (archive \<Rightarrow> archive) \<Rightarrow> archive \<Rightarrow> 'w \<Rightarrow> (archive \<times> 'w) \<times> bool" where
  "apply_or_undo apply_fn undo a w = (case apply_fn (ar_store a) w of
     (w1, True) \<Rightarrow> ((a, w1), True)
   | (w1, False) \<Rightarrow> (let a' = undo a in ((a', fst (apply_fn (ar_store a') w1)), False)))"

text \<open>The course of most handlers after their checks: a statement or transaction, then apply or undo.\<close>

definition edit_and_apply :: "sqlite \<Rightarrow> 'w applier \<Rightarrow> (Store \<Rightarrow> (Store \<times> 'a) option) \<Rightarrow> ('a \<Rightarrow> Store \<Rightarrow> Store option) \<Rightarrow> ('a \<Rightarrow> reply) \<Rightarrow> reply \<Rightarrow>
    archive \<Rightarrow> 'w \<Rightarrow> (archive \<times> 'w) \<times> reply" where
  "edit_and_apply q apply_fn edit undo success refused a w = (case exec_checked q edit a of
     (a1, Inl e) \<Rightarrow> ((a1, w), refused)
   | (a1, Inr x) \<Rightarrow>
       (case apply_or_undo apply_fn (\<lambda>a. fst (exec_checked q (\<lambda>s. map_option (\<lambda>s. (s, ())) (undo x s)) a)) a1 w of
          (st', ok) \<Rightarrow> (st', if ok then success x else Server_Error)))"

text \<open>An edit whose undoing restores a part of the database.\<close>

locale reversible_edit =
  fixes view :: "Store \<Rightarrow> 'v"
    and valid :: "'k \<Rightarrow> Store \<Rightarrow> bool"
    and edit :: "'k \<Rightarrow> Store \<Rightarrow> (Store \<times> 'a) option"
    and undo :: "'k \<Rightarrow> Store \<Rightarrow> 'a \<Rightarrow> Store \<Rightarrow> Store option"
  assumes undo_edit: "valid k s \<Longrightarrow> edit k s = Some (s1, x) \<Longrightarrow> \<exists>s2. undo k s x s1 = Some s2 \<and> view s2 = view s"
begin

lemma failed_keeps_view:
  assumes "valid k (ar_store a)" "sq_fails q (Suc (ar_calls a)) = None"
    "edit_and_apply q apply_fn (edit k) (undo k (ar_store a)) success refused a w = ((a', w'), r)" "\<not> is_success r"
    "\<And>x. is_success (success x)"
  shows "view (ar_store a') = view (ar_store a)"
proof (cases "sq_fails q (ar_calls a) = None \<and> edit k (ar_store a) \<noteq> None")
  case True
  then obtain s1 x where e: "edit k (ar_store a) = Some (s1, x)"
    by auto
  obtain s2 where "undo k (ar_store a) x s1 = Some s2" "view s2 = view (ar_store a)"
    using undo_edit [OF assms(1) e] by blast
  with assms e True show ?thesis
    by (auto simp: edit_and_apply_def exec_checked_def apply_or_undo_def Let_def split: prod.splits bool.splits if_splits)
next
  case False
  with assms(3) show ?thesis
    by (auto simp: edit_and_apply_def exec_checked_def Let_def split: option.splits)
qed

end

section \<open>Events\<close>

text \<open>\<^verbatim>\<open>json.Marshal\<close> of a map, given its keys in order and the texts of its values. \<open>json_text\<close> quotes a text without escapes.\<close>

definition json_text :: "string \<Rightarrow> string" where
  "json_text t = dquote # t @ [dquote]"

definition json_object :: "(string \<times> string) list \<Rightarrow> string" where
  "json_object ps = ''{'' @ join '','' (map (\<lambda>(k, v). json_text k @ '':'' @ v) ps) @ ''}''"

definition insert_event :: "event \<Rightarrow> Store \<Rightarrow> Store" where
  "insert_event ev s = (bump ''events'' s)\<lparr>events := events s @ [ev\<lparr>ev_id := next_id ''events'' s\<rparr>]\<rparr>"

definition recordEvent :: "sqlite \<Rightarrow> event \<Rightarrow> archive \<Rightarrow> archive" where
  "recordEvent q ev a =
     (if \<not> ActivityStorageWriteAllowed (clock q a) (ar_activity a) then a
      else
        let ev' = ev\<lparr>ev_timestamp := format_rfc3339nano (clock q a),
          ev_severity := (if trim_space (ev_severity ev) = [] then ''info'' else trim_space (ev_severity ev)),
          ev_source := (if trim_space (ev_source ev) = [] then ''faro'' else trim_space (ev_source ev))\<rparr> in
        (case exec q (\<lambda>s. (insert_event ev' s, ())) a of
           (a', Inl e) \<Rightarrow> a'\<lparr>ar_activity := ReportActivityWriteFailure (clock q a') e\<rparr>
         | (a', Inr _) \<Rightarrow> a'\<lparr>ar_activity := ReportActivityWriteSuccess\<rparr>))"

section \<open>Local DNS records\<close>

record dnsRecordInput =
  ri_Hostname :: string
  ri_Type :: string
  ri_Value :: string
  ri_Description :: string

definition local_hostname :: "sqlite \<Rightarrow> string \<Rightarrow> archive \<Rightarrow> archive \<times> string" where
  "local_hostname q hostname a =
     (if CHR ''.'' \<in> set (trim_suffix ''.'' hostname) then (a, hostname)
      else
        let (a', value) = settingValue q ''local_domain_suffix'' a; suffix = trim_chars ''.'' (trim_space value) in
        (a', if suffix \<noteq> [] then trim_suffix ''.'' hostname @ ''.'' @ suffix else hostname))"

definition normalizeLocalRecord :: "sqlite \<Rightarrow> dnsRecordInput \<Rightarrow> archive \<Rightarrow> archive \<times> (record_error + string \<times> string \<times> string)" where
  "normalizeLocalRecord q input a =
     (let (a', hostname) = local_hostname q (trim_space (ri_Hostname input)) a in
      (a', NormalizeRecord hostname (ri_Type input) (ri_Value input)))"

definition record_key :: "dns_record \<Rightarrow> string \<times> string \<times> string" where
  "record_key r = (dr_hostname r, dr_type r, dr_value r)"

definition key_taken :: "int \<Rightarrow> string \<times> string \<times> string \<Rightarrow> Store \<Rightarrow> bool" where
  "key_taken i key s \<longleftrightarrow> list_ex (\<lambda>r. dr_id r \<noteq> i \<and> record_key r = key) (dns_records s)"

definition insert_record :: "string \<Rightarrow> string \<times> string \<times> string \<Rightarrow> string \<Rightarrow> Store \<Rightarrow> (Store \<times> int) option" where
  "insert_record stamp key description s =
     (let i = next_id ''dns_records'' s in
      if key_taken i key s then None
      else Some ((bump ''dns_records'' s)\<lparr>dns_records := dns_records s @
        [\<lparr>dr_id = i, dr_hostname = fst key, dr_type = fst (snd key), dr_value = snd (snd key), dr_description = description,
          dr_created_at = stamp, dr_updated_at = stamp\<rparr>]\<rparr>, i))"

definition update_record :: "string \<Rightarrow> int \<Rightarrow> string \<times> string \<times> string \<Rightarrow> string \<Rightarrow> Store \<Rightarrow> (Store \<times> unit) option" where
  "update_record stamp i key description s =
     (if list_ex (\<lambda>r. dr_id r = i) (dns_records s) \<and> key_taken i key s then None
      else Some (s\<lparr>dns_records := map (\<lambda>r. if dr_id r = i
        then r\<lparr>dr_hostname := fst key, dr_type := fst (snd key), dr_value := snd (snd key), dr_description := description, dr_updated_at := stamp\<rparr>
        else r) (dns_records s)\<rparr>, ()))"

definition delete_record :: "int \<Rightarrow> Store \<Rightarrow> Store" where
  "delete_record i s = s\<lparr>dns_records := filter (\<lambda>r. dr_id r \<noteq> i) (dns_records s)\<rparr>"

text \<open>\<^verbatim>\<open>INSERT ... ON CONFLICT(id) DO UPDATE\<close>; an inserted row takes its place in the order of the ids.\<close>

definition restoreDNSRecord :: "dns_record \<Rightarrow> Store \<Rightarrow> Store option" where
  "restoreDNSRecord r s =
     (if key_taken (dr_id r) (record_key r) s then None
      else Some (s\<lparr>dns_records := (if list_ex (\<lambda>x. dr_id x = dr_id r) (dns_records s)
        then map (\<lambda>x. if dr_id x = dr_id r then r else x) (dns_records s)
        else insort_key dr_id r (dns_records s))\<rparr>))"

definition readDNSRecord :: "int \<Rightarrow> Store \<Rightarrow> dns_record option" where
  "readDNSRecord i s = List.find (\<lambda>r. dr_id r = i) (dns_records s)"

definition createDNSRecord :: "edit_env \<Rightarrow> 'w applier \<Rightarrow> dnsRecordInput option \<Rightarrow> archive \<times> 'w \<Rightarrow> (archive \<times> 'w) \<times> reply" where
  "createDNSRecord env apply_fn body st = (case st of (a, w) \<Rightarrow>
     (case body of
        None \<Rightarrow> ((a, w), Bad_Request)
      | Some input \<Rightarrow>
          (case normalizeLocalRecord (ed_sql env) input a of
             (a1, Inl _) \<Rightarrow> ((a1, w), Bad_Request)
           | (a1, Inr key) \<Rightarrow>
               edit_and_apply (ed_sql env) apply_fn (insert_record (now_stamp env a1) key (trim_space (ri_Description input)))
                 (\<lambda>i s. Some (delete_record i s)) Created Server_Error a1 w)))"

definition updateDNSRecord :: "edit_env \<Rightarrow> 'w applier \<Rightarrow> int \<Rightarrow> dnsRecordInput option \<Rightarrow> archive \<times> 'w \<Rightarrow> (archive \<times> 'w) \<times> reply" where
  "updateDNSRecord env apply_fn i body st = (case st of (a, w) \<Rightarrow>
     (case body of
        None \<Rightarrow> ((a, w), Bad_Request)
      | Some input \<Rightarrow>
          (case normalizeLocalRecord (ed_sql env) input a of
             (a1, Inl _) \<Rightarrow> ((a1, w), Bad_Request)
           | (a1, Inr key) \<Rightarrow>
               (case query (ed_sql env) (readDNSRecord i) a1 of
                  (a2, Inr (Some previous)) \<Rightarrow>
                    edit_and_apply (ed_sql env) apply_fn (update_record (now_stamp env a2) i key (trim_space (ri_Description input)))
                      (\<lambda>_. restoreDNSRecord previous) (\<lambda>_. Accepted) Server_Error a2 w
                | (a2, _) \<Rightarrow> ((a2, w), Server_Error)))))"

definition deleteDNSRecord :: "edit_env \<Rightarrow> 'w applier \<Rightarrow> int \<Rightarrow> archive \<times> 'w \<Rightarrow> (archive \<times> 'w) \<times> reply" where
  "deleteDNSRecord env apply_fn i st = (case st of (a, w) \<Rightarrow>
     (case query (ed_sql env) (readDNSRecord i) a of
        (a1, Inr (Some previous)) \<Rightarrow>
          edit_and_apply (ed_sql env) apply_fn (\<lambda>s. Some (delete_record i s, ())) (\<lambda>_. restoreDNSRecord previous) (\<lambda>_. Accepted) Server_Error a1 w
      | (a1, _) \<Rightarrow> ((a1, w), Server_Error)))"

datatype record_request = Post_Record "dnsRecordInput option" | Put_Record int "dnsRecordInput option" | Delete_Record int

fun dnsRecords :: "edit_env \<Rightarrow> 'w applier \<Rightarrow> record_request \<Rightarrow> archive \<times> 'w \<Rightarrow> (archive \<times> 'w) \<times> reply" where
  "dnsRecords env apply_fn (Post_Record body) st = createDNSRecord env apply_fn body st"
| "dnsRecords env apply_fn (Put_Record i body) st = updateDNSRecord env apply_fn i body st"
| "dnsRecords env apply_fn (Delete_Record i) st = deleteDNSRecord env apply_fn i st"

section \<open>Undoing an edit of a record\<close>

definition records_wf :: "Store \<Rightarrow> bool" where
  "records_wf s \<longleftrightarrow> sorted (map dr_id (dns_records s)) \<and> distinct (map dr_id (dns_records s)) \<and>
     distinct (map record_key (dns_records s)) \<and> (\<forall>r \<in> set (dns_records s). dr_id r < next_id ''dns_records'' s)"

lemma readDNSRecord_Some: "readDNSRecord i s = Some r \<Longrightarrow> r \<in> set (dns_records s) \<and> dr_id r = i"
  unfolding readDNSRecord_def by (drule find_Some_in) simp

lemma map_replace_id:
  assumes "distinct (map f xs)" "x \<in> set xs" "f (g x) = f x"
  shows "map (\<lambda>y. if f y = f x then x else y) (map (\<lambda>y. if f y = f x then g y else y) xs) = xs"
proof -
  have only: "y = x" if "y \<in> set xs" "f y = f x" for y
    using assms(1,2) that by (auto simp: distinct_map dest: inj_onD)
  have "(if f (if f y = f x then g y else y) = f x then x else if f y = f x then g y else y) = y" if "y \<in> set xs" for y
    using only [OF that] assms(3) by (cases "f y = f x") auto
  then show ?thesis
    by (simp add: o_def map_idI)
qed

lemma insort_removed:
  "sorted (map f xs) \<Longrightarrow> distinct (map f xs) \<Longrightarrow> x \<in> set xs \<Longrightarrow> insort_key f x (filter (\<lambda>y. f y \<noteq> f x) xs) = xs"
proof (induction xs)
  case (Cons y ys)
  show ?case
  proof (cases "f y = f x")
    case True
    have "f y \<notin> f ` set ys"
      using Cons.prems(2) by simp
    with True have "\<forall>z \<in> set ys. f z \<noteq> f x"
      by (metis imageI)
    with Cons.prems(3) have "x = y" "\<forall>z \<in> set ys. f z \<noteq> f x"
      by auto
    then have "filter (\<lambda>z. f z \<noteq> f x) ys = ys"
      by simp
    moreover have "\<forall>z \<in> set ys. f x \<le> f z"
      using Cons.prems(1) True by auto
    ultimately show ?thesis
      using \<open>x = y\<close> by (cases ys) auto
  next
    case False
    then have "x \<in> set ys" "f y \<le> f x"
      using Cons.prems by auto
    with False Cons show ?thesis
      by (auto simp: not_le)
  qed
qed simp

lemma new_record_id: "records_wf s \<Longrightarrow> r \<in> set (dns_records s) \<Longrightarrow> dr_id r \<noteq> next_id ''dns_records'' s"
  by (force simp: records_wf_def)

interpretation new_record: reversible_edit dns_records "\<lambda>_. records_wf"
  "\<lambda>(stamp, key, description). insert_record stamp key description" "\<lambda>_ _ i s. Some (delete_record i s)"
  by unfold_locales
    (auto simp: insert_record_def delete_record_def bump_def Let_def filter_id_conv new_record_id split: if_splits)

definition record_exists :: "int \<Rightarrow> Store \<Rightarrow> bool" where
  "record_exists i s \<longleftrightarrow> records_wf s \<and> readDNSRecord i s \<noteq> None"

definition undo_record :: "int \<Rightarrow> Store \<Rightarrow> unit \<Rightarrow> Store \<Rightarrow> Store option" where
  "undo_record i s _ s1 = (case readDNSRecord i s of None \<Rightarrow> None | Some r \<Rightarrow> restoreDNSRecord r s1)"

lemma undo_update:
  assumes "records_wf s" "readDNSRecord i s = Some r" "update_record stamp i key description s = Some (s1, x)"
  shows "\<exists>s2. restoreDNSRecord r s1 = Some s2 \<and> dns_records s2 = dns_records s"
proof -
  have r: "r \<in> set (dns_records s)" "dr_id r = i"
    using readDNSRecord_Some [OF assms(2)] by simp_all
  let ?g = "\<lambda>y. y\<lparr>dr_hostname := fst key, dr_type := fst (snd key), dr_value := snd (snd key), dr_description := description, dr_updated_at := stamp\<rparr>"
  have s1: "dns_records s1 = map (\<lambda>y. if dr_id y = dr_id r then ?g y else y) (dns_records s)"
    using assms(3) by (auto simp: update_record_def r(2) split: if_splits)
  have "\<not> key_taken (dr_id r) (record_key r) s1"
    using assms(1) r(1) by (auto simp: key_taken_def s1 list_ex_iff records_wf_def distinct_map dest: inj_onD)
  moreover have "list_ex (\<lambda>x. dr_id x = dr_id r) (dns_records s1)"
    using r(1) by (force simp: s1 list_ex_length in_set_conv_nth)
  moreover have "map (\<lambda>x. if dr_id x = dr_id r then r else x) (dns_records s1) = dns_records s"
    unfolding s1 using assms(1) r(1) by (intro map_replace_id) (simp_all add: records_wf_def)
  ultimately show ?thesis
    by (simp add: restoreDNSRecord_def)
qed

lemma undo_delete:
  assumes "records_wf s" "readDNSRecord i s = Some r"
  shows "\<exists>s2. restoreDNSRecord r (delete_record i s) = Some s2 \<and> dns_records s2 = dns_records s"
proof -
  have r: "r \<in> set (dns_records s)" "dr_id r = i"
    using readDNSRecord_Some [OF assms(2)] by simp_all
  have "\<not> key_taken (dr_id r) (record_key r) (delete_record i s)"
    using assms(1) r(1) by (auto simp: key_taken_def delete_record_def list_ex_iff records_wf_def distinct_map dest: inj_onD)
  moreover have "\<not> list_ex (\<lambda>x. dr_id x = dr_id r) (dns_records (delete_record i s))"
    by (auto simp: delete_record_def list_ex_iff r(2))
  moreover have "insort_key dr_id r (dns_records (delete_record i s)) = dns_records s"
    using insort_removed [of dr_id "dns_records s" r] assms(1) r by (simp add: delete_record_def records_wf_def)
  ultimately show ?thesis
    by (simp add: restoreDNSRecord_def)
qed

interpretation changed_record: reversible_edit dns_records "\<lambda>(stamp, i, key, description). record_exists i"
  "\<lambda>(stamp, i, key, description). update_record stamp i key description" "\<lambda>(stamp, i, key, description). undo_record i"
  by unfold_locales (clarsimp simp: undo_record_def record_exists_def, erule (2) undo_update)

interpretation removed_record: reversible_edit dns_records record_exists "\<lambda>i s. Some (delete_record i s, ())" undo_record
  by unfold_locales (auto simp: undo_record_def record_exists_def intro: undo_delete)

lemma query_result: "query q f a = (a', r) \<Longrightarrow> ar_store a' = ar_store a \<and> ar_calls a' = Suc (ar_calls a) \<and> (\<forall>x. r = Inr x \<longrightarrow> x = f (ar_store a))"
  by (auto simp: query_def exec_def Let_def split: option.splits)

lemma undo_record_read: "readDNSRecord i s = Some r \<Longrightarrow> undo_record i s = (\<lambda>_. restoreDNSRecord r)"
  by (simp add: undo_record_def fun_eq_iff)

lemma settingValue_keeps: "settingValue q key a = (a', v) \<Longrightarrow> ar_store a' = ar_store a \<and> ar_calls a' = Suc (ar_calls a)"
  using query_result [of q "\<lambda>s. setting_value (settings s) key" a] by (auto simp: settingValue_def split: prod.splits sum.splits)

lemma normalizeLocalRecord_keeps:
  "normalizeLocalRecord q input a = (a', r) \<Longrightarrow> ar_store a' = ar_store a \<and> ar_calls a \<le> ar_calls a'"
  by (auto simp: normalizeLocalRecord_def local_hostname_def Let_def split: if_splits prod.splits dest!: settingValue_keeps)

lemma create_failed:
  assumes "records_wf (ar_store a)" "\<forall>n > ar_calls a. sq_fails (ed_sql env) n = None"
    "createDNSRecord env apply_fn body (a, w) = ((a', w'), r)" "\<not> is_success r"
  shows "dns_records (ar_store a') = dns_records (ar_store a)"
proof (cases body)
  case None
  with assms(3) show ?thesis
    by (auto simp: createDNSRecord_def)
next
  case (Some input)
  obtain a1 k where n: "normalizeLocalRecord (ed_sql env) input a = (a1, k)"
    by fastforce
  note f = normalizeLocalRecord_keeps [OF n]
  show ?thesis
  proof (cases k)
    case (Inl e)
    with assms(3) Some n f show ?thesis
      by (auto simp: createDNSRecord_def)
  next
    case (Inr key)
    with assms Some n f show ?thesis
      using new_record.failed_keeps_view [of a1 "ed_sql env" apply_fn "(now_stamp env a1, key, trim_space (ri_Description input))" Created Server_Error w a' w' r]
      by (simp add: createDNSRecord_def is_success_def)
  qed
qed

lemma delete_failed:
  assumes "records_wf (ar_store a)" "\<forall>n > ar_calls a. sq_fails (ed_sql env) n = None"
    "deleteDNSRecord env apply_fn i (a, w) = ((a', w'), r)" "\<not> is_success r"
  shows "dns_records (ar_store a') = dns_records (ar_store a)"
proof -
  obtain a1 r1 where q: "query (ed_sql env) (readDNSRecord i) a = (a1, r1)"
    by fastforce
  note f = query_result [OF q]
  show ?thesis
  proof (cases "\<exists>previous. r1 = Inr (Some previous)")
    case True
    then obtain previous where p: "r1 = Inr (Some previous)" "readDNSRecord i (ar_store a) = Some previous"
      using f by auto
    then show ?thesis
      using removed_record.failed_keeps_view [of i a1 "ed_sql env" apply_fn "\<lambda>_. Accepted" Server_Error w a' w' r] assms q f
      by (simp add: deleteDNSRecord_def is_success_def record_exists_def undo_record_read [OF p(2)])
  qed (use assms(3) q f in \<open>auto simp: deleteDNSRecord_def split: sum.splits option.splits\<close>)
qed

lemma update_failed:
  assumes "records_wf (ar_store a)" "\<forall>n > ar_calls a. sq_fails (ed_sql env) n = None"
    "updateDNSRecord env apply_fn i body (a, w) = ((a', w'), r)" "\<not> is_success r"
  shows "dns_records (ar_store a') = dns_records (ar_store a)"
proof (cases "\<exists>input a1 key. body = Some input \<and> normalizeLocalRecord (ed_sql env) input a = (a1, Inr key)")
  case True
  then obtain input a1 key where body: "body = Some input" "normalizeLocalRecord (ed_sql env) input a = (a1, Inr key)"
    by blast
  obtain a2 r1 where q: "query (ed_sql env) (readDNSRecord i) a1 = (a2, r1)"
    by fastforce
  note f = query_result [OF q] normalizeLocalRecord_keeps [OF body(2)]
  show ?thesis
  proof (cases "\<exists>previous. r1 = Inr (Some previous)")
    case True
    then obtain previous where p: "r1 = Inr (Some previous)" "readDNSRecord i (ar_store a) = Some previous"
      using f by auto
    then show ?thesis
      using changed_record.failed_keeps_view [of "(now_stamp env a2, i, key, trim_space (ri_Description input))" a2 "ed_sql env" apply_fn
          "\<lambda>_. Accepted" Server_Error w a' w' r] assms body q f
      by (simp add: updateDNSRecord_def is_success_def record_exists_def undo_record_read [OF p(2)])
  qed (use assms(3) body q f in \<open>auto simp: updateDNSRecord_def split: sum.splits option.splits\<close>)
qed (use assms(3) in \<open>auto simp: updateDNSRecord_def split: option.splits sum.splits prod.splits dest: normalizeLocalRecord_keeps\<close>)

text \<open>
  C22. An edit of the local records that is refused changes nothing. Whatever the reason of the refusal (a bad body or name,
  a record that exists already, a failing statement, or a configuration that CoreDNS rejects), the table of records is
  as before, provided the statements after the first one are executed.
\<close>

theorem refused_record_keeps_table:
  assumes "records_wf (ar_store a)" "\<forall>n > ar_calls a. sq_fails (ed_sql env) n = None"
    "dnsRecords env apply_fn request (a, w) = ((a', w'), r)" "\<not> is_success r"
  shows "dns_records (ar_store a') = dns_records (ar_store a)"
  using assms(3)
  by (cases request) (auto intro: create_failed [OF assms(1,2) _ assms(4)] update_failed [OF assms(1,2) _ assms(4)] delete_failed [OF assms(1,2) _ assms(4)])

section \<open>An example\<close>

definition calm_env :: edit_env where
  "calm_env = \<lparr>ed_sql = \<lparr>sq_host = plain_host, sq_fails = \<lambda>_. None, sq_affected = \<lambda>_. None, sq_now = \<lambda>_. 0, sq_pages = \<lambda>_. (0, 0, 0), sq_order = id\<rparr>,
     ed_obs = \<lambda>_. quiet_env, ed_reason = \<lambda>_. [], ed_json = \<lambda>t. dquote # t @ [dquote], ed_token = \<lambda>_. replicate 32 (CHR ''a''),
     ed_rowid = \<lambda>_. 0\<rparr>"

definition archive_of :: "Store \<Rightarrow> archive" where
  "archive_of s = \<lparr>ar_store = s, ar_activity = ReportActivityWriteSuccess, ar_calls = 0\<rparr>"

definition printer_store :: Store where
  "printer_store = demo_store\<lparr>dns_records := [\<lparr>dr_id = 1, dr_hostname = ''printer.lan'', dr_type = ''A'', dr_value = ''10.0.0.9'', dr_description = [],
     dr_created_at = ''2026-01-01 00:00:00'', dr_updated_at = ''2026-01-01 00:00:00''\<rparr>], sqlite_sequence := [(''dns_records'', 1)]\<rparr>"

theorem refused_record_keeps_table_witness:
  "\<exists>a' r. dnsRecords calm_env (\<lambda>s w. (Suc w, False)) (Delete_Record 1) (archive_of printer_store, 0) = ((a', 2), r) \<and> \<not> is_success r \<and>
     dns_records (ar_store a') = dns_records printer_store"
proof -
  obtain a' w' r where d: "dnsRecords calm_env (\<lambda>s w. (Suc w, False)) (Delete_Record 1) (archive_of printer_store, 0) = ((a', w'), r)"
    by (metis surj_pair)
  have e: "w' = 2" "r = Server_Error"
    using d by (auto simp: deleteDNSRecord_def edit_and_apply_def exec_checked_def apply_or_undo_def query_def exec_def calm_env_def archive_of_def
        readDNSRecord_def printer_store_def Let_def split: prod.splits)
  moreover have "records_wf (ar_store (archive_of printer_store))"
    by (simp add: records_wf_def archive_of_def printer_store_def next_id_def)
  moreover have "\<forall>n > ar_calls (archive_of printer_store). sq_fails (ed_sql calm_env) n = None"
    by (simp add: calm_env_def)
  ultimately show ?thesis
    using refused_record_keeps_table [OF _ _ d] d by (simp add: is_success_def archive_of_def)
qed

end
