(* ===== verification/Protection_Edit.thy ===== *)
theory Protection_Edit
  imports Config_Edit
begin

text \<open>
  The handlers of the protection profiles (\<^verbatim>\<open>internal/api/handlers/protections.go\<close>): creating, changing, deleting and pausing a
  profile, and moving a device to a profile. A profile owns rows of five tables; a device belongs to a profile through a
  membership, and its addresses may also be assigned to a profile themselves.

  A transaction is a function on the database that returns \<^const>\<open>None\<close> when a constraint of the schema refuses a
  statement. An error in the input is \<^const>\<open>None\<close> as well, because the handlers answer all of them with status 400. SQL leaves
  the order of an unsorted query open; here it is the order of the table, and no theorem depends on it.
\<close>

section \<open>The input\<close>

record protectionInput =
  pi_Name :: string
  pi_Icon :: string
  pi_BlocklistIDs :: "int list"
  pi_AllowDomains :: "string list"
  pi_BlockDomains :: "string list"
  pi_DeviceIPs :: "string list"
  pi_Schedule :: Schedule

record protectionSnapshot =
  ps_ID :: int
  ps_Name :: string
  ps_Icon :: string
  ps_IsDefault :: bool
  ps_CreatedAt :: string
  ps_UpdatedAt :: string
  ps_PausedUntil :: string
  ps_Input :: protectionInput

record deviceProtectionAssignment =
  dp_DeviceID :: int
  dp_ClientIP :: string
  dp_ProtectionID :: int

definition maxProtectionProfiles :: nat where
  "maxProtectionProfiles = 12"

definition protectionIcons :: "string list" where
  "protectionIcons = [''house'', ''users'', ''baby'', ''guest'', ''tv'', ''gamepad'', ''smartphone'', ''laptop'', ''briefcase'',
     ''lightbulb'', ''cpu'', ''shield'']"

text \<open>The number of runes of a text that the JSON decoder returned, which is valid UTF-8: its bytes that start a rune.\<close>

definition rune_count :: "string \<Rightarrow> nat" where
  "rune_count s = length (filter (\<lambda>c. \<not> (128 \<le> (of_char c :: nat) \<and> (of_char c :: nat) < 192)) s)"

definition uniqueInt64s :: "int list \<Rightarrow> int list" where
  "uniqueInt64s ids = sort_uniq (filter (\<lambda>i. 0 < i) ids)"

definition uniqueStrings :: "string list \<Rightarrow> string list" where
  "uniqueStrings texts = sort_uniq (filter (\<lambda>t. t \<noteq> []) (map trim_space texts))"

definition normalizeDomains :: "string list \<Rightarrow> string list option" where
  "normalizeDomains domains =
     (if length domains > 500 then None
      else (case rmap NormalizeDomain domains of Inl _ \<Rightarrow> None | Inr ds \<Rightarrow> Some (sort_uniq ds)))"

definition normalizeProtectionDomains :: "string list \<Rightarrow> string list \<Rightarrow> (string list \<times> string list) option" where
  "normalizeProtectionDomains allowed blocked =
     Option.bind (normalizeDomains allowed) (\<lambda>allowed.
     Option.bind (normalizeDomains blocked) (\<lambda>blocked.
       if list_ex (\<lambda>d. d \<in> set allowed) blocked then None else Some (allowed, blocked)))"

definition normalizeProtectionDevices :: "string list \<Rightarrow> string list option" where
  "normalizeProtectionDevices addresses =
     (if length addresses > 1024 then None
      else
        let parsed = map parse_ip (uniqueStrings addresses) in
        if None \<in> set parsed then None else Some (uniqueStrings (map (\<lambda>ip. ip_string (the ip)) parsed)))"

fun lists_installed :: "sqlite \<Rightarrow> int list \<Rightarrow> archive \<Rightarrow> archive \<times> bool" where
  "lists_installed q [] a = (a, True)"
| "lists_installed q (i # ids) a =
     (case query q (\<lambda>s. list_ex (\<lambda>b. bl_id b = i) (blocklists s)) a of
        (a', Inr True) \<Rightarrow> lists_installed q ids a'
      | (a', _) \<Rightarrow> (a', False))"

definition normalizeProtectionBlocklists :: "sqlite \<Rightarrow> int list \<Rightarrow> archive \<Rightarrow> archive \<times> int list option" where
  "normalizeProtectionBlocklists q ids0 a =
     (let ids = uniqueInt64s ids0 in
      if length ids > 20 then (a, None)
      else (case lists_installed q ids a of (a', ok) \<Rightarrow> (a', if ok then Some ids else None)))"

definition normalizeProtectionInput :: "sqlite \<Rightarrow> protectionInput \<Rightarrow> archive \<Rightarrow> archive \<times> protectionInput option" where
  "normalizeProtectionInput q input a =
     (let name = trim_space (pi_Name input); icon = to_lower (trim_space (pi_Icon input)) in
      if name = [] \<or> rune_count name > 40 \<or> icon \<notin> set protectionIcons then (a, None)
      else (case normalizeProtectionBlocklists q (pi_BlocklistIDs input) a of
              (a', None) \<Rightarrow> (a', None)
            | (a', Some ids) \<Rightarrow> (a',
                Option.bind (normalizeProtectionDomains (pi_AllowDomains input) (pi_BlockDomains input)) (\<lambda>(allowed, blocked).
                Option.bind (normalizeProtectionDevices (pi_DeviceIPs input)) (\<lambda>ips.
                  (case Validate (load_location (sq_host q)) (pi_Schedule input) of
                     (_, Some _) \<Rightarrow> None
                   | (schedule, None) \<Rightarrow>
                       Some \<lparr>pi_Name = name, pi_Icon = icon, pi_BlocklistIDs = ids, pi_AllowDomains = allowed, pi_BlockDomains = blocked,
                         pi_DeviceIPs = ips, pi_Schedule = schedule\<rparr>))))))"

section \<open>The rows of a profile\<close>

datatype entry_table = Allow_Entries | Block_Entries

fun entries_of :: "entry_table \<Rightarrow> Store \<Rightarrow> protection_entry list" where
  "entries_of Allow_Entries s = protection_allow_entries s"
| "entries_of Block_Entries s = protection_block_entries s"

fun add_entry :: "entry_table \<Rightarrow> string \<Rightarrow> int \<Rightarrow> string \<Rightarrow> Store \<Rightarrow> Store" where
  "add_entry Allow_Entries stamp i domain s = (bump ''protection_allow_entries'' s)\<lparr>protection_allow_entries := protection_allow_entries s @
     [\<lparr>pe_id = next_id ''protection_allow_entries'' s, pe_protection_id = i, pe_domain = domain, pe_created_at = stamp\<rparr>]\<rparr>"
| "add_entry Block_Entries stamp i domain s = (bump ''protection_block_entries'' s)\<lparr>protection_block_entries := protection_block_entries s @
     [\<lparr>pe_id = next_id ''protection_block_entries'' s, pe_protection_id = i, pe_domain = domain, pe_created_at = stamp\<rparr>]\<rparr>"

definition profile_ids :: "Store \<Rightarrow> int set" where
  "profile_ids s = pp_id ` set (protection_profiles s)"

fun insertProtectionBlocklists :: "int \<Rightarrow> int list \<Rightarrow> Store \<Rightarrow> Store option" where
  "insertProtectionBlocklists i [] s = Some s"
| "insertProtectionBlocklists i (b # bs) s =
     (if (i, b) \<in> set (protection_blocklists s) \<or> i \<notin> profile_ids s \<or> b \<notin> bl_id ` set (blocklists s) then None
      else insertProtectionBlocklists i bs (s\<lparr>protection_blocklists := protection_blocklists s @ [(i, b)]\<rparr>))"

fun insertProtectionDomains :: "entry_table \<Rightarrow> string \<Rightarrow> int \<Rightarrow> string list \<Rightarrow> Store \<Rightarrow> Store option" where
  "insertProtectionDomains t stamp i [] s = Some s"
| "insertProtectionDomains t stamp i (d # ds) s =
     (if list_ex (\<lambda>e. pe_protection_id e = i \<and> pe_domain e = d) (entries_of t s) \<or> i \<notin> profile_ids s then None
      else insertProtectionDomains t stamp i ds (add_entry t stamp i d s))"

definition insert_device_row :: "int \<Rightarrow> string \<Rightarrow> Store \<Rightarrow> Store" where
  "insert_device_row i address s =
     s\<lparr>device_protection_memberships := (case device_of s address of
          None \<Rightarrow> device_protection_memberships s
        | Some d \<Rightarrow> gm_put d i (device_protection_memberships s)),
       device_protection_assignments := gm_put address i (device_protection_assignments s)\<rparr>"

fun insertProtectionDevices :: "int \<Rightarrow> string list \<Rightarrow> Store \<Rightarrow> Store option" where
  "insertProtectionDevices i [] s = Some s"
| "insertProtectionDevices i (address # rest) s =
     (if i \<notin> profile_ids s then None else insertProtectionDevices i rest (insert_device_row i address s))"

definition clearProtectionChildren :: "int \<Rightarrow> Store \<Rightarrow> Store" where
  "clearProtectionChildren i s = s\<lparr>
     protection_blocklists := filter (\<lambda>(p, _). p \<noteq> i) (protection_blocklists s),
     protection_allow_entries := filter (\<lambda>e. pe_protection_id e \<noteq> i) (protection_allow_entries s),
     protection_block_entries := filter (\<lambda>e. pe_protection_id e \<noteq> i) (protection_block_entries s),
     device_protection_memberships := filter (\<lambda>(_, p). p \<noteq> i) (device_protection_memberships s),
     device_protection_assignments := filter (\<lambda>(_, p). p \<noteq> i) (device_protection_assignments s)\<rparr>"

definition writeProtectionChildren :: "string \<Rightarrow> int \<Rightarrow> bool \<Rightarrow> protectionInput \<Rightarrow> Store \<Rightarrow> Store option" where
  "writeProtectionChildren stamp i isDefault input s =
     Option.bind (insertProtectionBlocklists i (pi_BlocklistIDs input) s) (\<lambda>s.
     Option.bind (insertProtectionDomains Allow_Entries stamp i (pi_AllowDomains input) s) (\<lambda>s.
     Option.bind (insertProtectionDomains Block_Entries stamp i (pi_BlockDomains input) s) (\<lambda>s.
       if isDefault then Some s else insertProtectionDevices i (pi_DeviceIPs input) s)))"

text \<open>The column \<^verbatim>\<open>name\<close> compares without case (\<^verbatim>\<open>COLLATE NOCASE\<close>).\<close>

definition name_taken :: "int \<Rightarrow> string \<Rightarrow> Store \<Rightarrow> bool" where
  "name_taken i name s \<longleftrightarrow> list_ex (\<lambda>p. pp_id p \<noteq> i \<and> map lower_char (pp_name p) = map lower_char name) (protection_profiles s)"

section \<open>The transactions\<close>

definition insert_profile :: "string \<Rightarrow> protectionInput \<Rightarrow> Store \<Rightarrow> Store option" where
  "insert_profile stamp input s =
     (let i = next_id ''protection_profiles'' s in
      if name_taken i (pi_Name input) s then None
      else Some ((bump ''protection_profiles'' s)\<lparr>protection_profiles := protection_profiles s @
        [\<lparr>pp_id = i, pp_name = pi_Name input, pp_is_default = False, pp_paused_until = [], pp_schedule = pi_Schedule input,
          pp_icon = pi_Icon input, pp_created_at = stamp, pp_updated_at = stamp\<rparr>]\<rparr>))"

definition insert_tx :: "string \<Rightarrow> protectionInput \<Rightarrow> Store \<Rightarrow> (Store \<times> int) option" where
  "insert_tx stamp input s =
     (let i = next_id ''protection_profiles'' s in
      Option.bind (insert_profile stamp input s) (\<lambda>s1.
        map_option (\<lambda>s2. (s2, i)) (writeProtectionChildren stamp i False input s1)))"

definition update_profile :: "string \<Rightarrow> int \<Rightarrow> protectionInput \<Rightarrow> Store \<Rightarrow> Store option" where
  "update_profile stamp i input s =
     (if i \<in> profile_ids s \<and> name_taken i (pi_Name input) s then None
      else Some (s\<lparr>protection_profiles := map (\<lambda>p. if pp_id p = i
        then p\<lparr>pp_name := pi_Name input, pp_icon := pi_Icon input, pp_schedule := pi_Schedule input, pp_updated_at := stamp\<rparr>
        else p) (protection_profiles s)\<rparr>))"

definition replace_tx :: "string \<Rightarrow> int \<Rightarrow> bool \<Rightarrow> protectionInput \<Rightarrow> Store \<Rightarrow> (Store \<times> unit) option" where
  "replace_tx stamp i isDefault input s =
     Option.bind (update_profile stamp i input s) (\<lambda>s1.
       map_option (\<lambda>s2. (s2, ())) (writeProtectionChildren stamp i isDefault input (clearProtectionChildren i s1)))"

text \<open>\<^verbatim>\<open>DELETE FROM protection_profiles\<close> with the cascades of the schema.\<close>

definition delete_profile :: "int \<Rightarrow> Store \<Rightarrow> Store" where
  "delete_profile i s = (clearProtectionChildren i s)\<lparr>
     protection_profiles := filter (\<lambda>p. pp_id p \<noteq> i) (protection_profiles s),
     troubleshooting_exceptions := filter (\<lambda>t. te_protection_id t \<noteq> i) (troubleshooting_exceptions s)\<rparr>"

definition snapshot_row :: "protectionSnapshot \<Rightarrow> protection_profile" where
  "snapshot_row p = \<lparr>pp_id = ps_ID p, pp_name = ps_Name p, pp_is_default = ps_IsDefault p, pp_paused_until = ps_PausedUntil p,
     pp_schedule = pi_Schedule (ps_Input p), pp_icon = ps_Icon p, pp_created_at = ps_CreatedAt p, pp_updated_at = ps_UpdatedAt p\<rparr>"

text \<open>\<^verbatim>\<open>INSERT ... ON CONFLICT(id) DO UPDATE\<close>: the other constraints on a profile are its name and that there is one default.\<close>

definition upsert_profile :: "protection_profile \<Rightarrow> Store \<Rightarrow> Store option" where
  "upsert_profile p s =
     (if name_taken (pp_id p) (pp_name p) s \<or> pp_is_default p \<and> list_ex (\<lambda>x. pp_id x \<noteq> pp_id p \<and> pp_is_default x) (protection_profiles s) then None
      else Some (s\<lparr>protection_profiles := (if pp_id p \<in> profile_ids s
        then map (\<lambda>x. if pp_id x = pp_id p then p else x) (protection_profiles s)
        else insort_key pp_id p (protection_profiles s))\<rparr>))"

definition restore_tx :: "string \<Rightarrow> protectionSnapshot \<Rightarrow> Store \<Rightarrow> (Store \<times> unit) option" where
  "restore_tx stamp p s =
     Option.bind (upsert_profile (snapshot_row p) s) (\<lambda>s1.
       map_option (\<lambda>s2. (s2, ())) (writeProtectionChildren stamp (ps_ID p) (ps_IsDefault p) (ps_Input p) (clearProtectionChildren (ps_ID p) s1)))"

fun restore_rows :: "deviceProtectionAssignment list \<Rightarrow> Store \<Rightarrow> (Store \<times> unit) option" where
  "restore_rows [] s = Some (s, ())"
| "restore_rows (r # rs) s =
     (if gm_get (device_protection_memberships s) (dp_DeviceID r) \<noteq> None \<or> dp_DeviceID r \<notin> device_ids s \<or> dp_ProtectionID r \<notin> profile_ids s then None
      else if dp_ClientIP r \<noteq> [] \<and> gm_get (device_protection_assignments s) (dp_ClientIP r) \<noteq> None then None
      else restore_rows rs (s\<lparr>
        device_protection_memberships := device_protection_memberships s @ [(dp_DeviceID r, dp_ProtectionID r)],
        device_protection_assignments := device_protection_assignments s @
          (if dp_ClientIP r = [] then [] else [(dp_ClientIP r, dp_ProtectionID r)])\<rparr>))"

definition assignments_tx :: "deviceProtectionAssignment list \<Rightarrow> Store \<Rightarrow> (Store \<times> unit) option" where
  "assignments_tx rs s = restore_rows rs (s\<lparr>device_protection_memberships := [], device_protection_assignments := []\<rparr>)"

definition newest_address :: "int \<Rightarrow> Store \<Rightarrow> string" where
  "newest_address d s = (case Addresses d s of [] \<Rightarrow> [] | x # _ \<Rightarrow> x)"

definition assignment_rows :: "Store \<Rightarrow> deviceProtectionAssignment list" where
  "assignment_rows s = map (\<lambda>(d, p). \<lparr>dp_DeviceID = d, dp_ClientIP = newest_address d s, dp_ProtectionID = p\<rparr>)
     (sort_key fst (device_protection_memberships s))"

section \<open>Reading and undoing\<close>

text \<open>\<^verbatim>\<open>protectionIDs\<close> and \<^verbatim>\<open>protectionStrings\<close>: a failing query reads as no rows.\<close>

definition read_rows :: "sqlite \<Rightarrow> (Store \<Rightarrow> 'a list) \<Rightarrow> archive \<Rightarrow> archive \<times> 'a list" where
  "read_rows q f a = (case query q f a of (a', Inl _) \<Rightarrow> (a', []) | (a', Inr xs) \<Rightarrow> (a', xs))"

definition find_profile :: "int \<Rightarrow> Store \<Rightarrow> protection_profile option" where
  "find_profile i s = List.find (\<lambda>p. pp_id p = i) (protection_profiles s)"

definition list_ids :: "int \<Rightarrow> Store \<Rightarrow> int list" where
  "list_ids i s = map snd (filter (\<lambda>(p, _). p = i) (protection_blocklists s))"

definition entry_domains :: "entry_table \<Rightarrow> int \<Rightarrow> Store \<Rightarrow> string list" where
  "entry_domains t i s = map pe_domain (filter (\<lambda>e. pe_protection_id e = i) (entries_of t s))"

definition readProtection :: "sqlite \<Rightarrow> int \<Rightarrow> archive \<Rightarrow> archive \<times> (reply + protectionSnapshot)" where
  "readProtection q i a = (case query q (find_profile i) a of
     (a1, Inl _) \<Rightarrow> (a1, Inl Server_Error)
   | (a1, Inr None) \<Rightarrow> (a1, Inl Bad_Request)
   | (a1, Inr (Some p)) \<Rightarrow>
       let (a2, ids) = read_rows q (list_ids i) a1;
           (a3, allowed) = read_rows q (entry_domains Allow_Entries i) a2;
           (a4, blocked) = read_rows q (entry_domains Block_Entries i) a3;
           (a5, ips) = read_rows q (\<lambda>s. protection_clients s i) a4 in
       (a5, Inr \<lparr>ps_ID = pp_id p, ps_Name = pp_name p, ps_Icon = pp_icon p, ps_IsDefault = pp_is_default p, ps_CreatedAt = pp_created_at p,
          ps_UpdatedAt = pp_updated_at p, ps_PausedUntil = pp_paused_until p,
          ps_Input = \<lparr>pi_Name = pp_name p, pi_Icon = pp_icon p, pi_BlocklistIDs = ids, pi_AllowDomains = allowed, pi_BlockDomains = blocked,
            pi_DeviceIPs = ips, pi_Schedule = pp_schedule p\<rparr>\<rparr>))"

definition readDeviceProtectionAssignments :: "sqlite \<Rightarrow> archive \<Rightarrow> archive \<times> deviceProtectionAssignment list" where
  "readDeviceProtectionAssignments q = read_rows q assignment_rows"

definition restoreProtection :: "edit_env \<Rightarrow> protectionSnapshot \<Rightarrow> archive \<Rightarrow> archive" where
  "restoreProtection env p a = fst (exec_checked (ed_sql env) (restore_tx (now_stamp env a) p) a)"

definition restoreDeviceProtectionAssignments :: "sqlite \<Rightarrow> deviceProtectionAssignment list \<Rightarrow> archive \<Rightarrow> archive" where
  "restoreDeviceProtectionAssignments q rs a = fst (exec_checked q (assignments_tx rs) a)"

section \<open>Writing\<close>

definition resolve_device :: "edit_env \<Rightarrow> string \<Rightarrow> archive \<Rightarrow> archive \<times> (identity_error + int)" where
  "resolve_device env address a = (case ResolveAddress (ed_obs env (ar_calls a)) address ''assignment'' (ar_store a) of
     (s', r) \<Rightarrow> (a\<lparr>ar_store := s', ar_calls := Suc (ar_calls a)\<rparr>, r))"

fun resolveProtectionDevices :: "edit_env \<Rightarrow> string list \<Rightarrow> archive \<Rightarrow> archive \<times> bool" where
  "resolveProtectionDevices env [] a = (a, True)"
| "resolveProtectionDevices env (address # rest) a = (case resolve_device env address a of
     (a', Inl _) \<Rightarrow> (a', False)
   | (a', Inr _) \<Rightarrow> resolveProtectionDevices env rest a')"

definition insertProtection :: "edit_env \<Rightarrow> protectionInput \<Rightarrow> archive \<Rightarrow> archive \<times> int option" where
  "insertProtection env input a = (case resolveProtectionDevices env (pi_DeviceIPs input) a of
     (a1, False) \<Rightarrow> (a1, None)
   | (a1, True) \<Rightarrow> (case exec_checked (ed_sql env) (insert_tx (now_stamp env a1) input) a1 of
       (a2, Inl _) \<Rightarrow> (a2, None)
     | (a2, Inr i) \<Rightarrow> (a2, Some i)))"

definition replaceProtection :: "edit_env \<Rightarrow> int \<Rightarrow> bool \<Rightarrow> protectionInput \<Rightarrow> archive \<Rightarrow> archive \<times> bool" where
  "replaceProtection env i isDefault input a = (case resolveProtectionDevices env (pi_DeviceIPs input) a of
     (a1, False) \<Rightarrow> (a1, False)
   | (a1, True) \<Rightarrow> (case exec_checked (ed_sql env) (replace_tx (now_stamp env a1) i isDefault input) a1 of
       (a2, Inl _) \<Rightarrow> (a2, False)
     | (a2, Inr _) \<Rightarrow> (a2, True)))"

section \<open>The handlers\<close>

definition protection_event :: "string \<Rightarrow> string \<Rightarrow> string \<Rightarrow> string \<Rightarrow> (string \<times> string) list \<Rightarrow> event" where
  "protection_event type severity title description metadata =
     \<lparr>ev_id = 0, ev_timestamp = [], ev_type = type, ev_severity = severity, ev_title = title, ev_description = description,
      ev_client_ip = None, ev_domain = None, ev_metadata = json_object metadata, ev_source = ''protection''\<rparr>"

definition profile_count :: "sqlite \<Rightarrow> archive \<Rightarrow> archive \<times> nat" where
  "profile_count q a = (case query q (\<lambda>s. length (protection_profiles s)) a of (a', Inl _) \<Rightarrow> (a', 0) | (a', Inr n) \<Rightarrow> (a', n))"

definition undo_create :: "edit_env \<Rightarrow> int \<Rightarrow> deviceProtectionAssignment list \<Rightarrow> archive \<Rightarrow> archive" where
  "undo_create env i assignments a =
     restoreDeviceProtectionAssignments (ed_sql env) assignments (fst (exec (ed_sql env) (\<lambda>s. (delete_profile i s, ())) a))"

definition undo_change :: "edit_env \<Rightarrow> protectionSnapshot \<Rightarrow> deviceProtectionAssignment list \<Rightarrow> archive \<Rightarrow> archive" where
  "undo_change env previous assignments a =
     restoreDeviceProtectionAssignments (ed_sql env) assignments (restoreProtection env previous a)"

definition createProtection :: "edit_env \<Rightarrow> 'w applier \<Rightarrow> protectionInput option \<Rightarrow> archive \<times> 'w \<Rightarrow> (archive \<times> 'w) \<times> reply" where
  "createProtection env apply_fn body st = (case st of (a, w) \<Rightarrow>
     let (a1, n) = profile_count (ed_sql env) a in
     if n \<ge> maxProtectionProfiles then ((a1, w), Bad_Request)
     else (case body of
        None \<Rightarrow> ((a1, w), Bad_Request)
      | Some input \<Rightarrow>
          (case normalizeProtectionInput (ed_sql env) input a1 of
             (a2, None) \<Rightarrow> ((a2, w), Bad_Request)
           | (a2, Some normalized) \<Rightarrow>
               let (a3, assignments) = readDeviceProtectionAssignments (ed_sql env) a2 in
               (case insertProtection env normalized a3 of
                  (a4, None) \<Rightarrow> ((a4, w), Bad_Request)
                | (a4, Some i) \<Rightarrow>
                    (case apply_or_undo apply_fn (undo_create env i assignments) a4 w of
                       ((a5, w'), False) \<Rightarrow> ((a5, w'), Server_Error)
                     | ((a5, w'), True) \<Rightarrow>
                         ((recordEvent (ed_sql env) (protection_event ''protection.created'' ''success'' ''Protection created''
                             (pi_Name normalized @ '' is ready to assign to devices.'')
                             [(''icon'', json_text (pi_Icon normalized)), (''protection_id'', itoa i)]) a5, w'), Created i))))))"

definition deleteProtection :: "edit_env \<Rightarrow> 'w applier \<Rightarrow> int \<Rightarrow> protectionSnapshot \<Rightarrow> deviceProtectionAssignment list \<Rightarrow>
    archive \<times> 'w \<Rightarrow> (archive \<times> 'w) \<times> reply" where
  "deleteProtection env apply_fn i previous assignments st = (case st of (a, w) \<Rightarrow>
     if ps_IsDefault previous then ((a, w), Bad_Request)
     else (case exec (ed_sql env) (\<lambda>s. (delete_profile i s, ())) a of
        (a1, Inl _) \<Rightarrow> ((a1, w), Server_Error)
      | (a1, Inr _) \<Rightarrow>
          (case apply_or_undo apply_fn (undo_change env previous assignments) a1 w of
             (st', ok) \<Rightarrow> (st', if ok then Accepted else Server_Error))))"

definition updateProtection :: "edit_env \<Rightarrow> 'w applier \<Rightarrow> int \<Rightarrow> protectionInput option \<Rightarrow> protectionSnapshot \<Rightarrow> deviceProtectionAssignment list \<Rightarrow>
    archive \<times> 'w \<Rightarrow> (archive \<times> 'w) \<times> reply" where
  "updateProtection env apply_fn i body previous assignments st = (case st of (a, w) \<Rightarrow>
     (case body of
        None \<Rightarrow> ((a, w), Bad_Request)
      | Some input \<Rightarrow>
          (case normalizeProtectionInput (ed_sql env) input a of
             (a1, None) \<Rightarrow> ((a1, w), Bad_Request)
           | (a1, Some normalized0) \<Rightarrow>
               let normalized = (if ps_IsDefault previous then normalized0\<lparr>pi_Name := ''Home''\<rparr> else normalized0) in
               (case replaceProtection env i (ps_IsDefault previous) normalized a1 of
                  (a2, False) \<Rightarrow> ((a2, w), Bad_Request)
                | (a2, True) \<Rightarrow>
                    (case apply_or_undo apply_fn (undo_change env previous assignments) a2 w of
                       ((a3, w'), False) \<Rightarrow> ((a3, w'), Server_Error)
                     | ((a3, w'), True) \<Rightarrow>
                         ((recordEvent (ed_sql env) (protection_event ''protection.updated'' ''success'' ''Protection updated''
                             (pi_Name normalized @ '' settings were applied to DNS.'')
                             [(''protection_id'', itoa i), (''schedule_enabled'', bool_text (Enabled (pi_Schedule normalized)))]) a3, w'), Accepted))))))"

text \<open>The clock is read twice, once for each bound of the pause.\<close>

definition pause_end :: "time \<Rightarrow> time \<Rightarrow> string \<Rightarrow> string option" where
  "pause_end now later until0 =
     (let until = trim_space until0 in
      if until = [] then Some []
      else (case parse_rfc3339 until of
              None \<Rightarrow> None
            | Some t \<Rightarrow>
                if \<not> now < t then None
                else if later + 7 * 24 * hour < t then None
                else Some (format_rfc3339 t)))"

definition set_paused :: "string \<Rightarrow> int \<Rightarrow> string \<Rightarrow> Store \<Rightarrow> Store" where
  "set_paused stamp i until s = s\<lparr>protection_profiles :=
     map (\<lambda>p. if pp_id p = i then p\<lparr>pp_paused_until := until, pp_updated_at := stamp\<rparr> else p) (protection_profiles s)\<rparr>"

definition put_pause :: "edit_env \<Rightarrow> int \<Rightarrow> string \<Rightarrow> unit action" where
  "put_pause env i until a = exec (ed_sql env) (\<lambda>s. (set_paused (now_stamp env a) i until s, ())) a"

definition pause_event :: "int \<Rightarrow> string \<Rightarrow> string \<Rightarrow> event" where
  "pause_event i name until =
     (if until = [] then protection_event ''protection.resumed'' ''success'' ''Domain blocking turned on''
        (name @ '' is blocking domains again.'') [(''protection_id'', itoa i)]
      else protection_event ''protection.paused'' ''warning'' ''Domain blocking temporarily off''
        (name @ '' is allowing domains it would normally block; devices remain online.'')
        [(''paused_until'', json_text until), (''protection_id'', itoa i)])"

definition pauseProtection :: "edit_env \<Rightarrow> time \<Rightarrow> time \<Rightarrow> 'w applier \<Rightarrow> int \<Rightarrow> string option \<Rightarrow> archive \<times> 'w \<Rightarrow> (archive \<times> 'w) \<times> reply" where
  "pauseProtection env now later apply_fn i body st = (case st of (a, w) \<Rightarrow>
     (case Option.bind body (pause_end now later) of
        None \<Rightarrow> ((a, w), Bad_Request)
      | Some until \<Rightarrow>
          (case query (ed_sql env) (find_profile i) a of
             (a1, Inr (Some previous)) \<Rightarrow>
               (case put_pause env i until a1 of
                  (a2, Inl _) \<Rightarrow> ((a2, w), Server_Error)
                | (a2, Inr _) \<Rightarrow>
                    (case apply_or_undo apply_fn (\<lambda>a. fst (put_pause env i (pp_paused_until previous) a)) a2 w of
                       ((a3, w'), False) \<Rightarrow> ((a3, w'), Server_Error)
                     | ((a3, w'), True) \<Rightarrow> ((recordEvent (ed_sql env) (pause_event i (pp_name previous) until) a3, w'), Accepted)))
           | (a1, _) \<Rightarrow> ((a1, w), Bad_Request))))"

datatype protection_request =
    Post_Protection "protectionInput option"
  | Put_Protection int "protectionInput option"
  | Delete_Protection int
  | Put_Pause int time time "string option"

fun protection :: "edit_env \<Rightarrow> 'w applier \<Rightarrow> protection_request \<Rightarrow> archive \<times> 'w \<Rightarrow> (archive \<times> 'w) \<times> reply" where
  "protection env apply_fn (Post_Protection body) st = createProtection env apply_fn body st"
| "protection env apply_fn (Put_Protection i body) (a, w) = (case readProtection (ed_sql env) i a of
     (a1, Inl r) \<Rightarrow> ((a1, w), r)
   | (a1, Inr previous) \<Rightarrow>
       let (a2, assignments) = readDeviceProtectionAssignments (ed_sql env) a1 in
       updateProtection env apply_fn i body previous assignments (a2, w))"
| "protection env apply_fn (Delete_Protection i) (a, w) = (case readProtection (ed_sql env) i a of
     (a1, Inl r) \<Rightarrow> ((a1, w), r)
   | (a1, Inr previous) \<Rightarrow>
       let (a2, assignments) = readDeviceProtectionAssignments (ed_sql env) a1 in
       deleteProtection env apply_fn i previous assignments (a2, w))"
| "protection env apply_fn (Put_Pause i now later body) st =
     (if i \<le> 0 then (st, Bad_Request) else pauseProtection env now later apply_fn i body st)"

section \<open>The profile of a device\<close>

definition put_membership :: "int \<Rightarrow> int \<Rightarrow> Store \<Rightarrow> (Store \<times> unit) option" where
  "put_membership d p s = (if d \<in> device_ids s \<and> p \<in> profile_ids s
     then Some (s\<lparr>device_protection_memberships := gm_put d p (device_protection_memberships s)\<rparr>, ()) else None)"

definition put_assignment :: "string \<Rightarrow> int \<Rightarrow> Store \<Rightarrow> (Store \<times> unit) option" where
  "put_assignment ip p s = (if p \<in> profile_ids s
     then Some (s\<lparr>device_protection_assignments := gm_put ip p (device_protection_assignments s)\<rparr>, ()) else None)"

fun set_device :: "sqlite \<Rightarrow> int \<Rightarrow> string \<Rightarrow> int option \<Rightarrow> archive \<Rightarrow> archive" where
  "set_device q d ip None a =
     fst (exec q (\<lambda>s. (s\<lparr>device_protection_assignments := gm_del ip (device_protection_assignments s)\<rparr>, ()))
       (fst (exec q (\<lambda>s. (s\<lparr>device_protection_memberships := gm_del d (device_protection_memberships s)\<rparr>, ())) a)))"
| "set_device q d ip (Some p) a = fst (exec_checked q (put_assignment ip p) (fst (exec_checked q (put_membership d p) a)))"

definition assignDeviceProtection :: "edit_env \<Rightarrow> 'w applier \<Rightarrow> string \<Rightarrow> int option \<Rightarrow> archive \<times> 'w \<Rightarrow> (archive \<times> 'w) \<times> reply" where
  "assignDeviceProtection env apply_fn clientIP body st = (case st of (a, w) \<Rightarrow>
     (case (parse_ip clientIP, body) of
        (Some parsed, Some i) \<Rightarrow>
          let ip = ip_string parsed in
          (case query (ed_sql env) (find_profile i) a of
             (a1, Inr (Some profile)) \<Rightarrow>
               (case resolve_device env ip a1 of
                  (a2, Inl _) \<Rightarrow> ((a2, w), Server_Error)
                | (a2, Inr d) \<Rightarrow>
                    let (a3, previous) = (case query (ed_sql env) (\<lambda>s. gm_get (device_protection_memberships s) d) a2 of
                          (a3, Inl _) \<Rightarrow> (a3, None) | (a3, Inr p) \<Rightarrow> (a3, p));
                        a4 = set_device (ed_sql env) d ip (if pp_is_default profile then None else Some i) a3 in
                    (case apply_or_undo apply_fn (set_device (ed_sql env) d ip previous) a4 w of
                       (st', ok) \<Rightarrow> (st', if ok then Accepted else Server_Error)))
           | (a1, _) \<Rightarrow> ((a1, w), Bad_Request))
      | _ \<Rightarrow> ((a, w), Bad_Request)))"

text \<open>\<^verbatim>\<open>protectionForClient\<close>, which the device pages show, runs the query of \<^const>\<open>selected_profile\<close>.\<close>

definition protectionForClient :: "Store \<Rightarrow> string \<Rightarrow> int \<times> string \<times> string" where
  "protectionForClient s ip = (case selected_profile s ip of
     None \<Rightarrow> (0, ''Home'', ''house'')
   | Some p \<Rightarrow> (pp_id p, pp_name p, pp_icon p))"

end
