(* ===== verification/Protection_Setup.thy ===== *)
theory Protection_Setup
  imports Protection_Edit
begin

text \<open>
  What the handlers of \<^verbatim>\<open>Protection_Edit\<close> achieve. The effect of each transaction is stated once (\<open>children_written\<close>,
  \<open>replace_tx_effect\<close>, \<open>insert_tx_effect\<close>, \<open>restore_tx_ok\<close>, \<open>assignments_tx_ok\<close>); from these follow that a rejected change is
  undone, that a saved profile serves its devices, and what moving a device to the default profile leaves behind.
\<close>

section \<open>What the transactions write\<close>

definition entry_pair :: "protection_entry \<Rightarrow> int \<times> string" where
  "entry_pair e = (pe_protection_id e, pe_domain e)"

lemma insert_lists_Some:
  "insertProtectionBlocklists i bs s = Some s' \<Longrightarrow> s' = s\<lparr>protection_blocklists := protection_blocklists s @ map (Pair i) bs\<rparr>"
  by (induction i bs s rule: insertProtectionBlocklists.induct) (auto split: if_splits)

lemma insert_lists_ok:
  "i \<in> profile_ids s \<Longrightarrow> distinct bs \<Longrightarrow> set bs \<subseteq> bl_id ` set (blocklists s) \<Longrightarrow> Pair i ` set bs \<inter> set (protection_blocklists s) = {} \<Longrightarrow>
   insertProtectionBlocklists i bs s \<noteq> None"
proof (induction i bs s rule: insertProtectionBlocklists.induct)
  case (2 i b bs s)
  then show ?case
    by (auto simp: profile_ids_def)
qed simp

lemma add_entry_allow:
  "\<exists>al sq. add_entry Allow_Entries stamp i d s = s\<lparr>protection_allow_entries := al, sqlite_sequence := sq\<rparr> \<and>
     map entry_pair al = map entry_pair (protection_allow_entries s) @ [(i, d)]"
  by (rule exI [of _ "protection_allow_entries (add_entry Allow_Entries stamp i d s)"], rule exI [of _ "sqlite_sequence (add_entry Allow_Entries stamp i d s)"])
    (simp add: bump_def entry_pair_def)

lemma add_entry_block:
  "\<exists>bl sq. add_entry Block_Entries stamp i d s = s\<lparr>protection_block_entries := bl, sqlite_sequence := sq\<rparr> \<and>
     map entry_pair bl = map entry_pair (protection_block_entries s) @ [(i, d)]"
  by (rule exI [of _ "protection_block_entries (add_entry Block_Entries stamp i d s)"], rule exI [of _ "sqlite_sequence (add_entry Block_Entries stamp i d s)"])
    (simp add: bump_def entry_pair_def)

lemma insert_allow_Some:
  "insertProtectionDomains Allow_Entries stamp i ds s = Some s' \<Longrightarrow>
   \<exists>al sq. s' = s\<lparr>protection_allow_entries := al, sqlite_sequence := sq\<rparr> \<and> map entry_pair al = map entry_pair (protection_allow_entries s) @ map (Pair i) ds"
proof (induction ds arbitrary: s)
  case Nil
  then show ?case
    by (auto intro!: exI [of _ "protection_allow_entries s"] exI [of _ "sqlite_sequence s"])
next
  case (Cons d ds)
  obtain al sq where a: "add_entry Allow_Entries stamp i d s = s\<lparr>protection_allow_entries := al, sqlite_sequence := sq\<rparr>"
      "map entry_pair al = map entry_pair (protection_allow_entries s) @ [(i, d)]"
    using add_entry_allow by blast
  have "insertProtectionDomains Allow_Entries stamp i ds (add_entry Allow_Entries stamp i d s) = Some s'"
    using Cons.prems by (auto split: if_splits)
  from Cons.IH [OF this] show ?case
    unfolding a(1) using a(2) by auto
qed

lemma insert_block_Some:
  "insertProtectionDomains Block_Entries stamp i ds s = Some s' \<Longrightarrow>
   \<exists>bl sq. s' = s\<lparr>protection_block_entries := bl, sqlite_sequence := sq\<rparr> \<and> map entry_pair bl = map entry_pair (protection_block_entries s) @ map (Pair i) ds"
proof (induction ds arbitrary: s)
  case Nil
  then show ?case
    by (auto intro!: exI [of _ "protection_block_entries s"] exI [of _ "sqlite_sequence s"])
next
  case (Cons d ds)
  obtain bl sq where b: "add_entry Block_Entries stamp i d s = s\<lparr>protection_block_entries := bl, sqlite_sequence := sq\<rparr>"
      "map entry_pair bl = map entry_pair (protection_block_entries s) @ [(i, d)]"
    using add_entry_block by blast
  have "insertProtectionDomains Block_Entries stamp i ds (add_entry Block_Entries stamp i d s) = Some s'"
    using Cons.prems by (auto split: if_splits)
  from Cons.IH [OF this] show ?case
    unfolding b(1) using b(2) by auto
qed

lemma add_entry_pairs [simp]:
  "map entry_pair (entries_of t (add_entry t stamp i d s)) = map entry_pair (entries_of t s) @ [(i, d)]"
  "profile_ids (add_entry t stamp i d s) = profile_ids s"
  by (cases t; simp add: entry_pair_def bump_def profile_ids_def)+

lemma insert_domains_ok:
  "i \<in> profile_ids s \<Longrightarrow> distinct ds \<Longrightarrow> Pair i ` set ds \<inter> set (map entry_pair (entries_of t s)) = {} \<Longrightarrow>
   insertProtectionDomains t stamp i ds s \<noteq> None"
proof (induction t stamp i ds s rule: insertProtectionDomains.induct)
  case (2 t stamp i d ds s)
  have free: "\<not> list_ex (\<lambda>e. pe_protection_id e = i \<and> pe_domain e = d) (entries_of t s)"
    using "2.prems"(3) by (auto simp: list_ex_iff entry_pair_def)
  have "insertProtectionDomains t stamp i ds (add_entry t stamp i d s) \<noteq> None"
    using "2.prems" free by (intro "2.IH") (auto simp del: set_map)
  then show ?case
    using free "2.prems"(1) by simp
qed simp

lemma insert_device_row_devices [simp]:
  "device_of (insert_device_row i x s) a = device_of s a" "profile_ids (insert_device_row i x s) = profile_ids s"
  by (simp_all add: insert_device_row_def device_of_def profile_ids_def)

lemma insert_devices_Some:
  "insertProtectionDevices i ips s = Some s' \<Longrightarrow>
   \<exists>m a. s' = s\<lparr>device_protection_memberships := m, device_protection_assignments := a\<rparr> \<and>
     gm_get m = (\<lambda>d. if \<exists>ip \<in> set ips. device_of s ip = Some d then Some i else gm_get (device_protection_memberships s) d) \<and>
     gm_get a = (\<lambda>ip. if ip \<in> set ips then Some i else gm_get (device_protection_assignments s) ip) \<and>
     (gm_wf (device_protection_memberships s) \<longrightarrow> gm_wf m) \<and> (gm_wf (device_protection_assignments s) \<longrightarrow> gm_wf a)"
proof (induction ips arbitrary: s)
  case Nil
  then show ?case
    by (auto intro!: exI [of _ "device_protection_memberships s"] exI [of _ "device_protection_assignments s"])
next
  case (Cons x ips)
  let ?s1 = "insert_device_row i x s"
  have "insertProtectionDevices i ips ?s1 = Some s'"
    using Cons.prems by (auto split: if_splits)
  from Cons.IH [OF this] obtain m a where s': "s' = ?s1\<lparr>device_protection_memberships := m, device_protection_assignments := a\<rparr>"
      and m: "gm_get m = (\<lambda>d. if \<exists>ip \<in> set ips. device_of s ip = Some d then Some i else gm_get (device_protection_memberships ?s1) d)"
      and a: "gm_get a = (\<lambda>ip. if ip \<in> set ips then Some i else gm_get (device_protection_assignments ?s1) ip)"
      and wf: "gm_wf (device_protection_memberships ?s1) \<longrightarrow> gm_wf m" "gm_wf (device_protection_assignments ?s1) \<longrightarrow> gm_wf a"
    by auto
  have "s' = s\<lparr>device_protection_memberships := m, device_protection_assignments := a\<rparr>"
    by (simp add: s' insert_device_row_def)
  moreover have "gm_get m = (\<lambda>d. if \<exists>ip \<in> set (x # ips). device_of s ip = Some d then Some i else gm_get (device_protection_memberships s) d)"
    unfolding m by (auto simp: insert_device_row_def fun_eq_iff split: option.splits)
  moreover have "gm_get a = (\<lambda>ip. if ip \<in> set (x # ips) then Some i else gm_get (device_protection_assignments s) ip)"
    unfolding a by (auto simp: insert_device_row_def fun_eq_iff)
  moreover have "gm_wf (device_protection_memberships s) \<longrightarrow> gm_wf m" "gm_wf (device_protection_assignments s) \<longrightarrow> gm_wf a"
    using wf by (auto simp: insert_device_row_def split: option.splits)
  ultimately show ?case
    by blast
qed

lemma insert_devices_ok: "i \<in> profile_ids s \<Longrightarrow> insertProtectionDevices i ips s \<noteq> None"
  by (induction ips arbitrary: s) simp_all

text \<open>The effect of \<open>writeProtectionChildren\<close>, whose order of statements does not matter for the result.\<close>

definition children_written :: "int \<Rightarrow> bool \<Rightarrow> protectionInput \<Rightarrow> Store \<Rightarrow> Store \<Rightarrow> bool" where
  "children_written i isDefault input s s' \<longleftrightarrow> (\<exists>al bl sq m a.
     s' = s\<lparr>protection_blocklists := protection_blocklists s @ map (Pair i) (pi_BlocklistIDs input), protection_allow_entries := al,
       protection_block_entries := bl, sqlite_sequence := sq, device_protection_memberships := m, device_protection_assignments := a\<rparr> \<and>
     map entry_pair al = map entry_pair (protection_allow_entries s) @ map (Pair i) (pi_AllowDomains input) \<and>
     map entry_pair bl = map entry_pair (protection_block_entries s) @ map (Pair i) (pi_BlockDomains input) \<and>
     gm_get m = (\<lambda>d. if \<not> isDefault \<and> (\<exists>ip \<in> set (pi_DeviceIPs input). device_of s ip = Some d) then Some i
       else gm_get (device_protection_memberships s) d) \<and>
     gm_get a = (\<lambda>ip. if \<not> isDefault \<and> ip \<in> set (pi_DeviceIPs input) then Some i else gm_get (device_protection_assignments s) ip) \<and>
     (gm_wf (device_protection_memberships s) \<longrightarrow> gm_wf m) \<and> (gm_wf (device_protection_assignments s) \<longrightarrow> gm_wf a))"

lemma children_device_of: "device_of (s\<lparr>protection_blocklists := x\<rparr>\<lparr>protection_allow_entries := al, sqlite_sequence := sq\<rparr>\<lparr>protection_block_entries := bl, sqlite_sequence := sq'\<rparr>) ip = device_of s ip"
  by (simp add: device_of_def)

lemma writeProtectionChildren_Some:
  assumes "writeProtectionChildren stamp i isDefault input s = Some s'"
  shows "children_written i isDefault input s s'"
proof -
  obtain s1 s2 s3 where 1: "insertProtectionBlocklists i (pi_BlocklistIDs input) s = Some s1"
      and 2: "insertProtectionDomains Allow_Entries stamp i (pi_AllowDomains input) s1 = Some s2"
      and 3: "insertProtectionDomains Block_Entries stamp i (pi_BlockDomains input) s2 = Some s3"
      and 4: "(if isDefault then Some s3 else insertProtectionDevices i (pi_DeviceIPs input) s3) = Some s'"
    using assms by (auto simp: writeProtectionChildren_def bind_eq_Some_conv)
  note 1 = insert_lists_Some [OF 1]
  obtain al sq where 2: "s2 = s1\<lparr>protection_allow_entries := al, sqlite_sequence := sq\<rparr>"
      "map entry_pair al = map entry_pair (protection_allow_entries s1) @ map (Pair i) (pi_AllowDomains input)"
    using insert_allow_Some [OF 2] by blast
  obtain bl sq' where 3: "s3 = s2\<lparr>protection_block_entries := bl, sqlite_sequence := sq'\<rparr>"
      "map entry_pair bl = map entry_pair (protection_block_entries s2) @ map (Pair i) (pi_BlockDomains input)"
    using insert_block_Some [OF 3] by blast
  have dev: "device_of s3 ip = device_of s ip" for ip
    unfolding 3(1) 2(1) 1 by (rule children_device_of)
  have same: "device_protection_memberships s3 = device_protection_memberships s" "device_protection_assignments s3 = device_protection_assignments s"
    by (simp_all add: 1 2(1) 3(1))
  have "\<exists>m a. s' = s3\<lparr>device_protection_memberships := m, device_protection_assignments := a\<rparr> \<and>
     gm_get m = (\<lambda>d. if \<not> isDefault \<and> (\<exists>ip \<in> set (pi_DeviceIPs input). device_of s ip = Some d) then Some i
       else gm_get (device_protection_memberships s) d) \<and>
     gm_get a = (\<lambda>ip. if \<not> isDefault \<and> ip \<in> set (pi_DeviceIPs input) then Some i else gm_get (device_protection_assignments s) ip) \<and>
     (gm_wf (device_protection_memberships s) \<longrightarrow> gm_wf m) \<and> (gm_wf (device_protection_assignments s) \<longrightarrow> gm_wf a)"
  proof (cases isDefault)
    case True
    with 4 same show ?thesis
      by (auto intro!: exI [of _ "device_protection_memberships s"] exI [of _ "device_protection_assignments s"] simp flip: same)
  next
    case False
    with 4 insert_devices_Some [of i "pi_DeviceIPs input" s3 s', unfolded dev same] show ?thesis
      by simp
  qed
  then obtain m a where ma: "s' = s3\<lparr>device_protection_memberships := m, device_protection_assignments := a\<rparr>"
     "gm_get m = (\<lambda>d. if \<not> isDefault \<and> (\<exists>ip \<in> set (pi_DeviceIPs input). device_of s ip = Some d) then Some i
       else gm_get (device_protection_memberships s) d)"
     "gm_get a = (\<lambda>ip. if \<not> isDefault \<and> ip \<in> set (pi_DeviceIPs input) then Some i else gm_get (device_protection_assignments s) ip)"
     "gm_wf (device_protection_memberships s) \<longrightarrow> gm_wf m" "gm_wf (device_protection_assignments s) \<longrightarrow> gm_wf a"
    by blast
  have "s' = s\<lparr>protection_blocklists := protection_blocklists s @ map (Pair i) (pi_BlocklistIDs input), protection_allow_entries := al,
       protection_block_entries := bl, sqlite_sequence := sq', device_protection_memberships := m, device_protection_assignments := a\<rparr>"
    by (simp add: ma(1) 3(1) 2(1) 1)
  with ma 2(2) 3(2) show ?thesis
    unfolding children_written_def 3(1) 2(1) 1
    by (intro exI [of _ al] exI [of _ bl] exI [of _ sq'] exI [of _ m] exI [of _ a]) simp
qed

lemma writeProtectionChildren_ok:
  assumes "i \<in> profile_ids s" "distinct (pi_BlocklistIDs input)" "distinct (pi_AllowDomains input)" "distinct (pi_BlockDomains input)"
    "set (pi_BlocklistIDs input) \<subseteq> bl_id ` set (blocklists s)" "i \<notin> fst ` set (protection_blocklists s)"
    "i \<notin> pe_protection_id ` set (protection_allow_entries s)" "i \<notin> pe_protection_id ` set (protection_block_entries s)"
  shows "\<exists>s'. writeProtectionChildren stamp i isDefault input s = Some s'"
proof -
  have pairs: "Pair i ` set (pi_BlocklistIDs input) \<inter> set (protection_blocklists s) = {}"
    using assms(6) by force
  obtain s1 where 1: "insertProtectionBlocklists i (pi_BlocklistIDs input) s = Some s1"
    using insert_lists_ok [OF assms(1,2,5) pairs] by blast
  note e1 = insert_lists_Some [OF 1]
  obtain s2 where 2: "insertProtectionDomains Allow_Entries stamp i (pi_AllowDomains input) s1 = Some s2"
    using insert_domains_ok [of i s1 "pi_AllowDomains input" Allow_Entries] assms(1,3,7)
    by (fastforce simp: e1 profile_ids_def entry_pair_def)
  then obtain al sq where e2: "s2 = s1\<lparr>protection_allow_entries := al, sqlite_sequence := sq\<rparr>"
    using insert_allow_Some by blast
  obtain s3 where 3: "insertProtectionDomains Block_Entries stamp i (pi_BlockDomains input) s2 = Some s3"
    using insert_domains_ok [of i s2 "pi_BlockDomains input" Block_Entries] assms(1,4,8)
    by (fastforce simp: e1 e2 profile_ids_def entry_pair_def)
  then obtain bl sq' where e3: "s3 = s2\<lparr>protection_block_entries := bl, sqlite_sequence := sq'\<rparr>"
    using insert_block_Some by blast
  have "insertProtectionDevices i (pi_DeviceIPs input) s3 \<noteq> None"
    using assms(1) by (intro insert_devices_ok) (simp add: e1 e2 e3 profile_ids_def)
  with 1 2 3 show ?thesis
    by (cases isDefault) (auto simp: writeProtectionChildren_def)
qed

section \<open>Undoing an edit of a profile\<close>

definition protections_wf :: "Store \<Rightarrow> bool" where
  "protections_wf s \<longleftrightarrow> schema_wf s \<and>
     fst ` set (protection_blocklists s) \<subseteq> profile_ids s \<and> snd ` set (protection_blocklists s) \<subseteq> bl_id ` set (blocklists s) \<and>
     pe_protection_id ` set (protection_allow_entries s) \<subseteq> profile_ids s \<and>
     pe_protection_id ` set (protection_block_entries s) \<subseteq> profile_ids s \<and>
     sorted (map pp_id (protection_profiles s)) \<and> (\<forall>i \<in> profile_ids s. i < next_id ''protection_profiles'' s)"

text \<open>What the user sees of the profiles: their rows (here without the time of the last change), lists, domains and devices.\<close>

definition domain_pairs :: "entry_table \<Rightarrow> Store \<Rightarrow> (int \<times> string) set" where
  "domain_pairs t s = entry_pair ` set (entries_of t s)"

definition unstamped :: "protection_profile \<Rightarrow> protection_profile" where
  "unstamped p = p\<lparr>pp_updated_at := []\<rparr>"

definition same_setup :: "Store \<Rightarrow> Store \<Rightarrow> bool" where
  "same_setup s s' \<longleftrightarrow> map unstamped (protection_profiles s') = map unstamped (protection_profiles s) \<and>
     set (protection_blocklists s') = set (protection_blocklists s) \<and>
     domain_pairs Allow_Entries s' = domain_pairs Allow_Entries s \<and> domain_pairs Block_Entries s' = domain_pairs Block_Entries s \<and>
     gm_get (device_protection_memberships s') = gm_get (device_protection_memberships s)"

lemma restore_rows_ok:
  "distinct (map dp_DeviceID rs) \<Longrightarrow> dp_DeviceID ` set rs \<inter> fst ` set (device_protection_memberships s) = {} \<Longrightarrow>
   dp_DeviceID ` set rs \<subseteq> device_ids s \<Longrightarrow> dp_ProtectionID ` set rs \<subseteq> profile_ids s \<Longrightarrow>
   distinct (filter (\<lambda>x. x \<noteq> []) (map dp_ClientIP rs)) \<Longrightarrow> dp_ClientIP ` set rs \<inter> fst ` set (device_protection_assignments s) = {} \<Longrightarrow>
   restore_rows rs s = Some (s\<lparr>device_protection_memberships := device_protection_memberships s @ map (\<lambda>r. (dp_DeviceID r, dp_ProtectionID r)) rs,
     device_protection_assignments := device_protection_assignments s @
       map (\<lambda>r. (dp_ClientIP r, dp_ProtectionID r)) (filter (\<lambda>r. dp_ClientIP r \<noteq> []) rs)\<rparr>, ())"
proof (induction rs arbitrary: s)
  case (Cons r rs)
  let ?s1 = "s\<lparr>device_protection_memberships := device_protection_memberships s @ [(dp_DeviceID r, dp_ProtectionID r)],
        device_protection_assignments := device_protection_assignments s @
          (if dp_ClientIP r = [] then [] else [(dp_ClientIP r, dp_ProtectionID r)])\<rparr>"
  have free: "gm_get (device_protection_memberships s) (dp_DeviceID r) = None" "gm_get (device_protection_assignments s) (dp_ClientIP r) = None"
    using Cons.prems(2,6) by (auto simp: map_of_eq_None_iff)
  have 5: "dp_ClientIP r \<noteq> [] \<Longrightarrow> dp_ClientIP r \<notin> dp_ClientIP ` set rs"
    using Cons.prems(5) by auto
  have "restore_rows rs ?s1 = Some (?s1\<lparr>device_protection_memberships := device_protection_memberships ?s1 @ map (\<lambda>r. (dp_DeviceID r, dp_ProtectionID r)) rs,
     device_protection_assignments := device_protection_assignments ?s1 @
       map (\<lambda>r. (dp_ClientIP r, dp_ProtectionID r)) (filter (\<lambda>r. dp_ClientIP r \<noteq> []) rs)\<rparr>, ())"
    using Cons.prems 5 by (intro Cons.IH) (auto simp: device_ids_def profile_ids_def split: if_splits)
  then show ?case
    using Cons.prems(3,4) free by simp
qed simp

lemma newest_address_device:
  assumes "store_wf s" "newest_address d s \<noteq> []"
  shows "device_of s (newest_address d s) = Some d"
proof -
  obtain x where "newest_address d s = da_address x" "x \<in> set (device_addresses s)" "da_device_id x = d"
    using assms(2) hd_in_set [of "Addresses d s"] by (auto simp: newest_address_def Addresses_def split: list.splits)
  then show ?thesis
    using assms(1) by (auto simp: store_wf_def device_of_iff)
qed

lemma distinct_filter_map:
  assumes "distinct xs" "\<And>x y. x \<in> set xs \<Longrightarrow> y \<in> set xs \<Longrightarrow> f x = f y \<Longrightarrow> P (f x) \<Longrightarrow> x = y"
  shows "distinct (filter P (map f xs))"
  using assms by (auto simp: filter_map distinct_map inj_on_def)

lemma assignments_tx_ok:
  assumes "schema_wf s0" "set (gm_keys (device_protection_memberships s0)) \<subseteq> device_ids s" "profile_ids s0 \<subseteq> profile_ids s"
  shows "\<exists>m as. assignments_tx (assignment_rows s0) s = Some (s\<lparr>device_protection_memberships := m, device_protection_assignments := as\<rparr>, ()) \<and>
    gm_get m = gm_get (device_protection_memberships s0) \<and>
    (\<forall>ip. gm_get as ip \<noteq> None \<longrightarrow> (\<exists>d. gm_get (device_protection_memberships s0) d \<noteq> None \<and> ip = newest_address d s0))"
proof -
  let ?ms = "sort_key fst (device_protection_memberships s0)"
  let ?s = "s\<lparr>device_protection_memberships := [], device_protection_assignments := []\<rparr>"
  have wf: "store_wf s0" "gm_wf (device_protection_memberships s0)" "snd ` set (device_protection_memberships s0) \<subseteq> profile_ids s0"
    using assms(1) by (auto simp: schema_wf_def store_wf_def profile_ids_def)
  have keys: "distinct (map fst ?ms)" "distinct ?ms"
    using wf(2) by (simp_all add: gm_wf_def distinct_map)
  have inj: "x = y" if "x \<in> set ?ms" "y \<in> set ?ms" "newest_address (fst x) s0 = newest_address (fst y) s0" "newest_address (fst x) s0 \<noteq> []" for x y
  proof -
    have "fst x = fst y"
      using newest_address_device [OF wf(1)] that(3,4) by (metis option.inject)
    then show ?thesis
      using keys(1) that(1,2) by (metis distinct_map inj_onD)
  qed
  have "restore_rows (assignment_rows s0) ?s = Some (?s\<lparr>
      device_protection_memberships := device_protection_memberships ?s @ map (\<lambda>r. (dp_DeviceID r, dp_ProtectionID r)) (assignment_rows s0),
      device_protection_assignments := device_protection_assignments ?s @
        map (\<lambda>r. (dp_ClientIP r, dp_ProtectionID r)) (filter (\<lambda>r. dp_ClientIP r \<noteq> []) (assignment_rows s0))\<rparr>, ())"
  proof (rule restore_rows_ok)
    show "distinct (map dp_DeviceID (assignment_rows s0))"
      using keys(1) by (simp add: assignment_rows_def comp_def split_def)
    show "dp_DeviceID ` set (assignment_rows s0) \<subseteq> device_ids ?s"
      using assms(2) by (auto simp: assignment_rows_def device_ids_def)
    show "dp_ProtectionID ` set (assignment_rows s0) \<subseteq> profile_ids ?s"
      using wf(3) assms(3) by (fastforce simp: assignment_rows_def profile_ids_def)
    show "distinct (filter (\<lambda>x. x \<noteq> []) (map dp_ClientIP (assignment_rows s0)))"
      using distinct_filter_map [OF keys(2), of "\<lambda>x. newest_address (fst x) s0" "\<lambda>x. x \<noteq> []"] inj
      by (simp add: assignment_rows_def comp_def split_def)
  qed simp_all
  moreover have "map (\<lambda>r. (dp_DeviceID r, dp_ProtectionID r)) (assignment_rows s0) = ?ms"
    by (simp add: assignment_rows_def comp_def split_def)
  moreover have "gm_get ?ms = gm_get (device_protection_memberships s0)"
    using map_of_inject_set [OF keys(1)] wf(2) by (simp add: gm_wf_def)
  moreover have "\<exists>d. gm_get (device_protection_memberships s0) d \<noteq> None \<and> ip = newest_address d s0"
    if "gm_get (map (\<lambda>r. (dp_ClientIP r, dp_ProtectionID r)) (filter (\<lambda>r. dp_ClientIP r \<noteq> []) (assignment_rows s0))) ip \<noteq> None" for ip
    using that unfolding map_of_eq_None_iff by (auto simp: assignment_rows_def) (force simp flip: gm_keys_get)
  ultimately show ?thesis
    by (simp add: assignments_tx_def) blast
qed

text \<open>The rows of the other profiles, and the snapshot of a profile.\<close>

definition others_kept :: "int \<Rightarrow> Store \<Rightarrow> Store \<Rightarrow> bool" where
  "others_kept i s s' \<longleftrightarrow> blocklists s' = blocklists s \<and>
     filter (\<lambda>(p, _). p \<noteq> i) (protection_blocklists s') = filter (\<lambda>(p, _). p \<noteq> i) (protection_blocklists s) \<and>
     (\<forall>t. filter (\<lambda>(p, _). p \<noteq> i) (map entry_pair (entries_of t s')) = filter (\<lambda>(p, _). p \<noteq> i) (map entry_pair (entries_of t s)))"

definition snapshot_of :: "int \<Rightarrow> protection_profile \<Rightarrow> Store \<Rightarrow> protectionSnapshot" where
  "snapshot_of i p s = \<lparr>ps_ID = pp_id p, ps_Name = pp_name p, ps_Icon = pp_icon p, ps_IsDefault = pp_is_default p, ps_CreatedAt = pp_created_at p,
     ps_UpdatedAt = pp_updated_at p, ps_PausedUntil = pp_paused_until p,
     ps_Input = \<lparr>pi_Name = pp_name p, pi_Icon = pp_icon p, pi_BlocklistIDs = list_ids i s, pi_AllowDomains = entry_domains Allow_Entries i s,
       pi_BlockDomains = entry_domains Block_Entries i s, pi_DeviceIPs = protection_clients s i, pi_Schedule = pp_schedule p\<rparr>\<rparr>"

lemma snapshot_row_of [simp]: "snapshot_row (snapshot_of i p s) = p" "ps_ID (snapshot_of i p s) = pp_id p" "ps_IsDefault (snapshot_of i p s) = pp_is_default p"
  by (simp_all add: snapshot_row_def snapshot_of_def)

lemma upsert_restores:
  assumes "protections_wf s0" "p \<in> set (protection_profiles s0)"
    "(\<exists>g. (\<forall>x. pp_id (g x) = pp_id x) \<and> protection_profiles s = map (\<lambda>x. if pp_id x = pp_id p then g x else x) (protection_profiles s0)) \<or>
     protection_profiles s = filter (\<lambda>x. pp_id x \<noteq> pp_id p) (protection_profiles s0)"
  shows "upsert_profile p s = Some (s\<lparr>protection_profiles := protection_profiles s0\<rparr>)"
proof -
  have wf: "distinct (map pp_id (protection_profiles s0))" "distinct (map (\<lambda>p. map lower_char (pp_name p)) (protection_profiles s0))"
      "length (filter pp_is_default (protection_profiles s0)) \<le> 1" "sorted (map pp_id (protection_profiles s0))"
    using assms(1) by (simp_all add: protections_wf_def schema_wf_def store_wf_def)
  have other: "x \<in> set (protection_profiles s0)" if "x \<in> set (protection_profiles s)" "pp_id x \<noteq> pp_id p" for x
    using assms(3) that by (auto split: if_splits)
  have "\<not> name_taken (pp_id p) (pp_name p) s"
    using other assms(2) wf(2) by (auto simp: name_taken_def list_ex_iff distinct_map dest: inj_onD)
  moreover have "\<not> (pp_is_default p \<and> list_ex (\<lambda>x. pp_id x \<noteq> pp_id p \<and> pp_is_default x) (protection_profiles s))"
  proof
    assume d: "pp_is_default p \<and> list_ex (\<lambda>x. pp_id x \<noteq> pp_id p \<and> pp_is_default x) (protection_profiles s)"
    then obtain x where "x \<in> set (protection_profiles s)" "pp_id x \<noteq> pp_id p" "pp_is_default x"
      by (auto simp: list_ex_iff)
    then have "{p, x} \<subseteq> set (filter pp_is_default (protection_profiles s0))" "p \<noteq> x"
      using d other assms(2) by auto
    then have "2 \<le> length (filter pp_is_default (protection_profiles s0))"
      using card_mono [of "set (filter pp_is_default (protection_profiles s0))" "{p, x}"] card_length [of "filter pp_is_default (protection_profiles s0)"]
      by simp
    with wf(3) show False
      by simp
  qed
  moreover have "(if pp_id p \<in> profile_ids s then map (\<lambda>x. if pp_id x = pp_id p then p else x) (protection_profiles s)
      else insort_key pp_id p (protection_profiles s)) = protection_profiles s0"
    using assms(3)
  proof
    assume "\<exists>g. (\<forall>x. pp_id (g x) = pp_id x) \<and> protection_profiles s = map (\<lambda>x. if pp_id x = pp_id p then g x else x) (protection_profiles s0)"
    then obtain g where g: "\<And>x. pp_id (g x) = pp_id x" "protection_profiles s = map (\<lambda>x. if pp_id x = pp_id p then g x else x) (protection_profiles s0)"
      by auto
    have "map pp_id (protection_profiles s) = map pp_id (protection_profiles s0)"
      by (simp add: g)
    then have "profile_ids s = profile_ids s0"
      by (metis profile_ids_def set_map)
    then have "pp_id p \<in> profile_ids s"
      using assms(2) by (simp add: profile_ids_def)
    then show ?thesis
      using map_replace_id [OF wf(1) assms(2), of g] g by simp
  next
    assume f: "protection_profiles s = filter (\<lambda>x. pp_id x \<noteq> pp_id p) (protection_profiles s0)"
    then have "pp_id p \<notin> profile_ids s"
      by (auto simp: profile_ids_def)
    then show ?thesis
      using insort_removed [OF wf(4,1) assms(2)] f by simp
  qed
  ultimately show ?thesis
    by (auto simp: upsert_profile_def)
qed

lemma filter_entry_pairs: "map entry_pair (filter (\<lambda>e. pe_protection_id e \<noteq> i) es) = filter (\<lambda>(p, _). p \<noteq> i) (map entry_pair es)"
  by (simp add: filter_map comp_def entry_pair_def)

lemma clear_entries: "map entry_pair (entries_of t (clearProtectionChildren i s)) = filter (\<lambda>(p, _). p \<noteq> i) (map entry_pair (entries_of t s))"
  by (cases t) (simp_all add: clearProtectionChildren_def filter_entry_pairs)

lemma split_pairs: "set (filter (\<lambda>(p, _). p \<noteq> i) (map entry_pair (entries_of t s))) \<union> Pair i ` set (entry_domains t i s) = domain_pairs t s"
  by (force simp: domain_pairs_def entry_domains_def entry_pair_def)

lemma split_lists: "set (filter (\<lambda>(p, _). p \<noteq> i) (protection_blocklists s)) \<union> Pair i ` set (list_ids i s) = set (protection_blocklists s)"
  by (force simp: list_ids_def)

lemma children_written_sets:
  assumes "children_written i isDefault input s s'"
  shows "set (protection_blocklists s') = set (protection_blocklists s) \<union> Pair i ` set (pi_BlocklistIDs input)"
    "domain_pairs Allow_Entries s' = set (map entry_pair (protection_allow_entries s)) \<union> Pair i ` set (pi_AllowDomains input)"
    "domain_pairs Block_Entries s' = set (map entry_pair (protection_block_entries s)) \<union> Pair i ` set (pi_BlockDomains input)"
    "protection_profiles s' = protection_profiles s" "device_ids s' = device_ids s" "blocklists s' = blocklists s" "device_of s' ip = device_of s ip"
    "protection_blocklists s' = protection_blocklists s @ map (Pair i) (pi_BlocklistIDs input)"
    "map entry_pair (protection_allow_entries s') = map entry_pair (protection_allow_entries s) @ map (Pair i) (pi_AllowDomains input)"
    "map entry_pair (protection_block_entries s') = map entry_pair (protection_block_entries s) @ map (Pair i) (pi_BlockDomains input)"
proof -
  obtain al bl sq m a where s': "s' = s\<lparr>protection_blocklists := protection_blocklists s @ map (Pair i) (pi_BlocklistIDs input), protection_allow_entries := al,
       protection_block_entries := bl, sqlite_sequence := sq, device_protection_memberships := m, device_protection_assignments := a\<rparr>"
     and al: "map entry_pair al = map entry_pair (protection_allow_entries s) @ map (Pair i) (pi_AllowDomains input)"
     and bl: "map entry_pair bl = map entry_pair (protection_block_entries s) @ map (Pair i) (pi_BlockDomains input)"
    using assms unfolding children_written_def by auto
  show "domain_pairs Allow_Entries s' = set (map entry_pair (protection_allow_entries s)) \<union> Pair i ` set (pi_AllowDomains input)"
    using arg_cong [OF al, of set] by (simp add: domain_pairs_def s')
  show "domain_pairs Block_Entries s' = set (map entry_pair (protection_block_entries s)) \<union> Pair i ` set (pi_BlockDomains input)"
    using arg_cong [OF bl, of set] by (simp add: domain_pairs_def s')
qed (use assms in \<open>auto simp: children_written_def device_ids_def device_of_def\<close>)

lemma children_written_maps:
  assumes "children_written i isDefault input s s'"
  shows "gm_get (device_protection_memberships s') d = (if \<not> isDefault \<and> (\<exists>ip \<in> set (pi_DeviceIPs input). device_of s ip = Some d) then Some i
       else gm_get (device_protection_memberships s) d)"
    "gm_get (device_protection_assignments s') ip = (if \<not> isDefault \<and> ip \<in> set (pi_DeviceIPs input) then Some i else gm_get (device_protection_assignments s) ip)"
proof -
  obtain x al bl sq m a where s': "s' = s\<lparr>protection_blocklists := x, protection_allow_entries := al, protection_block_entries := bl,
       sqlite_sequence := sq, device_protection_memberships := m, device_protection_assignments := a\<rparr>"
     and m: "gm_get m = (\<lambda>d. if \<not> isDefault \<and> (\<exists>ip \<in> set (pi_DeviceIPs input). device_of s ip = Some d) then Some i
       else gm_get (device_protection_memberships s) d)"
     and a: "gm_get a = (\<lambda>ip. if \<not> isDefault \<and> ip \<in> set (pi_DeviceIPs input) then Some i else gm_get (device_protection_assignments s) ip)"
    using assms unfolding children_written_def by (elim exE conjE)
  have fields: "device_protection_memberships s' = m" "device_protection_assignments s' = a"
    by (simp_all add: s')
  show "gm_get (device_protection_memberships s') d = (if \<not> isDefault \<and> (\<exists>ip \<in> set (pi_DeviceIPs input). device_of s ip = Some d) then Some i
       else gm_get (device_protection_memberships s) d)"
    using fun_cong [OF m, of d] fields(1) by (simp only:)
  show "gm_get (device_protection_assignments s') ip = (if \<not> isDefault \<and> ip \<in> set (pi_DeviceIPs input) then Some i else gm_get (device_protection_assignments s) ip)"
    using fun_cong [OF a, of ip] fields(2) by (simp only:)
qed

lemma restore_tx_ok:
  assumes "protections_wf s0" "p \<in> set (protection_profiles s0)" "others_kept (pp_id p) s0 s"
    "(\<exists>g. (\<forall>x. pp_id (g x) = pp_id x) \<and> protection_profiles s = map (\<lambda>x. if pp_id x = pp_id p then g x else x) (protection_profiles s0)) \<or>
     protection_profiles s = filter (\<lambda>x. pp_id x \<noteq> pp_id p) (protection_profiles s0)"
  shows "\<exists>s'. restore_tx stamp (snapshot_of (pp_id p) p s0) s = Some (s', ()) \<and> protection_profiles s' = protection_profiles s0 \<and>
    set (protection_blocklists s') = set (protection_blocklists s0) \<and> domain_pairs Allow_Entries s' = domain_pairs Allow_Entries s0 \<and>
    domain_pairs Block_Entries s' = domain_pairs Block_Entries s0 \<and> device_ids s' = device_ids s"
proof -
  define i where "i = pp_id p"
  define s2 where "s2 = clearProtectionChildren i (s\<lparr>protection_profiles := protection_profiles s0\<rparr>)"
  define input where "input = ps_Input (snapshot_of i p s0)"
  have wf: "distinct (protection_blocklists s0)" "distinct (map entry_pair (protection_allow_entries s0))" "distinct (map entry_pair (protection_block_entries s0))"
    using assms(1) by (auto simp: protections_wf_def schema_wf_def store_wf_def entry_pair_def [abs_def])
  have fields: "pi_BlocklistIDs input = list_ids i s0" "pi_AllowDomains input = entry_domains Allow_Entries i s0" "pi_BlockDomains input = entry_domains Block_Entries i s0"
    by (simp_all add: input_def snapshot_of_def)
  have lists: "protection_blocklists s2 = filter (\<lambda>(p, _). p \<noteq> i) (protection_blocklists s0)" "blocklists s2 = blocklists s0"
    using assms(3) by (simp_all add: s2_def clearProtectionChildren_def others_kept_def i_def)
  have entries: "map entry_pair (entries_of t s2) = filter (\<lambda>(p, _). p \<noteq> i) (map entry_pair (entries_of t s0))" for t
  proof -
    have "entries_of t (s\<lparr>protection_profiles := protection_profiles s0\<rparr>) = entries_of t s"
      by (cases t) simp_all
    then show ?thesis
      using assms(3) by (simp add: s2_def clear_entries others_kept_def i_def)
  qed
  have domains: "distinct (entry_domains t i s0)" if "distinct (map entry_pair (entries_of t s0))" for t
    using that by (auto simp: entry_domains_def entry_pair_def distinct_map inj_on_def)
  have "\<exists>s'. writeProtectionChildren stamp i (pp_is_default p) input s2 = Some s'"
  proof (rule writeProtectionChildren_ok)
    show "i \<in> profile_ids s2"
      using assms(2) by (simp add: profile_ids_def s2_def clearProtectionChildren_def i_def)
    show "distinct (pi_BlocklistIDs input)"
      using wf(1) by (auto simp: fields list_ids_def distinct_map inj_on_def)
    show "distinct (pi_AllowDomains input)" "distinct (pi_BlockDomains input)"
      using domains [of Allow_Entries] domains [of Block_Entries] wf(2,3) by (simp_all add: fields)
    show "set (pi_BlocklistIDs input) \<subseteq> bl_id ` set (blocklists s2)"
      using assms(1) by (force simp: fields lists list_ids_def protections_wf_def)
    show "i \<notin> fst ` set (protection_blocklists s2)"
      by (auto simp: lists)
    show "i \<notin> pe_protection_id ` set (protection_allow_entries s2)" "i \<notin> pe_protection_id ` set (protection_block_entries s2)"
      by (auto simp: s2_def clearProtectionChildren_def)
  qed
  then obtain s' where w: "writeProtectionChildren stamp i (pp_is_default p) input s2 = Some s'"
    by blast
  note c = children_written_sets [OF writeProtectionChildren_Some [OF w]]
  have "restore_tx stamp (snapshot_of i p s0) s = Some (s', ())"
    using w upsert_restores [OF assms(1,2,4)] by (simp add: restore_tx_def i_def input_def s2_def)
  moreover have "set (protection_blocklists s') = set (protection_blocklists s0)"
    using split_lists [of i s0] c(1) by (simp add: lists fields)
  moreover have "domain_pairs Allow_Entries s' = domain_pairs Allow_Entries s0" "domain_pairs Block_Entries s' = domain_pairs Block_Entries s0"
    using split_pairs [of i Allow_Entries s0] split_pairs [of i Block_Entries s0] c(2,3) entries [of Allow_Entries] entries [of Block_Entries]
    by (simp_all add: fields del: set_map)
  moreover have "protection_profiles s' = protection_profiles s0" "device_ids s' = device_ids s"
    using c(4,5) by (simp_all add: s2_def clearProtectionChildren_def device_ids_def)
  ultimately show ?thesis
    by (auto simp: i_def)
qed

lemma others_kept_observed: "same_profiles s0 s1 \<Longrightarrow> others_kept i s1 s2 \<Longrightarrow> others_kept i s0 s2"
proof -
  assume a: "same_profiles s0 s1" "others_kept i s1 s2"
  have "entries_of t s1 = entries_of t s0" for t
    using a(1) by (cases t) (simp_all add: same_profiles_def)
  with a show ?thesis
    by (simp add: others_kept_def same_profiles_def)
qed

lemma filter_own_pairs [simp]: "filter (\<lambda>(p, _). p \<noteq> i) (map (Pair i) xs) = []"
  by (simp add: filter_empty_conv)

lemma delete_profile_others: "others_kept i s (delete_profile i s)"
proof -
  have "map entry_pair (entries_of t (delete_profile i s)) = filter (\<lambda>(p, _). p \<noteq> i) (map entry_pair (entries_of t s))" for t
    using clear_entries [of t i s] by (cases t) (simp_all add: delete_profile_def)
  then show ?thesis
    by (simp add: others_kept_def delete_profile_def clearProtectionChildren_def)
qed

lemma replace_tx_effect:
  assumes "replace_tx stamp i isDefault input s = Some (s', x)"
  shows "others_kept i s s'" "device_ids s' = device_ids s"
    "protection_profiles s' = map (\<lambda>p. if pp_id p = i
       then p\<lparr>pp_name := pi_Name input, pp_icon := pi_Icon input, pp_schedule := pi_Schedule input, pp_updated_at := stamp\<rparr> else p) (protection_profiles s)"
    "children_written i isDefault input (clearProtectionChildren i (s\<lparr>protection_profiles := protection_profiles s'\<rparr>)) s'"
    "\<not> (i \<in> profile_ids s \<and> name_taken i (pi_Name input) s)"
proof -
  obtain s1 where s1: "update_profile stamp i input s = Some s1" "writeProtectionChildren stamp i isDefault input (clearProtectionChildren i s1) = Some s'"
    using assms by (auto simp: replace_tx_def bind_eq_Some_conv)
  let ?f = "\<lambda>p. if pp_id p = i then p\<lparr>pp_name := pi_Name input, pp_icon := pi_Icon input, pp_schedule := pi_Schedule input, pp_updated_at := stamp\<rparr> else p"
  have e1: "s1 = s\<lparr>protection_profiles := map ?f (protection_profiles s)\<rparr>"
    using s1(1) by (auto simp: update_profile_def split: if_splits)
  note w = writeProtectionChildren_Some [OF s1(2)]
  note c = children_written_sets [OF w]
  have entries: "entries_of t s1 = entries_of t s" for t
    by (cases t) (simp_all add: e1)
  have "filter (\<lambda>(p, _). p \<noteq> i) (map entry_pair (entries_of t s')) = filter (\<lambda>(p, _). p \<noteq> i) (map entry_pair (entries_of t s))" for t
    using c(9,10) clear_entries [of Allow_Entries i s1] clear_entries [of Block_Entries i s1] entries [of Allow_Entries] entries [of Block_Entries]
    by (cases t) simp_all
  then show "others_kept i s s'"
    using c(6,8) by (simp add: others_kept_def clearProtectionChildren_def e1)
  show "device_ids s' = device_ids s"
    using c(5) by (simp add: clearProtectionChildren_def e1 device_ids_def)
  show p: "protection_profiles s' = map ?f (protection_profiles s)"
    using c(4) by (simp add: clearProtectionChildren_def e1)
  show "children_written i isDefault input (clearProtectionChildren i (s\<lparr>protection_profiles := protection_profiles s'\<rparr>)) s'"
    using w by (simp only: e1 p)
  show "\<not> (i \<in> profile_ids s \<and> name_taken i (pi_Name input) s)"
    using s1(1) by (auto simp: update_profile_def split: if_splits)
qed

lemma insert_tx_effect:
  assumes "insert_tx stamp input s = Some (s', i)"
  shows "i = next_id ''protection_profiles'' s" "\<not> name_taken i (pi_Name input) s" "device_ids s' = device_ids s"
    "\<exists>sq. children_written i False input (s\<lparr>protection_profiles := protection_profiles s @
        [\<lparr>pp_id = i, pp_name = pi_Name input, pp_is_default = False, pp_paused_until = [], pp_schedule = pi_Schedule input,
          pp_icon = pi_Icon input, pp_created_at = stamp, pp_updated_at = stamp\<rparr>], sqlite_sequence := sq\<rparr>) s'"
proof -
  obtain s1 where s1: "insert_profile stamp input s = Some s1" "writeProtectionChildren stamp i False input s1 = Some s'" and i: "i = next_id ''protection_profiles'' s"
    using assms by (auto simp: insert_tx_def Let_def bind_eq_Some_conv)
  show "i = next_id ''protection_profiles'' s" "\<not> name_taken i (pi_Name input) s"
    using i s1(1) by (auto simp: insert_profile_def Let_def split: if_splits)
  note w = writeProtectionChildren_Some [OF s1(2)]
  have e1: "s1 = s\<lparr>protection_profiles := protection_profiles s @
        [\<lparr>pp_id = i, pp_name = pi_Name input, pp_is_default = False, pp_paused_until = [], pp_schedule = pi_Schedule input,
          pp_icon = pi_Icon input, pp_created_at = stamp, pp_updated_at = stamp\<rparr>], sqlite_sequence := sqlite_sequence s1\<rparr>"
    using s1(1) i by (auto simp: insert_profile_def Let_def bump_def split: if_splits)
  show "\<exists>sq. children_written i False input (s\<lparr>protection_profiles := protection_profiles s @
        [\<lparr>pp_id = i, pp_name = pi_Name input, pp_is_default = False, pp_paused_until = [], pp_schedule = pi_Schedule input,
          pp_icon = pi_Icon input, pp_created_at = stamp, pp_updated_at = stamp\<rparr>], sqlite_sequence := sq\<rparr>) s'"
    using w by (subst (asm) e1) blast
  have "device_ids s1 = device_ids s"
    by (subst e1) (simp add: device_ids_def)
  then show "device_ids s' = device_ids s"
    using children_written_sets(5) [OF w] by simp
qed

lemma fresh_profile:
  assumes "protections_wf s0" "same_profiles s0 s" "i = next_id ''protection_profiles'' s"
  shows "i \<notin> profile_ids s0" "i \<notin> fst ` set (protection_blocklists s)" "i \<notin> fst ` set (map entry_pair (entries_of t s))"
proof -
  have i: "i = next_id ''protection_profiles'' s0"
    using assms(2,3) by (simp add: same_profiles_def)
  then show "i \<notin> profile_ids s0"
    using assms(1) by (auto simp: protections_wf_def)
  then show "i \<notin> fst ` set (protection_blocklists s)"
    using assms(1,2) by (auto simp: protections_wf_def same_profiles_def)
  show "i \<notin> fst ` set (map entry_pair (entries_of t s))"
    using \<open>i \<notin> profile_ids s0\<close> assms(1,2) by (cases t) (auto simp: protections_wf_def same_profiles_def entry_pair_def)
qed

lemma delete_created:
  assumes "protections_wf s0" "same_profiles s0 s1" "insert_tx stamp input s1 = Some (s2, i)"
  shows "protection_profiles (delete_profile i s2) = protection_profiles s0"
    "set (protection_blocklists (delete_profile i s2)) = set (protection_blocklists s0)"
    "domain_pairs t (delete_profile i s2) = domain_pairs t s0" "device_ids (delete_profile i s2) = device_ids s2"
proof -
  note e = insert_tx_effect [OF assms(3)]
  note fresh = fresh_profile [OF assms(1,2) e(1)]
  obtain sq where "children_written i False input (s1\<lparr>protection_profiles := protection_profiles s1 @
        [\<lparr>pp_id = i, pp_name = pi_Name input, pp_is_default = False, pp_paused_until = [], pp_schedule = pi_Schedule input,
          pp_icon = pi_Icon input, pp_created_at = stamp, pp_updated_at = stamp\<rparr>], sqlite_sequence := sq\<rparr>) s2"
    using e(4) by blast
  note c = children_written_sets [OF this]
  have p0: "protection_profiles s1 = protection_profiles s0"
    using assms(2) by (simp add: same_profiles_def)
  show "protection_profiles (delete_profile i s2) = protection_profiles s0"
    using c(4) fresh(1) by (auto simp: delete_profile_def p0 profile_ids_def filter_id_conv)
  show "set (protection_blocklists (delete_profile i s2)) = set (protection_blocklists s0)"
    using c(8) fresh(2) assms(2) by (force simp: delete_profile_def clearProtectionChildren_def same_profiles_def)
  have keep: "filter (\<lambda>(p, _). p \<noteq> i) (map entry_pair (entries_of t s1)) = map entry_pair (entries_of t s1)" for t
    using fresh_profile(3) [OF assms(1,2) e(1), of t] by (force simp: filter_id_conv)
  have "map entry_pair (entries_of t (delete_profile i s2)) = map entry_pair (entries_of t s1)"
    using c(9,10) clear_entries [of t i s2] keep [of Allow_Entries] keep [of Block_Entries] by (cases t) (simp_all add: delete_profile_def)
  then have "domain_pairs t (delete_profile i s2) = domain_pairs t s1"
    by (metis domain_pairs_def set_map)
  moreover have "entries_of t s1 = entries_of t s0"
    using assms(2) by (cases t) (simp_all add: same_profiles_def)
  ultimately show "domain_pairs t (delete_profile i s2) = domain_pairs t s0"
    by (simp add: domain_pairs_def)
  show "device_ids (delete_profile i s2) = device_ids s2"
    by (simp add: delete_profile_def clearProtectionChildren_def device_ids_def)
qed

section \<open>Requests on a database that answers\<close>

definition all_answer :: "edit_env \<Rightarrow> bool" where
  "all_answer env \<longleftrightarrow> (\<forall>n. sq_fails (ed_sql env) n = None)"

lemma answered:
  assumes "all_answer env"
  shows "query (ed_sql env) f a = (a\<lparr>ar_calls := Suc (ar_calls a)\<rparr>, Inr (f (ar_store a)))"
    "read_rows (ed_sql env) g a = (a\<lparr>ar_calls := Suc (ar_calls a)\<rparr>, g (ar_store a))"
    "exec (ed_sql env) (\<lambda>s. (h s, ())) a = (a\<lparr>ar_calls := Suc (ar_calls a), ar_store := h (ar_store a)\<rparr>, Inr ())"
    "exec_checked (ed_sql env) k a = (case k (ar_store a) of
       None \<Rightarrow> (a\<lparr>ar_calls := Suc (ar_calls a)\<rparr>, Inl (Sql_Error False ''constraint failed''))
     | Some (s', r) \<Rightarrow> (a\<lparr>ar_calls := Suc (ar_calls a), ar_store := s'\<rparr>, Inr r))"
  using assms by (auto simp: all_answer_def query_def exec_def exec_checked_def read_rows_def Let_def split: option.splits)

lemma readProtection_answered:
  assumes "all_answer env" "readProtection (ed_sql env) i a = (a1, r)"
  shows "ar_store a1 = ar_store a" "r = (case find_profile i (ar_store a) of None \<Rightarrow> Inl Bad_Request | Some p \<Rightarrow> Inr (snapshot_of i p (ar_store a)))"
  using assms(2) by (auto simp: readProtection_def answered [OF assms(1)] snapshot_of_def split: option.splits)

lemma find_profile_Some: "find_profile i s = Some p \<Longrightarrow> p \<in> set (protection_profiles s) \<and> pp_id p = i"
  unfolding find_profile_def by (drule find_Some_in) simp

lemma lists_installed_keeps: "lists_installed q ids a = (a', ok) \<Longrightarrow> ar_store a' = ar_store a"
proof (induction q ids a rule: lists_installed.induct)
  case (2 q i ids a)
  obtain a1 r where q: "query q (\<lambda>s. list_ex (\<lambda>b. bl_id b = i) (blocklists s)) a = (a1, r)"
    by fastforce
  then show ?case
    using "2.IH" [OF q [symmetric]] "2.prems" query_result [OF q] by (auto split: sum.splits bool.splits)
qed simp

lemma normalizeProtectionInput_keeps: "normalizeProtectionInput q input a = (a', r) \<Longrightarrow> ar_store a' = ar_store a"
  by (auto simp: normalizeProtectionInput_def normalizeProtectionBlocklists_def Let_def split: if_splits prod.splits option.splits
      dest: lists_installed_keeps)

lemma resolveProtectionDevices_keeps:
  "schema_wf (ar_store a) \<Longrightarrow> resolveProtectionDevices env ips a = (a', ok) \<Longrightarrow>
   schema_wf (ar_store a') \<and> same_profiles (ar_store a) (ar_store a') \<and> joins (ar_store a) (ar_store a')"
proof (induction env ips a rule: resolveProtectionDevices.induct)
  case (1 env a)
  then show ?case
    by (simp add: same_profiles_refl joins_refl)
next
  case (2 env x ips a)
  obtain s1 r where o: "ObserveAddress (ed_obs env (ar_calls a)) x ''assignment'' [] (ar_store a) = (s1, r)"
    by fastforce
  let ?a1 = "a\<lparr>ar_store := s1, ar_calls := Suc (ar_calls a)\<rparr>"
  have d: "resolve_device env x a = (?a1, r)"
    by (simp add: resolve_device_def ResolveAddress_def o)
  note k = observe_joins [OF "2.prems"(1) o] observe_same_profiles [OF o]
  show ?case
  proof (cases r)
    case (Inl e)
    with "2.prems"(2) d k show ?thesis
      by auto
  next
    case (Inr x')
    with "2.prems"(2) d have "resolveProtectionDevices env ips ?a1 = (a', ok)"
      by simp
    with "2.IH" [OF d [symmetric] Inr] k show ?thesis
      using same_profiles_trans joins_trans by fastforce
  qed
qed

lemma restore_rows_devices: "restore_rows rs s = Some (s', x) \<Longrightarrow> device_ids s' = device_ids s"
proof (induction rs arbitrary: s)
  case (Cons r rs)
  then show ?case
    by (fastforce simp: device_ids_def split: if_splits)
qed simp

lemma undo_create_answered:
  assumes "all_answer env" "protections_wf s0" "same_profiles s0 s1" "insert_tx stamp input s1 = Some (ar_store a, i)"
    "set (gm_keys (device_protection_memberships s0)) \<subseteq> device_ids (ar_store (undo_create env i (assignment_rows s0) a))"
  shows "same_setup s0 (ar_store (undo_create env i (assignment_rows s0) a)) \<and>
    protection_profiles (ar_store (undo_create env i (assignment_rows s0) a)) = protection_profiles s0"
proof -
  let ?s3 = "delete_profile i (ar_store a)"
  note d = delete_created [OF assms(2-4)]
  have s: "ar_store (undo_create env i rs a) = (case assignments_tx rs ?s3 of None \<Rightarrow> ?s3 | Some (s', _) \<Rightarrow> s')" for rs
    by (simp add: undo_create_def restoreDeviceProtectionAssignments_def answered [OF assms(1)] split: option.splits prod.splits)
  have keep: "device_ids (case assignments_tx rs ?s3 of None \<Rightarrow> ?s3 | Some (s', _) \<Rightarrow> s') = device_ids ?s3" for rs
    by (auto simp: assignments_tx_def device_ids_def dest!: restore_rows_devices split: option.splits)
  have "set (gm_keys (device_protection_memberships s0)) \<subseteq> device_ids ?s3"
    using assms(5) unfolding s keep .
  moreover have "profile_ids s0 \<subseteq> profile_ids ?s3"
    using d(1) by (simp add: profile_ids_def)
  ultimately obtain m as where t: "assignments_tx (assignment_rows s0) ?s3 = Some (?s3\<lparr>device_protection_memberships := m, device_protection_assignments := as\<rparr>, ())"
      "gm_get m = gm_get (device_protection_memberships s0)"
    using assignments_tx_ok [of s0 ?s3] assms(2) by (auto simp: protections_wf_def)
  show ?thesis
    using d(1,2) d(3) [of Allow_Entries] d(3) [of Block_Entries] t by (simp add: s same_setup_def domain_pairs_def)
qed

lemma undo_change_answered:
  assumes "all_answer env" "protections_wf s0" "find_profile i s0 = Some p" "others_kept i s0 (ar_store a)"
    "(\<exists>g. (\<forall>x. pp_id (g x) = pp_id x) \<and> protection_profiles (ar_store a) = map (\<lambda>x. if pp_id x = i then g x else x) (protection_profiles s0)) \<or>
     protection_profiles (ar_store a) = filter (\<lambda>x. pp_id x \<noteq> i) (protection_profiles s0)"
    "set (gm_keys (device_protection_memberships s0)) \<subseteq> device_ids (ar_store (undo_change env (snapshot_of i p s0) (assignment_rows s0) a))"
  shows "same_setup s0 (ar_store (undo_change env (snapshot_of i p s0) (assignment_rows s0) a)) \<and>
    protection_profiles (ar_store (undo_change env (snapshot_of i p s0) (assignment_rows s0) a)) = protection_profiles s0"
proof -
  have p: "p \<in> set (protection_profiles s0)" "pp_id p = i"
    using find_profile_Some [OF assms(3)] by simp_all
  have g: "(\<exists>g. (\<forall>x. pp_id (g x) = pp_id x) \<and> protection_profiles (ar_store a) = map (\<lambda>x. if pp_id x = pp_id p then g x else x) (protection_profiles s0)) \<or>
     protection_profiles (ar_store a) = filter (\<lambda>x. pp_id x \<noteq> pp_id p) (protection_profiles s0)"
    using assms(5) unfolding p(2) .
  obtain s1 where r: "restore_tx (now_stamp env a) (snapshot_of i p s0) (ar_store a) = Some (s1, ())" "protection_profiles s1 = protection_profiles s0"
      "set (protection_blocklists s1) = set (protection_blocklists s0)" "domain_pairs Allow_Entries s1 = domain_pairs Allow_Entries s0"
      "domain_pairs Block_Entries s1 = domain_pairs Block_Entries s0" "device_ids s1 = device_ids (ar_store a)"
    using restore_tx_ok [OF assms(2) p(1) _ g, of "now_stamp env a"] assms(4) unfolding p(2) by blast
  have s: "ar_store (undo_change env (snapshot_of i p s0) rs a) = (case assignments_tx rs s1 of None \<Rightarrow> s1 | Some (s', _) \<Rightarrow> s')" for rs
    by (simp add: undo_change_def restoreProtection_def restoreDeviceProtectionAssignments_def answered [OF assms(1)] r(1) split: option.splits prod.splits)
  have keep: "device_ids (case assignments_tx rs s1 of None \<Rightarrow> s1 | Some (s', _) \<Rightarrow> s') = device_ids s1" for rs
    by (auto simp: assignments_tx_def device_ids_def dest!: restore_rows_devices split: option.splits)
  have "set (gm_keys (device_protection_memberships s0)) \<subseteq> device_ids s1"
    using assms(6) unfolding s keep .
  moreover have "profile_ids s0 \<subseteq> profile_ids s1"
    using r(2) by (simp add: profile_ids_def)
  ultimately obtain m as where t: "assignments_tx (assignment_rows s0) s1 = Some (s1\<lparr>device_protection_memberships := m, device_protection_assignments := as\<rparr>, ())"
      "gm_get m = gm_get (device_protection_memberships s0)"
    using assignments_tx_ok [of s0 s1] assms(2) by (auto simp: protections_wf_def)
  show ?thesis
    using r t by (simp add: s same_setup_def domain_pairs_def)
qed

lemma apply_or_undo_False: "apply_or_undo apply_fn undo a w = ((a', w'), False) \<Longrightarrow> a' = undo a"
  by (auto simp: apply_or_undo_def Let_def split: prod.splits bool.splits)

lemma apply_or_undo_True: "apply_or_undo apply_fn undo a w = ((a', w'), True) \<Longrightarrow> a' = a"
  by (auto simp: apply_or_undo_def Let_def split: prod.splits bool.splits)

text \<open>The course of a request that reached CoreDNS.\<close>

lemma create_course:
  assumes "protections_wf (ar_store a)" "all_answer env" "createProtection env apply_fn body (a, w) = ((a', w'), r)" "r = Server_Error \<or> r = Created i'"
  obtains input a1 a2 n a3 b a4 i where "body = Some input" "ar_store a1 = ar_store a" "normalizeProtectionInput (ed_sql env) input a1 = (a2, Some n)"
    "ar_store a3 = ar_store a" "resolveProtectionDevices env (pi_DeviceIPs n) a3 = (b, True)" "schema_wf (ar_store b)" "same_profiles (ar_store a) (ar_store b)"
    "insert_tx (now_stamp env b) n (ar_store b) = Some (ar_store a4, i)"
    "r = Server_Error \<and> a' = undo_create env i (assignment_rows (ar_store a)) a4 \<or> r = Created i \<and> (\<exists>e. a' = recordEvent (ed_sql env) e a4)"
proof -
  let ?a1 = "a\<lparr>ar_calls := Suc (ar_calls a)\<rparr>"
  have c: "profile_count (ed_sql env) a = (?a1, length (protection_profiles (ar_store a)))"
    by (simp add: profile_count_def answered [OF assms(2)])
  obtain input a2 n where 1: "normalizeProtectionInput (ed_sql env) input ?a1 = (a2, Some n)" "body = Some input"
    using assms(3,4) by (auto simp: createProtection_def c split: if_splits option.splits prod.splits)
  let ?a3 = "a2\<lparr>ar_calls := Suc (ar_calls a2)\<rparr>"
  have a2: "ar_store a2 = ar_store a"
    using normalizeProtectionInput_keeps [OF 1(1)] by simp
  have rows: "readDeviceProtectionAssignments (ed_sql env) a2 = (?a3, assignment_rows (ar_store a))"
    by (simp add: readDeviceProtectionAssignments_def answered [OF assms(2)] a2)
  obtain a4 i where 4: "insertProtection env n ?a3 = (a4, Some i)"
      "r = Server_Error \<and> a' = undo_create env i (assignment_rows (ar_store a)) a4 \<or> r = Created i \<and> (\<exists>e. a' = recordEvent (ed_sql env) e a4)"
    using assms(3,4) 1 rows
    by (auto simp: createProtection_def c split: if_splits option.splits prod.splits bool.splits dest!: apply_or_undo_False apply_or_undo_True)
  obtain b where b: "resolveProtectionDevices env (pi_DeviceIPs n) ?a3 = (b, True)" "insert_tx (now_stamp env b) n (ar_store b) = Some (ar_store a4, i)"
    using 4(1) by (auto simp: insertProtection_def answered [OF assms(2)] split: prod.splits bool.splits option.splits)
  have "schema_wf (ar_store ?a3)"
    using assms(1) a2 by (simp add: protections_wf_def)
  then show thesis
    using that [OF 1(2) _ 1(1) _ b(1) _ _ b(2) 4(2)] resolveProtectionDevices_keeps [OF _ b(1)] a2 by simp
qed

lemma update_course:
  assumes "protections_wf (ar_store a)" "all_answer env" "protection env apply_fn (Put_Protection i body) (a, w) = ((a', w'), r)" "r = Server_Error \<or> r = Accepted"
  obtains p input a1 a2 n b a4 where "find_profile i (ar_store a) = Some p" "body = Some input" "ar_store a1 = ar_store a"
    "normalizeProtectionInput (ed_sql env) input a1 = (a2, Some n)" "ar_store a2 = ar_store a" "resolveProtectionDevices env (pi_DeviceIPs n) a2 = (b, True)"
    "schema_wf (ar_store b)" "same_profiles (ar_store a) (ar_store b)"
    "replace_tx (now_stamp env b) i (pp_is_default p) (if pp_is_default p then n\<lparr>pi_Name := ''Home''\<rparr> else n) (ar_store b) = Some (ar_store a4, ())"
    "r = Server_Error \<and> a' = undo_change env (snapshot_of i p (ar_store a)) (assignment_rows (ar_store a)) a4 \<or>
     r = Accepted \<and> (\<exists>e. a' = recordEvent (ed_sql env) e a4)"
proof -
  obtain a0 x where read: "readProtection (ed_sql env) i a = (a0, x)"
    by fastforce
  note x = readProtection_answered [OF assms(2) read]
  obtain p where p: "find_profile i (ar_store a) = Some p"
    using assms(3,4) read x by (cases "find_profile i (ar_store a)") auto
  let ?snap = "snapshot_of i p (ar_store a)" and ?a1 = "a0\<lparr>ar_calls := Suc (ar_calls a0)\<rparr>"
  have up: "updateProtection env apply_fn i body ?snap (assignment_rows (ar_store a)) (?a1, w) = ((a', w'), r)"
    using assms(3) read x p by (simp add: readDeviceProtectionAssignments_def answered [OF assms(2)])
  then obtain input a2 n0 where 1: "normalizeProtectionInput (ed_sql env) input ?a1 = (a2, Some n0)" "body = Some input"
    using assms(4) by (auto simp: updateProtection_def split: option.splits prod.splits)
  define n where "n = (if pp_is_default p then n0\<lparr>pi_Name := ''Home''\<rparr> else n0)"
  obtain a4 where 2: "replaceProtection env i (pp_is_default p) n a2 = (a4, True)"
      "r = Server_Error \<and> a' = undo_change env ?snap (assignment_rows (ar_store a)) a4 \<or> r = Accepted \<and> (\<exists>e. a' = recordEvent (ed_sql env) e a4)"
    using up 1 assms(4)
    by (auto simp: updateProtection_def Let_def split: prod.splits bool.splits dest!: apply_or_undo_False apply_or_undo_True simp flip: n_def)
  have ips: "pi_DeviceIPs n = pi_DeviceIPs n0"
    by (simp add: n_def)
  obtain b where b: "resolveProtectionDevices env (pi_DeviceIPs n0) a2 = (b, True)" "replace_tx (now_stamp env b) i (pp_is_default p) n (ar_store b) = Some (ar_store a4, ())"
    using 2(1) by (auto simp: replaceProtection_def ips answered [OF assms(2)] split: prod.splits bool.splits option.splits)
  have a2: "ar_store a2 = ar_store a"
    using normalizeProtectionInput_keeps [OF 1(1)] x(1) by simp
  then have "schema_wf (ar_store a2)"
    using assms(1) by (simp add: protections_wf_def)
  then show thesis
    using that [OF p 1(2) _ 1(1) _ b(1) _ _ b(2) [unfolded n_def] 2(2)] resolveProtectionDevices_keeps [OF _ b(1)] a2 x(1) by simp
qed

lemma create_rejected:
  assumes "protections_wf (ar_store a)" "all_answer env" "createProtection env apply_fn body (a, w) = ((a', w'), Server_Error)"
    "set (gm_keys (device_protection_memberships (ar_store a))) \<subseteq> device_ids (ar_store a')"
  shows "same_setup (ar_store a) (ar_store a') \<and> protection_profiles (ar_store a') = protection_profiles (ar_store a)"
  using create_course [OF assms(1-3) disjI1 [OF refl]]
proof cases
  case (1 input a1 a2 n a3 b a4 i)
  then show ?thesis
    using undo_create_answered [OF assms(2,1) 1(7,8)] assms(4) by simp
qed

lemma update_rejected:
  assumes "protections_wf (ar_store a)" "all_answer env" "protection env apply_fn (Put_Protection i body) (a, w) = ((a', w'), Server_Error)"
    "set (gm_keys (device_protection_memberships (ar_store a))) \<subseteq> device_ids (ar_store a')"
  shows "same_setup (ar_store a) (ar_store a') \<and> protection_profiles (ar_store a') = protection_profiles (ar_store a)"
  using update_course [OF assms(1-3) disjI1 [OF refl]]
proof cases
  case (1 p input a1 a2 n b a4)
  define m where "m = (if pp_is_default p then n\<lparr>pi_Name := ''Home''\<rparr> else n)"
  note t = replace_tx_effect [OF 1(9)]
  have "protection_profiles (ar_store b) = protection_profiles (ar_store a)"
    using 1(8) by (simp add: same_profiles_def)
  then have "\<exists>g. (\<forall>x. pp_id (g x) = pp_id x) \<and> protection_profiles (ar_store a4) = map (\<lambda>x. if pp_id x = i then g x else x) (protection_profiles (ar_store a))"
    using t(3) by (intro exI [of _ "\<lambda>p. p\<lparr>pp_name := pi_Name m, pp_icon := pi_Icon m, pp_schedule := pi_Schedule m, pp_updated_at := now_stamp env b\<rparr>"])
      (simp add: m_def)
  then show ?thesis
    using undo_change_answered [OF assms(2,1) 1(1) others_kept_observed [OF 1(8) t(1)]] 1(10) assms(4) by simp
qed

lemma delete_rejected:
  assumes "protections_wf (ar_store a)" "all_answer env" "protection env apply_fn (Delete_Protection i) (a, w) = ((a', w'), Server_Error)"
    "set (gm_keys (device_protection_memberships (ar_store a))) \<subseteq> device_ids (ar_store a')"
  shows "same_setup (ar_store a) (ar_store a') \<and> protection_profiles (ar_store a') = protection_profiles (ar_store a)"
proof -
  obtain a1 r where read: "readProtection (ed_sql env) i a = (a1, r)"
    by fastforce
  note r = readProtection_answered [OF assms(2) read]
  obtain p where p: "find_profile i (ar_store a) = Some p"
    using assms(3) read r by (cases "find_profile i (ar_store a)") auto
  let ?snap = "snapshot_of i p (ar_store a)"
  let ?a2 = "a1\<lparr>ar_calls := Suc (ar_calls a1)\<rparr>"
  let ?a3 = "?a2\<lparr>ar_calls := Suc (Suc (ar_calls a1)), ar_store := delete_profile i (ar_store a)\<rparr>"
  have "deleteProtection env apply_fn i ?snap (assignment_rows (ar_store a)) (?a2, w) = ((a', w'), Server_Error)"
    using assms(3) read r p by (simp add: readDeviceProtectionAssignments_def answered [OF assms(2)])
  then have "\<exists>st'. apply_or_undo apply_fn (undo_change env ?snap (assignment_rows (ar_store a))) ?a3 w = (st', False) \<and> st' = (a', w')"
    using r(1) by (auto simp: deleteProtection_def answered [OF assms(2)] split: prod.splits if_splits)
  then have a': "a' = undo_change env ?snap (assignment_rows (ar_store a)) ?a3"
    by (auto dest!: apply_or_undo_False)
  have "protection_profiles (ar_store ?a3) = filter (\<lambda>x. pp_id x \<noteq> i) (protection_profiles (ar_store a))"
    by (simp add: delete_profile_def)
  then show ?thesis
    unfolding a' using undo_change_answered [OF assms(2,1) p, of ?a3] delete_profile_others [of i "ar_store a"] assms(4) a' by simp
qed

lemma pause_rejected:
  assumes "protections_wf (ar_store a)" "all_answer env" "pauseProtection env now later apply_fn i body (a, w) = ((a', w'), Server_Error)"
  shows "same_setup (ar_store a) (ar_store a')"
proof -
  obtain until where u: "Option.bind body (pause_end now later) = Some until"
    using assms(3) by (auto simp: pauseProtection_def split: option.splits)
  obtain p where p: "find_profile i (ar_store a) = Some p"
    using assms(3) u by (cases "find_profile i (ar_store a)") (auto simp: pauseProtection_def answered [OF assms(2)])
  let ?a1 = "a\<lparr>ar_calls := Suc (ar_calls a)\<rparr>"
  obtain a2 where a2: "put_pause env i until ?a1 = (a2, Inr ())" "ar_store a2 = set_paused (now_stamp env ?a1) i until (ar_store a)"
    by (simp add: put_pause_def answered [OF assms(2)])
  have "a' = fst (put_pause env i (pp_paused_until p) a2)"
    using assms(3) u p a2(1)
    by (auto simp: pauseProtection_def answered [OF assms(2)] split: prod.splits bool.splits dest!: apply_or_undo_False)
  then have s': "ar_store a' = set_paused (now_stamp env a2) i (pp_paused_until p) (set_paused (now_stamp env ?a1) i until (ar_store a))"
    by (simp add: put_pause_def answered [OF assms(2)] a2(2))
  have only: "x = p" if "x \<in> set (protection_profiles (ar_store a))" "pp_id x = i" for x
    using find_profile_Some [OF p] that assms(1) by (auto simp: protections_wf_def schema_wf_def store_wf_def distinct_map dest: inj_onD)
  have "map unstamped (protection_profiles (ar_store a')) = map unstamped (protection_profiles (ar_store a))"
    using only by (auto simp: s' set_paused_def unstamped_def)
  then show ?thesis
    by (simp add: same_setup_def s' set_paused_def domain_pairs_def)
qed

fun is_pause :: "protection_request \<Rightarrow> bool" where
  "is_pause (Put_Pause i now later body) = True"
| "is_pause _ = False"


section \<open>A saved profile\<close>

lemma normalized_distinct:
  assumes "normalizeProtectionInput q input a = (a', Some n)"
  shows "distinct (pi_BlocklistIDs n)" "distinct (pi_AllowDomains n)" "distinct (pi_BlockDomains n)" "\<forall>ip \<in> set (pi_DeviceIPs n). ip_canonical ip"
proof -
  obtain schedule e where v: "Validate (load_location (sq_host q)) (pi_Schedule input) = (schedule, e)"
    by fastforce
  obtain ips allowed blocked where n: "pi_BlocklistIDs n = uniqueInt64s (pi_BlocklistIDs input)"
      "normalizeProtectionDomains (pi_AllowDomains input) (pi_BlockDomains input) = Some (allowed, blocked)" "pi_AllowDomains n = allowed" "pi_BlockDomains n = blocked"
      "normalizeProtectionDevices (pi_DeviceIPs input) = Some ips" "pi_DeviceIPs n = ips"
    using assms
    by (auto simp: normalizeProtectionInput_def normalizeProtectionBlocklists_def Let_def bind_eq_Some_conv v split: if_splits prod.splits option.splits)
  show "distinct (pi_BlocklistIDs n)"
    by (simp add: n(1) uniqueInt64s_def)
  show "distinct (pi_AllowDomains n)" "distinct (pi_BlockDomains n)"
    using n(2-4) by (auto simp: normalizeProtectionDomains_def normalizeDomains_def bind_eq_Some_conv split: if_splits sum.splits)
      (metis distinct_sort_uniq)
  have "ip_canonical x" if x: "x \<in> set ips" for x
  proof -
    define ys where "ys = uniqueStrings (pi_DeviceIPs input)"
    have ips: "ips = uniqueStrings (map (\<lambda>ip. ip_string (the ip)) (map parse_ip ys))" "None \<notin> set (map parse_ip ys)"
      using n(5) by (auto simp: normalizeProtectionDevices_def ys_def Let_def simp del: set_map split: if_splits)
    obtain y where "y \<in> set ys" "x = trim_space (ip_string (the (parse_ip y)))"
      using x unfolding ips(1) uniqueStrings_def by auto
    moreover have "parse_ip y \<noteq> None"
      using calculation(1) ips(2) by (metis image_eqI set_map)
    ultimately obtain ip where y: "parse_ip y = Some ip" "x = trim_space (ip_string ip)"
      by auto
    have wf: "ip_wf ip"
      using parse_ip_wf [OF y(1)] .
    have "set (ip_string ip) \<inter> space_bytes = {}"
      using parse_ip_chars [OF parse_ip_string [OF wf]] addr_char_plain by (auto simp: list_all_iff)
    then have "x = ip_string ip"
      using y(2) by (simp add: trim_space_bytes)
    then show ?thesis
      using parse_ip_string [OF wf] by (simp add: ip_canonical_def)
  qed
  then show "\<forall>ip \<in> set (pi_DeviceIPs n). ip_canonical ip"
    using n(6) by simp
qed

lemma resolved_devices:
  "schema_wf (ar_store a) \<Longrightarrow> \<forall>ip \<in> set ips. ip_canonical ip \<Longrightarrow> resolveProtectionDevices env ips a = (a', True) \<Longrightarrow>
   \<forall>ip \<in> set ips. device_of (ar_store a') ip \<noteq> None"
proof (induction env ips a rule: resolveProtectionDevices.induct)
  case (2 env x ips a)
  obtain s1 r where o: "ObserveAddress (ed_obs env (ar_calls a)) x ''assignment'' [] (ar_store a) = (s1, r)"
    by fastforce
  let ?a1 = "a\<lparr>ar_store := s1, ar_calls := Suc (ar_calls a)\<rparr>"
  have d: "resolve_device env x a = (?a1, r)"
    by (simp add: resolve_device_def ResolveAddress_def o)
  then obtain y where y: "r = Inr y" "resolveProtectionDevices env ips ?a1 = (a', True)"
    using "2.prems"(3) by (cases r) auto
  have x: "normalizeAddress x = x" "x \<noteq> []"
    using "2.prems"(2) normalizeAddress_canonical address_not_empty by auto
  have ok: "oe_fails (ed_obs env (ar_calls a)) = None"
    using o y(1) x by (auto simp: ObserveAddress_def Let_def split: option.splits)
  have first: "device_of s1 x \<noteq> None"
    using observe_resolves [OF "2.prems"(1) _ ok, of x "''assignment''" "[]"] o x by auto
  have wf: "schema_wf (ar_store ?a1)"
    using observe_joins [OF "2.prems"(1) o] by simp
  have "joins s1 (ar_store a')"
    using resolveProtectionDevices_keeps [OF wf y(2)] by simp
  then have "device_of (ar_store a') x \<noteq> None"
    using first by (auto simp: joins_def)
  then show ?case
    using "2.IH" [OF d [symmetric] y(1) wf _ y(2)] "2.prems"(2) by simp
qed simp

lemma clear_store_wf: "store_wf s \<Longrightarrow> store_wf (clearProtectionChildren i s)"
  unfolding store_wf_def clearProtectionChildren_def by (simp add: distinct_map_filter) force

lemma gm_values_get: "gm_wf m \<Longrightarrow> snd ` set m \<subseteq> A \<longleftrightarrow> (\<forall>k v. gm_get m k = Some v \<longrightarrow> v \<in> A)"
  by (force simp: gm_wf_def)

lemma children_store_wf:
  assumes "store_wf s" "children_written i isDefault input s s'" "i \<in> profile_ids s"
    "distinct (pi_BlocklistIDs input)" "distinct (pi_AllowDomains input)" "distinct (pi_BlockDomains input)"
    "i \<notin> fst ` set (protection_blocklists s)" "i \<notin> fst ` set (map entry_pair (protection_allow_entries s))"
    "i \<notin> fst ` set (map entry_pair (protection_block_entries s))"
  shows "store_wf s'"
proof -
  obtain al bl sq m a where s': "s' = s\<lparr>protection_blocklists := protection_blocklists s @ map (Pair i) (pi_BlocklistIDs input), protection_allow_entries := al,
       protection_block_entries := bl, sqlite_sequence := sq, device_protection_memberships := m, device_protection_assignments := a\<rparr>"
     and al: "map entry_pair al = map entry_pair (protection_allow_entries s) @ map (Pair i) (pi_AllowDomains input)"
     and bl: "map entry_pair bl = map entry_pair (protection_block_entries s) @ map (Pair i) (pi_BlockDomains input)"
     and m: "gm_get m = (\<lambda>d. if \<not> isDefault \<and> (\<exists>ip \<in> set (pi_DeviceIPs input). device_of s ip = Some d) then Some i
       else gm_get (device_protection_memberships s) d)" "gm_wf (device_protection_memberships s) \<longrightarrow> gm_wf m"
     and a: "gm_get a = (\<lambda>ip. if \<not> isDefault \<and> ip \<in> set (pi_DeviceIPs input) then Some i else gm_get (device_protection_assignments s) ip)"
       "gm_wf (device_protection_assignments s) \<longrightarrow> gm_wf a"
    using assms(2) unfolding children_written_def by auto
  have old: "distinct (protection_blocklists s)" "distinct (map entry_pair (protection_allow_entries s))" "distinct (map entry_pair (protection_block_entries s))"
      "gm_wf (device_protection_memberships s)" "gm_wf (device_protection_assignments s)"
      "snd ` set (device_protection_memberships s) \<subseteq> profile_ids s" "snd ` set (device_protection_assignments s) \<subseteq> profile_ids s"
    using assms(1) by (auto simp: store_wf_def entry_pair_def [abs_def] profile_ids_def)
  have fresh: "distinct (xs @ map (Pair i) ys)" if "distinct xs" "distinct ys" "i \<notin> fst ` set xs" for xs :: "(int \<times> 'b) list" and ys
    using that by (force simp: distinct_map inj_on_def)
  have lists: "distinct (protection_blocklists s @ map (Pair i) (pi_BlocklistIDs input))"
    using fresh [OF old(1) assms(4,7)] .
  have "distinct (map entry_pair al)" "distinct (map entry_pair bl)"
    unfolding al bl using fresh [OF old(2) assms(5,8)] fresh [OF old(3) assms(6,9)] .
  then have entries: "distinct (map (\<lambda>e. (pe_protection_id e, pe_domain e)) al)" "distinct (map (\<lambda>e. (pe_protection_id e, pe_domain e)) bl)"
    unfolding entry_pair_def [abs_def] .
  have wf: "gm_wf m" "gm_wf a"
    using m(2) a(2) old(4,5) by simp_all
  have "snd ` set m \<subseteq> profile_ids s" "snd ` set a \<subseteq> profile_ids s"
    using old(6,7) assms(3) unfolding gm_values_get [OF wf(1)] gm_values_get [OF wf(2)] gm_values_get [OF old(4)] gm_values_get [OF old(5)] m(1) a(1)
    by (metis option.inject)+
  then show ?thesis
    using assms(1) lists entries wf unfolding s' store_wf_def profile_ids_def by simp
qed

lemma distinct_replace:
  assumes "distinct (map f xs)" "distinct (map h xs)" "\<And>x. x \<in> set xs \<Longrightarrow> f x \<noteq> i \<Longrightarrow> h x \<noteq> v"
  shows "distinct (map (\<lambda>x. if f x = i then v else h x) xs)"
  using assms by (induction xs) (auto simp: image_iff)

lemma update_row_wf:
  assumes "store_wf s" "i \<in> profile_ids s" "\<not> name_taken i (pi_Name input) s"
    "ps = map (\<lambda>p. if pp_id p = i
       then p\<lparr>pp_name := pi_Name input, pp_icon := pi_Icon input, pp_schedule := pi_Schedule input, pp_updated_at := stamp\<rparr> else p) (protection_profiles s)"
  shows "store_wf (s\<lparr>protection_profiles := ps\<rparr>)"
proof -
  have old: "distinct (map pp_id (protection_profiles s))" "distinct (map (\<lambda>p. map lower_char (pp_name p)) (protection_profiles s))"
    using assms(1) by (simp_all add: store_wf_def)
  have ids: "map pp_id ps = map pp_id (protection_profiles s)" "map pp_is_default ps = map pp_is_default (protection_profiles s)"
    by (simp_all add: assms(4))
  have "map (\<lambda>p. map lower_char (pp_name p)) ps =
      map (\<lambda>p. if pp_id p = i then map lower_char (pi_Name input) else map lower_char (pp_name p)) (protection_profiles s)"
    by (simp add: assms(4))
  then have names: "distinct (map (\<lambda>p. map lower_char (pp_name p)) ps)"
    using distinct_replace [OF old, of i "map lower_char (pi_Name input)"] assms(3) by (auto simp: name_taken_def list_ex_iff)
  have "length (filter pp_is_default ps) = length (filter id (map pp_is_default ps))"
    by (simp add: filter_map)
  also have "\<dots> = length (filter pp_is_default (protection_profiles s))"
    by (simp add: ids(2) filter_map)
  finally have default: "length (filter pp_is_default ps) = length (filter pp_is_default (protection_profiles s))" .
  have "pp_id ` set ps = pp_id ` set (protection_profiles s)"
    using ids(1) by (metis set_map)
  with assms(1) names default ids(1) show ?thesis
    by (simp add: store_wf_def)
qed

lemma insert_row_wf:
  assumes "store_wf s" "pp_id p \<notin> profile_ids s" "\<not> name_taken (pp_id p) (pp_name p) s" "\<not> pp_is_default p"
  shows "store_wf (s\<lparr>protection_profiles := protection_profiles s @ [p], sqlite_sequence := sq\<rparr>)"
proof -
  have "map lower_char (pp_name p) \<notin> (\<lambda>p. map lower_char (pp_name p)) ` set (protection_profiles s)"
    using assms(2,3) by (auto simp: name_taken_def list_ex_iff profile_ids_def) (metis imageI)
  with assms show ?thesis
    by (auto simp: store_wf_def profile_ids_def)
qed

lemma insert_event_store: "\<exists>ev sq. insert_event e s = s\<lparr>events := ev, sqlite_sequence := sq\<rparr>"
  by (intro exI [of _ "events (insert_event e s)"] exI [of _ "sqlite_sequence (insert_event e s)"]) (simp add: insert_event_def bump_def)

lemma recordEvent_store: "\<exists>ev sq. ar_store (recordEvent q e a) = (ar_store a)\<lparr>events := ev, sqlite_sequence := sq\<rparr>"
proof -
  have "\<exists>ev sq. s = s\<lparr>events := ev, sqlite_sequence := sq\<rparr>" for s :: Store
    by (intro exI [of _ "events s"] exI [of _ "sqlite_sequence s"]) simp
  then show ?thesis
    using insert_event_store by (auto simp: recordEvent_def exec_def Let_def split: option.splits)
qed

text \<open>A profile stored as its input says, and its devices served by it.\<close>

definition saved_as :: "protectionInput \<Rightarrow> protection_profile \<Rightarrow> Store \<Rightarrow> bool" where
  "saved_as n p s \<longleftrightarrow> p \<in> set (protection_profiles s) \<and> pp_name p = (if pp_is_default p then ''Home'' else pi_Name n) \<and> pp_icon p = pi_Icon n \<and>
     pp_schedule p = pi_Schedule n \<and> set (list_ids (pp_id p) s) = set (pi_BlocklistIDs n) \<and>
     set (entry_domains Allow_Entries (pp_id p) s) = set (pi_AllowDomains n) \<and>
     set (entry_domains Block_Entries (pp_id p) s) = set (pi_BlockDomains n) \<and>
     (pp_is_default p \<or> (\<forall>ip \<in> set (pi_DeviceIPs n). selected_profile s ip = Some p \<and> ip \<in> set (protection_clients s (pp_id p))))"

lemma list_ids_set: "set (list_ids i s) = {b. (i, b) \<in> set (protection_blocklists s)}"
  by (force simp: list_ids_def)

lemma entry_domains_set: "set (entry_domains t i s) = {d. (i, d) \<in> domain_pairs t s}"
  by (force simp: entry_domains_def domain_pairs_def entry_pair_def)

lemma own_pairs: "i \<notin> fst ` A \<Longrightarrow> {d. (i, d) \<in> A \<union> Pair i ` B} = B"
  by force

lemma children_saved:
  assumes "children_written (pp_id p) (pp_is_default p) n s s'" "store_wf s'" "p \<in> set (protection_profiles s')"
    "pp_id p \<notin> fst ` set (protection_blocklists s)" "pp_id p \<notin> fst ` set (map entry_pair (protection_allow_entries s))"
    "pp_id p \<notin> fst ` set (map entry_pair (protection_block_entries s))"
    "pp_name p = (if pp_is_default p then ''Home'' else pi_Name n)" "pp_icon p = pi_Icon n" "pp_schedule p = pi_Schedule n"
    "\<forall>ip \<in> set (pi_DeviceIPs n). device_of s ip \<noteq> None"
  shows "saved_as n p s'"
proof -
  note c = children_written_sets [OF assms(1)]
  have lists: "set (list_ids (pp_id p) s') = set (pi_BlocklistIDs n)"
    unfolding list_ids_set c(1) using assms(4) by (rule own_pairs)
  have domains: "set (entry_domains Allow_Entries (pp_id p) s') = set (pi_AllowDomains n)" "set (entry_domains Block_Entries (pp_id p) s') = set (pi_BlockDomains n)"
    unfolding entry_domains_set c(2,3) by (intro own_pairs assms(5,6))+
  have "selected_profile s' ip = Some p \<and> ip \<in> set (protection_clients s' (pp_id p))" if "\<not> pp_is_default p" "ip \<in> set (pi_DeviceIPs n)" for ip
  proof -
    have "device_of s ip \<noteq> None"
      using assms(10) that(2) by blast
    then obtain d where d: "device_of s ip = Some d"
      by blast
    have m: "gm_get (device_protection_memberships s') d = Some (pp_id p)" "gm_get (device_protection_assignments s') ip = Some (pp_id p)"
      using that d unfolding children_written_maps [OF assms(1)] by auto
    have "membership_of s' ip = Some (pp_id p)"
      using m(1) d c(7) by (simp add: membership_of_def)
    then have "legacy_consistent s' ip" "target_profile s' ip p"
      using m(2) assms(3) by (simp_all add: legacy_consistent_def target_profile_def is_member_membership)
    then have "selected_profile s' ip = Some p"
      using selected_is_target assms(2) by blast
    moreover have "ip \<in> set (protection_clients s' (pp_id p))"
      using map_of_SomeD [OF m(2)] by (force simp: protection_clients_def)
    ultimately show ?thesis
      by simp
  qed
  with lists domains assms(3,7-9) show ?thesis
    by (auto simp: saved_as_def)
qed

lemma event_tables:
  fixes ev sq
  defines "upd \<equiv> \<lambda>s :: Store. s\<lparr>events := ev, sqlite_sequence := sq\<rparr>"
  shows "selected_profile (upd s) ip = selected_profile s ip" "protection_clients (upd s) i = protection_clients s i"
    "store_wf (upd s) \<longleftrightarrow> store_wf s" "saved_as n p (upd s) \<longleftrightarrow> saved_as n p s" "others_kept i t (upd s) \<longleftrightarrow> others_kept i t s"
proof -
  have t: "device_of (upd s) ip = device_of s ip" "device_protection_memberships (upd s) = device_protection_memberships s"
      "device_protection_assignments (upd s) = device_protection_assignments s" for ip
    by (simp_all add: upd_def device_of_def)
  have "is_member (upd s) ip = is_member s ip" "is_legacy (upd s) ip = is_legacy s ip" for ip
    by (rule ext, unfold is_member_def t, rule refl) (simp add: is_legacy_def t fun_eq_iff)
  then have rank: "profile_rank (upd s) ip = profile_rank s ip" "is_member (upd s) ip = is_member s ip" "is_legacy (upd s) ip = is_legacy s ip" for ip
    by (simp_all add: profile_rank_def fun_eq_iff)
  have "protection_profiles (upd s) = protection_profiles s"
    by (simp add: upd_def)
  then show selected: "selected_profile (upd s) ip = selected_profile s ip" for ip
    unfolding selected_profile_def rank by simp
  show clients: "protection_clients (upd s) i = protection_clients s i" for i
    by (simp add: upd_def protection_clients_def)
  show "store_wf (upd s) \<longleftrightarrow> store_wf s"
    by (simp add: upd_def store_wf_def)
  have entries: "entries_of t (upd s) = entries_of t s" for t
    by (cases t) (simp_all add: upd_def)
  show "saved_as n p (upd s) \<longleftrightarrow> saved_as n p s"
    unfolding saved_as_def selected clients entry_domains_def entries list_ids_def by (simp add: upd_def)
  show "others_kept i t (upd s) \<longleftrightarrow> others_kept i t s"
    unfolding others_kept_def entries by (simp add: upd_def)
qed
lemma cleared: "i \<notin> fst ` set (protection_blocklists (clearProtectionChildren i s))"
    "i \<notin> fst ` set (map entry_pair (protection_allow_entries (clearProtectionChildren i s)))"
    "i \<notin> fst ` set (map entry_pair (protection_block_entries (clearProtectionChildren i s)))"
  by (auto simp: clearProtectionChildren_def entry_pair_def)

lemma create_saves:
  assumes "protections_wf (ar_store a)" "all_answer env" "createProtection env apply_fn (Some input) (a, w) = ((a', w'), Created i)"
  shows "\<exists>n p b b'. normalizeProtectionInput (ed_sql env) input b = (b', Some n) \<and> ar_store b = ar_store a \<and> pp_id p = i \<and> saved_as n p (ar_store a') \<and>
    pp_is_default p = (\<exists>q. find_profile i (ar_store a) = Some q \<and> pp_is_default q) \<and> store_wf (ar_store a') \<and> others_kept i (ar_store a) (ar_store a')"
  using create_course [OF assms disjI2 [OF refl]]
proof cases
  case (1 input' a1 a2 normalized a3 b a4 i')
  have i: "i' = i" "input' = input" and ev: "\<exists>e. a' = recordEvent (ed_sql env) e a4"
    using 1(1,9) by auto
  note same = 1(7) and wfb = 1(6)
  have wf: "schema_wf (ar_store a3)"
    using assms(1) 1(4) by (simp add: protections_wf_def)
  note norm = normalized_distinct [OF 1(3)]
  have dev: "\<forall>ip \<in> set (pi_DeviceIPs normalized). device_of (ar_store b) ip \<noteq> None"
    using resolved_devices [OF wf norm(4) 1(5)] .
  note t = insert_tx_effect [OF 1(8) [unfolded i]]
  define p where "p = \<lparr>pp_id = i, pp_name = pi_Name normalized, pp_is_default = False, pp_paused_until = [], pp_schedule = pi_Schedule normalized,
          pp_icon = pi_Icon normalized, pp_created_at = now_stamp env b, pp_updated_at = now_stamp env b\<rparr>"
  obtain sq where c: "children_written i False normalized (ar_store b\<lparr>protection_profiles := protection_profiles (ar_store b) @ [p], sqlite_sequence := sq\<rparr>) (ar_store a4)"
    using t(4) unfolding p_def by blast
  let ?s = "ar_store b\<lparr>protection_profiles := protection_profiles (ar_store b) @ [p], sqlite_sequence := sq\<rparr>"
  note fresh = fresh_profile [OF assms(1) same t(1)]
  have f: "i \<notin> fst ` set (protection_blocklists ?s)" "i \<notin> fst ` set (map entry_pair (protection_allow_entries ?s))" "i \<notin> fst ` set (map entry_pair (protection_block_entries ?s))"
    using fresh(2) fresh_profile(3) [OF assms(1) same t(1), of Allow_Entries] fresh_profile(3) [OF assms(1) same t(1), of Block_Entries] by simp_all
  have "store_wf ?s"
    using wfb t(2) fresh(1) same by (intro insert_row_wf) (simp_all add: schema_wf_def p_def profile_ids_def same_profiles_def)
  moreover have "i \<in> profile_ids ?s"
    by (simp add: profile_ids_def p_def)
  ultimately have wf4: "store_wf (ar_store a4)"
    using children_store_wf [OF _ c _ norm(1-3) f] by blast
  have "saved_as normalized p (ar_store a4)"
  proof (rule children_saved [OF _ wf4])
    show "children_written (pp_id p) (pp_is_default p) normalized ?s (ar_store a4)"
      using c by (simp add: p_def)
    show "p \<in> set (protection_profiles (ar_store a4))"
      using children_written_sets(4) [OF c] by simp
    show "\<forall>ip \<in> set (pi_DeviceIPs normalized). device_of ?s ip \<noteq> None"
      using dev by (simp add: device_of_def)
  qed (use f in \<open>simp_all add: p_def\<close>)
  moreover have "others_kept i (ar_store a) (ar_store a4)"
  proof -
    have "filter (\<lambda>(p, _). p \<noteq> i) (map entry_pair (entries_of t (ar_store a4))) = filter (\<lambda>(p, _). p \<noteq> i) (map entry_pair (entries_of t (ar_store b)))" for t
      using children_written_sets(9,10) [OF c] by (cases t) simp_all
    then have "others_kept i (ar_store b) (ar_store a4)"
      using children_written_sets(6,8) [OF c] by (simp add: others_kept_def)
    then show ?thesis
      by (rule others_kept_observed [OF same])
  qed
  moreover obtain ev sq' where "ar_store a' = (ar_store a4)\<lparr>events := ev, sqlite_sequence := sq'\<rparr>"
    using recordEvent_store ev by blast
  moreover have "find_profile i (ar_store a) = None"
    using fresh(1) by (auto simp: find_profile_def find_None_iff profile_ids_def)
  ultimately show ?thesis
    using 1(2,3) i wf4 by (intro exI [of _ normalized] exI [of _ p] exI [of _ a1] exI [of _ a2]) (simp add: event_tables p_def)
qed

lemma update_saves:
  assumes "protections_wf (ar_store a)" "all_answer env" "protection env apply_fn (Put_Protection i (Some input)) (a, w) = ((a', w'), Accepted)"
  shows "\<exists>n p b b'. normalizeProtectionInput (ed_sql env) input b = (b', Some n) \<and> ar_store b = ar_store a \<and> pp_id p = i \<and> saved_as n p (ar_store a') \<and>
    pp_is_default p = (\<exists>q. find_profile i (ar_store a) = Some q \<and> pp_is_default q) \<and> store_wf (ar_store a') \<and> others_kept i (ar_store a) (ar_store a')"
  using update_course [OF assms disjI2 [OF refl]]
proof cases
  case (1 p0 input' a2 a3 n0 b a4)
  have ev: "\<exists>e. a' = recordEvent (ed_sql env) e a4" and inp: "input' = input"
    using 1(2,10) by auto
  note p0 = 1(1) and same = 1(8) and wfb = 1(7)
  define n where "n = (if pp_is_default p0 then n0\<lparr>pi_Name := ''Home''\<rparr> else n0)"
  note t = replace_tx_effect [OF 1(9) [folded n_def]]
  have wf: "schema_wf (ar_store a3)"
    using assms(1) 1(5) by (simp add: protections_wf_def)
  have norm: "distinct (pi_BlocklistIDs n)" "distinct (pi_AllowDomains n)" "distinct (pi_BlockDomains n)" "\<forall>ip \<in> set (pi_DeviceIPs n). ip_canonical ip"
    and ips: "pi_DeviceIPs n = pi_DeviceIPs n0"
    using normalized_distinct [OF 1(4)] by (simp_all add: n_def)
  have dev: "\<forall>ip \<in> set (pi_DeviceIPs n). device_of (ar_store b) ip \<noteq> None"
    using resolved_devices [OF wf _ 1(6)] norm(4) ips by simp
  define p where "p = p0\<lparr>pp_name := pi_Name n, pp_icon := pi_Icon n, pp_schedule := pi_Schedule n, pp_updated_at := now_stamp env b\<rparr>"
  have mine: "p0 \<in> set (protection_profiles (ar_store b))" "pp_id p0 = i"
    using find_profile_Some [OF p0] same by (simp_all add: same_profiles_def)
  then have i: "i \<in> profile_ids (ar_store b)" and p4: "p \<in> set (protection_profiles (ar_store a4))"
    by (auto simp: profile_ids_def t(3) p_def)
  let ?s = "clearProtectionChildren i (ar_store b\<lparr>protection_profiles := protection_profiles (ar_store a4)\<rparr>)"
  have "store_wf (ar_store b\<lparr>protection_profiles := protection_profiles (ar_store a4)\<rparr>)"
    using wfb i t(5) by (intro update_row_wf [OF _ i _ t(3)]) (simp_all add: schema_wf_def)
  then have "store_wf ?s"
    by (rule clear_store_wf)
  moreover have "i \<in> profile_ids ?s"
    using imageI [OF p4, of pp_id] mine(2) by (simp add: profile_ids_def clearProtectionChildren_def p_def)
  ultimately have wf4: "store_wf (ar_store a4)"
    using children_store_wf [OF _ t(4) _ norm(1-3) cleared] by blast
  have "saved_as n p (ar_store a4)"
  proof (rule children_saved [OF _ wf4 p4])
    show "children_written (pp_id p) (pp_is_default p) n ?s (ar_store a4)"
      using t(4) mine(2) by (simp add: p_def)
    show "\<forall>ip \<in> set (pi_DeviceIPs n). device_of ?s ip \<noteq> None"
      using dev by (simp add: device_of_def clearProtectionChildren_def)
    show "pp_id p \<notin> fst ` set (protection_blocklists ?s)" "pp_id p \<notin> fst ` set (map entry_pair (protection_allow_entries ?s))"
        "pp_id p \<notin> fst ` set (map entry_pair (protection_block_entries ?s))"
      using cleared [of i] mine(2) by (simp_all add: p_def)
  qed (simp_all add: p_def n_def)
  then have "saved_as n0 p (ar_store a4)"
    by (simp add: saved_as_def n_def p_def split: if_splits)
  moreover have "others_kept i (ar_store a) (ar_store a4)"
    using others_kept_observed [OF same t(1)] .
  moreover obtain ev sq' where "ar_store a' = (ar_store a4)\<lparr>events := ev, sqlite_sequence := sq'\<rparr>"
    using recordEvent_store ev by blast
  ultimately show ?thesis
    using 1(3,4) inp wf4 mine(2) p0 by (intro exI [of _ n0] exI [of _ p] exI [of _ a2] exI [of _ a3]) (simp add: event_tables p_def)
qed

fun saved :: "protection_request \<Rightarrow> reply \<Rightarrow> (int \<times> protectionInput) option" where
  "saved (Post_Protection (Some input)) (Created i) = Some (i, input)"
| "saved (Put_Protection i (Some input)) Accepted = Some (i, input)"
| "saved _ _ = None"


section \<open>A device and its addresses\<close>

text \<open>
  C38. Moving a device to the default profile through one address leaves what another of its addresses was assigned to. The request
  is answered with success and the membership of the device is gone, but an assignment of the other address stays,
  so that address is still served by its old profile.
\<close>

theorem stale_assignment_keeps_profile:
  assumes "schema_wf (ar_store a)" "all_answer env" "assignDeviceProtection env apply_fn ip (Some i) (a, w) = ((a', w'), Accepted)"
    "find_profile i (ar_store a) = Some home" "pp_is_default home" "ip_canonical ip" "ip \<noteq> other"
    "device_of (ar_store a) ip = Some d" "device_of (ar_store a) other = Some d"
    "gm_get (device_protection_assignments (ar_store a)) other = Some (pp_id p)" "p \<in> set (protection_profiles (ar_store a))"
  shows "membership_of (ar_store a') ip = None \<and> selected_profile (ar_store a') other = Some p"
proof -
  obtain parsed where parsed: "parse_ip ip = Some parsed" "ip_string parsed = ip"
    using assms(6) by (auto simp: ip_canonical_def split: option.splits)
  let ?a1 = "a\<lparr>ar_calls := Suc (ar_calls a)\<rparr>"
  obtain s2 r where o: "ObserveAddress (ed_obs env (Suc (ar_calls a))) ip ''assignment'' [] (ar_store a) = (s2, r)"
    by fastforce
  have q: "query (ed_sql env) (find_profile i) a = (?a1, Inr (Some home))"
    by (simp add: answered [OF assms(2)] assms(4))
  let ?a2 = "?a1\<lparr>ar_store := s2, ar_calls := Suc (Suc (ar_calls a))\<rparr>"
  have res: "resolve_device env ip ?a1 = (?a2, r)"
    by (simp add: resolve_device_def ResolveAddress_def o)
  obtain d2 where r: "r = Inr d2"
    using assms(3) parsed q res by (cases r) (auto simp: assignDeviceProtection_def Let_def)
  note k = observe_joins [OF assms(1) o] observe_same_profiles [OF o]
  let ?m = "gm_del d2 (device_protection_memberships s2)" and ?as = "gm_del ip (device_protection_assignments s2)"
  have s': "ar_store a' = s2\<lparr>device_protection_memberships := ?m, device_protection_assignments := ?as\<rparr>"
    using assms(3,5) parsed q res r
    by (auto simp: assignDeviceProtection_def Let_def answered [OF assms(2)] split: prod.splits if_splits bool.splits dest!: apply_or_undo_True)
  have norm: "normalizeAddress ip = ip" "ip \<noteq> []"
    using normalizeAddress_canonical address_not_empty assms(6) by blast+
  have ok: "oe_fails (ed_obs env (Suc (ar_calls a))) = None"
    using o r norm by (auto simp: ObserveAddress_def Let_def split: option.splits)
  have ipd: "device_of s2 ip = Some d2"
    using observe_resolves [OF assms(1) _ ok, of ip "''assignment''" "[]"] o r norm by auto
  obtain f where "\<forall>x e. device_of (ar_store a) x = Some e \<longrightarrow> device_of s2 x = Some (f e)"
    using k(1) unfolding joins_def by blast
  then have "device_of s2 other = device_of s2 ip"
    using assms(8,9) by simp
  then have both: "device_of (ar_store a') other = Some d2" "device_of (ar_store a') ip = Some d2"
    using ipd by (simp_all add: s' device_of_def)
  then have none: "membership_of (ar_store a') other = None" "membership_of (ar_store a') ip = None"
    by (simp_all add: membership_of_def s')
  have legacy: "gm_get (device_protection_assignments (ar_store a')) other = Some (pp_id p)"
    using k(2) assms(7,10) by (simp add: s' same_profiles_def)
  have "store_wf s2"
    using k(1) by (simp add: schema_wf_def)
  then have "store_wf (ar_store a')"
    unfolding s' store_wf_def by (simp add: AList.delete_eq) force
  moreover have profiles: "protection_profiles (ar_store a') = protection_profiles (ar_store a)"
    using k(2) by (simp add: s' same_profiles_def)
  moreover have "legacy_consistent (ar_store a') other" "target_profile (ar_store a') other p"
    using none legacy profiles assms(11) by (simp_all add: legacy_consistent_def target_profile_def is_legacy_def)
  ultimately have "selected_profile (ar_store a') other = Some p"
    using selected_is_target by blast
  with none show ?thesis
    by simp
qed

section \<open>Examples\<close>

definition kids_store :: Store where
  "kids_store = paired_store\<lparr>sqlite_sequence := [(''devices'', 8), (''device_addresses'', 2), (''protection_profiles'', 2)]\<rparr>"

lemma kids_wf: "protections_wf kids_store"
proof -
  have "store_wf kids_store"
    by code_simp
  moreover have "devices_wf kids_store"
    by (simp add: devices_wf_def device_ids_def kids_store_def paired_store_def demo_store_def next_id_def gm_wf_def)
  ultimately show ?thesis
    by (simp add: protections_wf_def schema_wf_def profile_ids_def kids_store_def paired_store_def demo_store_def next_id_def)
qed

lemma calm_answers: "all_answer calm_env"
  by (simp add: all_answer_def calm_env_def)

text \<open>A deletion cannot lose a device, so a rejected one always restores the profile.\<close>

lemma restore_tx_devices:
  assumes "restore_tx stamp p s = Some (s', x)"
  shows "device_ids s' = device_ids s"
proof -
  obtain s1 where s1: "upsert_profile (snapshot_row p) s = Some s1"
      "writeProtectionChildren stamp (ps_ID p) (ps_IsDefault p) (ps_Input p) (clearProtectionChildren (ps_ID p) s1) = Some s'"
    using assms by (auto simp: restore_tx_def bind_eq_Some_conv)
  have "device_ids s1 = device_ids s"
    using s1(1) by (auto simp: upsert_profile_def device_ids_def split: if_splits)
  with children_written_sets(5) [OF writeProtectionChildren_Some [OF s1(2)]] show ?thesis
    by (simp add: device_ids_def clearProtectionChildren_def)
qed

lemma undo_change_devices: "device_ids (ar_store (undo_change env previous assignments a)) = device_ids (ar_store a)"
proof -
  have "device_ids (ar_store (restoreProtection env previous b)) = device_ids (ar_store b)" for b
    by (auto simp: restoreProtection_def exec_checked_def Let_def split: option.splits dest: restore_tx_devices)
  moreover have "device_ids (ar_store (restoreDeviceProtectionAssignments q assignments b)) = device_ids (ar_store b)" for q b
    by (auto simp: restoreDeviceProtectionAssignments_def exec_checked_def assignments_tx_def Let_def device_ids_def split: option.splits
        dest!: restore_rows_devices)
  ultimately show ?thesis
    by (simp add: undo_change_def)
qed


definition kids_input :: protectionInput where
  "kids_input = \<lparr>pi_Name = '' Kids'', pi_Icon = ''TV'', pi_BlocklistIDs = [1, 1], pi_AllowDomains = [], pi_BlockDomains = [''Games.Example''],
     pi_DeviceIPs = [''10.0.0.8''], pi_Schedule = always_on\<rparr>"

definition kids_normal :: protectionInput where
  "kids_normal = \<lparr>pi_Name = ''Kids'', pi_Icon = ''tv'', pi_BlocklistIDs = [1], pi_AllowDomains = [], pi_BlockDomains = [''games.example''],
     pi_DeviceIPs = [''10.0.0.8''], pi_Schedule = fst (Validate utc_only always_on)\<rparr>"

lemma kids_devices: "normalizeProtectionDevices [''10.0.0.8''] = Some [''10.0.0.8'']"
proof -
  have "parse_ip ''10.0.0.8'' = Some [0, 0, 0, 0, 0, 65535, 2560, 8]"
    by (simp add: net_eval)
  moreover have "ip_string [0, 0, 0, 0, 0, 65535, 2560, 8] = ''10.0.0.8''"
    by (simp add: net_print_eval)
  moreover have "uniqueStrings [''10.0.0.8''] = [''10.0.0.8'']"
    by code_simp
  ultimately show ?thesis
    by (simp add: normalizeProtectionDevices_def)
qed

lemma kids_normalized:
  assumes "ar_store b = kids_store"
  shows "\<exists>b'. normalizeProtectionInput (ed_sql calm_env) kids_input b = (b', Some kids_normal) \<and> ar_store b' = kids_store"
proof -
  have 1: "trim_space '' Kids'' = ''Kids''" "rune_count ''Kids'' = 4" "to_lower (trim_space ''TV'') = ''tv''" "uniqueInt64s [1, 1] = [1]"
    by code_simp+
  have 2: "normalizeProtectionDomains [] [''Games.Example''] = Some ([], [''games.example''])"
    by code_simp
  have 3: "list_ex (\<lambda>b. bl_id b = 1) (blocklists kids_store)" "''tv'' \<in> set protectionIcons"
    by (simp_all add: kids_store_def paired_store_def demo_store_def protectionIcons_def)
  obtain schedule where 4: "Validate utc_only always_on = (schedule, None)"
    by (simp add: Validate_def always_on_def Let_def)
  have 5: "load_location (sq_host (ed_sql calm_env)) = utc_only"
    by (simp add: calm_env_def plain_host_def)
  show ?thesis
    using assms 1 2 3 4 5 kids_devices
    by (simp add: normalizeProtectionInput_def kids_input_def kids_normal_def normalizeProtectionBlocklists_def answered [OF calm_answers])
qed

lemma update_profile_keeps:
  assumes "update_profile stamp i input s = Some s1"
  shows "profile_ids s1 = profile_ids s" "blocklists s1 = blocklists s"
proof -
  have "map pp_id (protection_profiles s1) = map pp_id (protection_profiles s)"
    using assms by (auto simp: update_profile_def split: if_splits)
  then show "profile_ids s1 = profile_ids s"
    by (metis profile_ids_def set_map)
  show "blocklists s1 = blocklists s"
    using assms by (auto simp: update_profile_def split: if_splits)
qed

lemma resolve_succeeds:
  "schema_wf (ar_store a) \<Longrightarrow> \<forall>ip \<in> set ips. ip_canonical ip \<Longrightarrow> \<forall>k. oe_fails (ed_obs env k) = None \<Longrightarrow>
   \<exists>a'. resolveProtectionDevices env ips a = (a', True)"
proof (induction ips arbitrary: a)
  case (Cons x ips)
  have x: "normalizeAddress x \<noteq> []"
    using Cons.prems(2) normalizeAddress_canonical address_not_empty by auto
  obtain s1 d where o: "ObserveAddress (ed_obs env (ar_calls a)) x ''assignment'' [] (ar_store a) = (s1, Inr d)"
    using observe_resolves [OF Cons.prems(1) x] Cons.prems(3) by meson
  then have "schema_wf s1"
    using observe_joins [OF Cons.prems(1)] by blast
  then obtain a' where "resolveProtectionDevices env ips (a\<lparr>ar_store := s1, ar_calls := Suc (ar_calls a)\<rparr>) = (a', True)"
    using Cons.IH [of "a\<lparr>ar_store := s1, ar_calls := Suc (ar_calls a)\<rparr>"] Cons.prems(2,3) by auto
  then show ?case
    by (simp add: resolve_device_def ResolveAddress_def o)
qed simp

lemma kids_accepted: "snd (protection calm_env (\<lambda>s (w :: nat). (Suc w, True)) (Put_Protection 2 (Some kids_input)) (archive_of kids_store, 0)) = Accepted"
proof -
  let ?a = "archive_of kids_store"
  obtain p0 where p0: "find_profile 2 kids_store = Some p0" "\<not> pp_is_default p0"
    by (simp add: find_profile_def kids_store_def paired_store_def demo_store_def)
  obtain a1 r where read: "readProtection (ed_sql calm_env) 2 ?a = (a1, r)"
    by fastforce
  note r = readProtection_answered [OF calm_answers read]
  have a1: "ar_store a1 = kids_store" "r = Inr (snapshot_of 2 p0 kids_store)"
    using r p0(1) by (simp_all add: archive_of_def)
  let ?a2 = "a1\<lparr>ar_calls := Suc (ar_calls a1)\<rparr>"
  obtain a3 where a3: "normalizeProtectionInput (ed_sql calm_env) kids_input ?a2 = (a3, Some kids_normal)" "ar_store a3 = kids_store"
    using kids_normalized [of ?a2] a1(1) by auto
  have ips: "\<forall>ip \<in> set (pi_DeviceIPs kids_normal). ip_canonical ip" "distinct (pi_BlocklistIDs kids_normal)" "distinct (pi_AllowDomains kids_normal)"
      "distinct (pi_BlockDomains kids_normal)"
    using normalized_distinct [OF a3(1)] by simp_all
  have wf3: "schema_wf (ar_store a3)"
    using kids_wf a3(2) by (simp add: protections_wf_def)
  obtain b where b: "resolveProtectionDevices calm_env (pi_DeviceIPs kids_normal) a3 = (b, True)"
    using resolve_succeeds [OF wf3 ips(1), of calm_env] by (auto simp: calm_env_def quiet_env_def)
  have same: "same_profiles kids_store (ar_store b)"
    using resolveProtectionDevices_keeps [OF wf3 b] a3(2) by simp
  have profiles: "protection_profiles (ar_store b) = protection_profiles kids_store" "blocklists (ar_store b) = blocklists kids_store"
    using same by (simp_all add: same_profiles_def)
  have "\<not> name_taken 2 ''Kids'' kids_store"
    by code_simp
  then have free: "\<not> name_taken 2 (pi_Name kids_normal) (ar_store b)"
    by (simp add: name_taken_def profiles kids_normal_def)
  obtain s1 where u: "update_profile (now_stamp calm_env b) 2 kids_normal (ar_store b) = Some s1"
    using free by (simp add: update_profile_def)
  note s1 = u update_profile_keeps [OF u]
  have "\<exists>s2. writeProtectionChildren (now_stamp calm_env b) 2 False kids_normal (clearProtectionChildren 2 s1) = Some s2"
  proof (rule writeProtectionChildren_ok)
    show "2 \<in> profile_ids (clearProtectionChildren 2 s1)"
      using s1(2) profiles(1) by (simp add: profile_ids_def clearProtectionChildren_def kids_store_def paired_store_def demo_store_def)
    show "set (pi_BlocklistIDs kids_normal) \<subseteq> bl_id ` set (blocklists (clearProtectionChildren 2 s1))"
      using s1(3) profiles(2) by (simp add: clearProtectionChildren_def kids_normal_def kids_store_def paired_store_def demo_store_def)
  qed (use ips cleared in \<open>auto simp: clearProtectionChildren_def\<close>)
  then obtain s2 where "replace_tx (now_stamp calm_env b) 2 False kids_normal (ar_store b) = Some (s2, ())"
    using s1(1) by (auto simp: replace_tx_def)
  then show ?thesis
    using read a1 a3 b p0(2)
    by (simp add: readDeviceProtectionAssignments_def updateProtection_def replaceProtection_def apply_or_undo_def answered [OF calm_answers] Let_def)
qed


definition two_addresses :: Store where
  "two_addresses = kids_store\<lparr>
     device_addresses := [\<lparr>da_id = 1, da_device_id = 7, da_address = ''10.0.0.7'', da_family = ''ipv4'', da_source = ''dns'', da_last_seen_at = []\<rparr>,
       \<lparr>da_id = 2, da_device_id = 7, da_address = ''10.0.0.8'', da_family = ''ipv4'', da_source = ''dns'', da_last_seen_at = []\<rparr>],
     device_protection_assignments := [(''10.0.0.8'', 2)]\<rparr>"

theorem stale_assignment_keeps_profile_witness:
  "\<exists>a' w' p. assignDeviceProtection calm_env (\<lambda>s (w :: nat). (Suc w, True)) ''10.0.0.7'' (Some 1) (archive_of two_addresses, 0) = ((a', w'), Accepted) \<and>
     membership_of (ar_store a') ''10.0.0.7'' = None \<and> selected_profile (ar_store a') ''10.0.0.8'' = Some p \<and> pp_name p = ''Kids''"
proof -
  let ?a = "archive_of two_addresses" and ?apply = "\<lambda>s (w :: nat). (Suc w, True)"
  have "store_wf two_addresses"
    by code_simp
  moreover have "devices_wf two_addresses"
    by (simp add: devices_wf_def device_ids_def two_addresses_def kids_store_def paired_store_def demo_store_def next_id_def gm_wf_def)
  ultimately have wf: "schema_wf (ar_store ?a)"
    by (simp add: schema_wf_def archive_of_def)
  have x: "normalizeAddress ''10.0.0.7'' \<noteq> []"
    using normalizeAddress_canonical [OF canonical_10_0_0_7] by simp
  have ok: "oe_fails (ed_obs calm_env k) = None" for k
    by (simp add: calm_env_def quiet_env_def)
  obtain s2 d where o: "ObserveAddress (ed_obs calm_env (Suc 0)) ''10.0.0.7'' ''assignment'' [] two_addresses = (s2, Inr d)"
    using observe_resolves [OF wf x ok, of "Suc 0" "''assignment''" "[]"] by (auto simp: archive_of_def)
  obtain home p where profiles: "find_profile 1 two_addresses = Some home" "pp_is_default home" "p \<in> set (protection_profiles two_addresses)" "pp_id p = 2" "pp_name p = ''Kids''"
    by (simp add: find_profile_def two_addresses_def kids_store_def paired_store_def demo_store_def) (metis protection_profile.select_convs(1-3))
  have ip: "ip_string [0, 0, 0, 0, 0, 65535, 2560, 7] = ''10.0.0.7''"
    by (simp add: net_print_eval)
  have "snd (assignDeviceProtection calm_env ?apply ''10.0.0.7'' (Some 1) (?a, 0)) = Accepted"
    using o profiles
    by (simp add: assignDeviceProtection_def parse_10_0_0_7 ip answered [OF calm_answers] resolve_device_def ResolveAddress_def archive_of_def
        apply_or_undo_def Let_def)
  then obtain a' w' where d: "assignDeviceProtection calm_env ?apply ''10.0.0.7'' (Some 1) (?a, 0) = ((a', w'), Accepted)"
    by (metis surj_pair snd_conv)
  have "device_of two_addresses ''10.0.0.7'' = Some 7" "device_of two_addresses ''10.0.0.8'' = Some 7" "gm_get (device_protection_assignments two_addresses) ''10.0.0.8'' = Some 2"
    by (simp_all add: device_of_def two_addresses_def)
  then show ?thesis
    using stale_assignment_keeps_profile [OF wf calm_answers d _ profiles(2) canonical_10_0_0_7, of "''10.0.0.8''" 7 p] profiles d
    by (auto simp: archive_of_def)
qed

end
