(* ===== verification/Settings_Edit.thy ===== *)
theory Settings_Edit
  imports Config_Edit
begin

text \<open>
  The settings (\<^verbatim>\<open>internal/api/handlers/settings.go\<close>): which values a request may store, the transaction that stores them, and its
  undoing when CoreDNS rejects the configuration they give. The body of a request is the decoded map in the order in
  which Go visits it; the trigger of the health monitor after a change of the upstreams is left out. The values that the renderer reads are described by \<open>upstreams_ok\<close>, \<open>transport_ok\<close> and \<open>clients_ok\<close>.
\<close>

section \<open>Values\<close>

fun collect_upstreams :: "string list \<Rightarrow> string list \<Rightarrow> string list option" where
  "collect_upstreams normalized [] = Some normalized"
| "collect_upstreams normalized (raw # rest) = (case parse_ip (trim_space raw) of
     None \<Rightarrow> None
   | Some address \<Rightarrow>
       let canonical = ip_string address in
       collect_upstreams (if canonical \<in> set normalized then normalized else normalized @ [canonical]) rest)"

definition normalizeUpstreamAddresses :: "string \<Rightarrow> string option" where
  "normalizeUpstreamAddresses value = (case collect_upstreams [] (split_on (CHR '','') value) of
     None \<Rightarrow> None
   | Some normalized \<Rightarrow> if normalized = [] \<or> length normalized > 15 then None else Some (join '','' normalized))"

fun collect_cidrs :: "string list \<Rightarrow> string list \<Rightarrow> string list option" where
  "collect_cidrs normalized [] = Some normalized"
| "collect_cidrs normalized (raw # rest) =
     (let candidate = trim_space raw in
      if candidate = [] \<or> candidate \<in> set normalized then collect_cidrs normalized rest
      else (case cidr_network candidate of
        None \<Rightarrow> None
      | Some canonical \<Rightarrow>
          collect_cidrs (if canonical \<in> set normalized then normalized else normalized @ [canonical]) rest))"

definition normalizeClientCIDRs :: "string \<Rightarrow> string option" where
  "normalizeClientCIDRs value = (case collect_cidrs [] (split_on (CHR '','') value) of
     None \<Rightarrow> None
   | Some normalized \<Rightarrow> if normalized = [] then None else Some (join '','' normalized))"

definition between :: "int \<Rightarrow> int \<Rightarrow> string \<Rightarrow> string option" where
  "between lo hi value = (case atoi value of None \<Rightarrow> None | Some n \<Rightarrow> if n < lo \<or> hi < n then None else Some value)"

definition normalizeSettingValue :: "string \<Rightarrow> string \<Rightarrow> string option" where
  "normalizeSettingValue key value =
     (if key = ''upstream_dns'' then normalizeUpstreamAddresses value
      else if key = ''upstream_transport'' then (if value \<noteq> ''encrypted'' \<and> value \<noteq> ''standard'' then None else Some value)
      else if key = ''local_domain_suffix'' then
        (let suffix = trim_chars ''.'' (trim_space value) in
         if suffix = [] \<or> CHR ''.'' \<in> set suffix then None
         else (case NormalizeDomain (''host.'' @ suffix) of Inl _ \<Rightarrow> None | Inr _ \<Rightarrow> Some (to_lower suffix)))
      else if key = ''retention_days'' then between 1 3650 value
      else if key = ''dns_cache_ttl'' then between 30 3600 value
      else if key = ''faro_lan_ip'' then
        (case parse_ip (trim_space value) of
           None \<Rightarrow> None
         | Some ip \<Rightarrow> if is_loopback ip \<or> is_unspecified ip \<or> is_multicast ip then None else Some value)
      else if key = ''allowed_client_cidrs'' then normalizeClientCIDRs value
      else if key \<in> {''favicon_fetching_enabled'', ''dns_cache_enabled'', ''onboarding_completed''} then
        (if value \<noteq> ''true'' \<and> value \<noteq> ''false'' then None else Some value)
      else None)"

definition settingRequiresReload :: "string \<Rightarrow> bool" where
  "settingRequiresReload key \<longleftrightarrow> key \<in> {''upstream_dns'', ''upstream_transport'', ''local_domain_suffix'', ''dns_cache_enabled'',
     ''dns_cache_ttl'', ''allowed_client_cidrs''}"

section \<open>The transaction\<close>

fun normalize_all :: "(string, string) gomap \<Rightarrow> (string, string) gomap option" where
  "normalize_all [] = Some []"
| "normalize_all ((key, value) # rest) =
     Option.bind (normalizeSettingValue key value) (\<lambda>v. map_option ((#) (key, v)) (normalize_all rest))"

definition store_values :: "(string, string) gomap \<Rightarrow> Store \<Rightarrow> Store" where
  "store_values kvs s = fold (\<lambda>(key, value). put_setting key value) kvs s"

definition previousSetting :: "Store \<Rightarrow> string \<Rightarrow> string option" where
  "previousSetting s key = setting s key"

definition previous_settings :: "(string, string) gomap \<Rightarrow> Store \<Rightarrow> (string, string option) gomap" where
  "previous_settings input s = map (\<lambda>(key, _). (key, previousSetting s key)) input"

definition settings_tx :: "(string, string) gomap \<Rightarrow> Store \<Rightarrow> Store \<times> (string, string option) gomap option" where
  "settings_tx input s = (case normalize_all input of
     None \<Rightarrow> (s, None)
   | Some kvs \<Rightarrow> (store_values kvs s, Some (previous_settings input s)))"

fun restore_setting :: "string \<times> string option \<Rightarrow> Store \<Rightarrow> Store" where
  "restore_setting (key, None) s = s\<lparr>settings := gm_del key (settings s)\<rparr>"
| "restore_setting (key, Some value) s = put_setting key value s"

definition restoreSettings :: "sqlite \<Rightarrow> (string, string option) gomap \<Rightarrow> archive \<Rightarrow> archive" where
  "restoreSettings q previous a = fst (exec q (\<lambda>s. (fold restore_setting previous s, ())) a)"

section \<open>The handler\<close>

definition settings_event :: "string \<Rightarrow> string \<Rightarrow> string \<Rightarrow> string \<Rightarrow> string \<Rightarrow> event" where
  "settings_event type severity title description metadata =
     \<lparr>ev_id = 0, ev_timestamp = [], ev_type = type, ev_severity = severity, ev_title = title, ev_description = description,
      ev_client_ip = None, ev_domain = None, ev_metadata = metadata, ev_source = ''settings''\<rparr>"

definition applySettingsReload :: "edit_env \<Rightarrow> 'w applier \<Rightarrow> (string, string option) gomap \<Rightarrow> archive \<Rightarrow> 'w \<Rightarrow> (archive \<times> 'w) \<times> bool" where
  "applySettingsReload env apply_fn previous a w =
     (case apply_or_undo apply_fn (restoreSettings (ed_sql env) previous) a w of
        ((a1, w1), False) \<Rightarrow> ((recordEvent (ed_sql env) (settings_event ''dns.reload_failed'' ''critical'' ''DNS reload failed''
          (ed_reason env (ar_calls a)) ''{}'') a1, w1), False)
      | ((a1, w1), True) \<Rightarrow> ((recordEvent (ed_sql env) (settings_event ''dns.reload'' ''success'' ''DNS reloaded''
          ''Configuration successfully reloaded.'' ''{}'') a1, w1), True))"

definition recordUpstreamChange :: "edit_env \<Rightarrow> (string, string) gomap \<Rightarrow> string \<Rightarrow> string \<Rightarrow> archive \<Rightarrow> archive" where
  "recordUpstreamChange env input oldUpstream oldTransport a =
     (let changed = (\<lambda>key old. case gm_get input key of None \<Rightarrow> False | Some v \<Rightarrow> trim_space v \<noteq> trim_space old);
          next_value = (\<lambda>key old. if changed key old then setting_value input key else old) in
      if \<not> changed ''upstream_dns'' oldUpstream \<and> \<not> changed ''upstream_transport'' oldTransport then a
      else recordEvent (ed_sql env) (settings_event ''upstream.changed'' ''info'' ''Upstreams changed''
        ''DNS providers or connection privacy were updated.''
        (json_object [(''from'', ed_json env oldUpstream), (''to'', ed_json env (next_value ''upstream_dns'' oldUpstream)),
          (''transport_from'', ed_json env oldTransport), (''transport_to'', ed_json env (next_value ''upstream_transport'' oldTransport))])) a)"

definition updateSettings :: "edit_env \<Rightarrow> 'w applier \<Rightarrow> (string, string) gomap option \<Rightarrow> archive \<times> 'w \<Rightarrow> (archive \<times> 'w) \<times> reply" where
  "updateSettings env apply_fn body st = (case st of (a, w) \<Rightarrow>
     (case body of
        None \<Rightarrow> ((a, w), Bad_Request)
      | Some input \<Rightarrow>
          let (a1, oldUpstream) = settingValue (ed_sql env) ''upstream_dns'' a;
              (a2, oldTransport) = settingValue (ed_sql env) ''upstream_transport'' a1 in
          (case exec (ed_sql env) (settings_tx input) a2 of
             (a3, Inl _) \<Rightarrow> ((a3, w), Server_Error)
           | (a3, Inr None) \<Rightarrow> ((a3, w), Bad_Request)
           | (a3, Inr (Some previous)) \<Rightarrow>
               (case (if list_ex settingRequiresReload (gm_keys input) then applySettingsReload env apply_fn previous a3 w else ((a3, w), True)) of
                  ((a4, w'), False) \<Rightarrow> ((a4, w'), Server_Error)
                | ((a4, w'), True) \<Rightarrow> ((recordUpstreamChange env input oldUpstream oldTransport a4, w'), Accepted)))))"

section \<open>Undoing\<close>

lemma normalize_all_Some:
  "normalize_all input = Some kvs \<Longrightarrow> gm_keys kvs = gm_keys input \<and>
   (\<forall>k. gm_get kvs k = (case gm_get input k of None \<Rightarrow> None | Some v \<Rightarrow> normalizeSettingValue k v))"
proof (induction input arbitrary: kvs rule: normalize_all.induct)
  case (2 key v0 rest)
  then obtain v kvs' where v: "normalizeSettingValue key v0 = Some v" "normalize_all rest = Some kvs'" "kvs = (key, v) # kvs'"
    by (auto simp: bind_eq_Some_conv)
  then show ?case
    using "2.IH" [OF v(1,2)] by auto
qed simp

lemma store_values_get:
  "gm_wf kvs \<Longrightarrow> gm_get (settings (store_values kvs s)) k = (case gm_get kvs k of None \<Rightarrow> gm_get (settings s) k | Some v \<Rightarrow> Some v)"
proof (induction kvs arbitrary: s)
  case (Cons x kvs)
  obtain key v where x: "x = (key, v)"
    by fastforce
  have "gm_get kvs key = None" "gm_wf kvs"
    using Cons.prems by (auto simp: x gm_wf_def map_of_eq_None_iff)
  with Cons.IH [of "put_setting key v s"] show ?case
    by (auto simp: x store_values_def put_setting_def split: option.splits)
qed (simp add: store_values_def)

lemma restore_setting_get: "gm_get (settings (restore_setting (key, x) s)) k = (if k = key then x else gm_get (settings s) k)"
  by (cases x) (simp_all add: put_setting_def)

lemma restore_settings_get:
  "gm_wf previous \<Longrightarrow> gm_get (settings (fold restore_setting previous s)) k = (case gm_get previous k of None \<Rightarrow> gm_get (settings s) k | Some x \<Rightarrow> x)"
proof (induction previous arbitrary: s)
  case (Cons y previous)
  obtain key x where y: "y = (key, x)"
    by fastforce
  have "gm_get previous key = None" "gm_wf previous"
    using Cons.prems by (auto simp: y gm_wf_def map_of_eq_None_iff)
  with Cons.IH [of "restore_setting y s"] show ?case
    by (auto simp: y restore_setting_get split: option.splits)
qed simp

definition settings_edit :: "(string, string) gomap \<Rightarrow> Store \<Rightarrow> (Store \<times> (string, string option) gomap) option" where
  "settings_edit input s = (case settings_tx input s of (_, None) \<Rightarrow> None | (s', Some previous) \<Rightarrow> Some (s', previous))"

lemma previous_get: "gm_get (previous_settings input s) k = map_option (\<lambda>_. setting s k) (gm_get input k)"
  by (induction input) (auto simp: previous_settings_def previousSetting_def)

interpretation changed_settings: reversible_edit "\<lambda>s. gm_get (settings s)" "\<lambda>input _. gm_wf input" settings_edit
  "\<lambda>_ _ previous s. Some (fold restore_setting previous s)"
proof
  fix input s s1 and x :: "(string, string option) gomap"
  assume wf: "gm_wf input" and "settings_edit input s = Some (s1, x)"
  then obtain kvs where kvs: "normalize_all input = Some kvs" "s1 = store_values kvs s" "x = previous_settings input s"
    by (auto simp: settings_edit_def settings_tx_def split: option.splits)
  note n = normalize_all_Some [OF kvs(1)]
  have wfs: "gm_wf kvs" "gm_wf x"
    using wf n by (simp_all add: gm_wf_def kvs(3) previous_settings_def comp_def split_def)
  have "gm_get (settings (fold restore_setting x s1)) k = gm_get (settings s) k" for k
    unfolding restore_settings_get [OF wfs(2)] kvs(2) store_values_get [OF wfs(1)]
    using n by (auto simp: kvs(3) previous_get setting_def split: option.splits)
  then show "\<exists>s2. Some (fold restore_setting x s1) = Some s2 \<and> gm_get (settings s2) = gm_get (settings s)"
    by (simp add: fun_eq_iff)
qed

lemma recordEvent_settings: "settings (ar_store (recordEvent q e a)) = settings (ar_store a)"
  by (auto simp: recordEvent_def exec_def insert_event_def bump_def Let_def split: option.splits)

text \<open>
  C21. Settings that CoreDNS rejects are taken back. However many settings a request changes and for whatever reason it is
  refused (an unknown key, a bad value, a failing statement, a configuration that cannot be applied), every setting has
  its old value afterwards, and one that was not stored before is not stored, if the restoring transaction is executed.
\<close>

theorem refused_settings_restored:
  assumes "updateSettings env apply_fn (Some input) (a, w) = ((a', w'), r)" "\<not> is_success r" "gm_wf input"
    "sq_fails (ed_sql env) (ar_calls a + 3) = None"
  shows "gm_get (settings (ar_store a')) = gm_get (settings (ar_store a))"
proof -
  obtain a1 v1 a2 v2 where 1: "settingValue (ed_sql env) ''upstream_dns'' a = (a1, v1)" "settingValue (ed_sql env) ''upstream_transport'' a1 = (a2, v2)"
    by fastforce
  have a2: "ar_store a2 = ar_store a" "ar_calls a2 = ar_calls a + 2"
    using settingValue_keeps [OF 1(1)] settingValue_keeps [OF 1(2)] by simp_all
  consider (same) "ar_store a' = ar_store a"
    | (tx) a3 previous where "exec (ed_sql env) (settings_tx input) a2 = (a3, Inr (Some previous))" "applySettingsReload env apply_fn previous a3 w = ((a', w'), False)"
  proof (cases "exec (ed_sql env) (settings_tx input) a2")
    case (Pair a3 x)
    show thesis
    proof (cases "\<exists>previous. x = Inr (Some previous)")
      case True
      then show thesis
        using assms(1,2) 1 Pair tx
        by (auto simp: updateSettings_def is_success_def split: if_splits prod.splits bool.splits)
    next
      case False
      then have "a' = a3"
        using assms(1) 1 Pair by (auto simp: updateSettings_def split: sum.splits option.splits)
      moreover have "ar_store a3 = ar_store a2"
        using Pair False by (auto simp: exec_def settings_tx_def Let_def split: option.splits)
      ultimately show thesis
        using same a2 by simp
    qed
  qed
  then show ?thesis
  proof cases
    case same
    then show ?thesis
      by simp
  next
    case tx
    have e: "settings_edit input (ar_store a) = Some (ar_store a3, previous)" "ar_calls a3 = ar_calls a + 3"
      using tx(1) a2 by (auto simp: exec_Inr settings_edit_def split: prod.splits option.splits)
    obtain e1 where "a' = recordEvent (ed_sql env) e1 (restoreSettings (ed_sql env) previous a3)"
      using tx(2) by (auto simp: applySettingsReload_def apply_or_undo_def Let_def split: prod.splits bool.splits)
    then have "settings (ar_store a') = settings (fold restore_setting previous (ar_store a3))"
      using e(2) assms(4) by (simp add: recordEvent_settings restoreSettings_def exec_def)
    then show ?thesis
      using changed_settings.undo_edit [OF assms(3) e(1)] by auto
  qed
qed

section \<open>Accepted settings can be rendered\<close>

definition upstreams_ok :: "string \<Rightarrow> bool" where
  "upstreams_ok v \<longleftrightarrow> length (splitCSV v) \<le> 15 \<and> list_all (\<lambda>u. parse_ip u \<noteq> None) (splitCSV v)"

definition transport_ok :: "string \<Rightarrow> bool" where
  "transport_ok v \<longleftrightarrow> trim_space v \<in> {[], ''standard'', ''encrypted''}"

definition clients_ok :: "string \<Rightarrow> bool" where
  "clients_ok v \<longleftrightarrow> list_all (\<lambda>c. parse_cidr c \<noteq> None) (splitCSV v)"

lemma fallback_upstreams: "parse_ip ''1.1.1.1'' \<noteq> None" "parse_ip ''9.9.9.9'' \<noteq> None"
  by (simp_all add: net_eval)

lemma default_cidrs_parse: "c \<in> set default_cidrs \<Longrightarrow> parse_cidr c \<noteq> None"
  unfolding default_cidrs_def
  by (auto simp: parse_cidr_def cut_def cidr_bits_def net_eval)

lemma render_settings_iff:
  "is_ok (renderStateForSettings m) \<longleftrightarrow> upstreams_ok (setting_value m ''upstream_dns'') \<and>
     transport_ok (setting_value m ''upstream_transport'') \<and> clients_ok (setting_value m ''allowed_client_cidrs'')"
proof -
  have up: "\<not> length (if xs = [] then [''1.1.1.1'', ''9.9.9.9''] else xs) > 15 \<and> List.find (\<lambda>u. parse_ip u = None) (if xs = [] then [''1.1.1.1'', ''9.9.9.9''] else xs) = None
      \<longleftrightarrow> length xs \<le> 15 \<and> list_all (\<lambda>u. parse_ip u \<noteq> None) xs" for xs :: "string list"
    using fallback_upstreams by (auto simp: find_None_iff list_all_iff)
  have cl: "List.find (\<lambda>c. parse_cidr c = None) (if xs = [] then default_cidrs else xs) = None \<longleftrightarrow> list_all (\<lambda>c. parse_cidr c \<noteq> None) xs" for xs
    using default_cidrs_parse by (auto simp: find_None_iff list_all_iff)
  show ?thesis
    unfolding upstreams_ok_def clients_ok_def transport_ok_def up [symmetric] cl [symmetric] renderStateForSettings_def Let_def
    by (auto split: option.splits)
qed

lemma splitCSV_join:
  assumes "ps \<noteq> []" "\<And>p. p \<in> set ps \<Longrightarrow> p \<noteq> [] \<and> set p \<inter> space_bytes = {} \<and> CHR '','' \<notin> set p"
  shows "splitCSV (join '','' ps) = ps"
proof -
  have "split_on (CHR '','') (join '','' ps) = ps"
    using assms by (intro split_on_join) auto
  moreover have "map trim_space ps = ps"
    using assms(2) by (intro map_idI trim_space_bytes) auto
  ultimately show ?thesis
    using assms(2) by (auto simp: splitCSV_def filter_id_conv)
qed

lemma ip_string_plain:
  assumes "ip_wf ip"
  shows "ip_string ip \<noteq> [] \<and> set (ip_string ip) \<inter> space_bytes = {} \<and> CHR '','' \<notin> set (ip_string ip)"
proof -
  have "list_all addr_char (ip_string ip)"
    using parse_ip_chars [OF parse_ip_string [OF assms]] .
  then have "\<forall>c \<in> set (ip_string ip). c \<notin> space_bytes \<and> c \<noteq> CHR '',''"
    by (auto simp: list_all_iff addr_char_def is_hex_def is_digit_def space_bytes_def)
  then show ?thesis
    using ip_string_nonempty [OF assms] by blast
qed

lemma collect_upstreams_canonical:
  "collect_upstreams acc raws = Some ps \<Longrightarrow> (\<forall>p \<in> set acc. \<exists>ip. ip_wf ip \<and> p = ip_string ip) \<Longrightarrow> \<forall>p \<in> set ps. \<exists>ip. ip_wf ip \<and> p = ip_string ip"
proof (induction acc raws rule: collect_upstreams.induct)
  case (2 normalized raw rest)
  then obtain address where address: "parse_ip (trim_space raw) = Some address"
    by (cases "parse_ip (trim_space raw)") simp_all
  let ?acc = "if ip_string address \<in> set normalized then normalized else normalized @ [ip_string address]"
  have "collect_upstreams ?acc rest = Some ps"
    using "2.prems"(1) by (simp only: collect_upstreams.simps address option.case Let_def)
  moreover have "\<forall>p \<in> set ?acc. \<exists>ip. ip_wf ip \<and> p = ip_string ip"
    using "2.prems"(2) parse_ip_wf [OF address] by (simp add: ball_Un) blast
  ultimately show ?case
    by (rule "2.IH" [OF address refl])
qed simp

lemma upstreams_accepted:
  assumes "normalizeUpstreamAddresses x = Some v"
  shows "upstreams_ok v"
proof -
  obtain ps where ps: "collect_upstreams [] (split_on (CHR '','') x) = Some ps" "ps \<noteq> []" "length ps \<le> 15" "v = join '','' ps"
    using assms by (auto simp: normalizeUpstreamAddresses_def split: option.splits if_splits)
  have c: "\<exists>ip. ip_wf ip \<and> p = ip_string ip" if "p \<in> set ps" for p
    using collect_upstreams_canonical [OF ps(1)] that by simp
  have "splitCSV v = ps"
    unfolding ps(4) by (rule splitCSV_join [OF ps(2)]) (drule c, elim exE conjE, simp only: ip_string_plain simp_thms)
  moreover have "list_all (\<lambda>u. parse_ip u \<noteq> None) ps"
    unfolding list_all_iff by (intro ballI) (drule c, elim exE conjE, simp add: parse_ip_string)
  ultimately show ?thesis
    using ps(3) by (simp add: upstreams_ok_def)
qed

lemma collect_cidrs_canonical:
  "collect_cidrs acc raws = Some ps \<Longrightarrow> (\<forall>p \<in> set acc. \<exists>s. cidr_network s = Some p) \<Longrightarrow> \<forall>p \<in> set ps. \<exists>s. cidr_network s = Some p"
proof (induction acc raws rule: collect_cidrs.induct)
  case (2 normalized raw rest)
  let ?c = "trim_space raw"
  show ?case
  proof (cases "?c = [] \<or> ?c \<in> set normalized")
    case True
    then have "collect_cidrs normalized rest = Some ps"
      using "2.prems"(1) by (simp only: collect_cidrs.simps Let_def if_True)
    then show ?thesis
      by (rule "2.IH"(1) [OF refl True]) (rule "2.prems"(2))
  next
    case False
    then obtain canonical where c: "cidr_network ?c = Some canonical"
      using "2.prems"(1) by (cases "cidr_network ?c") (simp_all add: Let_def)
    let ?acc = "if canonical \<in> set normalized then normalized else normalized @ [canonical]"
    have "collect_cidrs ?acc rest = Some ps"
      using "2.prems"(1) False by (simp only: collect_cidrs.simps Let_def if_False c option.case)
    moreover have "\<forall>p \<in> set ?acc. \<exists>s. cidr_network s = Some p"
      using "2.prems"(2) c by (simp add: ball_Un) blast
    ultimately show ?thesis
      by (rule "2.IH"(2) [OF refl False c])
  qed
qed simp

lemma clients_accepted:
  assumes "normalizeClientCIDRs x = Some v"
  shows "clients_ok v"
proof -
  obtain ps where ps: "collect_cidrs [] (split_on (CHR '','') x) = Some ps" "ps \<noteq> []" "v = join '','' ps"
    using assms by (auto simp: normalizeClientCIDRs_def split: option.splits if_splits)
  have c: "\<exists>s. cidr_network s = Some p" if "p \<in> set ps" for p
    using collect_cidrs_canonical [OF ps(1)] that by simp
  then have "splitCSV v = ps"
    unfolding ps(3) using ps(2) cidr_network_parses by (intro splitCSV_join) blast+
  moreover have "list_all (\<lambda>u. parse_cidr u \<noteq> None) ps"
    unfolding list_all_iff using c cidr_network_parses(1) by blast
  ultimately show ?thesis
    by (simp add: clients_ok_def)
qed

lemma transport_accepted: "normalizeSettingValue ''upstream_transport'' x = Some v \<Longrightarrow> transport_ok v"
  by (auto simp: normalizeSettingValue_def transport_ok_def trim_space_bytes space_bytes_def split: if_splits)

text \<open>What an accepted request has done to the settings.\<close>

lemma normalize_all_gm_wf: "normalize_all input = Some kvs \<Longrightarrow> gm_wf input \<Longrightarrow> gm_wf kvs"
  using normalize_all_Some by (auto simp: gm_wf_def)

lemma recordUpstreamChange_settings: "settings (ar_store (recordUpstreamChange env input u t a)) = settings (ar_store a)"
  by (auto simp: recordUpstreamChange_def Let_def recordEvent_settings)

lemma updateSettings_Accepted:
  assumes "updateSettings env apply_fn (Some input) (a, w) = ((a', w'), Accepted)"
  obtains kvs where "normalize_all input = Some kvs" "settings (ar_store a') = settings (store_values kvs (ar_store a))"
proof -
  obtain a1 v1 a2 v2 where 1: "settingValue (ed_sql env) ''upstream_dns'' a = (a1, v1)" "settingValue (ed_sql env) ''upstream_transport'' a1 = (a2, v2)"
    by fastforce
  have a2: "ar_store a2 = ar_store a"
    using settingValue_keeps [OF 1(1)] settingValue_keeps [OF 1(2)] by simp
  obtain a3 previous a4 where tx: "exec (ed_sql env) (settings_tx input) a2 = (a3, Inr (Some previous))"
    and ap: "applySettingsReload env apply_fn previous a3 w = ((a4, w'), True) \<or> a4 = a3"
    and a': "a' = recordUpstreamChange env input v1 v2 a4"
    using assms 1 by (auto simp: updateSettings_def split: prod.splits sum.splits option.splits bool.splits if_splits)
  obtain kvs where k: "normalize_all input = Some kvs" "ar_store a3 = store_values kvs (ar_store a)"
    using tx a2 by (auto simp: exec_Inr settings_tx_def split: option.splits)
  have "settings (ar_store a4) = settings (ar_store a3)"
    using ap by (auto simp: applySettingsReload_def apply_or_undo_def Let_def recordEvent_settings split: prod.splits bool.splits)
  then show thesis
    using k a' by (intro that [of kvs]) (simp_all add: recordUpstreamChange_settings)
qed

text \<open>
  C20. A request that is accepted leaves settings that CoreDNS can be rendered from. Every setting that the request names
  has the normal form of the value given, every other setting is as before; and if the renderer accepted the settings
  before the request, it accepts them after it.
\<close>

theorem accepted_settings_render:
  assumes "updateSettings env apply_fn (Some input) (a, w) = ((a', w'), Accepted)" "gm_wf input"
  shows "setting (ar_store a') k = (case gm_get input k of None \<Rightarrow> setting (ar_store a) k | Some v \<Rightarrow> normalizeSettingValue k v) \<and>
    (is_ok (renderStateForSettings (settings (ar_store a))) \<longrightarrow> is_ok (renderStateForSettings (settings (ar_store a'))))"
proof -
  obtain kvs where k: "normalize_all input = Some kvs" "settings (ar_store a') = settings (store_values kvs (ar_store a))"
    using updateSettings_Accepted [OF assms(1)] .
  note n = normalize_all_Some [OF k(1)]
  have set: "gm_get (settings (ar_store a')) j = (case gm_get kvs j of None \<Rightarrow> gm_get (settings (ar_store a)) j | Some v \<Rightarrow> Some v)" for j
    unfolding k(2) by (rule store_values_get [OF normalize_all_gm_wf [OF k(1) assms(2)]])
  have valid: "gm_get kvs j = Some v \<Longrightarrow> \<exists>x. normalizeSettingValue j x = Some v" for j v
    using n by (auto split: option.splits)
  have read: "setting_value (settings (ar_store a')) j = (case gm_get kvs j of None \<Rightarrow> setting_value (settings (ar_store a)) j | Some v \<Rightarrow> v)" for j
    by (auto simp: setting_value_def set split: option.splits)
  have "gm_get kvs k \<noteq> None \<longleftrightarrow> gm_get input k \<noteq> None"
    using n map_of_eq_None_iff [of kvs k] map_of_eq_None_iff [of input k] by (metis list.set_map)
  then have "setting (ar_store a') k = (case gm_get input k of None \<Rightarrow> setting (ar_store a) k | Some v \<Rightarrow> normalizeSettingValue k v)"
    using n by (auto simp: setting_def set split: option.splits)
  moreover have "upstreams_ok (setting_value (settings (ar_store a')) ''upstream_dns'') \<and> transport_ok (setting_value (settings (ar_store a')) ''upstream_transport'') \<and>
      clients_ok (setting_value (settings (ar_store a')) ''allowed_client_cidrs'')"
    if "is_ok (renderStateForSettings (settings (ar_store a)))"
    using that valid [of "''upstream_dns''"] valid [of "''upstream_transport''"] valid [of "''allowed_client_cidrs''"]
      upstreams_accepted clients_accepted transport_accepted
    unfolding render_settings_iff read by (auto simp: normalizeSettingValue_def split: option.splits)
  ultimately show ?thesis
    by (simp add: render_settings_iff)
qed

section \<open>An example\<close>


lemma quad_eval: "parse_ip ''9.9.9.9'' = Some [0, 0, 0, 0, 0, 65535, 2313, 2313]" "ip_string [0, 0, 0, 0, 0, 65535, 2313, 2313] = ''9.9.9.9''"
  by (simp add: net_eval, simp add: net_print_eval)

lemma quad_accepted: "normalizeSettingValue ''upstream_dns'' ''9.9.9.9'' = Some ''9.9.9.9''"
proof -
  have "split_on (CHR '','') ''9.9.9.9'' = [''9.9.9.9'']" "trim_space ''9.9.9.9'' = ''9.9.9.9''"
    by (simp_all add: trim_space_bytes space_bytes_def)
  then show ?thesis
    by (simp add: normalizeSettingValue_def normalizeUpstreamAddresses_def quad_eval del: split_on.simps)
qed

definition quad_input :: "(string, string) gomap" where
  "quad_input = [(''upstream_dns'', ''9.9.9.9'')]"

lemma quad_request:
  "\<exists>a'. updateSettings calm_env (\<lambda>s w. (Suc w, ok)) (Some quad_input) (archive_of demo_store, 0) = ((a', if ok then 1 else 2), if ok then Accepted else Server_Error)"
  by (simp add: updateSettings_def quad_input_def settingValue_def query_def exec_def calm_env_def archive_of_def settings_tx_def quad_accepted
      previous_settings_def settingRequiresReload_def applySettingsReload_def apply_or_undo_def Let_def split: prod.splits)

theorem refused_settings_restored_witness:
  "\<exists>a'. updateSettings calm_env (\<lambda>s w. (Suc w, False)) (Some quad_input) (archive_of demo_store, 0) = ((a', 2), Server_Error) \<and>
     gm_get (settings (ar_store a')) = gm_get (settings demo_store)"
proof -
  obtain a' where u: "updateSettings calm_env (\<lambda>s w. (Suc w, False)) (Some quad_input) (archive_of demo_store, 0) = ((a', 2), Server_Error)"
    using quad_request [of False] by auto
  show ?thesis
    using refused_settings_restored [OF u] u by (simp add: is_success_def quad_input_def gm_wf_def calm_env_def archive_of_def)
qed

theorem accepted_settings_render_witness:
  "\<exists>a'. updateSettings calm_env (\<lambda>s w. (Suc w, True)) (Some quad_input) (archive_of demo_store, 0) = ((a', 1), Accepted) \<and>
     setting (ar_store a') ''upstream_dns'' = Some ''9.9.9.9'' \<and> is_ok (renderStateForSettings (settings (ar_store a')))"
proof -
  obtain a' where u: "updateSettings calm_env (\<lambda>s w. (Suc w, True)) (Some quad_input) (archive_of demo_store, 0) = ((a', 1), Accepted)"
    using quad_request [of True] by auto
  have "is_ok (renderStateForSettings (settings demo_store))"
    unfolding render_settings_iff
    by (simp add: upstreams_ok_def transport_ok_def clients_ok_def splitCSV_def demo_store_def setting_value_def trim_space_bytes space_bytes_def net_eval parse_cidr_def cut_def cidr_bits_def)
  then show ?thesis
    using accepted_settings_render [OF u, of "''upstream_dns''"] u by (simp add: quad_input_def gm_wf_def archive_of_def quad_accepted)
qed

end
