(* ===== verification/Rule_Edit.thy ===== *)
theory Rule_Edit
  imports Protection_Edit
begin

text \<open>
  The exceptions and custom blocks of the default profile and the deletion of a blocklist (\<^verbatim>\<open>internal/api/handlers/blocklists.go\<close>),
  and the temporary tests (\<^verbatim>\<open>troubleshooting.go\<close>): a test allows some domains in the profile of a device for ten minutes, and
  is then kept as exceptions or undone.

  The error of a random source is not modelled: Go's \<^verbatim>\<open>crypto/rand\<close> does not return one.
\<close>

section \<open>Inserting rows with their ids\<close>

text \<open>\<^verbatim>\<open>INSERT\<close> of rows that carry their id, under a unique key and foreign keys (\<open>ok\<close>).\<close>

fun reinsert :: "('r \<Rightarrow> int) \<Rightarrow> ('r \<Rightarrow> 'k) \<Rightarrow> ('r \<Rightarrow> bool) \<Rightarrow> 'r list \<Rightarrow> 'r list \<Rightarrow> 'r list option" where
  "reinsert rid key ok [] rows = Some rows"
| "reinsert rid key ok (x # xs) rows =
     (if list_ex (\<lambda>y. rid y = rid x \<or> key y = key x) rows \<or> \<not> ok x then None
      else reinsert rid key ok xs (insort_key rid x rows))"

lemma filter_insort_removed:
  assumes "sorted (map f zs)" "distinct (map f zs)" "x \<in> set zs" "x \<notin> set xs"
  shows "insort_key f x (filter (\<lambda>z. z \<notin> set (x # xs)) zs) = filter (\<lambda>z. z \<notin> set xs) zs"
proof -
  let ?ys = "filter (\<lambda>z. z \<notin> set xs) zs"
  have "f z = f x \<longleftrightarrow> z = x" if "z \<in> set zs" for z
    using assms(2,3) that by (auto simp: distinct_map dest: inj_onD)
  then have "filter (\<lambda>z. z \<notin> set (x # xs)) zs = filter (\<lambda>z. f z \<noteq> f x) ?ys"
    by (auto simp: intro!: filter_cong)
  moreover have "insort_key f x (filter (\<lambda>z. f z \<noteq> f x) ?ys) = ?ys"
    using assms by (intro insort_removed) (auto simp: sorted_filter distinct_map inj_on_def)
  ultimately show ?thesis
    by simp
qed

lemma reinsert_all:
  assumes "sorted (map rid zs)" "distinct (map rid zs)" "distinct (map key zs)"
  shows "distinct xs \<Longrightarrow> set xs \<subseteq> set zs \<Longrightarrow> list_all ok xs \<Longrightarrow> reinsert rid key ok xs (filter (\<lambda>z. z \<notin> set xs) zs) = Some zs"
proof (induction xs)
  case (Cons x xs)
  have "\<not> list_ex (\<lambda>y. rid y = rid x \<or> key y = key x) (filter (\<lambda>z. z \<notin> set (x # xs)) zs)"
    using assms(2,3) Cons.prems(2) by (auto simp: list_ex_iff distinct_map dest: inj_onD)
  moreover have "insort_key rid x (filter (\<lambda>z. z \<notin> set (x # xs)) zs) = filter (\<lambda>z. z \<notin> set xs) zs"
    using assms(1,2) Cons.prems by (intro filter_insort_removed) auto
  ultimately show ?case
    using Cons by simp
qed simp

section \<open>Exceptions and custom blocks\<close>

text \<open>\<^verbatim>\<open>scalarInt\<close>: a failing query and a missing row read as 0.\<close>

definition default_id :: "sqlite \<Rightarrow> archive \<Rightarrow> archive \<times> int" where
  "default_id q a = (case query q (\<lambda>s. List.find pp_is_default (protection_profiles s)) a of
     (a', Inr (Some p)) \<Rightarrow> (a', pp_id p)
   | (a', _) \<Rightarrow> (a', 0))"

definition has_entry :: "entry_table \<Rightarrow> int \<Rightarrow> string \<Rightarrow> Store \<Rightarrow> bool" where
  "has_entry t i domain s \<longleftrightarrow> list_ex (\<lambda>e. pe_protection_id e = i \<and> pe_domain e = domain) (entries_of t s)"

fun set_entries :: "entry_table \<Rightarrow> protection_entry list \<Rightarrow> Store \<Rightarrow> Store" where
  "set_entries Allow_Entries es s = s\<lparr>protection_allow_entries := es\<rparr>"
| "set_entries Block_Entries es s = s\<lparr>protection_block_entries := es\<rparr>"

fun entry_id :: "entry_table \<Rightarrow> Store \<Rightarrow> int" where
  "entry_id Allow_Entries s = next_id ''protection_allow_entries'' s"
| "entry_id Block_Entries s = next_id ''protection_block_entries'' s"

text \<open>\<^verbatim>\<open>INSERT OR IGNORE\<close> returns the id of the row when it inserted one; it does not ignore a foreign key.\<close>

definition insert_rule :: "entry_table \<Rightarrow> string \<Rightarrow> int \<Rightarrow> string \<Rightarrow> Store \<Rightarrow> (Store \<times> int option) option" where
  "insert_rule t stamp i domain s =
     (if has_entry t i domain s then Some (s, None)
      else if i \<notin> profile_ids s then None
      else Some (add_entry t stamp i domain s, Some (entry_id t s)))"

definition delete_entry :: "entry_table \<Rightarrow> int \<Rightarrow> int \<Rightarrow> Store \<Rightarrow> Store" where
  "delete_entry t i p s = set_entries t (filter (\<lambda>e. \<not> (pe_id e = i \<and> pe_protection_id e = p)) (entries_of t s)) s"

definition find_entry :: "entry_table \<Rightarrow> int \<Rightarrow> int \<Rightarrow> Store \<Rightarrow> protection_entry option" where
  "find_entry t i p s = List.find (\<lambda>e. pe_id e = i \<and> pe_protection_id e = p) (entries_of t s)"

definition entry_key :: "protection_entry \<Rightarrow> int \<times> string" where
  "entry_key e = (pe_protection_id e, pe_domain e)"

definition restore_entries :: "entry_table \<Rightarrow> protection_entry list \<Rightarrow> Store \<Rightarrow> Store option" where
  "restore_entries t es s =
     map_option (\<lambda>rows. set_entries t rows s) (reinsert pe_id entry_key (\<lambda>e. pe_protection_id e \<in> profile_ids s) es (entries_of t s))"

definition domainCollection :: "edit_env \<Rightarrow> 'w applier \<Rightarrow> entry_table \<Rightarrow> string option \<Rightarrow> archive \<times> 'w \<Rightarrow> (archive \<times> 'w) \<times> reply" where
  "domainCollection env apply_fn t body st = (case st of (a, w) \<Rightarrow>
     let (a1, p) = default_id (ed_sql env) a in
     (case body of
        None \<Rightarrow> ((a1, w), Bad_Request)
      | Some input \<Rightarrow>
          (case NormalizeDomain input of
             Inl _ \<Rightarrow> ((a1, w), Bad_Request)
           | Inr domain \<Rightarrow>
               (case exec_checked (ed_sql env) (insert_rule t (now_stamp env a1) p domain) a1 of
                  (a2, Inl _) \<Rightarrow> ((a2, w), Server_Error)
                | (a2, Inr None) \<Rightarrow> ((a2, w), Created (ed_rowid env (ar_calls a1)))
                | (a2, Inr (Some i)) \<Rightarrow>
                    (case apply_or_undo apply_fn (\<lambda>a. fst (exec (ed_sql env) (\<lambda>s. (delete_entry t i p s, ())) a)) a2 w of
                       (st', ok) \<Rightarrow> (st', if ok then Created i else Server_Error))))))"

definition domainDelete :: "edit_env \<Rightarrow> 'w applier \<Rightarrow> entry_table \<Rightarrow> int \<Rightarrow> archive \<times> 'w \<Rightarrow> (archive \<times> 'w) \<times> reply" where
  "domainDelete env apply_fn t i st = (case st of (a, w) \<Rightarrow>
     let (a1, p) = default_id (ed_sql env) a in
     (case query (ed_sql env) (find_entry t i p) a1 of
        (a2, Inl _) \<Rightarrow> ((a2, w), Server_Error)
      | (a2, Inr None) \<Rightarrow> ((a2, w), Bad_Request)
      | (a2, Inr (Some e)) \<Rightarrow>
          edit_and_apply (ed_sql env) apply_fn (\<lambda>s. Some (delete_entry t i p s, ())) (\<lambda>_. restore_entries t [e])
            (\<lambda>_. Accepted) Server_Error a2 w))"

datatype rule_request = Post_Rule entry_table "string option" | Delete_Rule entry_table int

fun domain_rules :: "edit_env \<Rightarrow> 'w applier \<Rightarrow> rule_request \<Rightarrow> archive \<times> 'w \<Rightarrow> (archive \<times> 'w) \<times> reply" where
  "domain_rules env apply_fn (Post_Rule t body) st = domainCollection env apply_fn t body st"
| "domain_rules env apply_fn (Delete_Rule t i) st = domainDelete env apply_fn t i st"

section \<open>Deleting a blocklist\<close>

definition set_list :: "int \<Rightarrow> (blocklist \<Rightarrow> blocklist) \<Rightarrow> Store \<Rightarrow> Store" where
  "set_list i f s = s\<lparr>blocklists := map (\<lambda>b. if bl_id b = i then f b else b) (blocklists s)\<rparr>"

definition readBlocklist :: "int \<Rightarrow> Store \<Rightarrow> blocklist option" where
  "readBlocklist i s = List.find (\<lambda>b. bl_id b = i) (blocklists s)"

definition restoreBlocklist :: "sqlite \<Rightarrow> blocklist \<Rightarrow> archive \<Rightarrow> archive" where
  "restoreBlocklist q previous a = fst (exec q (\<lambda>s. (set_list (bl_id previous) (\<lambda>_. previous) s, ())) a)"

definition applyBlocklistChange :: "sqlite \<Rightarrow> 'w applier \<Rightarrow> blocklist \<Rightarrow> archive \<Rightarrow> 'w \<Rightarrow> (archive \<times> 'w) \<times> bool" where
  "applyBlocklistChange q apply_fn previous a w = apply_or_undo apply_fn (restoreBlocklist q previous) a w"

text \<open>\<^verbatim>\<open>DELETE FROM blocklists\<close> with the cascades of the schema.\<close>

definition delete_list :: "int \<Rightarrow> Store \<Rightarrow> Store" where
  "delete_list i s = s\<lparr>blocklists := filter (\<lambda>b. bl_id b \<noteq> i) (blocklists s),
     blocklist_entries := filter (\<lambda>e. be_blocklist_id e \<noteq> i) (blocklist_entries s),
     protection_blocklists := filter (\<lambda>(_, b). b \<noteq> i) (protection_blocklists s)\<rparr>"

definition deleteBlocklist :: "edit_env \<Rightarrow> 'w applier \<Rightarrow> int \<Rightarrow> archive \<times> 'w \<Rightarrow> (archive \<times> 'w) \<times> reply" where
  "deleteBlocklist env apply_fn i st = (case st of (a, w) \<Rightarrow>
     (case query (ed_sql env) (readBlocklist i) a of
        (a1, Inr (Some previous)) \<Rightarrow>
          (case exec (ed_sql env) (\<lambda>s. (set_list i (\<lambda>b. b\<lparr>bl_enabled := False, bl_updated_at := now_stamp env a1\<rparr>) s, ())) a1 of
             (a2, Inl _) \<Rightarrow> ((a2, w), Server_Error)
           | (a2, Inr _) \<Rightarrow>
               (case applyBlocklistChange (ed_sql env) apply_fn previous a2 w of
                  ((a3, w'), False) \<Rightarrow> ((a3, w'), Server_Error)
                | ((a3, w'), True) \<Rightarrow>
                    (case exec (ed_sql env) (\<lambda>s. (delete_list i s, ())) a3 of
                       (a4, Inl _) \<Rightarrow> ((a4, w'), Server_Error)
                     | (a4, Inr _) \<Rightarrow> ((a4, w'), Accepted))))
      | (a1, _) \<Rightarrow> ((a1, w), Server_Error)))"

section \<open>Temporary tests\<close>

record troubleshootingInput =
  ti_DeviceID :: int
  ti_Action :: string
  ti_ClientIP :: string
  ti_ProtectionID :: int
  ti_Domains :: "string list"
  ti_Token :: string

text \<open>\<^verbatim>\<open>julianday(expires_at) < julianday('now','-1 day')\<close>.\<close>

definition long_expired :: "host \<Rightarrow> time \<Rightarrow> troubleshooting_exception \<Rightarrow> bool" where
  "long_expired h now t = (case julianday h (te_expires_at t) of None \<Rightarrow> False | Some ms \<Rightarrow> ms < now div 1000000 - 86400000)"

definition active_tests :: "host \<Rightarrow> time \<Rightarrow> troubleshooting_exception list \<Rightarrow> nat" where
  "active_tests h now ts = card (set (map te_token (filter (\<lambda>t. expires_after h now (te_expires_at t)) ts)))"

fun insert_tests :: "(string \<Rightarrow> troubleshooting_exception) \<Rightarrow> string list \<Rightarrow> Store \<Rightarrow> Store option" where
  "insert_tests row [] s = Some s"
| "insert_tests row (d # ds) s =
     (let t = (row d)\<lparr>te_id := next_id ''troubleshooting_exceptions'' s\<rparr> in
      if list_ex (\<lambda>x. te_token x = te_token t \<and> te_domain x = d) (troubleshooting_exceptions s) \<or>
        te_device_id t \<notin> device_ids s \<or> te_protection_id t \<notin> profile_ids s then None
      else insert_tests row ds ((bump ''troubleshooting_exceptions'' s)\<lparr>troubleshooting_exceptions := troubleshooting_exceptions s @ [t]\<rparr>))"

text \<open>The transaction returns whether it was committed: too many active tests roll it back.\<close>

definition start_tx :: "host \<Rightarrow> time \<Rightarrow> (string \<Rightarrow> troubleshooting_exception) \<Rightarrow> string list \<Rightarrow> Store \<Rightarrow> (Store \<times> bool) option" where
  "start_tx h now row domains s =
     (let s1 = s\<lparr>troubleshooting_exceptions := filter (\<lambda>t. \<not> long_expired h now t) (troubleshooting_exceptions s)\<rparr> in
      if active_tests h now (troubleshooting_exceptions s1) \<ge> 10 then Some (s, False)
      else map_option (\<lambda>s2. (s2, True)) (insert_tests row domains s1))"

definition delete_tests :: "string \<Rightarrow> Store \<Rightarrow> Store" where
  "delete_tests token s = s\<lparr>troubleshooting_exceptions := filter (\<lambda>t. te_token t \<noteq> token) (troubleshooting_exceptions s)\<rparr>"

text \<open>Apply or undo, where a failing undoing is not followed by another attempt to apply.\<close>

definition apply_or_restore :: "'w applier \<Rightarrow> unit action \<Rightarrow> archive \<Rightarrow> 'w \<Rightarrow> (archive \<times> 'w) \<times> bool" where
  "apply_or_restore apply_fn restore a w = (case apply_fn (ar_store a) w of
     (w1, True) \<Rightarrow> ((a, w1), True)
   | (w1, False) \<Rightarrow> (case restore a of
       (a', Inl _) \<Rightarrow> ((a', w1), False)
     | (a', Inr _) \<Rightarrow> ((a', fst (apply_fn (ar_store a') w1)), False)))"

definition test_event :: "string \<Rightarrow> event" where
  "test_event clientIP =
     \<lparr>ev_id = 0, ev_timestamp = [], ev_type = ''troubleshooting.started'', ev_severity = ''info'', ev_title = ''Temporary domain test started'',
      ev_description = ''Selected domains are allowed for ten minutes in this protection.'', ev_client_ip = Some clientIP, ev_domain = None,
      ev_metadata = ''{}'', ev_source = ''protection''\<rparr>"

definition test_row :: "string \<Rightarrow> string \<Rightarrow> int \<Rightarrow> int \<Rightarrow> string \<Rightarrow> string \<Rightarrow> troubleshooting_exception" where
  "test_row token clientIP deviceID protectionID expires domain =
     \<lparr>te_id = 0, te_device_id = deviceID, te_protection_id = protectionID, te_domain = domain, te_expires_at = expires, te_token = token,
      te_client_ip = clientIP\<rparr>"

text \<open>After the checks: the transaction, applying, and the reply.\<close>

definition run_test :: "edit_env \<Rightarrow> 'w applier \<Rightarrow> string \<Rightarrow> int \<Rightarrow> int \<Rightarrow> string list \<Rightarrow> archive \<times> 'w \<Rightarrow> (archive \<times> 'w) \<times> reply" where
  "run_test env apply_fn clientIP deviceID protectionID domains st = (case st of (a, w) \<Rightarrow>
     let q = ed_sql env; token = ed_token env (ar_calls a);
         expires = format_rfc3339nano (clock q a + 10 * minute) in
     (case exec_checked q (start_tx (sq_host q) (clock q a) (test_row token clientIP deviceID protectionID expires) domains) a of
        (a1, Inl _) \<Rightarrow> ((a1, w), Server_Error)
      | (a1, Inr False) \<Rightarrow> ((a1, w), Bad_Request)
      | (a1, Inr True) \<Rightarrow>
          (case apply_or_restore apply_fn (exec q (\<lambda>s. (delete_tests token s, ()))) a1 w of
             ((a2, w'), False) \<Rightarrow> ((a2, w'), Server_Error)
           | ((a2, w'), True) \<Rightarrow> ((recordEvent q (test_event clientIP) a2, w'), Test_Started token expires))))"

definition first_occurrences :: "string list \<Rightarrow> string list" where
  "first_occurrences ds = fold (\<lambda>d seen. if d \<in> set seen then seen else seen @ [d]) ds []"

definition startTroubleshooting :: "edit_env \<Rightarrow> 'w applier \<Rightarrow> troubleshootingInput \<Rightarrow> archive \<times> 'w \<Rightarrow> (archive \<times> 'w) \<times> reply" where
  "startTroubleshooting env apply_fn input st = (case st of (a, w) \<Rightarrow>
     (case parse_ip (ti_ClientIP input) of
        None \<Rightarrow> ((a, w), Bad_Request)
      | Some ip \<Rightarrow>
          if ti_Domains input = [] \<or> length (ti_Domains input) > 20 then ((a, w), Bad_Request)
          else let clientIP = ip_string ip in
          (case query (ed_sql env) (\<lambda>s. device_of s clientIP) a of
             (a1, Inr (Some deviceID)) \<Rightarrow>
               let (a2, protectionID) = (case query (ed_sql env) (\<lambda>s. protectionForClient s clientIP) a1 of
                     (a2, Inl _) \<Rightarrow> (a2, 0) | (a2, Inr (i, _, _)) \<Rightarrow> (a2, i)) in
               if deviceID \<noteq> ti_DeviceID input \<or> protectionID = 0 \<or> protectionID \<noteq> ti_ProtectionID input then ((a2, w), Conflict)
               else (case query (ed_sql env) redundancy_role a2 of
                  (a3, Inl _) \<Rightarrow> ((a3, w), Server_Error)
                | (a3, Inr role) \<Rightarrow>
                    if role \<noteq> ''standalone'' then ((a3, w), Conflict)
                    else (case rmap NormalizeDomain (ti_Domains input) of
                       Inl _ \<Rightarrow> ((a3, w), Bad_Request)
                     | Inr domains \<Rightarrow> run_test env apply_fn clientIP deviceID protectionID (first_occurrences domains) (a3, w)))
           | (a1, _) \<Rightarrow> ((a1, w), Bad_Request))))"

text \<open>The join with the profiles drops no row, because of the foreign key.\<close>

definition trialEntries :: "string \<Rightarrow> Store \<Rightarrow> troubleshooting_exception list" where
  "trialEntries token s = filter (\<lambda>t. te_token t = token \<and> te_protection_id t \<in> profile_ids s) (troubleshooting_exceptions s)"

definition keep_entry :: "string \<Rightarrow> troubleshooting_exception \<Rightarrow> Store \<Rightarrow> (Store \<times> int list \<times> protection_entry list) option" where
  "keep_entry stamp t s =
     (let block = List.find (\<lambda>e. pe_protection_id e = te_protection_id t \<and> pe_domain e = te_domain t) (protection_block_entries s);
          s1 = (case block of None \<Rightarrow> s | Some b \<Rightarrow>
            s\<lparr>protection_block_entries := filter (\<lambda>e. pe_id e \<noteq> pe_id b) (protection_block_entries s)\<rparr>) in
      map_option (\<lambda>(s2, inserted). (s2, (case inserted of None \<Rightarrow> [] | Some i \<Rightarrow> [i]), (case block of None \<Rightarrow> [] | Some b \<Rightarrow> [b])))
        (insert_rule Allow_Entries stamp (te_protection_id t) (te_domain t) s1))"

fun keep_entries :: "string \<Rightarrow> troubleshooting_exception list \<Rightarrow> Store \<Rightarrow> (Store \<times> int list \<times> protection_entry list) option" where
  "keep_entries stamp [] s = Some (s, [], [])"
| "keep_entries stamp (t # ts) s =
     Option.bind (keep_entry stamp t s) (\<lambda>(s1, i1, b1).
       map_option (\<lambda>(s2, i2, b2). (s2, i1 @ i2, b1 @ b2)) (keep_entries stamp ts s1))"

definition finish_tx :: "string \<Rightarrow> string \<Rightarrow> string \<Rightarrow> troubleshooting_exception list \<Rightarrow> Store \<Rightarrow>
    (Store \<times> int list \<times> protection_entry list) option" where
  "finish_tx stamp action token entries s =
     map_option (\<lambda>(s1, inserted, replaced). (delete_tests token s1, inserted, replaced))
       (if action = ''keep'' then keep_entries stamp entries s else Some (s, [], []))"

definition test_key :: "troubleshooting_exception \<Rightarrow> string \<times> string" where
  "test_key t = (te_token t, te_domain t)"

definition restoreTrial :: "troubleshooting_exception list \<Rightarrow> int list \<Rightarrow> protection_entry list \<Rightarrow> Store \<Rightarrow> (Store \<times> unit) option" where
  "restoreTrial entries inserted replaced s =
     Option.bind (restore_entries Block_Entries replaced s) (\<lambda>s1.
       let s2 = s1\<lparr>protection_allow_entries := filter (\<lambda>e. pe_id e \<notin> set inserted) (protection_allow_entries s1)\<rparr> in
       map_option (\<lambda>rows. (s2\<lparr>troubleshooting_exceptions := rows\<rparr>, ()))
         (reinsert te_id test_key (\<lambda>t. te_device_id t \<in> device_ids s2 \<and> te_protection_id t \<in> profile_ids s2) entries (troubleshooting_exceptions s2)))"

definition finishTroubleshooting :: "edit_env \<Rightarrow> 'w applier \<Rightarrow> troubleshootingInput \<Rightarrow> archive \<times> 'w \<Rightarrow> (archive \<times> 'w) \<times> reply" where
  "finishTroubleshooting env apply_fn input st = (case st of (a, w) \<Rightarrow>
     let q = ed_sql env; token = ti_Token input in
     if length token \<noteq> 32 \<or> trim_space token \<noteq> token then ((a, w), Bad_Request)
     else (case query q (trialEntries token) a of
        (a1, Inl _) \<Rightarrow> ((a1, w), Server_Error)
      | (a1, Inr entries) \<Rightarrow>
          if entries = [] then ((a1, w), Not_Found)
          else (case exec_checked q (finish_tx (now_stamp env a1) (ti_Action input) token entries) a1 of
             (a2, Inl _) \<Rightarrow> ((a2, w), Server_Error)
           | (a2, Inr (inserted, replaced)) \<Rightarrow>
               (case apply_or_restore apply_fn (exec_checked q (restoreTrial entries inserted replaced)) a2 w of
                  (st', ok) \<Rightarrow> (st', if ok then Accepted else Server_Error)))))"

definition troubleshooting :: "edit_env \<Rightarrow> 'w applier \<Rightarrow> troubleshootingInput option \<Rightarrow> archive \<times> 'w \<Rightarrow> (archive \<times> 'w) \<times> reply" where
  "troubleshooting env apply_fn body st = (case body of
     None \<Rightarrow> (st, Bad_Request)
   | Some input \<Rightarrow>
       if ti_Action input \<notin> {''test'', ''keep'', ''undo''} then (st, Bad_Request)
       else if ti_Action input = ''test'' then startTroubleshooting env apply_fn input st
       else finishTroubleshooting env apply_fn input st)"

section \<open>Undoing\<close>

definition entries_wf :: "entry_table \<Rightarrow> Store \<Rightarrow> bool" where
  "entries_wf t s \<longleftrightarrow> sorted (map pe_id (entries_of t s)) \<and> distinct (map pe_id (entries_of t s)) \<and> distinct (map entry_key (entries_of t s)) \<and>
     0 < entry_id t s \<and> (\<forall>e \<in> set (entries_of t s). 0 < pe_id e \<and> pe_id e < entry_id t s \<and> pe_protection_id e \<in> profile_ids s)"

definition tests_wf :: "Store \<Rightarrow> bool" where
  "tests_wf s \<longleftrightarrow> sorted (map te_id (troubleshooting_exceptions s)) \<and> distinct (map te_id (troubleshooting_exceptions s)) \<and>
     distinct (map test_key (troubleshooting_exceptions s)) \<and>
     (\<forall>t \<in> set (troubleshooting_exceptions s). te_device_id t \<in> device_ids s \<and> te_protection_id t \<in> profile_ids s)"

lemma entries_set [simp]: "entries_of t (set_entries u es s) = (if t = u then es else entries_of t s)"
  by (cases t; cases u) simp_all

lemma profile_ids_set [simp]: "profile_ids (set_entries t es s) = profile_ids s"
  by (cases t) (simp_all add: profile_ids_def)

lemma add_entry_row:
  "entries_of u (add_entry t stamp i d s) = entries_of u s @
     (if u = t then [\<lparr>pe_id = entry_id t s, pe_protection_id = i, pe_domain = d, pe_created_at = stamp\<rparr>] else [])"
  by (cases t; cases u) (simp_all add: bump_def)

lemma entry_id_add: "entry_id u (add_entry t stamp i d s) = (if u = t then entry_id t s + 1 else entry_id u s)"
  by (cases t; cases u) (simp_all add: bump_def next_id_def)

lemma profile_ids_add [simp]: "profile_ids (add_entry t stamp i d s) = profile_ids s"
  by (cases t) (simp_all add: profile_ids_def bump_def)

lemma undo_insert_entry:
  assumes "entries_wf t s" "insert_rule t stamp p d s = Some (s1, Some i)"
  shows "entries_of u (delete_entry t i p s1) = entries_of u s"
  using assms
  by (fastforce simp: insert_rule_def delete_entry_def add_entry_row entries_wf_def split: if_splits intro!: filter_True)

lemma find_entry_Some: "find_entry t i p s = Some e \<Longrightarrow> e \<in> set (entries_of t s) \<and> pe_id e = i \<and> pe_protection_id e = p"
  unfolding find_entry_def by (drule find_Some_in) simp

definition entry_exists :: "entry_table \<times> int \<times> int \<Rightarrow> Store \<Rightarrow> bool" where
  "entry_exists k s = (case k of (t, i, p) \<Rightarrow> entries_wf t s \<and> find_entry t i p s \<noteq> None)"

definition undo_entry :: "entry_table \<times> int \<times> int \<Rightarrow> Store \<Rightarrow> unit \<Rightarrow> Store \<Rightarrow> Store option" where
  "undo_entry k s _ s1 = (case k of (t, i, p) \<Rightarrow> (case find_entry t i p s of None \<Rightarrow> None | Some e \<Rightarrow> restore_entries t [e] s1))"

interpretation removed_rule: reversible_edit "\<lambda>s. (protection_allow_entries s, protection_block_entries s)" entry_exists
  "\<lambda>(t, i, p) s. Some (delete_entry t i p s, ())" undo_entry
proof
  fix k s s1 x
  assume "entry_exists k s" and edit: "(\<lambda>(t, i, p) s. Some (delete_entry t i p s, ())) k s = Some (s1, x)"
  then obtain t i p e where k: "k = (t, i, p)" "find_entry t i p s = Some e" and wf: "entries_wf t s"
    by (auto simp: entry_exists_def split: prod.splits)
  note e = find_entry_Some [OF k(2)]
  have id: "z \<in> set (entries_of t s) \<Longrightarrow> pe_id z = i \<longleftrightarrow> z = e" for z
    using wf e by (auto simp: entries_wf_def distinct_map dest: inj_onD)
  have "filter (\<lambda>z. \<not> (pe_id z = i \<and> pe_protection_id z = p)) (entries_of t s) = filter (\<lambda>z. z \<notin> set [e]) (entries_of t s)"
    using id e by (intro filter_cong) auto
  then have s1: "s1 = set_entries t (filter (\<lambda>z. z \<notin> set [e]) (entries_of t s)) s"
    using edit by (simp add: k(1) delete_entry_def)
  have "reinsert pe_id entry_key (\<lambda>e. pe_protection_id e \<in> profile_ids s) [e] (filter (\<lambda>z. z \<notin> set [e]) (entries_of t s)) = Some (entries_of t s)"
    using wf e by (intro reinsert_all) (auto simp: entries_wf_def)
  then have "restore_entries t [e] s1 = Some (set_entries t (entries_of t s) s1)"
    by (simp only: restore_entries_def s1 entries_set profile_ids_set refl if_True option.map)
  moreover have "protection_allow_entries (set_entries t (entries_of t s) s1) = protection_allow_entries s"
    "protection_block_entries (set_entries t (entries_of t s) s1) = protection_block_entries s"
    by (cases t; simp add: s1)+
  ultimately show "\<exists>s2. undo_entry k s x s1 = Some s2 \<and>
      (protection_allow_entries s2, protection_block_entries s2) = (protection_allow_entries s, protection_block_entries s)"
    by (simp add: undo_entry_def k)
qed

lemma default_id_keeps: "default_id q a = (a', p) \<Longrightarrow> ar_store a' = ar_store a \<and> ar_calls a' = Suc (ar_calls a)"
  by (auto simp: default_id_def split: prod.splits sum.splits option.splits dest: query_result)

lemma exec_checked_Inr: "exec_checked q f a = (a', Inr x) \<longleftrightarrow> sq_fails q (ar_calls a) = None \<and>
    (\<exists>s'. f (ar_store a) = Some (s', x) \<and> a' = a\<lparr>ar_calls := Suc (ar_calls a), ar_store := s'\<rparr>)"
  by (auto simp: exec_checked_def Let_def split: option.splits)

lemma exec_checked_Inl: "exec_checked q f a = (a', Inl e) \<Longrightarrow> a' = a\<lparr>ar_calls := Suc (ar_calls a)\<rparr>"
  by (auto simp: exec_checked_def Let_def split: option.splits)

lemma domainCollection_failed:
  assumes "entries_wf t (ar_store a)" "sq_fails (ed_sql env) (ar_calls a + 2) = None"
    "domainCollection env apply_fn t body (a, w) = ((a', w'), r)" "\<not> is_success r"
  shows "entries_of u (ar_store a') = entries_of u (ar_store a)"
proof -
  obtain a1 p where d: "default_id (ed_sql env) a = (a1, p)"
    by fastforce
  note k = default_id_keeps [OF d]
  consider (kept) "ar_store a' = ar_store a1"
    | (undone) domain a2 i where "exec_checked (ed_sql env) (insert_rule t (now_stamp env a1) p domain) a1 = (a2, Inr (Some i))"
      "a' = fst (exec (ed_sql env) (\<lambda>s. (delete_entry t i p s, ())) a2)"
    using assms(3,4) unfolding domainCollection_def
    by (auto simp: d is_success_def apply_or_undo_def Let_def split: option.splits sum.splits prod.splits bool.splits if_splits dest!: exec_checked_Inl)
  then show ?thesis
  proof cases
    case undone
    obtain s2 where s2: "insert_rule t (now_stamp env a1) p domain (ar_store a) = Some (s2, Some i)"
      "a2 = a1\<lparr>ar_calls := Suc (ar_calls a1), ar_store := s2\<rparr>"
      using undone(1) k by (auto simp: exec_checked_Inr)
    then have "ar_store a' = delete_entry t i p s2"
      using undone(2) assms(2) k by (simp add: exec_def)
    then show ?thesis
      using undo_insert_entry [OF assms(1) s2(1)] by simp
  qed (simp add: k)
qed

lemma domainDelete_failed:
  assumes "entries_wf t (ar_store a)" "\<forall>n > ar_calls a + 1. sq_fails (ed_sql env) n = None"
    "domainDelete env apply_fn t i (a, w) = ((a', w'), r)" "\<not> is_success r"
  shows "(protection_allow_entries (ar_store a'), protection_block_entries (ar_store a')) =
    (protection_allow_entries (ar_store a), protection_block_entries (ar_store a))"
proof -
  obtain a1 p where d: "default_id (ed_sql env) a = (a1, p)"
    by fastforce
  obtain a2 x where f: "query (ed_sql env) (find_entry t i p) a1 = (a2, x)"
    by fastforce
  note k = default_id_keeps [OF d] query_result [OF f]
  show ?thesis
  proof (cases "\<exists>e. x = Inr (Some e)")
    case True
    then obtain e where e: "x = Inr (Some e)" "find_entry t i p (ar_store a) = Some e"
      using k by auto
    have "undo_entry (t, i, p) (ar_store a2) = (\<lambda>_. restore_entries t [e])"
      using e k by (simp add: undo_entry_def fun_eq_iff)
    then show ?thesis
      using removed_rule.failed_keeps_view [of "(t, i, p)" a2 "ed_sql env" apply_fn "\<lambda>_. Accepted" Server_Error w a' w' r] assms d f e k
      by (simp add: domainDelete_def is_success_def entry_exists_def)
  qed (use assms(3) d f k in \<open>auto simp: domainDelete_def split: sum.splits option.splits\<close>)
qed

text \<open>
  A change of the exceptions or the custom blocks that is refused changes nothing: whatever the reason of the refusal, the
  two tables are as before if the statements that change them are executed.
\<close>

theorem refused_rule_keeps_tables:
  assumes "entries_wf Allow_Entries (ar_store a)" "entries_wf Block_Entries (ar_store a)" "\<forall>n > ar_calls a + 1. sq_fails (ed_sql env) n = None"
    "domain_rules env apply_fn request (a, w) = ((a', w'), r)" "\<not> is_success r"
  shows "protection_allow_entries (ar_store a') = protection_allow_entries (ar_store a) \<and>
    protection_block_entries (ar_store a') = protection_block_entries (ar_store a)"
proof (cases request)
  case (Post_Rule t body)
  have "entries_wf t (ar_store a)"
    using assms(1,2) by (cases t) simp_all
  moreover have "sq_fails (ed_sql env) (ar_calls a + 2) = None" "domainCollection env apply_fn t body (a, w) = ((a', w'), r)"
    using assms(3,4) Post_Rule by simp_all
  ultimately have "entries_of u (ar_store a') = entries_of u (ar_store a)" for u
    by (rule domainCollection_failed [OF _ _ _ assms(5)])
  from this [of Allow_Entries] this [of Block_Entries] show ?thesis
    by simp
next
  case (Delete_Rule t i)
  have "entries_wf t (ar_store a)"
    using assms(1,2) by (cases t) simp_all
  then show ?thesis
    using domainDelete_failed [OF _ assms(3) _ assms(5)] assms(4) Delete_Rule by simp
qed

section \<open>Keeping a test\<close>

text \<open>What keeping some rows of a test did to the database: it appended exceptions and removed custom blocks.\<close>

definition kept_rows :: "Store \<Rightarrow> Store \<Rightarrow> int list \<Rightarrow> protection_entry list \<Rightarrow> bool" where
  "kept_rows s s1 inserted replaced \<longleftrightarrow>
     (\<exists>new. protection_allow_entries s1 = protection_allow_entries s @ new \<and> inserted = map pe_id new \<and>
       (\<forall>e \<in> set new. entry_id Allow_Entries s \<le> pe_id e)) \<and>
     entry_id Allow_Entries s \<le> entry_id Allow_Entries s1 \<and>
     protection_block_entries s1 = filter (\<lambda>e. e \<notin> set replaced) (protection_block_entries s) \<and>
     set replaced \<subseteq> set (protection_block_entries s) \<and> distinct replaced \<and>
     profile_ids s1 = profile_ids s \<and> device_ids s1 = device_ids s \<and> troubleshooting_exceptions s1 = troubleshooting_exceptions s"

lemma kept_refl: "kept_rows s s [] []"
  by (simp add: kept_rows_def)

lemma kept_trans: "kept_rows s s1 i1 b1 \<Longrightarrow> kept_rows s1 s2 i2 b2 \<Longrightarrow> kept_rows s s2 (i1 @ i2) (b1 @ b2)"
proof -
  assume 1: "kept_rows s s1 i1 b1" and 2: "kept_rows s1 s2 i2 b2"
  obtain n1 n2 where n: "protection_allow_entries s1 = protection_allow_entries s @ n1" "i1 = map pe_id n1" "\<forall>e \<in> set n1. entry_id Allow_Entries s \<le> pe_id e"
    "protection_allow_entries s2 = protection_allow_entries s1 @ n2" "i2 = map pe_id n2" "\<forall>e \<in> set n2. entry_id Allow_Entries s1 \<le> pe_id e"
    using 1 2 unfolding kept_rows_def by (elim conjE exE) (rule that; assumption)
  have le: "entry_id Allow_Entries s \<le> entry_id Allow_Entries s1" "entry_id Allow_Entries s1 \<le> entry_id Allow_Entries s2"
    using 1 2 unfolding kept_rows_def by auto
  have "\<forall>e \<in> set (n1 @ n2). entry_id Allow_Entries s \<le> pe_id e"
    using n(3,6) le(1) by fastforce
  moreover have "protection_block_entries s2 = filter (\<lambda>e. e \<notin> set (b1 @ b2)) (protection_block_entries s)"
    using 1 2 by (simp add: kept_rows_def conj_commute)
  moreover have "set (b1 @ b2) \<subseteq> set (protection_block_entries s)" "distinct (b1 @ b2)"
    using 1 2 by (auto simp: kept_rows_def)
  ultimately show ?thesis
    using 1 2 n le unfolding kept_rows_def by (intro conjI exI [of _ "n1 @ n2"]) simp_all
qed

lemma kept_allow: "kept_rows s s1 i b \<Longrightarrow> has_entry Allow_Entries p d s \<Longrightarrow> has_entry Allow_Entries p d s1"
  by (auto simp: kept_rows_def has_entry_def)

lemma kept_block: "kept_rows s s1 i b \<Longrightarrow> \<not> has_entry Block_Entries p d s \<Longrightarrow> \<not> has_entry Block_Entries p d s1"
  by (auto simp: kept_rows_def has_entry_def list_ex_iff)

lemma kept_ids: "kept_rows s s1 i b \<Longrightarrow> distinct (map f (protection_block_entries s)) \<Longrightarrow> distinct (map f (protection_block_entries s1))"
  by (auto simp: kept_rows_def distinct_map_filter)

definition blocks_distinct :: "Store \<Rightarrow> bool" where
  "blocks_distinct s \<longleftrightarrow> distinct (map pe_id (protection_block_entries s)) \<and> distinct (map entry_key (protection_block_entries s))"

lemma insert_allow_kept:
  assumes "insert_rule Allow_Entries stamp p d s = Some (s1, x)"
  shows "kept_rows s s1 (case x of None \<Rightarrow> [] | Some i \<Rightarrow> [i]) [] \<and> has_entry Allow_Entries p d s1"
  using assms
  by (auto simp: insert_rule_def kept_rows_def has_entry_def profile_ids_def device_ids_def bump_def next_id_def split: if_splits)

lemma keep_entry_kept:
  assumes "blocks_distinct s" "keep_entry stamp t s = Some (s1, inserted, replaced)"
  shows "kept_rows s s1 inserted replaced \<and> has_entry Allow_Entries (te_protection_id t) (te_domain t) s1 \<and>
    \<not> has_entry Block_Entries (te_protection_id t) (te_domain t) s1"
proof -
  let ?P = "\<lambda>e. pe_protection_id e = te_protection_id t \<and> pe_domain e = te_domain t"
  define s0 where "s0 = (case List.find ?P (protection_block_entries s) of None \<Rightarrow> s | Some b \<Rightarrow>
    s\<lparr>protection_block_entries := filter (\<lambda>e. pe_id e \<noteq> pe_id b) (protection_block_entries s)\<rparr>)"
  have "kept_rows s s0 [] replaced \<and> \<not> has_entry Block_Entries (te_protection_id t) (te_domain t) s0"
  proof (cases "List.find ?P (protection_block_entries s)")
    case None
    then show ?thesis
      using assms(2) None [unfolded find_None_iff] by (auto simp: s0_def keep_entry_def kept_refl has_entry_def list_ex_iff None simp del: find_None_iff)
  next
    case (Some b)
    have b: "b \<in> set (protection_block_entries s)" "?P b"
      using find_Some_in [OF Some] by simp_all
    have "e \<in> set (protection_block_entries s) \<Longrightarrow> pe_id e \<noteq> pe_id b \<longleftrightarrow> e \<notin> set [b]" for e
      using assms(1) b by (auto simp: blocks_distinct_def distinct_map dest: inj_onD)
    then have s0: "s0 = s\<lparr>protection_block_entries := filter (\<lambda>e. e \<notin> set [b]) (protection_block_entries s)\<rparr>"
      by (simp add: s0_def Some cong: filter_cong)
    have "replaced = [b]"
      using assms(2) by (auto simp: keep_entry_def Some Let_def)
    then have "kept_rows s s0 [] replaced"
      using b(1) by (simp add: s0 kept_rows_def profile_ids_def device_ids_def next_id_def)
    moreover have "e \<in> set (protection_block_entries s) \<Longrightarrow> ?P e \<Longrightarrow> e = b" for e
      using assms(1) b inj_onD [of entry_key "set (protection_block_entries s)" e b] by (simp add: blocks_distinct_def distinct_map entry_key_def)
    then have "\<not> has_entry Block_Entries (te_protection_id t) (te_domain t) s0"
      unfolding s0 has_entry_def list_ex_iff by auto
    ultimately show ?thesis
      by simp
  qed
  moreover obtain x where "insert_rule Allow_Entries stamp (te_protection_id t) (te_domain t) s0 = Some (s1, x)"
    "inserted = (case x of None \<Rightarrow> [] | Some i \<Rightarrow> [i])"
    using assms(2) by (auto simp: keep_entry_def s0_def Let_def)
  moreover note insert_allow_kept [OF calculation(2)]
  ultimately show ?thesis
    using kept_trans [of s s0 "[]" replaced s1 inserted "[]"] kept_block by auto
qed

lemma keep_entries_kept:
  assumes "blocks_distinct s" "keep_entries stamp ts s = Some (s1, inserted, replaced)"
  shows "kept_rows s s1 inserted replaced \<and> (\<forall>t \<in> set ts. has_entry Allow_Entries (te_protection_id t) (te_domain t) s1 \<and>
    \<not> has_entry Block_Entries (te_protection_id t) (te_domain t) s1)"
  using assms
proof (induction ts arbitrary: s inserted replaced)
  case (Cons t ts)
  then obtain s0 i1 b1 i2 b2 where k: "keep_entry stamp t s = Some (s0, i1, b1)" "keep_entries stamp ts s0 = Some (s1, i2, b2)"
    "inserted = i1 @ i2" "replaced = b1 @ b2"
    by (auto simp: bind_eq_Some_conv)
  note 1 = keep_entry_kept [OF Cons.prems(1) k(1)]
  have "blocks_distinct s0"
    using Cons.prems(1) 1 by (auto simp: blocks_distinct_def intro: kept_ids)
  note 2 = Cons.IH [OF this k(2)]
  show ?case
    using 1 2 kept_trans kept_allow kept_block unfolding k(3,4) by auto
qed (simp add: kept_refl)

lemma finish_kept:
  assumes "blocks_distinct s" "finish_tx stamp action token ts s = Some (s1, inserted, replaced)"
  obtains s0 where "kept_rows s s0 inserted replaced" "s1 = delete_tests token s0"
    "action = ''keep'' \<Longrightarrow> keep_entries stamp ts s = Some (s0, inserted, replaced)"
proof (cases "action = ''keep''")
  case True
  then obtain s0 where "keep_entries stamp ts s = Some (s0, inserted, replaced)" "s1 = delete_tests token s0"
    using assms(2) by (auto simp: finish_tx_def)
  then show thesis
    using keep_entries_kept [OF assms(1)] that by blast
next
  case False
  then show thesis
    using assms(2) kept_refl that [of s] by (simp add: finish_tx_def)
qed

definition rules_wf :: "Store \<Rightarrow> bool" where
  "rules_wf s \<longleftrightarrow> entries_wf Allow_Entries s \<and> entries_wf Block_Entries s \<and> tests_wf s"

lemma rules_wf_blocks: "rules_wf s \<Longrightarrow> blocks_distinct s"
  by (simp add: rules_wf_def entries_wf_def blocks_distinct_def)

lemma restore_kept:
  assumes "rules_wf s" "kept_rows s s0 inserted replaced"
  shows "\<exists>s2. restoreTrial (trialEntries token s) inserted replaced (delete_tests token s0) = Some (s2, ()) \<and>
    protection_allow_entries s2 = protection_allow_entries s \<and> protection_block_entries s2 = protection_block_entries s \<and>
    troubleshooting_exceptions s2 = troubleshooting_exceptions s"
proof -
  let ?s1 = "delete_tests token s0"
  have same: "profile_ids ?s1 = profile_ids s" "device_ids ?s1 = device_ids s" "protection_block_entries ?s1 = filter (\<lambda>e. e \<notin> set replaced) (protection_block_entries s)"
    using assms(2) by (simp_all add: kept_rows_def delete_tests_def profile_ids_def device_ids_def)
  have "reinsert pe_id entry_key (\<lambda>e. pe_protection_id e \<in> profile_ids s) replaced (protection_block_entries ?s1) = Some (protection_block_entries s)"
    unfolding same using assms by (intro reinsert_all) (auto simp: rules_wf_def entries_wf_def kept_rows_def list_all_iff)
  then have 1: "restore_entries Block_Entries replaced ?s1 = Some (?s1\<lparr>protection_block_entries := protection_block_entries s\<rparr>)"
    by (simp add: restore_entries_def same)
  have "filter (\<lambda>e. pe_id e \<notin> set inserted) (protection_allow_entries ?s1) = protection_allow_entries s"
    using assms by (fastforce simp: kept_rows_def delete_tests_def rules_wf_def entries_wf_def filter_id_conv filter_empty_conv)
  note 2 = this
  have entries: "trialEntries token s = filter (\<lambda>t. te_token t = token) (troubleshooting_exceptions s)"
    using assms(1) by (auto simp: trialEntries_def rules_wf_def tests_wf_def intro!: filter_cong)
  have "troubleshooting_exceptions ?s1 = filter (\<lambda>t. t \<notin> set (trialEntries token s)) (troubleshooting_exceptions s)"
    using assms(2) by (auto simp: entries delete_tests_def kept_rows_def intro!: filter_cong)
  moreover have "reinsert te_id test_key (\<lambda>t. te_device_id t \<in> device_ids s \<and> te_protection_id t \<in> profile_ids s) (trialEntries token s)
      (filter (\<lambda>t. t \<notin> set (trialEntries token s)) (troubleshooting_exceptions s)) = Some (troubleshooting_exceptions s)"
    using assms(1) by (intro reinsert_all) (auto simp: rules_wf_def tests_wf_def entries list_all_iff distinct_map)
  ultimately have 3: "reinsert te_id test_key (\<lambda>t. te_device_id t \<in> device_ids s \<and> te_protection_id t \<in> profile_ids s) (trialEntries token s)
      (troubleshooting_exceptions ?s1) = Some (troubleshooting_exceptions s)"
    by simp
  have "profile_ids (?s1\<lparr>protection_block_entries := bs, protection_allow_entries := as\<rparr>) = profile_ids s"
    "device_ids (?s1\<lparr>protection_block_entries := bs, protection_allow_entries := as\<rparr>) = device_ids s" for as bs
    using same(1,2) by (simp_all add: profile_ids_def device_ids_def)
  then show ?thesis
    by (simp add: restoreTrial_def 1 2 3 Let_def)
qed

interpretation finished_test: reversible_edit "\<lambda>s. (protection_allow_entries s, protection_block_entries s, troubleshooting_exceptions s)" "\<lambda>_. rules_wf"
  "\<lambda>(stamp, action, token) s. finish_tx stamp action token (trialEntries token s) s"
  "\<lambda>(stamp, action, token) s (inserted, replaced) s1. map_option fst (restoreTrial (trialEntries token s) inserted replaced s1)"
proof (unfold_locales, clarify)
  fix stamp action token s s1 inserted replaced
  assume wf: "rules_wf s" and "finish_tx stamp action token (trialEntries token s) s = Some (s1, inserted, replaced)"
  then obtain s0 where "kept_rows s s0 inserted replaced" "s1 = delete_tests token s0"
    using finish_kept [OF rules_wf_blocks [OF wf]] by blast
  from restore_kept [OF wf this(1), of token] this(2)
  show "\<exists>s2. map_option fst (restoreTrial (trialEntries token s) inserted replaced s1) = Some s2 \<and>
      (protection_allow_entries s2, protection_block_entries s2, troubleshooting_exceptions s2) =
      (protection_allow_entries s, protection_block_entries s, troubleshooting_exceptions s)"
    by auto
qed

section \<open>Tests that are refused\<close>

lemma insert_tests_rows:
  "insert_tests row ds s = Some s1 \<Longrightarrow> \<exists>new. troubleshooting_exceptions s1 = troubleshooting_exceptions s @ new \<and>
     (\<forall>t \<in> set new. te_token t \<in> (\<lambda>d. te_token (row d)) ` set ds) \<and> (\<forall>d \<in> set ds. \<exists>i. (row d)\<lparr>te_id := i\<rparr> \<in> set new)"
proof (induction ds arbitrary: s)
  case (Cons d ds)
  let ?t = "(row d)\<lparr>te_id := next_id ''troubleshooting_exceptions'' s\<rparr>"
  let ?s = "(bump ''troubleshooting_exceptions'' s)\<lparr>troubleshooting_exceptions := troubleshooting_exceptions s @ [?t]\<rparr>"
  have "insert_tests row ds ?s = Some s1"
    using Cons.prems by (simp add: Let_def split: if_splits)
  from Cons.IH [OF this] obtain new where new: "troubleshooting_exceptions s1 = troubleshooting_exceptions ?s @ new"
    "\<forall>t \<in> set new. te_token t \<in> (\<lambda>d. te_token (row d)) ` set ds" "\<forall>d \<in> set ds. \<exists>i. (row d)\<lparr>te_id := i\<rparr> \<in> set new"
    by blast
  have "troubleshooting_exceptions s1 = troubleshooting_exceptions s @ (?t # new)"
    using new(1) by simp
  moreover have "\<forall>t \<in> set (?t # new). te_token t \<in> (\<lambda>d. te_token (row d)) ` set (d # ds)"
    using new(2) by simp
  moreover have "\<forall>x \<in> set (d # ds). \<exists>i. (row x)\<lparr>te_id := i\<rparr> \<in> set (?t # new)"
    using new(3) by (metis list.set_intros set_ConsD)
  ultimately show ?case
    by blast
qed simp

lemma insert_tests_frame: "insert_tests row ds s = Some s1 \<Longrightarrow> \<exists>n x. s1 = s\<lparr>sqlite_sequence := n, troubleshooting_exceptions := x\<rparr>"
proof (induction ds arbitrary: s)
  case Nil
  then have "s1 = s\<lparr>sqlite_sequence := sqlite_sequence s, troubleshooting_exceptions := troubleshooting_exceptions s\<rparr>"
    by simp
  then show ?case
    by blast
next
  case (Cons d ds)
  then show ?case
    by (fastforce simp: Let_def bump_def split: if_splits)
qed

lemma start_tx_rows:
  assumes "start_tx h now row ds s = Some (s1, True)" "\<And>d. te_token (row d) = token"
  shows "set (troubleshooting_exceptions (delete_tests token s1)) \<subseteq> set (troubleshooting_exceptions s)"
    and "d \<in> set ds \<Longrightarrow> \<exists>i. (row d)\<lparr>te_id := i\<rparr> \<in> set (troubleshooting_exceptions s1)"
    and "\<exists>n x. s1 = s\<lparr>sqlite_sequence := n, troubleshooting_exceptions := x\<rparr>"
proof -
  let ?s = "s\<lparr>troubleshooting_exceptions := filter (\<lambda>t. \<not> long_expired h now t) (troubleshooting_exceptions s)\<rparr>"
  have "insert_tests row ds ?s = Some s1"
    using assms(1) by (auto simp: start_tx_def Let_def split: if_splits)
  from insert_tests_rows [OF this] insert_tests_frame [OF this] obtain new n x where new: "troubleshooting_exceptions s1 = troubleshooting_exceptions ?s @ new"
    "\<forall>t \<in> set new. te_token t \<in> (\<lambda>d. te_token (row d)) ` set ds" "\<forall>d \<in> set ds. \<exists>i. (row d)\<lparr>te_id := i\<rparr> \<in> set new"
    "s1 = ?s\<lparr>sqlite_sequence := n, troubleshooting_exceptions := x\<rparr>"
    by blast
  show "set (troubleshooting_exceptions (delete_tests token s1)) \<subseteq> set (troubleshooting_exceptions s)"
    using new(1,2) assms(2) by (auto simp: delete_tests_def)
  show "d \<in> set ds \<Longrightarrow> \<exists>i. (row d)\<lparr>te_id := i\<rparr> \<in> set (troubleshooting_exceptions s1)"
    using new(1,3) by (metis Un_iff set_append)
  show "\<exists>n x. s1 = s\<lparr>sqlite_sequence := n, troubleshooting_exceptions := x\<rparr>"
    using new(4) by (intro exI [of _ n] exI [of _ x]) simp
qed

lemma run_test_refused:
  assumes "run_test env apply_fn ip dev p ds (a, w) = ((a', w'), r)" "\<not> is_success r" "sq_fails (ed_sql env) (Suc (ar_calls a)) = None"
  shows "protection_allow_entries (ar_store a') = protection_allow_entries (ar_store a) \<and> protection_block_entries (ar_store a') = protection_block_entries (ar_store a) \<and>
    set (troubleshooting_exceptions (ar_store a')) \<subseteq> set (troubleshooting_exceptions (ar_store a))"
proof -
  let ?q = "ed_sql env" and ?token = "ed_token env (ar_calls a)"
  let ?tx = "start_tx (sq_host ?q) (clock ?q a) (test_row ?token ip dev p (format_rfc3339nano (clock ?q a + 10 * minute))) ds"
  consider (kept) "ar_store a' = ar_store a" | (undone) a1 where "exec_checked ?q ?tx a = (a1, Inr True)" "a' = fst (exec ?q (\<lambda>s. (delete_tests ?token s, ())) a1)"
  proof (cases "exec_checked ?q ?tx a")
    case (Pair a1 x)
    show thesis
    proof (cases "x = Inr True")
      case True
      with assms(1,2) Pair undone show thesis
        by (auto simp: run_test_def Let_def is_success_def apply_or_restore_def split: prod.splits bool.splits sum.splits)
    next
      case False
      then have "a' = a1"
        using assms(1) Pair by (auto simp: run_test_def Let_def split: sum.splits bool.splits)
      moreover have "ar_store a1 = ar_store a"
        using Pair False by (auto simp: exec_checked_def start_tx_def Let_def split: option.splits if_splits)
      ultimately show thesis
        using kept by simp
    qed
  qed
  then show ?thesis
  proof cases
    case undone
    obtain s1 where s1: "?tx (ar_store a) = Some (s1, True)" "a1 = a\<lparr>ar_calls := Suc (ar_calls a), ar_store := s1\<rparr>"
      using undone(1) by (auto simp: exec_checked_Inr)
    have t: "te_token (test_row ?token ip dev p e d) = ?token" for e d
      by (simp add: test_row_def)
    have "ar_store a' = delete_tests ?token s1"
      using undone(2) assms(3) s1(2) by (simp add: exec_def)
    then show ?thesis
      using start_tx_rows(1,3) [OF s1(1) t] by (auto simp: delete_tests_def)
  qed simp
qed

lemma is_success_simps [simp]: "is_success (Created i)" "is_success (Test_Started token expires)" "is_success Accepted"
  "\<not> is_success Bad_Request" "\<not> is_success Not_Found" "\<not> is_success Conflict" "\<not> is_success Server_Error"
  by (simp_all add: is_success_def)

lemma start_steps:
  assumes "startTroubleshooting env apply_fn input (a, w) = ((a', w'), r)"
  shows "(ar_store a' = ar_store a \<and> \<not> is_success r) \<or>
    (\<exists>ip dev domains a3. parse_ip (ti_ClientIP input) = Some ip \<and> fst (protectionForClient (ar_store a) (ip_string ip)) = ti_ProtectionID input \<and> ti_ProtectionID input \<noteq> 0 \<and>
      rmap NormalizeDomain (ti_Domains input) = Inr domains \<and> ar_store a3 = ar_store a \<and> ar_calls a3 = ar_calls a + 3 \<and>
      run_test env apply_fn (ip_string ip) dev (ti_ProtectionID input) (first_occurrences domains) (a3, w) = ((a', w'), r))"
proof (cases "parse_ip (ti_ClientIP input)")
  case (Some ip)
  obtain a1 x1 where 1: "query (ed_sql env) (\<lambda>s. device_of s (ip_string ip)) a = (a1, x1)"
    by fastforce
  obtain a2 x2 where 2: "query (ed_sql env) (\<lambda>s. protectionForClient s (ip_string ip)) a1 = (a2, x2)"
    by fastforce
  obtain a3 x3 where 3: "query (ed_sql env) redundancy_role a2 = (a3, x3)"
    by fastforce
  obtain i name icon where p: "protectionForClient (ar_store a) (ip_string ip) = (i, name, icon)"
    by (metis surj_pair)
  note k = query_result [OF 1] query_result [OF 2] query_result [OF 3]
  show ?thesis
    using assms k
    by (auto simp: startTroubleshooting_def Some 1 2 3 p Let_def split: if_splits option.splits sum.splits prod.splits)
qed (use assms in \<open>auto simp: startTroubleshooting_def\<close>)

lemma finish_steps:
  assumes "finishTroubleshooting env apply_fn input (a, w) = ((a', w'), r)"
  shows "(ar_store a' = ar_store a \<and> \<not> is_success r) \<or>
    (\<exists>a1 a2 stamp inserted replaced. ar_store a1 = ar_store a \<and> ar_calls a1 = ar_calls a + 1 \<and>
      exec_checked (ed_sql env) (finish_tx stamp (ti_Action input) (ti_Token input) (trialEntries (ti_Token input) (ar_store a))) a1 = (a2, Inr (inserted, replaced)) \<and>
      (\<exists>ok. apply_or_restore apply_fn (exec_checked (ed_sql env) (restoreTrial (trialEntries (ti_Token input) (ar_store a)) inserted replaced)) a2 w = ((a', w'), ok) \<and>
         r = (if ok then Accepted else Server_Error)))"
proof -
  obtain a1 x1 where 1: "query (ed_sql env) (trialEntries (ti_Token input)) a = (a1, x1)"
    by fastforce
  note k = query_result [OF 1]
  show ?thesis
  proof (cases "(\<exists>e. x1 = Inl e) \<or> (\<exists>e. snd (exec_checked (ed_sql env) (finish_tx (now_stamp env a1) (ti_Action input) (ti_Token input) (trialEntries (ti_Token input) (ar_store a))) a1) = Inl e)")
    case True
    then show ?thesis
      using assms k
      by (auto simp: finishTroubleshooting_def 1 Let_def split: if_splits sum.splits prod.splits dest: exec_checked_Inl)
  next
    case False
    then have x1: "x1 = Inr (trialEntries (ti_Token input) (ar_store a))"
      using k by (cases x1) auto
    obtain a2 inserted replaced where 2: "exec_checked (ed_sql env) (finish_tx (now_stamp env a1) (ti_Action input) (ti_Token input) (trialEntries (ti_Token input) (ar_store a))) a1 = (a2, Inr (inserted, replaced))"
      using False by (metis prod.exhaust_sel sum.exhaust)
    obtain st' ok where 3: "apply_or_restore apply_fn (exec_checked (ed_sql env) (restoreTrial (trialEntries (ti_Token input) (ar_store a)) inserted replaced)) a2 w = (st', ok)"
      by fastforce
    have "(ar_store a' = ar_store a \<and> \<not> is_success r) \<or> st' = (a', w') \<and> r = (if ok then Accepted else Server_Error)"
      using assms k by (auto simp: finishTroubleshooting_def 1 2 3 x1 Let_def split: if_splits)
    then show ?thesis
      using k 2 3 by (metis Suc_eq_plus1)
  qed
qed

lemma finish_refused:
  assumes "finishTroubleshooting env apply_fn input (a, w) = ((a', w'), r)" "\<not> is_success r" "rules_wf (ar_store a)" "sq_fails (ed_sql env) (ar_calls a + 2) = None"
  shows "(protection_allow_entries (ar_store a'), protection_block_entries (ar_store a'), troubleshooting_exceptions (ar_store a')) =
    (protection_allow_entries (ar_store a), protection_block_entries (ar_store a), troubleshooting_exceptions (ar_store a))"
  using finish_steps [OF assms(1)]
proof (elim disjE exE conjE)
  fix a1 a2 stamp inserted replaced ok
  let ?ts = "trialEntries (ti_Token input) (ar_store a)"
  assume a1: "ar_store a1 = ar_store a" "ar_calls a1 = ar_calls a + 1"
    and tx: "exec_checked (ed_sql env) (finish_tx stamp (ti_Action input) (ti_Token input) ?ts) a1 = (a2, Inr (inserted, replaced))"
    and ap: "apply_or_restore apply_fn (exec_checked (ed_sql env) (restoreTrial ?ts inserted replaced)) a2 w = ((a', w'), ok)"
    and r: "r = (if ok then Accepted else Server_Error)"
  have f: "finish_tx stamp (ti_Action input) (ti_Token input) ?ts (ar_store a) = Some (ar_store a2, inserted, replaced)" "ar_calls a2 = ar_calls a + 2"
    using tx a1 by (auto simp: exec_checked_Inr)
  obtain s2 where s2: "restoreTrial ?ts inserted replaced (ar_store a2) = Some (s2, ())"
    "(protection_allow_entries s2, protection_block_entries s2, troubleshooting_exceptions s2) =
      (protection_allow_entries (ar_store a), protection_block_entries (ar_store a), troubleshooting_exceptions (ar_store a))"
    using finished_test.undo_edit [OF assms(3), of "(stamp, ti_Action input, ti_Token input)" "ar_store a2" "(inserted, replaced)"] f(1) by auto
  have "ar_store a' = s2"
    using ap r assms(2,4) f(2) s2(1)
    by (auto simp: apply_or_restore_def exec_checked_def Let_def split: prod.splits bool.splits if_splits)
  then show ?thesis
    using s2(2) by simp
qed simp


section \<open>What a test allows\<close>

lemma recordEvent_frame: "\<exists>es n. ar_store (recordEvent q e a) = (ar_store a)\<lparr>events := es, sqlite_sequence := n\<rparr>"
proof -
  have same: "\<exists>es n. s = s\<lparr>events := es, sqlite_sequence := n\<rparr>" for s :: Store
    by (intro exI [of _ "events s"] exI [of _ "sqlite_sequence s"]) simp
  have new: "\<exists>es n. insert_event ev s = s\<lparr>events := es, sqlite_sequence := n\<rparr>" for ev s
    by (intro exI [of _ "events (insert_event ev s)"] exI [of _ "sqlite_sequence (insert_event ev s)"]) (simp add: insert_event_def bump_def)
  show ?thesis
    using same new by (simp add: recordEvent_def exec_def Let_def split: option.splits)
qed

lemma run_test_started:
  assumes "run_test env apply_fn ip dev p ds (a, w) = ((a', w'), Test_Started token expires)"
  shows "expires = format_rfc3339nano (clock (ed_sql env) a + 10 * minute)"
    and "\<exists>es n x. ar_store a' = (ar_store a)\<lparr>events := es, sqlite_sequence := n, troubleshooting_exceptions := x\<rparr>"
    and "d \<in> set ds \<Longrightarrow> \<exists>t \<in> set (troubleshooting_exceptions (ar_store a')). te_protection_id t = p \<and> te_domain t = d \<and> te_expires_at t = expires"
proof -
  let ?q = "ed_sql env" and ?row = "test_row (ed_token env (ar_calls a)) ip dev p (format_rfc3339nano (clock (ed_sql env) a + 10 * minute))"
  show e: "expires = format_rfc3339nano (clock (ed_sql env) a + 10 * minute)"
    using assms by (auto simp: run_test_def Let_def split: prod.splits sum.splits bool.splits)
  obtain a1 where a1: "exec_checked ?q (start_tx (sq_host ?q) (clock ?q a) ?row ds) a = (a1, Inr True)" "a' = recordEvent ?q (test_event ip) a1"
    using assms by (auto simp: run_test_def Let_def apply_or_restore_def split: prod.splits sum.splits bool.splits)
  then obtain s1 where s1: "start_tx (sq_host ?q) (clock ?q a) ?row ds (ar_store a) = Some (s1, True)" "ar_store a1 = s1"
    by (auto simp: exec_checked_Inr)
  have t: "te_token (?row d) = ed_token env (ar_calls a)" for d
    by (simp add: test_row_def)
  obtain es n where ev: "ar_store a' = s1\<lparr>events := es, sqlite_sequence := n\<rparr>"
    using recordEvent_frame [of ?q "test_event ip" a1] a1(2) s1(2) by auto
  obtain n' x where s1': "s1 = (ar_store a)\<lparr>sqlite_sequence := n', troubleshooting_exceptions := x\<rparr>"
    using start_tx_rows(3) [OF s1(1) t] by blast
  show "\<exists>es n x. ar_store a' = (ar_store a)\<lparr>events := es, sqlite_sequence := n, troubleshooting_exceptions := x\<rparr>"
    by (intro exI [of _ es] exI [of _ n] exI [of _ x]) (simp add: ev s1')
  show "\<exists>t \<in> set (troubleshooting_exceptions (ar_store a')). te_protection_id t = p \<and> te_domain t = d \<and> te_expires_at t = expires" if "d \<in> set ds"
    using start_tx_rows(2) [OF s1(1) t that] by (force simp: ev e test_row_def)
qed

lemma selected_frame: "selected_profile (s\<lparr>events := es, sqlite_sequence := n, troubleshooting_exceptions := x\<rparr>) ip = selected_profile s ip"
proof -
  let ?s = "s\<lparr>events := es, sqlite_sequence := n, troubleshooting_exceptions := x\<rparr>"
  have "is_member ?s ip = is_member s ip" "is_legacy ?s ip = is_legacy s ip"
    by (auto simp: is_member_def is_legacy_def device_of_def fun_eq_iff split: option.splits)
  moreover from this have "profile_rank ?s ip = profile_rank s ip"
    by (simp add: profile_rank_def fun_eq_iff)
  ultimately show ?thesis
    by (simp add: selected_profile_def)
qed

lemma paused_frame: "device_paused (s\<lparr>events := es, sqlite_sequence := n, troubleshooting_exceptions := x\<rparr>) ip now = device_paused s ip now"
proof -
  let ?s = "s\<lparr>events := es, sqlite_sequence := n, troubleshooting_exceptions := x\<rparr>"
  have "device_pause ?s ip = device_pause s ip"
    by (auto simp: device_pause_def device_of_def split: option.splits)
  then show ?thesis
    by (simp add: device_paused_def)
qed

lemma decide_allowed: "Allowlist d \<noteq> None \<Longrightarrow> Action (decide name active d) = Action d"
  by (simp add: decide_def)

lemma explain_allowed:
  "first_entry (protection_allow_entries s) (pp_id p) d \<noteq> 0 \<or> live_trial h (at_sql at (pp_id p)) s (pp_id p) d \<noteq> None \<Longrightarrow>
     Action (explain_profile h at s d p) = ''allowed''"
  unfolding explain_profile_def Let_def by (subst decide_allowed) (auto simp: plain_decision_def)

lemma first_occurrences_set: "set (first_occurrences ds) = set ds"
proof -
  have "set (fold (\<lambda>d seen. if d \<in> set seen then seen else seen @ [d]) ds acc) = set acc \<union> set ds" for acc
    by (induction ds arbitrary: acc) auto
  then show ?thesis
    by (simp add: first_occurrences_def)
qed

text \<open>
  C17. A temporary test does what it says. When a test starts, its reply names an end ten minutes later; until that end,
  Faro's decision for each of its domains and the device is to allow it, whatever blocklists and custom blocks match, unless the
  DNS of the device is paused.
\<close>

theorem started_test_allows:
  assumes "troubleshooting env apply_fn (Some input) (a, w) = ((a', w'), Test_Started token expires)"
    "parse_ip (ti_ClientIP input) = Some ip" "raw \<in> set (ti_Domains input)"
    "expires_after h (at_sql at (ti_ProtectionID input)) expires" "\<not> device_paused (ar_store a) (ip_string ip) (at_devices at)"
  shows "Action (ExplainDomainForClient h at (ar_store a') raw (ip_string ip)) = ''allowed'' \<and>
    expires = format_rfc3339nano (sq_now (ed_sql env) (ar_calls a + 3) + 10 * minute)"
proof -
  have start: "startTroubleshooting env apply_fn input (a, w) = ((a', w'), Test_Started token expires)"
    using assms(1) by (auto simp: troubleshooting_def finishTroubleshooting_def Let_def split: if_splits prod.splits sum.splits)
  obtain dev domains a3 where s: "fst (protectionForClient (ar_store a) (ip_string ip)) = ti_ProtectionID input" "ti_ProtectionID input \<noteq> 0"
    "rmap NormalizeDomain (ti_Domains input) = Inr domains" "ar_store a3 = ar_store a" "ar_calls a3 = ar_calls a + 3"
    "run_test env apply_fn (ip_string ip) dev (ti_ProtectionID input) (first_occurrences domains) (a3, w) = ((a', w'), Test_Started token expires)"
    using start_steps [OF start] assms(2) by auto
  obtain p where p: "selected_profile (ar_store a) (ip_string ip) = Some p" "pp_id p = ti_ProtectionID input"
    using s(1,2) by (auto simp: protectionForClient_def split: option.splits)
  obtain d where d: "d \<in> set domains" "NormalizeDomain raw = Inr d"
    using rmap_in_source [OF s(3) assms(3)] by auto
  obtain es n x where a': "ar_store a' = (ar_store a)\<lparr>events := es, sqlite_sequence := n, troubleshooting_exceptions := x\<rparr>"
    using run_test_started(2) [OF s(6)] s(4) by auto
  have "\<exists>t \<in> set (troubleshooting_exceptions (ar_store a')). te_protection_id t = pp_id p \<and> te_domain t = d \<and> te_expires_at t = expires"
    using run_test_started(3) [OF s(6), of d] d(1) p(2) by (simp add: first_occurrences_set)
  then have "live_trial h (at_sql at (pp_id p)) (ar_store a') (pp_id p) d \<noteq> None"
    unfolding live_trial_iff using assms(4) p(2) by (auto simp: image_iff)
  then have "Action (explain_profile h at (ar_store a') d p) = ''allowed''"
    by (intro explain_allowed) simp
  moreover have "ExplainDomainForClient h at (ar_store a') raw (ip_string ip) = explain_profile h at (ar_store a') d p"
    using assms(5) p(1) unfolding a' by (intro ExplainDomainForClient_profile d(2)) (simp_all add: selected_frame paused_frame)
  ultimately show ?thesis
    using run_test_started(1) [OF s(6)] s(5) by (simp add: clock_def)
qed

text \<open>
  C18. A test that is kept becomes permanent. Afterwards the decision of its profile for each of its domains is to allow it at every time, no custom
  block of the profile names the domain, and no row of the test is left.
\<close>

theorem kept_test_allows:
  assumes "troubleshooting env apply_fn (Some input) (a, w) = ((a', w'), Accepted)" "ti_Action input = ''keep''" "rules_wf (ar_store a)"
    "t \<in> set (trialEntries (ti_Token input) (ar_store a))" "pp_id p = te_protection_id t"
  shows "Action (explain_profile h at (ar_store a') (te_domain t) p) = ''allowed'' \<and>
    \<not> has_entry Block_Entries (pp_id p) (te_domain t) (ar_store a') \<and> trialEntries (ti_Token input) (ar_store a') = []"
proof -
  have "finishTroubleshooting env apply_fn input (a, w) = ((a', w'), Accepted)"
    using assms(1,2) by (simp add: troubleshooting_def)
  from finish_steps [OF this] obtain a1 stamp inserted replaced where f: "ar_store a1 = ar_store a"
    "exec_checked (ed_sql env) (finish_tx stamp ''keep'' (ti_Token input) (trialEntries (ti_Token input) (ar_store a))) a1 = (a', Inr (inserted, replaced))"
    using assms(2) by (auto simp: apply_or_restore_def split: if_splits prod.splits sum.splits bool.splits)
  then have "finish_tx stamp ''keep'' (ti_Token input) (trialEntries (ti_Token input) (ar_store a)) (ar_store a) = Some (ar_store a', inserted, replaced)"
    by (auto simp: exec_checked_Inr)
  then obtain s0 where s0: "kept_rows (ar_store a) s0 inserted replaced" "ar_store a' = delete_tests (ti_Token input) s0"
    "keep_entries stamp (trialEntries (ti_Token input) (ar_store a)) (ar_store a) = Some (s0, inserted, replaced)"
    using finish_kept [OF rules_wf_blocks [OF assms(3)]] by metis
  have k: "has_entry Allow_Entries (pp_id p) (te_domain t) s0" "\<not> has_entry Block_Entries (pp_id p) (te_domain t) s0"
    using keep_entries_kept [OF rules_wf_blocks [OF assms(3)] s0(3)] assms(4,5) by auto
  have "\<forall>e \<in> set (protection_allow_entries s0). 0 < pe_id e"
    using s0(1) assms(3) by (fastforce simp: kept_rows_def rules_wf_def entries_wf_def)
  then have "first_entry (protection_allow_entries (ar_store a')) (pp_id p) (te_domain t) \<noteq> 0"
    using k(1) by (auto simp: s0(2) delete_tests_def first_entry_def has_entry_def list_ex_iff find_None_iff split: option.splits dest!: find_Some_in)
  then have "Action (explain_profile h at (ar_store a') (te_domain t) p) = ''allowed''"
    by (intro explain_allowed) simp
  moreover have "\<not> has_entry Block_Entries (pp_id p) (te_domain t) (ar_store a')" "trialEntries (ti_Token input) (ar_store a') = []"
    using k(2) by (simp_all add: s0(2) delete_tests_def has_entry_def trialEntries_def filter_empty_conv)
  ultimately show ?thesis
    by simp
qed

section \<open>Examples\<close>

definition rule_store :: Store where
  "rule_store = demo_store\<lparr>sqlite_sequence := [(''protection_allow_entries'', 1), (''protection_block_entries'', 1), (''troubleshooting_exceptions'', 1)]\<rparr>"

definition demo_token :: string where
  "demo_token = replicate 32 (CHR ''a'')"

definition test_store :: Store where
  "test_store = rule_store\<lparr>troubleshooting_exceptions :=
     [\<lparr>te_id = 1, te_device_id = 7, te_protection_id = 2, te_domain = ''games.example'', te_expires_at = ''1970-01-01T00:10:00Z'', te_token = demo_token, te_client_ip = ''10.0.0.7''\<rparr>]\<rparr>"

definition games_test :: "string \<Rightarrow> troubleshootingInput" where
  "games_test action = \<lparr>ti_DeviceID = 7, ti_Action = action, ti_ClientIP = ''10.0.0.7'', ti_ProtectionID = 2, ti_Domains = [''games.example''], ti_Token = demo_token\<rparr>"

lemmas rule_eval = test_store_def rule_store_def demo_store_def

lemma demo_profile_ids: "profile_ids rule_store = {1, 2}" "profile_ids test_store = {1, 2}"
  by (simp_all add: profile_ids_def rule_eval)

lemma demo_device_ids: "device_ids rule_store = {7}" "device_ids test_store = {7}"
  by (simp_all add: device_ids_def rule_eval)

lemma test_store_wf: "rules_wf test_store" "rules_wf rule_store"
  by (simp_all add: rules_wf_def entries_wf_def tests_wf_def demo_profile_ids demo_device_ids next_id_def) (simp_all add: rule_eval next_id_def)

theorem refused_rule_keeps_tables_witness:
  "\<exists>a' r. domain_rules calm_env (\<lambda>s w. (Suc w, False)) (Post_Rule Allow_Entries (Some ''ads.example'')) (archive_of rule_store, 0) = ((a', 2), r) \<and>
     \<not> is_success r \<and> protection_allow_entries (ar_store a') = protection_allow_entries rule_store"
proof -
  obtain a' w' r where d: "domain_rules calm_env (\<lambda>s w. (Suc w, False)) (Post_Rule Allow_Entries (Some ''ads.example'')) (archive_of rule_store, 0) = ((a', w'), r)"
    by (metis surj_pair)
  have n: "NormalizeDomain ''ads.example'' = Inr ''ads.example''"
    by code_simp
  have "default_id (ed_sql calm_env) (archive_of rule_store) = ((archive_of rule_store)\<lparr>ar_calls := 1\<rparr>, 1)"
    by (simp add: default_id_def query_def exec_def calm_env_def archive_of_def rule_eval)
  moreover have "insert_rule Allow_Entries stamp 1 ''ads.example'' rule_store = Some (add_entry Allow_Entries stamp 1 ''ads.example'' rule_store, Some 2)" for stamp
    by (simp add: insert_rule_def has_entry_def demo_profile_ids) (simp add: rule_eval next_id_def)
  ultimately have "w' = 2 \<and> r = Server_Error"
    using d by (auto simp: domainCollection_def n exec_checked_def archive_of_def calm_env_def apply_or_undo_def Let_def split: prod.splits)
  moreover have "entries_wf Allow_Entries (ar_store (archive_of rule_store))" "entries_wf Block_Entries (ar_store (archive_of rule_store))"
    "\<forall>n > ar_calls (archive_of rule_store) + 1. sq_fails (ed_sql calm_env) n = None"
    using test_store_wf(2) by (simp_all add: rules_wf_def archive_of_def calm_env_def)
  ultimately show ?thesis
    using refused_rule_keeps_tables [OF _ _ _ d] d by (simp add: archive_of_def)
qed

lemma demo_trial: "trialEntries demo_token test_store = troubleshooting_exceptions test_store"
  by (simp add: trialEntries_def demo_profile_ids) (simp add: rule_eval)

lemma demo_finish:
  assumes "\<And>stamp. finish_tx stamp action demo_token (troubleshooting_exceptions test_store) test_store = Some (s stamp, inserted, replaced)" "action \<in> {''keep'', ''undo''}"
  shows "\<exists>a' w'. troubleshooting calm_env (\<lambda>s w. (Suc w, ok)) (Some (games_test action)) (archive_of test_store, 0 :: nat) =
    ((a', w'), if ok then Accepted else Server_Error)"
proof -
  have t: "trim_space demo_token = demo_token" "length demo_token = 32" "troubleshooting_exceptions test_store \<noteq> []"
    by (auto simp: demo_token_def space_bytes_def rule_eval intro!: trim_space_bytes)
  have q: "query (ed_sql calm_env) (trialEntries demo_token) (archive_of test_store) = ((archive_of test_store)\<lparr>ar_calls := Suc 0\<rparr>, Inr (troubleshooting_exceptions test_store))"
    by (simp add: query_def exec_def calm_env_def archive_of_def demo_trial)
  have x: "exec_checked (ed_sql calm_env) (finish_tx stamp action demo_token (troubleshooting_exceptions test_store)) ((archive_of test_store)\<lparr>ar_calls := Suc 0\<rparr>) =
      ((archive_of (s stamp))\<lparr>ar_calls := 2\<rparr>, Inr (inserted, replaced))" for stamp
    using assms(1) by (simp add: exec_checked_def calm_env_def archive_of_def Let_def)
  have "\<exists>a' w'. apply_or_restore (\<lambda>s w. (Suc w, ok)) restore a (0 :: nat) = ((a', w'), ok)" for restore a
    by (auto simp: apply_or_restore_def split: prod.splits sum.splits bool.splits)
  then obtain a' w' where "apply_or_restore (\<lambda>s w. (Suc w, ok)) (exec_checked (ed_sql calm_env) (restoreTrial (troubleshooting_exceptions test_store) inserted replaced))
      ((archive_of (s (now_stamp calm_env ((archive_of test_store)\<lparr>ar_calls := Suc 0\<rparr>))))\<lparr>ar_calls := 2\<rparr>) (0 :: nat) = ((a', w'), ok)"
    by blast
  then show ?thesis
    using assms(2) t by (auto simp: troubleshooting_def games_test_def finishTroubleshooting_def q x Let_def)
qed

lemma demo_keep:
  "finish_tx stamp ''keep'' demo_token (troubleshooting_exceptions test_store) test_store = Some (the (map_option fst (finish_tx stamp ''keep'' demo_token (troubleshooting_exceptions test_store) test_store)), [2], protection_block_entries test_store)"
  by (simp add: finish_tx_def keep_entry_def insert_rule_def has_entry_def demo_profile_ids rule_eval next_id_def profile_ids_def)


theorem kept_test_allows_witness:
  "\<exists>a' w'. troubleshooting calm_env (\<lambda>s w. (Suc w, True)) (Some (games_test ''keep'')) (archive_of test_store, 0 :: nat) = ((a', w'), Accepted) \<and>
     Action (explain_profile plain_host (instants_at 0) (ar_store a') ''games.example'' (protection_profiles test_store ! 1)) = ''allowed''"
proof -
  obtain a' w' where u: "troubleshooting calm_env (\<lambda>s w. (Suc w, True)) (Some (games_test ''keep'')) (archive_of test_store, 0 :: nat) = ((a', w'), Accepted)"
    using demo_finish [OF demo_keep, of True] by auto
  have t: "hd (troubleshooting_exceptions test_store) \<in> set (trialEntries (ti_Token (games_test ''keep'')) (ar_store (archive_of test_store)))"
    by (simp add: games_test_def archive_of_def demo_trial) (simp add: rule_eval)
  have "Action (explain_profile plain_host (instants_at 0) (ar_store a') (te_domain (hd (troubleshooting_exceptions test_store))) (protection_profiles test_store ! 1)) = ''allowed''"
    using kept_test_allows [OF u _ _ t, of "protection_profiles test_store ! 1"] test_store_wf(1) by (simp add: games_test_def archive_of_def) (simp add: rule_eval)
  moreover have "te_domain (hd (troubleshooting_exceptions test_store)) = ''games.example''"
    by (simp add: rule_eval)
  ultimately show ?thesis
    using u by auto
qed

theorem started_test_allows_witness:
  "\<exists>a' w' token expires. troubleshooting calm_env (\<lambda>s w. (Suc w, True)) (Some (games_test ''test'')) (archive_of rule_store, 0 :: nat) = ((a', w'), Test_Started token expires) \<and>
     Action (ExplainDomainForClient (plain_host\<lparr>julianday := \<lambda>_. Some 600000\<rparr>) (instants_at 0) (ar_store a') ''games.example'' ''10.0.0.7'') = ''allowed''"
proof -
  have ip: "parse_ip ''10.0.0.7'' = Some [0, 0, 0, 0, 0, 65535, 2560, 7]" "ip_string [0, 0, 0, 0, 0, 65535, 2560, 7] = ''10.0.0.7''"
    by (simp add: net_eval, simp add: net_print_eval)
  have n: "NormalizeDomain ''games.example'' = Inr ''games.example''"
    by code_simp
  have p: "protectionForClient rule_store ''10.0.0.7'' = (2, ''Kids'', ''house'')" "device_of rule_store ''10.0.0.7'' = Some 7" "redundancy_role rule_store = ''standalone''"
    by code_simp+
  have tx: "\<exists>s. start_tx plain_host 0 (test_row token ''10.0.0.7'' 7 2 expires) [''games.example''] rule_store = Some (s, True)" for token expires
    by (simp add: start_tx_def active_tests_def test_row_def Let_def demo_profile_ids demo_device_ids profile_ids_def device_ids_def rule_eval)
  define a3 where "a3 = (archive_of rule_store)\<lparr>ar_calls := 3\<rparr>"
  have start: "troubleshooting calm_env (\<lambda>s w. (Suc w, True)) (Some (games_test ''test'')) (archive_of rule_store, 0 :: nat) =
      run_test calm_env (\<lambda>s w. (Suc w, True)) ''10.0.0.7'' 7 2 [''games.example''] (a3, 0)"
    by (simp add: troubleshooting_def games_test_def startTroubleshooting_def ip p n query_def exec_def calm_env_def archive_of_def first_occurrences_def a3_def
        numeral_3_eq_3)
  obtain s where s: "start_tx plain_host 0 (test_row (replicate 32 (CHR ''a'')) ''10.0.0.7'' 7 2 (format_rfc3339nano (10 * minute))) [''games.example''] rule_store = Some (s, True)"
    using tx by blast
  have "\<exists>a' w' token expires. run_test calm_env (\<lambda>s w. (Suc w, True)) ''10.0.0.7'' 7 2 [''games.example''] (a3, 0 :: nat) = ((a', w'), Test_Started token expires)"
    using s by (simp add: run_test_def a3_def calm_env_def archive_of_def exec_checked_def apply_or_restore_def clock_def Let_def)
  then obtain a' w' token expires where u: "troubleshooting calm_env (\<lambda>s w. (Suc w, True)) (Some (games_test ''test'')) (archive_of rule_store, 0 :: nat) = ((a', w'), Test_Started token expires)"
    unfolding start by blast
  have "\<not> device_paused rule_store ''10.0.0.7'' 0"
    by code_simp
  then have "Action (ExplainDomainForClient (plain_host\<lparr>julianday := \<lambda>_. Some 600000\<rparr>) (instants_at 0) (ar_store a') ''games.example'' (ip_string [0, 0, 0, 0, 0, 65535, 2560, 7])) = ''allowed''"
    using started_test_allows [OF u, of _ "''games.example''" "plain_host\<lparr>julianday := \<lambda>_. Some 600000\<rparr>" "instants_at 0"] ip
    by (simp add: games_test_def expires_after_def instants_at_def archive_of_def)
  then show ?thesis
    using u ip(2) by auto
qed

end
