(* ===== verification/Spec2Isabelle.thy ===== *)
theory Spec2Isabelle
  imports Doh_Gateway Blocklist_Refresh Auth_Manager Retention Log_Pipeline Protection_Setup Settings_Edit Rule_Edit
begin

text \<open>
  Faro is a DNS filter for the home. A Go control plane (\<^verbatim>\<open>cmd/faro-api\<close>) keeps local records, blocklists,
  protection profiles and devices in SQLite, renders them into a CoreDNS configuration, installs it beside a
  running CoreDNS and explains its decisions; an encrypted DNS gateway (\<^verbatim>\<open>cmd/faro-dohproxy\<close>) forwards what
  CoreDNS does not answer. This development models the part of that program that decides what is filtered
  and keeps it running.

  \<^bold>\<open>Theories.\<close>
  \<^item> \<^verbatim>\<open>Faro_Prelude\<close>: results with errors (\<open>rbind\<close>, \<open>rmap\<close>), Go maps as association lists (\<open>gomap\<close>), sorted lists.
  \<^item> \<^verbatim>\<open>Go_Strings\<close>, \<^verbatim>\<open>Go_Net\<close>, \<^verbatim>\<open>Go_Time\<close>: the parts of Go's standard library that the code calls, on strings of bytes:
    trimming, splitting and case mapping; parsing and printing of addresses; the layouts of \<^verbatim>\<open>time\<close>.
  \<^item> \<^verbatim>\<open>Domain_Names\<close>: \<open>NormalizeDomain\<close> and \<open>NormalizeRecord\<close> of \<^verbatim>\<open>internal/db/db.go\<close>. Accepted names are canonical
    and normalising twice changes nothing.
  \<^item> \<^verbatim>\<open>Protection_Time\<close>: schedules and pauses (\<^verbatim>\<open>internal/protectiontime\<close>). A validated schedule is active exactly
    in its weekly windows.
  \<^item> \<^verbatim>\<open>Faro_Store\<close>: the database as a record of tables and the constraints of its schema (\<open>store_wf\<close>).
  \<^item> \<^verbatim>\<open>CoreDNS_Files\<close>, \<^verbatim>\<open>CoreDNS_Render\<close>, \<^verbatim>\<open>CoreDNS_Explain\<close>, \<^verbatim>\<open>CoreDNS_Apply\<close>: \<^verbatim>\<open>internal/coredns\<close>. From the tables to the
    Corefile and its hosts files; the decision that the user is told; the installation with snapshot,
    replacement and rollback on a directory where every system call can fail. A rendered configuration is
    complete, the explanation agrees with the installed hosts file, a failed installation restores every file,
    and the directory is consistent at every moment in between.
  \<^item> \<^verbatim>\<open>Doh_Catalog\<close>, \<^verbatim>\<open>Doh_Gateway\<close>: \<^verbatim>\<open>internal/dohproxy\<close>, its command and the hooks of \<^verbatim>\<open>cmd/faro-api\<close>. Choice of providers,
    reloading and restoring of clients, admission, rotation, framing over TCP. The interface between the
    gateway and the installation is the locale \<open>transport_hooks\<close> of \<^verbatim>\<open>CoreDNS_Apply\<close>, interpreted in \<^verbatim>\<open>Doh_Gateway\<close> on the
    hooks of the API process.
  \<^item> \<^verbatim>\<open>Blocklist_Refresh\<close>: \<^verbatim>\<open>internal/blocklists\<close>. Parsing, the transaction of a refresh and its undoing, the pass over
    the lists that are due.
  \<^item> \<^verbatim>\<open>Auth_Manager\<close>: \<^verbatim>\<open>internal/auth\<close>. The handlers of accounts and sessions, the gate before the API, the throttling
    of logins; the reachable states are those of an inductive step relation.
  \<^item> \<^verbatim>\<open>Activity_Storage\<close>, \<^verbatim>\<open>Retention\<close>: \<^verbatim>\<open>internal/db/activity.go\<close>, \<^verbatim>\<open>internal/retention\<close> and the handler that prunes on demand.
    Statements that can fail are actions on an archive; deletion in batches ends and is complete, and a
    failure loses only expired history.
  \<^item> \<^verbatim>\<open>Device_Identity\<close>: \<^verbatim>\<open>internal/devices\<close>. Observing an address, its identifiers, and the merging of devices. An
    observation always resolves the address, keeps the schema, and never takes an address out of its profile.
  \<^item> \<^verbatim>\<open>Query_Log\<close>: \<^verbatim>\<open>internal/querylog\<close>. Following the log of CoreDNS over rotation, batches with their position, and the
    decision stored with a query (through \<^verbatim>\<open>Device_Identity\<close> and \<^verbatim>\<open>CoreDNS_Explain\<close>). Every line is stored exactly once
    whatever fails, and a healthy poll catches up with the log.
  \<^item> \<^verbatim>\<open>Log_Tee\<close>, \<^verbatim>\<open>Log_Pipeline\<close>: \<^verbatim>\<open>cmd/faro-logtee\<close>, which writes that log, rotates it and survives a full volume, and its
    composition with \<^verbatim>\<open>Query_Log\<close> through the locale \<open>log_source\<close>. The files of the log stay within their bound,
    and every line that the follower finds is stored exactly once over any sequence of writes, rotations, polls and restarts.
  \<^item> \<^verbatim>\<open>Config_Edit\<close>: how a handler of the API changes the configuration (write, apply to CoreDNS, undo when that
    fails), as the locale \<open>reversible_edit\<close> of an edit whose undoing restores a view of the database, and the handlers of
    the local records (\<^verbatim>\<open>records.go\<close>), which interpret it. A refused edit changes nothing.
  \<^item> \<^verbatim>\<open>Protection_Edit\<close>, \<^verbatim>\<open>Protection_Setup\<close>: the handlers of the profiles (\<^verbatim>\<open>protections.go\<close>) and their correctness. A saved
    profile is its normalised input and serves the devices it lists; a rejected change is undone over five tables.
  \<^item> \<^verbatim>\<open>Settings_Edit\<close>: the settings (\<^verbatim>\<open>settings.go\<close>). Accepted settings can be rendered, refused ones are taken back.
  \<^item> \<^verbatim>\<open>Rule_Edit\<close>: exceptions, custom blocks and the deletion of a blocklist (\<^verbatim>\<open>blocklists.go\<close>), and the temporary tests
    (\<^verbatim>\<open>troubleshooting.go\<close>). A test allows its domains until its end, a kept one for good, and a refused request is undone.

  \<^bold>\<open>Conventions.\<close> A handler or operation returns its new state and a result; an early return of the source is a branch
  of the definition. Identifiers keep the source's names where HOL allows it. A table is a list of rows, a Go map an
  association list with distinct keys, a Go string a list of bytes, an instant a number of nanoseconds.
  The counter of the gateway, the only integer of the modelled code that can overflow, is a 64-bit word.
  Loops are total functions: structural recursion, or a measure (the length of the rest of the input, or of the
  table that a batch shrinks), so there is no fuel.

  \<^bold>\<open>Parameters.\<close> What the program does not implement is an argument: the time zone database and SQLite's date functions
  (the record \<open>host\<close>), failing statements and the clock (\<open>sqlite\<close>), failing system calls (\<open>disk\<close>, and \<open>tee_env\<close> for the
  log), the observations, error texts, JSON texts and random tokens of the handlers (\<open>edit_env\<close>), the running CoreDNS (\<open>engine\<close>), the transport to the providers, URL parsing and the JSON codec, bcrypt, SHA-256 and the random
  source. Hypotheses about them are stated in the theorem and satisfied in its witness.

  \<^bold>\<open>Not modelled.\<close> The web interface; the handlers of the API other than accounts, maintenance, records, profiles, settings,
  rules and temporary tests, and of these the reports, which change nothing; installing and changing a blocklist, which rest on
  URL parsing; backup, redundancy, the device catalogue, the UniFi integration, migrations, favicons, secrets and the test
  command. Sockets, TLS and HTTP are I/O. Failing statements of the database are modelled where the code has a path for
  them that changes its state: the installation hooks, the refresh of blocklists, the retention, the observation of
  devices, the query log and the handlers that edit the configuration.
\<close>

end
